(* ===== verification/Prelude.thy ===== *)
theory Prelude
  imports Main "HOL-Library.Word"
begin

text \<open>
  The vocabulary every component theory shares: the values a C computation can fail
  with, the sequencing of computations that may fail, byte buffers with checked access,
  and the generic list lemmas the buffer proofs rest on.
\<close>

named_theorems c_eval "equations that evaluate a model function on a well-formed input"

section \<open>Computations that may fault\<close>

text \<open>
  A C computation returns a value or runs into behaviour the language leaves undefined
  (an access outside its object, a null dereference, a read of an object that was never
  written) or into a failed assertion. Such a
  fault is a value of the sum type, so that a theorem about a result also says that
  none of them happens. \<open>Unfinished\<close> is no fault of the code: it says that the fuel of a
  loop, which is an argument of the model, did not last.
\<close>

datatype c_fault = OutOfBounds | NullDeref | AssertFailed | UninitRead | DivByZero | Unfinished

fun bindE :: "'e + 'a \<Rightarrow> ('a \<Rightarrow> 'e + 'b) \<Rightarrow> 'e + 'b" where
  "bindE (Inl e) f = Inl e"
| "bindE (Inr x) f = f x"

text \<open>A C assertion, and YDB_ASSERT.\<close>

definition assertE :: "bool \<Rightarrow> c_fault + unit" where
  "assertE b = (if b then Inr () else Inl AssertFailed)"

lemma bindE_assoc: "bindE (bindE m f) g = bindE m (\<lambda>x. bindE (f x) g)"
  by (cases m) auto

lemma bindE_eq_Inr: "bindE m f = Inr y \<longleftrightarrow> (\<exists>x. m = Inr x \<and> f x = Inr y)"
  by (cases m) auto

lemma bindE_eq_Inl: "bindE m f = Inl e \<longleftrightarrow> m = Inl e \<or> (\<exists>x. m = Inr x \<and> f x = Inl e)"
  by (cases m) auto

text \<open>
  A computation ends well if it returns a value with the property or stops with one of the
  faults named.
\<close>

definition ends :: "'e set \<Rightarrow> ('a \<Rightarrow> bool) \<Rightarrow> 'e + 'a \<Rightarrow> bool" where
  "ends F P res \<longleftrightarrow> (case res of Inl e \<Rightarrow> e \<in> F | Inr x \<Rightarrow> P x)"

lemma ends_simps [simp]: "ends F P (Inl e) \<longleftrightarrow> e \<in> F" "ends F P (Inr x) \<longleftrightarrow> P x"
  by (simp_all add: ends_def)

lemma ends_bindE: "ends F P m \<Longrightarrow> (\<And>x. P x \<Longrightarrow> ends F Q (f x)) \<Longrightarrow> ends F Q (bindE m f)"
  by (cases m) auto

lemma ends_mono: "ends F P m \<Longrightarrow> (\<And>x. P x \<Longrightarrow> Q x) \<Longrightarrow> ends F Q m"
  by (cases m) auto

lemma ends_InrD: "ends F P m \<Longrightarrow> m = Inr x \<Longrightarrow> P x"
  by simp

section \<open>Byte buffers\<close>

text \<open>
  The object a pointer points to is the list of its allocated bytes (or of its elements);
  loads and stores outside it fault.
\<close>

type_synonym byte = "8 word"
type_synonym mem = "byte list"

definition load :: "'a list \<Rightarrow> nat \<Rightarrow> c_fault + 'a" where
  "load m i = (if i < length m then Inr (m ! i) else Inl OutOfBounds)"

definition store :: "'a list \<Rightarrow> nat \<Rightarrow> 'a \<Rightarrow> c_fault + 'a list" where
  "store m i b = (if i < length m then Inr (m[i := b]) else Inl OutOfBounds)"

lemma load_in [simp, c_eval]: "i < length m \<Longrightarrow> load m i = Inr (m ! i)"
  by (simp add: load_def)

lemma load_out [simp, c_eval]: "length m \<le> i \<Longrightarrow> load m i = Inl OutOfBounds"
  by (simp add: load_def)

lemma store_in [simp, c_eval]: "i < length m \<Longrightarrow> store m i b = Inr (m[i := b])"
  by (simp add: store_def)

lemma store_out [simp, c_eval]: "length m \<le> i \<Longrightarrow> store m i b = Inl OutOfBounds"
  by (simp add: store_def)

section \<open>Lists\<close>

lemma list_update_append_drop:
  "i < length m \<Longrightarrow> take i m @ b # drop (Suc i) m = m[i := b]"
  by (simp add: upd_conv_take_nth_drop)

lemma append_store:
  "length xs = i \<Longrightarrow> i < length m \<Longrightarrow> (xs @ drop i m)[i := b] = xs @ b # drop (Suc i) m"
  by (auto simp: list_update_append Cons_nth_drop_Suc [symmetric])

lemma all_bytes: "(\<forall>b :: byte. P b) \<longleftrightarrow> (\<forall>n < 256. P (word_of_nat n))"
proof
  assume *: "\<forall>n < 256. P (word_of_nat n)"
  show "\<forall>b. P b"
  proof
    fix b :: byte
    have "unat b < 256" using unsigned_less [of b] by simp
    with * have "P (word_of_nat (unat b))" by blast
    then show "P b" by simp
  qed
qed simp

lemma unat_byte_less [simp]: "unat (b :: byte) < 256"
  using unsigned_less [of b] by simp

end
