(* ===== verification/CLib.thy ===== *)
theory CLib
  imports Prelude
begin

text \<open>
  The part of the C language and its standard library the modelled files use: 32-bit
  integer wrap-around, NUL-terminated strings, \<open>strncmp\<close>, \<open>strcasecmp\<close>,
  \<open>strtok\<close>, decimal \<open>sprintf\<close> and \<open>atoi\<close>. Strings are lists of
  bytes (HOL's \<open>char\<close>); the terminating NUL is not part of the list.
\<close>

section \<open>Integers\<close>

text \<open>Conversion to a 32-bit signed \<open>int\<close>, as every supported compiler does it.\<close>

definition int32 :: "int \<Rightarrow> int" where
  "int32 x = (x + 2147483648) mod 4294967296 - 2147483648"

definition is_int32 :: "int \<Rightarrow> bool" where
  "is_int32 x \<longleftrightarrow> -2147483648 \<le> x \<and> x \<le> 2147483647"

lemma int32_id: "is_int32 x \<Longrightarrow> int32 x = x"
  by (simp add: is_int32_def int32_def)

lemma is_int32_int32 [simp]: "is_int32 (int32 x)"
proof -
  have "0 \<le> (x + 2147483648) mod 4294967296" "(x + 2147483648) mod 4294967296 < 4294967296"
    by simp_all
  then show ?thesis unfolding is_int32_def int32_def by linarith
qed

text \<open>The same for \<open>long long\<close>; division and remainder, which truncate.\<close>

definition int64 :: "int \<Rightarrow> int" where
  "int64 x = (x + 2 ^ 63) mod 2 ^ 64 - 2 ^ 63"

lemma int64_id: "- (2 ^ 63) \<le> x \<Longrightarrow> x < 2 ^ 63 \<Longrightarrow> int64 x = x"
  by (simp add: int64_def)

definition c_div :: "int \<Rightarrow> int \<Rightarrow> int" where
  "c_div a b = sgn a * sgn b * (\<bar>a\<bar> div \<bar>b\<bar>)"

definition c_mod :: "int \<Rightarrow> int \<Rightarrow> int" where
  "c_mod a b = a - c_div a b * b"

lemma c_div_pos: "0 \<le> a \<Longrightarrow> 0 < b \<Longrightarrow> c_div a b = a div b"
  by (auto simp: c_div_def sgn_if)

lemma c_mod_pos: "0 \<le> a \<Longrightarrow> 0 < b \<Longrightarrow> c_mod a b = a mod b"
  by (simp add: c_mod_def c_div_pos minus_div_mult_eq_mod)

section \<open>Characters and NUL-terminated strings\<close>

definition NUL :: char where "NUL = CHR 0x00"

text \<open>The numeric value of a byte read as \<open>unsigned char\<close>.\<close>

definition uc :: "char \<Rightarrow> int" where "uc c = int (of_char c)"

lemma uc_inject [simp]: "uc a = uc b \<longleftrightarrow> a = b"
  by (simp add: uc_def)

lemma uc_NUL [simp]: "uc NUL = 0"
  by (simp add: uc_def NUL_def)

lemma uc_bounds: "0 \<le> uc c" "uc c < 256"
  using nat_of_char_less_256 [of c] by (simp_all add: uc_def del: nat_of_char_less_256)

lemma uc_eq_0 [simp]: "uc c = 0 \<longleftrightarrow> c = NUL"
  by (metis uc_NUL uc_inject)

text \<open>What the string functions see of a buffer: the bytes before the first NUL.\<close>

definition c_str :: "string \<Rightarrow> string" where
  "c_str s = takeWhile (\<lambda>c. c \<noteq> NUL) s"

definition nul_free :: "string \<Rightarrow> bool" where
  "nul_free s \<longleftrightarrow> NUL \<notin> set s"

lemma nul_free_c_str [simp]: "nul_free (c_str s)"
  by (auto simp: nul_free_def c_str_def dest: set_takeWhileD)

lemma c_str_id [simp]: "nul_free s \<Longrightarrow> c_str s = s"
  by (auto simp: nul_free_def c_str_def)

lemma nul_free_simps [simp]:
  "nul_free []" "nul_free (c # s) \<longleftrightarrow> c \<noteq> NUL \<and> nul_free s"
  "nul_free (s @ t) \<longleftrightarrow> nul_free s \<and> nul_free t"
  by (auto simp: nul_free_def)

section \<open>String comparison\<close>

text \<open>
  \<open>strncmp\<close> compares at most \<open>n\<close> bytes as unsigned characters and stops after a
  common NUL; the end of a list is its terminating NUL.
\<close>

fun strncmp :: "string \<Rightarrow> string \<Rightarrow> nat \<Rightarrow> int" where
  "strncmp s t 0 = 0"
| "strncmp [] [] (Suc n) = 0"
| "strncmp [] (b # t) (Suc n) = - uc b"
| "strncmp (a # s) [] (Suc n) = uc a"
| "strncmp (a # s) (b # t) (Suc n) =
     (if a \<noteq> b then uc a - uc b else if a = NUL then 0 else strncmp s t n)"

text \<open>ASCII case folding, as \<open>tolower\<close> does it in the C locale.\<close>

definition tolower :: "char \<Rightarrow> char" where
  "tolower c = (if 65 \<le> uc c \<and> uc c \<le> 90 then char_of (nat (uc c) + 32) else c)"

definition strncasecmp :: "string \<Rightarrow> string \<Rightarrow> nat \<Rightarrow> int" where
  "strncasecmp s t n = strncmp (map tolower s) (map tolower t) n"

definition strcmp :: "string \<Rightarrow> string \<Rightarrow> int" where
  "strcmp s t = strncmp s t (Suc (max (length s) (length t)))"

definition strcasecmp :: "string \<Rightarrow> string \<Rightarrow> int" where
  "strcasecmp s t = strcmp (map tolower s) (map tolower t)"

lemma tolower_NUL_iff [simp]: "tolower c = NUL \<longleftrightarrow> c = NUL"
proof
  assume *: "tolower c = NUL"
  show "c = NUL"
  proof (rule ccontr)
    assume c: "c \<noteq> NUL"
    with * have b: "65 \<le> uc c" "uc c \<le> 90" and "char_of (nat (uc c) + 32) = NUL"
      by (auto simp: tolower_def split: if_splits)
    then have "(of_char (char_of (nat (uc c) + 32)) :: nat) = 0"
      by (simp add: NUL_def)
    then have "(nat (uc c) + 32) mod 256 = 0" by simp
    moreover have "nat (uc c) + 32 < 256" using b by linarith
    ultimately show False by simp
  qed
qed (simp add: tolower_def)

lemma nul_free_map_tolower [simp]: "nul_free (map tolower s) \<longleftrightarrow> nul_free s"
proof -
  have "NUL = tolower c \<longleftrightarrow> c = NUL" for c using tolower_NUL_iff by metis
  then show ?thesis by (auto simp: nul_free_def image_iff)
qed

lemma strncmp_sym: "strncmp t s n = - strncmp s t n"
  by (induction s t n rule: strncmp.induct) auto

lemma strncmp_refl [simp]: "strncmp s s n = 0"
proof (induction n arbitrary: s)
  case (Suc n)
  then show ?case by (cases s) auto
qed simp

lemma strncmp_eq_0:
  "length s = n \<Longrightarrow> length t = n \<Longrightarrow> nul_free s \<Longrightarrow> nul_free t \<Longrightarrow>
   strncmp s t n = 0 \<longleftrightarrow> s = t"
  by (induction s t n rule: strncmp.induct) auto

lemma strncmp_eq_long:
  "nul_free s \<Longrightarrow> nul_free t \<Longrightarrow> length s < n \<Longrightarrow> length t < n \<Longrightarrow> strncmp s t n = 0 \<longleftrightarrow> s = t"
proof (induction s t n rule: strncmp.induct)
  case (5 a s b t n)
  then show ?case by (auto simp: uc_eq_0)
qed auto

lemma strcmp_eq_0: "nul_free s \<Longrightarrow> nul_free t \<Longrightarrow> strcmp s t = 0 \<longleftrightarrow> s = t"
  by (simp add: strcmp_def strncmp_eq_long)

lemma strcasecmp_eq_0:
  "nul_free s \<Longrightarrow> nul_free t \<Longrightarrow> strcasecmp s t = 0 \<longleftrightarrow> map tolower s = map tolower t"
  by (simp add: strcasecmp_def strcmp_eq_0)

text \<open>
  The first byte decides, the end of a list counting as a NUL; this makes the comparison
  a total preorder on all buffers.
\<close>

definition c_hd :: "string \<Rightarrow> char" where
  "c_hd s = (case s of [] \<Rightarrow> NUL | c # _ \<Rightarrow> c)"

lemma strncmp_Suc:
  "strncmp s t (Suc n) =
     (if c_hd s \<noteq> c_hd t then uc (c_hd s) - uc (c_hd t)
      else if c_hd s = NUL then 0 else strncmp (tl s) (tl t) n)"
  by (cases s; cases t) (auto simp: c_hd_def)

lemma strncmp_le_trans:
  "strncmp s t n \<le> 0 \<Longrightarrow> strncmp t u n \<le> 0 \<Longrightarrow> strncmp s u n \<le> 0"
proof (induction n arbitrary: s t u)
  case (Suc n)
  have "uc a \<le> uc b \<Longrightarrow> a \<noteq> b \<Longrightarrow> uc a < uc b" for a b
    using uc_inject [of a b] by linarith
  with Suc.prems Suc.IH [of "tl s" "tl t" "tl u"] show ?case
    unfolding strncmp_Suc
    by (cases "c_hd s = c_hd t"; cases "c_hd t = c_hd u"; cases "c_hd s = c_hd u"; cases "c_hd s = NUL")
      (auto split: if_splits)
qed simp

section \<open>Decimal output and input\<close>

definition digit_char :: "nat \<Rightarrow> char" where
  "digit_char d = char_of (48 + d)"

definition is_digit :: "char \<Rightarrow> bool" where
  "is_digit c \<longleftrightarrow> 48 \<le> uc c \<and> uc c \<le> 57"

definition is_space :: "char \<Rightarrow> bool" where
  "is_space c \<longleftrightarrow> uc c = 32 \<or> 9 \<le> uc c \<and> uc c \<le> 13"

fun dec_nat :: "nat \<Rightarrow> string" where
  "dec_nat n = (if n < 10 then [digit_char n] else dec_nat (n div 10) @ [digit_char (n mod 10)])"

declare dec_nat.simps [simp del]

text \<open>\<open>sprintf("%d")\<close> and, at their widths, \<open>%ld\<close> and \<open>%lld\<close>.\<close>

definition dec :: "int \<Rightarrow> string" where
  "dec i = (if i < 0 then CHR ''-'' # dec_nat (nat (- i)) else dec_nat (nat i))"

fun digits_val :: "nat \<Rightarrow> string \<Rightarrow> nat" where
  "digits_val acc [] = acc"
| "digits_val acc (c # s) = (if is_digit c then digits_val (10 * acc + nat (uc c - 48)) s else acc)"

text \<open>
  \<open>strtol\<close> in base 10: leading white space, an optional sign, digits up to the first
  other byte, saturated at the 64-bit \<open>long\<close>. \<open>atoi\<close> is its result converted
  to \<open>int\<close>.
\<close>

definition strtol10 :: "string \<Rightarrow> int" where
  "strtol10 s =
     (let r = dropWhile is_space s;
          v = (case r of
                 [] \<Rightarrow> 0
               | c # r' \<Rightarrow> if c = CHR ''-'' then - int (digits_val 0 r')
                          else if c = CHR ''+'' then int (digits_val 0 r')
                          else int (digits_val 0 r))
      in max (-(2 ^ 63)) (min (2 ^ 63 - 1) v))"

definition atoi :: "string \<Rightarrow> int" where
  "atoi s = int32 (strtol10 s)"

definition atoll :: "string \<Rightarrow> int" where
  "atoll s = strtol10 s"

lemma uc_digit_char: "d < 10 \<Longrightarrow> uc (digit_char d) = 48 + int d"
  by (simp add: uc_def digit_char_def)

lemma is_digit_digit_char [simp]: "d < 10 \<Longrightarrow> is_digit (digit_char d)"
  by (simp add: is_digit_def uc_digit_char)

lemma digits_val_snoc:
  "\<forall>c \<in> set s. is_digit c \<Longrightarrow> d < 10 \<Longrightarrow>
   digits_val acc (s @ [digit_char d]) = 10 * digits_val acc s + d"
  by (induction s arbitrary: acc) (auto simp: uc_digit_char)

lemma dec_nat_digits: "\<forall>c \<in> set (dec_nat n). is_digit c"
  by (induction n rule: dec_nat.induct) (subst dec_nat.simps, auto)

lemma digits_val_dec_nat: "digits_val 0 (dec_nat n) = n"
proof (induction n rule: dec_nat.induct)
  case (1 n)
  show ?case
  proof (cases "n < 10")
    case True
    then show ?thesis by (subst dec_nat.simps) (simp add: uc_digit_char)
  next
    case False
    then have "digits_val 0 (dec_nat n) = 10 * digits_val 0 (dec_nat (n div 10)) + n mod 10"
      by (subst dec_nat.simps) (simp add: digits_val_snoc dec_nat_digits)
    with 1 False show ?thesis by simp
  qed
qed

lemma dec_nat_not_Nil [simp]: "dec_nat n \<noteq> []"
  by (subst dec_nat.simps) simp

lemma digit_not_special:
  "is_digit c \<Longrightarrow> c \<noteq> CHR ''-'' \<and> c \<noteq> CHR ''+'' \<and> \<not> is_space c \<and> c \<noteq> NUL"
  by (auto simp: is_digit_def is_space_def) (simp_all add: uc_def NUL_def)

lemma dec_nat_head: "dropWhile is_space (dec_nat n) = dec_nat n"
  using dec_nat_digits [of n] by (cases "dec_nat n") (auto dest: digit_not_special)

lemma strtol10_dec_nat: "int n < 2 ^ 63 \<Longrightarrow> strtol10 (dec_nat n) = int n"
proof -
  assume n: "int n < 2 ^ 63"
  obtain c r where c: "dec_nat n = c # r" "is_digit c"
    using dec_nat_digits [of n] by (cases "dec_nat n") auto
  have "digits_val 0 (c # r) = n"
    using digits_val_dec_nat [of n] c(1) by simp
  then show ?thesis
    using n digit_not_special [OF c(2)] dec_nat_head [of n]
    by (simp add: strtol10_def c(1) Let_def del: digits_val.simps)
qed

lemma strtol10_dec:
  assumes "- (2 ^ 63) \<le> i" "i < 2 ^ 63"
  shows "strtol10 (dec i) = i"
proof (cases "i < 0")
  case True
  have "\<not> is_space (CHR ''-'')" by (simp add: is_space_def uc_def)
  with True assms show ?thesis
    by (simp add: strtol10_def dec_def digits_val_dec_nat)
next
  case False
  with assms show ?thesis by (simp add: dec_def strtol10_dec_nat)
qed

text \<open>Printing a 32-bit integer and reading it back is the identity.\<close>

lemma atoi_dec [simp]: "is_int32 i \<Longrightarrow> atoi (dec i) = i"
  by (simp add: atoi_def strtol10_dec is_int32_def int32_def)

lemma dec_inj: "dec i = dec j \<Longrightarrow> i = j"
proof -
  have pos: "i < 0 \<Longrightarrow> hd (dec i) = CHR ''-''" for i by (simp add: dec_def)
  have neg: "\<not> i < 0 \<Longrightarrow> hd (dec i) \<noteq> CHR ''-''" for i
    using dec_nat_digits [of "nat i"] digit_not_special
    by (cases "dec_nat (nat i)") (auto simp: dec_def)
  assume *: "dec i = dec j"
  then have sgn: "i < 0 \<longleftrightarrow> j < 0" using pos neg by metis
  have "nat (- i) = nat (- j)" if "i < 0"
    using * sgn that digits_val_dec_nat by (metis dec_def list.inject)
  moreover have "nat i = nat j" if "\<not> i < 0"
    using * sgn that digits_val_dec_nat by (metis dec_def)
  ultimately show "i = j" using sgn by (cases "i < 0") auto
qed

lemma dec_eq_iff [simp]: "dec i = dec j \<longleftrightarrow> i = j"
  using dec_inj by blast

lemma dec_not_Nil [simp]: "dec i \<noteq> []"
  by (simp add: dec_def)

lemma nul_free_dec [simp]: "nul_free (dec i)"
  using dec_nat_digits digit_not_special
  by (auto simp: nul_free_def dec_def NUL_def)

lemma length_dec_nat: "n < 10 ^ k \<Longrightarrow> 0 < k \<Longrightarrow> length (dec_nat n) \<le> k"
proof (induction n arbitrary: k rule: dec_nat.induct)
  case (1 n)
  show ?case
  proof (cases "n < 10")
    case False
    then have "k \<noteq> 1" using 1(2) by auto
    then obtain k' where k: "k = Suc k'" "0 < k'" using 1(3) by (cases k) auto
    then have "length (dec_nat (n div 10)) \<le> k'" using 1(1) [OF False, of k'] 1(2) by simp
    with False k show ?thesis by (subst dec_nat.simps) simp
  qed (use 1(3) in \<open>subst dec_nat.simps, simp\<close>)
qed

lemma length_dec:
  assumes "is_int32 i"
  shows "length (dec i) \<le> 11"
proof -
  have "nat (- i) < 10 ^ 10" "nat i < 10 ^ 10" using assms by (auto simp: is_int32_def)
  then have "length (dec_nat (nat (- i))) \<le> 10" "length (dec_nat (nat i)) \<le> 10"
    by (intro length_dec_nat; simp)+
  then show ?thesis by (auto simp: dec_def)
qed

section \<open>Tokens\<close>

text \<open>
  \<open>strtok(s, delims)\<close> skips leading delimiters and returns the longest run of other
  bytes with what is left after the delimiter that ended it (overwritten by NUL), or
  \<open>None\<close> where only delimiters are left.
\<close>

definition strtok :: "string \<Rightarrow> string \<Rightarrow> (string \<times> string) option" where
  "strtok delims s =
     (let r = dropWhile (\<lambda>c. c \<in> set delims) s
      in if r = [] then None
         else Some (takeWhile (\<lambda>c. c \<notin> set delims) r,
                    drop 1 (dropWhile (\<lambda>c. c \<notin> set delims) r)))"

text \<open>What a first \<open>strtok\<close> call leaves visible in the buffer it was given.\<close>

definition strtok_cut :: "string \<Rightarrow> string \<Rightarrow> string" where
  "strtok_cut delims s =
     takeWhile (\<lambda>c. c \<in> set delims) s @
     takeWhile (\<lambda>c. c \<notin> set delims) (dropWhile (\<lambda>c. c \<in> set delims) s)"

lemma strtok_token:
  assumes "strtok ds s = Some (tok, rest)"
  shows "tok \<noteq> []" "set tok \<inter> set ds = {}" "set tok \<subseteq> set s"
proof -
  let ?r = "dropWhile (\<lambda>c. c \<in> set ds) s"
  have r: "?r \<noteq> []" and tok: "tok = takeWhile (\<lambda>c. c \<notin> set ds) ?r"
    using assms by (auto simp: strtok_def Let_def split: if_splits)
  have "hd ?r \<notin> set ds" using r by (rule hd_dropWhile)
  with r show "tok \<noteq> []" by (cases ?r) (auto simp: tok)
  show "set tok \<inter> set ds = {}" by (auto simp: tok dest: set_takeWhileD)
  show "set tok \<subseteq> set s" by (auto simp: tok dest: set_takeWhileD set_dropWhileD)
qed

lemma strtok_plain:
  assumes "tok \<noteq> []" "set tok \<inter> set ds = {}" "d \<in> set ds"
  shows "strtok ds (tok @ d # rest) = Some (tok, rest)" "strtok ds tok = Some (tok, [])"
proof -
  obtain c t where tok: "tok = c # t" using assms(1) by (cases tok) auto
  have c: "c \<notin> set ds" and t: "\<forall>x \<in> set t. x \<notin> set ds" using assms(2) tok by auto
  have dw: "dropWhile (\<lambda>c. c \<notin> set ds) t = []" using t by simp
  show "strtok ds (tok @ d # rest) = Some (tok, rest)" "strtok ds tok = Some (tok, [])"
    using c t assms(3) by (simp_all add: strtok_def tok takeWhile_append dropWhile_append dw)
qed

lemma strtok_shorter:
  assumes "strtok ds s = Some (tok, rest)"
  shows "length rest < length s"
proof -
  let ?r = "dropWhile (\<lambda>c. c \<in> set ds) s"
  have r: "?r \<noteq> []" and rest: "rest = drop 1 (dropWhile (\<lambda>c. c \<notin> set ds) ?r)"
    using assms by (auto simp: strtok_def Let_def split: if_splits)
  have "length ?r \<le> length s" by (rule length_dropWhile_le)
  moreover have "length rest < length ?r"
  proof -
    have "0 < length ?r" using r unfolding length_greater_0_conv .
    moreover have "length (dropWhile (\<lambda>c. c \<notin> set ds) ?r) \<le> length ?r" by (rule length_dropWhile_le)
    ultimately show ?thesis unfolding rest length_drop by linarith
  qed
  ultimately show ?thesis by (rule order_less_le_trans [rotated])
qed

lemma strtok_skip: "d \<in> set ds \<Longrightarrow> strtok ds (d # s) = strtok ds s"
  by (simp add: strtok_def)

section \<open>Lines\<close>

text \<open>
  \<open>fgets\<close> into a buffer of \<open>n\<close> bytes: a line with its newline, or as much as fits.
  Reading on into an error returns NULL.
\<close>

definition fgets :: "nat \<Rightarrow> string \<Rightarrow> bool \<Rightarrow> (string \<times> string) option" where
  "fgets n s err =
     (let k = length (takeWhile (\<lambda>c. c \<noteq> CHR 0x0A) s)
      in if s = [] then None
         else if k < length s \<and> k < n - 1 then Some (take (Suc k) s, drop (Suc k) s)
         else if length s < n - 1 then (if err then None else Some (s, []))
         else Some (take (n - 1) s, drop (n - 1) s))"

lemma fgets_rest: "fgets n s err = Some (line, rest) \<Longrightarrow> 1 < n \<Longrightarrow> length rest < length s"
  by (cases s) (auto simp: fgets_def Let_def split: if_splits)

end
