(* ===== verification/Collation.thy ===== *)
theory Collation
  imports CLib
begin

text \<open>
  What the alternative collation modules under com/ have in common: the descriptor
  arguments of \<open>gtm_ac_xform\<close>, \<open>gtm_ac_xback\<close> and \<open>gtm_ac_xutil\<close>, the
  table-driven bodies that com/col_polish.c and com/col_reverse.c (and their siblings)
  share word for word, and the interface a collation module offers: a subscript is
  turned into a key and back without loss.
\<close>

section \<open>Descriptors and results\<close>

text \<open>
  \<open>gtm_descriptor\<close> and \<open>gtm32_descriptor\<close>: a length field and the object
  \<open>val\<close> points to, with all its allocated bytes. The length field and the allocation
  are independent: the code only ever looks at the field.
\<close>

record gtm_descriptor =
  d_len :: int
  d_val :: mem

record ac_result =
  ac_status :: int
  ac_dst :: gtm_descriptor
  ac_dstlen :: int

type_synonym ac_fun =
  "gtm_descriptor \<Rightarrow> int \<Rightarrow> gtm_descriptor \<Rightarrow> int \<Rightarrow> c_fault + ac_result"

definition MYAPPS_SUBSC2LONG :: int where "MYAPPS_SUBSC2LONG = 12345678"

section \<open>The table-driven routines\<close>

definition tbl_get :: "nat list \<Rightarrow> byte \<Rightarrow> byte" where
  "tbl_get tbl b = word_of_nat (tbl ! unat b)"

text \<open>\<open>while (n-- > 0) *cpout++ = table[*cp++]\<close>, both pointers at index \<open>i\<close>.\<close>

fun copy_loop :: "(byte \<Rightarrow> byte) \<Rightarrow> nat \<Rightarrow> mem \<Rightarrow> mem \<Rightarrow> nat \<Rightarrow> c_fault + mem" where
  "copy_loop f 0 src dst i = Inr dst"
| "copy_loop f (Suc n) src dst i =
     bindE (load src i) (\<lambda>b.
     bindE (store dst i (f b)) (\<lambda>dst'.
     copy_loop f n src dst' (Suc i)))"

text \<open>The body that ends with \<open>*cpout = '\0'\<close> (the Polish modules).\<close>

definition ac_table_nul :: "nat list \<Rightarrow> ac_fun" where
  "ac_table_nul tbl src level dst dstlen =
     (let n = d_len src in
      if n > d_len dst then Inr \<lparr>ac_status = MYAPPS_SUBSC2LONG, ac_dst = dst, ac_dstlen = dstlen\<rparr>
      else
        bindE (copy_loop (tbl_get tbl) (nat n) (d_val src) (d_val dst) 0) (\<lambda>d.
        bindE (store d (nat n) 0) (\<lambda>d'.
        Inr \<lparr>ac_status = 0, ac_dst = dst\<lparr>d_val := d'\<rparr>, ac_dstlen = n\<rparr>)))"

text \<open>The body without the terminating NUL (col_straight.c, col_reverse.c).\<close>

definition ac_table :: "nat list \<Rightarrow> ac_fun" where
  "ac_table tbl src level dst dstlen =
     (let n = d_len src in
      if n > d_len dst then Inr \<lparr>ac_status = MYAPPS_SUBSC2LONG, ac_dst = dst, ac_dstlen = dstlen\<rparr>
      else
        bindE (copy_loop (tbl_get tbl) (nat n) (d_val src) (d_val dst) 0) (\<lambda>d.
        Inr \<lparr>ac_status = 0, ac_dst = dst\<lparr>d_val := d\<rparr>, ac_dstlen = n\<rparr>))"

text \<open>
  \<open>gtm_ac_xutil\<close> of the table-driven modules. Operations 1 and 2 index the table with
  the byte before and after the input; there is none before 0 and after 255.
\<close>

definition ac_xutil ::
    "nat list \<Rightarrow> gtm_descriptor \<Rightarrow> int \<Rightarrow> gtm_descriptor \<Rightarrow> int \<Rightarrow> int \<Rightarrow> int \<Rightarrow> c_fault + ac_result" where
  "ac_xutil tbl inp level out outlen op honor_numeric =
     bindE (load (d_val inp) 0) (\<lambda>charindx.
       if op = 0 then
         bindE (store (d_val out) 0 (word_of_nat (tbl ! unat charindx))) (\<lambda>o1.
         Inr \<lparr>ac_status = 0, ac_dst = out\<lparr>d_val := o1\<rparr>, ac_dstlen = 1\<rparr>)
       else if op = 1 then
         (if 1 \<le> unat charindx then
            bindE (store (d_val out) 0 (word_of_nat (tbl ! (unat charindx - 1)))) (\<lambda>o1.
            Inr \<lparr>ac_status = 0, ac_dst = out\<lparr>d_val := o1\<rparr>, ac_dstlen = 1\<rparr>)
          else Inr \<lparr>ac_status = 0, ac_dst = out, ac_dstlen = 0\<rparr>)
       else if op = 2 then
         (if 254 \<ge> unat charindx then
            bindE (store (d_val out) 0 (word_of_nat (tbl ! (unat charindx + 1)))) (\<lambda>o1.
            Inr \<lparr>ac_status = 0, ac_dst = out\<lparr>d_val := o1\<rparr>, ac_dstlen = 1\<rparr>)
          else Inr \<lparr>ac_status = 0, ac_dst = out, ac_dstlen = 0\<rparr>)
       else Inr \<lparr>ac_status = -1, ac_dst = out, ac_dstlen = outlen\<rparr>)"

section \<open>What a call finds and leaves in its descriptors\<close>

definition src_holds :: "gtm_descriptor \<Rightarrow> mem \<Rightarrow> bool" where
  "src_holds src s \<longleftrightarrow>
     d_len src = int (length s) \<and> length s \<le> length (d_val src) \<and> take (length s) (d_val src) = s"

definition has_room :: "nat \<Rightarrow> gtm_descriptor \<Rightarrow> nat \<Rightarrow> bool" where
  "has_room extra dst n \<longleftrightarrow> int n \<le> d_len dst \<and> n + extra \<le> length (d_val dst)"

text \<open>The call succeeded and the destination now holds exactly the key \<open>k\<close>.\<close>

definition gives :: "(c_fault + ac_result) \<Rightarrow> gtm_descriptor \<Rightarrow> mem \<Rightarrow> bool" where
  "gives res dst k \<longleftrightarrow>
     (case res of Inl _ \<Rightarrow> False
      | Inr r \<Rightarrow> ac_status r = 0 \<and> ac_dstlen r = int (length k) \<and>
               take (length k) (d_val (ac_dst r)) = k \<and>
               length (d_val (ac_dst r)) = length (d_val dst))"

text \<open>The descriptor the caller builds from a result for the next call.\<close>

definition as_source :: "ac_result \<Rightarrow> gtm_descriptor" where
  "as_source r = \<lparr>d_len = ac_dstlen r, d_val = d_val (ac_dst r)\<rparr>"

lemma givesE:
  assumes "gives res dst k"
  obtains r where "res = Inr r" "ac_status r = 0" "ac_dstlen r = int (length k)"
    "take (length k) (d_val (ac_dst r)) = k" "length (d_val (ac_dst r)) = length (d_val dst)"
  using assms by (auto simp: gives_def split: sum.splits)

lemma gives_src_holds:
  assumes "gives (Inr r) dst k" "length k \<le> length (d_val dst)"
  shows "src_holds (as_source r) k"
  using assms by (auto simp: gives_def src_holds_def as_source_def)

lemma copy_loop_spec:
  assumes "i + n \<le> length src" "i + n \<le> length dst"
  shows "copy_loop f n src dst i =
         Inr (take i dst @ map f (take n (drop i src)) @ drop (i + n) dst)"
  using assms
proof (induction n arbitrary: dst i)
  case (Suc n)
  let ?b = "f (src ! i)"
  have i: "i < length src" "i < length dst" using Suc.prems by auto
  have src: "take (Suc n) (drop i src) = src ! i # take n (drop (Suc i) src)"
    using i by (simp add: Cons_nth_drop_Suc [symmetric])
  have dst: "take (Suc i) (dst[i := ?b]) = take i dst @ [?b]"
    using i by (simp add: take_Suc_conv_app_nth)
  show ?case
    using Suc.IH [of "Suc i" "dst[i := ?b]"] Suc.prems i by (simp add: src dst)
qed simp

lemma copy_loop_short_src:
  assumes "length src < i + n" "i \<le> length src" "i + n \<le> length dst"
  shows "copy_loop f n src dst i = Inl OutOfBounds"
  using assms
proof (induction n arbitrary: dst i)
  case (Suc n)
  then show ?case by (cases "i < length src") auto
qed simp

section \<open>The interface of a collation module\<close>

text \<open>
  \<open>enc\<close> and \<open>dec\<close> are the byte transformations the two routines compute on the
  subscripts they accept; \<open>room dst n\<close> says what a call needs of its destination to
  write a key of \<open>n\<close> bytes. A database that stores keys relies on exactly these laws.
\<close>

locale ac_routine =
  fixes xform xback :: ac_fun
    and enc dec :: "mem \<Rightarrow> mem"
    and adm badm :: "mem \<Rightarrow> bool"
    and room :: "gtm_descriptor \<Rightarrow> nat \<Rightarrow> bool"
  assumes room_length: "room dst n \<Longrightarrow> n \<le> length (d_val dst)"
    and dec_enc: "adm s \<Longrightarrow> dec (enc s) = s"
    and enc_badm: "adm s \<Longrightarrow> badm (enc s)"
    and xform_gives: "adm s \<Longrightarrow> src_holds src s \<Longrightarrow> room dst (length (enc s)) \<Longrightarrow>
           gives (xform src level dst dstlen) dst (enc s)"
    and xback_gives: "badm s \<Longrightarrow> src_holds src s \<Longrightarrow> room dst (length (dec s)) \<Longrightarrow>
           gives (xback src level dst dstlen) dst (dec s)"
begin

lemma enc_inj: "adm s \<Longrightarrow> adm t \<Longrightarrow> enc s = enc t \<Longrightarrow> s = t"
  using dec_enc by metis

lemma roundtrip:
  assumes "adm s" "src_holds src s" "room dst (length (enc s))" "room dst2 (length s)"
  shows "\<exists>r. xform src level dst dstlen = Inr r \<and> ac_status r = 0 \<and>
             gives (xback (as_source r) level dst2 dstlen2) dst2 s"
proof -
  have g: "gives (xform src level dst dstlen) dst (enc s)"
    using assms(1-3) by (rule xform_gives)
  then obtain r where r: "xform src level dst dstlen = Inr r" "ac_status r = 0"
    by (auto elim: givesE)
  have src: "src_holds (as_source r) (enc s)"
    using g r(1) gives_src_holds room_length [OF assms(3)] by metis
  have "gives (xback (as_source r) level dst2 dstlen2) dst2 (dec (enc s))"
    using enc_badm [OF assms(1)] src assms(4)
    by (intro xback_gives) (simp_all add: dec_enc [OF assms(1)])
  with r dec_enc [OF assms(1)] show ?thesis by auto
qed

lemma distinct_keys:
  assumes "adm s" "src_holds src s" "room dst (length (enc s))"
    and "adm t" "src_holds src' t" "room dst' (length (enc t))"
    and "xform src level dst dl = Inr r" "xform src' level dst' dl' = Inr r'"
    and "take (nat (ac_dstlen r)) (d_val (ac_dst r)) = take (nat (ac_dstlen r')) (d_val (ac_dst r'))"
  shows "s = t"
proof -
  have "gives (Inr r) dst (enc s)" "gives (Inr r') dst' (enc t)"
    using xform_gives [OF assms(1-3), of level dl] xform_gives [OF assms(4-6), of level dl'] assms(7,8)
    by auto
  then have "enc s = enc t" using assms(9) by (auto simp: gives_def)
  then show ?thesis using enc_inj assms(1,4) by blast
qed

end

section \<open>Tables that are permutations\<close>

locale byte_table =
  fixes tbl inv :: "nat list"
  assumes tbl_len: "length tbl = 256" and inv_len: "length inv = 256"
    and tbl_bound: "list_all (\<lambda>x. x < 256) tbl" and inv_bound: "list_all (\<lambda>x. x < 256) inv"
    and inv_tbl: "map (\<lambda>x. inv ! x) tbl = [0..<256]"
begin

lemma unat_tbl_get: "unat (tbl_get tbl b) = tbl ! unat b"
proof -
  have "tbl ! unat b < 256"
    using tbl_bound tbl_len by (simp add: list_all_length)
  then show ?thesis by (simp add: tbl_get_def unat_of_nat)
qed

lemma get_inv_tbl: "tbl_get inv (tbl_get tbl b) = b"
proof -
  have "inv ! (tbl ! unat b) = map (\<lambda>x. inv ! x) tbl ! unat b"
    using tbl_len by simp
  also have "\<dots> = unat b" by (simp add: inv_tbl)
  finally show ?thesis by (simp add: tbl_get_def [of inv] unat_tbl_get)
qed

lemma get_tbl_inj: "tbl_get tbl a = tbl_get tbl b \<Longrightarrow> a = b"
  using get_inv_tbl by metis

lemma get_tbl_inv: "tbl_get tbl (tbl_get inv b) = b"
proof -
  have "inj (tbl_get tbl)" by (rule injI) (rule get_tbl_inj)
  then have "surj (tbl_get tbl)" by (simp add: finite_UNIV_inj_surj)
  then obtain a where "b = tbl_get tbl a" by (rule surjE)
  then show ?thesis by (simp add: get_inv_tbl)
qed

lemma tbl_inv: "map (\<lambda>x. tbl ! x) inv = [0..<256]"
proof (rule nth_equalityI)
  fix i assume "i < length (map (\<lambda>x. tbl ! x) inv)"
  then have i: "i < 256" using inv_len by simp
  then have "inv ! i < 256" using inv_bound inv_len by (simp add: list_all_length)
  moreover have "unat (tbl_get tbl (tbl_get inv (word_of_nat i))) = i"
    using i by (simp add: get_tbl_inv unat_of_nat)
  ultimately show "map (\<lambda>x. tbl ! x) inv ! i = [0..<256] ! i"
    using i inv_len by (simp add: unat_tbl_get) (simp add: tbl_get_def unat_of_nat)
qed (simp add: inv_len)

lemma swap: "byte_table inv tbl"
  using tbl_inv by unfold_locales (simp_all add: inv_len tbl_len inv_bound tbl_bound)

lemma xutil_0:
  assumes "0 < length (d_val inp)" "0 < length (d_val out)"
  shows "ac_xutil tbl inp level out outlen 0 honor =
         Inr \<lparr>ac_status = 0, ac_dst = out\<lparr>d_val := (d_val out)[0 := tbl_get tbl (d_val inp ! 0)]\<rparr>,
              ac_dstlen = 1\<rparr>"
  using assms by (simp add: ac_xutil_def tbl_get_def)

end

lemma ac_table_spec:
  assumes "src_holds src s" "has_room 0 dst (length s)"
  shows "ac_table tbl src level dst dstlen =
         Inr \<lparr>ac_status = 0,
              ac_dst = dst\<lparr>d_val := map (tbl_get tbl) s @ drop (length s) (d_val dst)\<rparr>,
              ac_dstlen = int (length s)\<rparr>"
  using assms copy_loop_spec [of 0 "length s" "d_val src" "d_val dst" "tbl_get tbl"]
  by (simp add: ac_table_def src_holds_def has_room_def)

lemma ac_table_nul_spec:
  assumes "src_holds src s" "has_room 1 dst (length s)"
  shows "ac_table_nul tbl src level dst dstlen =
         Inr \<lparr>ac_status = 0,
              ac_dst = dst\<lparr>d_val := map (tbl_get tbl) s @ 0 # drop (Suc (length s)) (d_val dst)\<rparr>,
              ac_dstlen = int (length s)\<rparr>"
  using assms copy_loop_spec [of 0 "length s" "d_val src" "d_val dst" "tbl_get tbl"]
    append_store [of "map (tbl_get tbl) s" "length s" "d_val dst" 0]
  by (simp add: ac_table_nul_def src_holds_def has_room_def)

sublocale byte_table \<subseteq> plain: ac_routine "ac_table tbl" "ac_table inv"
    "map (tbl_get tbl)" "map (tbl_get inv)" "\<lambda>_. True" "\<lambda>_. True" "has_room 0"
  by unfold_locales
    (auto simp: get_inv_tbl map_idI ac_table_spec gives_def has_room_def)

sublocale byte_table \<subseteq> nul: ac_routine "ac_table_nul tbl" "ac_table_nul inv"
    "map (tbl_get tbl)" "map (tbl_get inv)" "\<lambda>_. True" "\<lambda>_. True" "has_room 1"
  by unfold_locales
    (auto simp: get_inv_tbl map_idI ac_table_nul_spec gives_def has_room_def)

section \<open>Refused calls and the byte behind the key\<close>

lemma ac_table_too_long:
  "d_len src > d_len dst \<Longrightarrow>
   ac_table tbl src level dst dstlen = Inr \<lparr>ac_status = MYAPPS_SUBSC2LONG, ac_dst = dst, ac_dstlen = dstlen\<rparr>"
  "d_len src > d_len dst \<Longrightarrow>
   ac_table_nul tbl src level dst dstlen = Inr \<lparr>ac_status = MYAPPS_SUBSC2LONG, ac_dst = dst, ac_dstlen = dstlen\<rparr>"
  by (simp_all add: ac_table_def ac_table_nul_def)

text \<open>
  A destination of exactly the length its descriptor states is filled and then
  overrun by the NUL.
\<close>

lemma ac_table_nul_overrun:
  assumes "src_holds src s" "d_len dst = int (length s)" "length (d_val dst) = length s"
  shows "ac_table_nul tbl src level dst dstlen = Inl OutOfBounds"
  using assms copy_loop_spec [of 0 "length s" "d_val src" "d_val dst" "tbl_get tbl"]
  by (simp add: ac_table_nul_def src_holds_def)

end
