(* ===== verification/CollationTables.thy ===== *)
theory CollationTables
  imports Collation
begin

text \<open>
  The table-driven collation modules: com/col_polish.c, com/col_polish_rev.c,
  com/col_straight.c, com/col_reverse.c and the older copies com/polish.c,
  merge/u_inref/polish.c and merge/u_inref/polish_rev.c. Each file's two tables are
  written out, its entry points are the shared bodies of theory Collation at those
  tables, and each pair of tables is shown to be mutually inverse, so that the
  interface of a collation module holds for it.
\<close>

section \<open>com/col_polish.c\<close>

definition col_polish_xform_table :: "nat list" where
  "col_polish_xform_table = [
   0, 1, 2, 3, 4, 5, 6, 7, 8, 9, 10, 11, 12, 13, 14, 15,
   16, 17, 18, 19, 20, 21, 22, 23, 24, 25, 26, 27, 28, 29, 30, 31,
   32, 33, 34, 35, 36, 37, 38, 39, 40, 41, 42, 43, 44, 45, 46, 47,
   48, 49, 50, 51, 52, 53, 54, 55, 56, 57, 58, 59, 60, 61, 62, 63,
   64, 70, 78, 82, 90, 97, 104, 106, 108, 112, 116, 118, 122, 128, 131, 139,
   146, 148, 152, 158, 166, 174, 180, 182, 184, 187, 191, 197, 198, 199, 200, 201,
   202, 65, 77, 79, 87, 93, 103, 105, 107, 109, 115, 117, 119, 127, 129, 135,
   145, 147, 149, 155, 163, 169, 179, 181, 183, 185, 189, 203, 204, 205, 206, 220,
   221, 222, 223, 224, 225, 226, 227, 228, 229, 230, 231, 232, 233, 234, 235, 236,
   237, 238, 239, 240, 241, 242, 243, 244, 245, 246, 247, 248, 249, 250, 251, 252,
   253, 76, 207, 126, 208, 123, 162, 209, 210, 159, 160, 167, 194, 211, 192, 196,
   212, 75, 213, 125, 214, 120, 161, 215, 216, 156, 157, 164, 193, 217, 190, 195,
   153, 71, 72, 73, 74, 124, 86, 83, 84, 98, 102, 99, 100, 113, 114, 91,
   92, 134, 132, 144, 140, 141, 142, 218, 154, 175, 176, 177, 178, 188, 168, 254,
   150, 66, 67, 68, 69, 121, 85, 80, 81, 94, 101, 95, 96, 110, 111, 88,
   89, 133, 130, 143, 136, 137, 138, 219, 151, 170, 171, 172, 173, 186, 165, 255]"

definition col_polish_inverse_table :: "nat list" where
  "col_polish_inverse_table = [
   0, 1, 2, 3, 4, 5, 6, 7, 8, 9, 10, 11, 12, 13, 14, 15,
   16, 17, 18, 19, 20, 21, 22, 23, 24, 25, 26, 27, 28, 29, 30, 31,
   32, 33, 34, 35, 36, 37, 38, 39, 40, 41, 42, 43, 44, 45, 46, 47,
   48, 49, 50, 51, 52, 53, 54, 55, 56, 57, 58, 59, 60, 61, 62, 63,
   64, 97, 225, 226, 227, 228, 65, 193, 194, 195, 196, 177, 161, 98, 66, 99,
   231, 232, 67, 199, 200, 230, 198, 100, 239, 240, 68, 207, 208, 101, 233, 235,
   236, 69, 201, 203, 204, 234, 202, 102, 70, 103, 71, 104, 72, 105, 237, 238,
   73, 205, 206, 106, 74, 107, 75, 108, 181, 229, 76, 165, 197, 179, 163, 109,
   77, 110, 242, 78, 210, 241, 209, 111, 244, 245, 246, 79, 212, 213, 214, 243,
   211, 112, 80, 113, 81, 114, 224, 248, 82, 192, 216, 115, 185, 186, 83, 169,
   170, 182, 166, 116, 187, 254, 84, 171, 222, 117, 249, 250, 251, 252, 85, 217,
   218, 219, 220, 118, 86, 119, 87, 120, 88, 121, 253, 89, 221, 122, 190, 90,
   174, 188, 172, 191, 175, 91, 92, 93, 94, 95, 96, 123, 124, 125, 126, 162,
   164, 167, 168, 173, 176, 178, 180, 183, 184, 189, 215, 247, 127, 128, 129, 130,
   131, 132, 133, 134, 135, 136, 137, 138, 139, 140, 141, 142, 143, 144, 145, 146,
   147, 148, 149, 150, 151, 152, 153, 154, 155, 156, 157, 158, 159, 160, 223, 255]"

definition col_polish_gtm_ac_xform :: ac_fun where
  "col_polish_gtm_ac_xform = ac_table_nul col_polish_xform_table"

definition col_polish_gtm_ac_xback :: ac_fun where
  "col_polish_gtm_ac_xback = ac_table_nul col_polish_inverse_table"

definition col_polish_gtm_ac_xutil ::
    "gtm_descriptor \<Rightarrow> int \<Rightarrow> gtm_descriptor \<Rightarrow> int \<Rightarrow> int \<Rightarrow> int \<Rightarrow> c_fault + ac_result" where
  "col_polish_gtm_ac_xutil = ac_xutil col_polish_xform_table"

definition col_polish_gtm_ac_version :: int where
  "col_polish_gtm_ac_version = 3"

definition col_polish_gtm_ac_verify :: "byte \<Rightarrow> byte \<Rightarrow> int" where
  "col_polish_gtm_ac_verify type ver = (if uint ver = 3 then 0 else 1)"

section \<open>com/col_polish_rev.c\<close>

definition col_polish_rev_xform_table :: "nat list" where
  "col_polish_rev_xform_table = [
   0, 1, 2, 3, 4, 5, 6, 7, 8, 9, 10, 11, 12, 13, 14, 15,
   16, 17, 18, 19, 20, 21, 22, 23, 24, 25, 26, 27, 28, 29, 30, 31,
   32, 33, 34, 35, 36, 37, 38, 39, 40, 41, 42, 43, 44, 45, 46, 47,
   48, 49, 50, 51, 52, 53, 54, 55, 56, 57, 58, 59, 60, 61, 62, 63,
   64, 97, 225, 226, 227, 228, 65, 193, 194, 195, 196, 177, 161, 98, 66, 99,
   231, 232, 67, 199, 200, 230, 198, 100, 239, 240, 68, 207, 208, 101, 233, 235,
   236, 69, 201, 203, 204, 234, 202, 102, 70, 103, 71, 104, 72, 105, 237, 238,
   73, 205, 206, 106, 74, 107, 75, 108, 181, 229, 76, 165, 197, 179, 163, 109,
   77, 110, 242, 78, 210, 241, 209, 111, 244, 245, 246, 79, 212, 213, 214, 243,
   211, 112, 80, 113, 81, 114, 224, 248, 82, 192, 216, 115, 185, 186, 83, 169,
   170, 182, 166, 116, 187, 254, 84, 171, 222, 117, 249, 250, 251, 252, 85, 217,
   218, 219, 220, 118, 86, 119, 87, 120, 88, 121, 253, 89, 221, 122, 190, 90,
   174, 188, 172, 191, 175, 91, 92, 93, 94, 95, 96, 123, 124, 125, 126, 162,
   164, 167, 168, 173, 176, 178, 180, 183, 184, 189, 215, 247, 127, 128, 129, 130,
   131, 132, 133, 134, 135, 136, 137, 138, 139, 140, 141, 142, 143, 144, 145, 146,
   147, 148, 149, 150, 151, 152, 153, 154, 155, 156, 157, 158, 159, 160, 223, 255]"

definition col_polish_rev_inverse_table :: "nat list" where
  "col_polish_rev_inverse_table = [
   0, 1, 2, 3, 4, 5, 6, 7, 8, 9, 10, 11, 12, 13, 14, 15,
   16, 17, 18, 19, 20, 21, 22, 23, 24, 25, 26, 27, 28, 29, 30, 31,
   32, 33, 34, 35, 36, 37, 38, 39, 40, 41, 42, 43, 44, 45, 46, 47,
   48, 49, 50, 51, 52, 53, 54, 55, 56, 57, 58, 59, 60, 61, 62, 63,
   64, 70, 78, 82, 90, 97, 104, 106, 108, 112, 116, 118, 122, 128, 131, 139,
   146, 148, 152, 158, 166, 174, 180, 182, 184, 187, 191, 197, 198, 199, 200, 201,
   202, 65, 77, 79, 87, 93, 103, 105, 107, 109, 115, 117, 119, 127, 129, 135,
   145, 147, 149, 155, 163, 169, 179, 181, 183, 185, 189, 203, 204, 205, 206, 220,
   221, 222, 223, 224, 225, 226, 227, 228, 229, 230, 231, 232, 233, 234, 235, 236,
   237, 238, 239, 240, 241, 242, 243, 244, 245, 246, 247, 248, 249, 250, 251, 252,
   253, 76, 207, 126, 208, 123, 162, 209, 210, 159, 160, 167, 194, 211, 192, 196,
   212, 75, 213, 125, 214, 120, 161, 215, 216, 156, 157, 164, 193, 217, 190, 195,
   153, 71, 72, 73, 74, 124, 86, 83, 84, 98, 102, 99, 100, 113, 114, 91,
   92, 134, 132, 144, 140, 141, 142, 218, 154, 175, 176, 177, 178, 188, 168, 254,
   150, 66, 67, 68, 69, 121, 85, 80, 81, 94, 101, 95, 96, 110, 111, 88,
   89, 133, 130, 143, 136, 137, 138, 219, 151, 170, 171, 172, 173, 186, 165, 255]"

definition col_polish_rev_gtm_ac_xform :: ac_fun where
  "col_polish_rev_gtm_ac_xform = ac_table_nul col_polish_rev_xform_table"

definition col_polish_rev_gtm_ac_xback :: ac_fun where
  "col_polish_rev_gtm_ac_xback = ac_table_nul col_polish_rev_inverse_table"

definition col_polish_rev_gtm_ac_xutil ::
    "gtm_descriptor \<Rightarrow> int \<Rightarrow> gtm_descriptor \<Rightarrow> int \<Rightarrow> int \<Rightarrow> int \<Rightarrow> c_fault + ac_result" where
  "col_polish_rev_gtm_ac_xutil = ac_xutil col_polish_rev_xform_table"

definition col_polish_rev_gtm_ac_version :: int where
  "col_polish_rev_gtm_ac_version = 3"

definition col_polish_rev_gtm_ac_verify :: "byte \<Rightarrow> byte \<Rightarrow> int" where
  "col_polish_rev_gtm_ac_verify type ver = (if uint ver = 3 then 0 else 1)"

section \<open>com/col_straight.c\<close>

definition col_straight_xform_table :: "nat list" where
  "col_straight_xform_table = [
   0, 1, 2, 3, 4, 5, 6, 7, 8, 9, 10, 11, 12, 13, 14, 15,
   16, 17, 18, 19, 20, 21, 22, 23, 24, 25, 26, 27, 28, 29, 30, 31,
   32, 33, 34, 35, 36, 37, 38, 39, 40, 41, 42, 43, 44, 45, 46, 47,
   48, 49, 50, 51, 52, 53, 54, 55, 56, 57, 58, 59, 60, 61, 62, 63,
   64, 65, 66, 67, 68, 69, 70, 71, 72, 73, 74, 75, 76, 77, 78, 79,
   80, 81, 82, 83, 84, 85, 86, 87, 88, 89, 90, 91, 92, 93, 94, 95,
   96, 97, 98, 99, 100, 101, 102, 103, 104, 105, 106, 107, 108, 109, 110, 111,
   112, 113, 114, 115, 116, 117, 118, 119, 120, 121, 122, 123, 124, 125, 126, 127,
   128, 129, 130, 131, 132, 133, 134, 135, 136, 137, 138, 139, 140, 141, 142, 143,
   144, 145, 146, 147, 148, 149, 150, 151, 152, 153, 154, 155, 156, 157, 158, 159,
   160, 161, 162, 163, 164, 165, 166, 167, 168, 169, 170, 171, 172, 173, 174, 175,
   176, 177, 178, 179, 180, 181, 182, 183, 184, 185, 186, 187, 188, 189, 190, 191,
   192, 193, 194, 195, 196, 197, 198, 199, 200, 201, 202, 203, 204, 205, 206, 207,
   208, 209, 210, 211, 212, 213, 214, 215, 216, 217, 218, 219, 220, 221, 222, 223,
   224, 225, 226, 227, 228, 229, 230, 231, 232, 233, 234, 235, 236, 237, 238, 239,
   240, 241, 242, 243, 244, 245, 246, 247, 248, 249, 250, 251, 252, 253, 254, 255]"

definition col_straight_inverse_table :: "nat list" where
  "col_straight_inverse_table = [
   0, 1, 2, 3, 4, 5, 6, 7, 8, 9, 10, 11, 12, 13, 14, 15,
   16, 17, 18, 19, 20, 21, 22, 23, 24, 25, 26, 27, 28, 29, 30, 31,
   32, 33, 34, 35, 36, 37, 38, 39, 40, 41, 42, 43, 44, 45, 46, 47,
   48, 49, 50, 51, 52, 53, 54, 55, 56, 57, 58, 59, 60, 61, 62, 63,
   64, 65, 66, 67, 68, 69, 70, 71, 72, 73, 74, 75, 76, 77, 78, 79,
   80, 81, 82, 83, 84, 85, 86, 87, 88, 89, 90, 91, 92, 93, 94, 95,
   96, 97, 98, 99, 100, 101, 102, 103, 104, 105, 106, 107, 108, 109, 110, 111,
   112, 113, 114, 115, 116, 117, 118, 119, 120, 121, 122, 123, 124, 125, 126, 127,
   128, 129, 130, 131, 132, 133, 134, 135, 136, 137, 138, 139, 140, 141, 142, 143,
   144, 145, 146, 147, 148, 149, 150, 151, 152, 153, 154, 155, 156, 157, 158, 159,
   160, 161, 162, 163, 164, 165, 166, 167, 168, 169, 170, 171, 172, 173, 174, 175,
   176, 177, 178, 179, 180, 181, 182, 183, 184, 185, 186, 187, 188, 189, 190, 191,
   192, 193, 194, 195, 196, 197, 198, 199, 200, 201, 202, 203, 204, 205, 206, 207,
   208, 209, 210, 211, 212, 213, 214, 215, 216, 217, 218, 219, 220, 221, 222, 223,
   224, 225, 226, 227, 228, 229, 230, 231, 232, 233, 234, 235, 236, 237, 238, 239,
   240, 241, 242, 243, 244, 245, 246, 247, 248, 249, 250, 251, 252, 253, 254, 255]"

definition col_straight_gtm_ac_xform :: ac_fun where
  "col_straight_gtm_ac_xform = ac_table col_straight_xform_table"

definition col_straight_gtm_ac_xback :: ac_fun where
  "col_straight_gtm_ac_xback = ac_table col_straight_inverse_table"

definition col_straight_gtm_ac_xutil ::
    "gtm_descriptor \<Rightarrow> int \<Rightarrow> gtm_descriptor \<Rightarrow> int \<Rightarrow> int \<Rightarrow> int \<Rightarrow> c_fault + ac_result" where
  "col_straight_gtm_ac_xutil = ac_xutil col_straight_xform_table"

text \<open>The version comes from the environment, so that tests can make it mismatch.\<close>

definition col_straight_gtm_ac_version :: "(string \<Rightarrow> string option) \<Rightarrow> int" where
  "col_straight_gtm_ac_version getenv =
     (case getenv ''gtm_test_col_return_version'' of None \<Rightarrow> 0 | Some v \<Rightarrow> atoi v)"

definition col_straight_gtm_ac_verify :: "(string \<Rightarrow> string option) \<Rightarrow> byte \<Rightarrow> byte \<Rightarrow> int" where
  "col_straight_gtm_ac_verify getenv type ver =
     (if uint ver = col_straight_gtm_ac_version getenv then 0 else 1)"

section \<open>com/col_reverse.c\<close>

definition col_reverse_xform_table :: "nat list" where
  "col_reverse_xform_table = [
   255, 254, 253, 252, 251, 250, 249, 248, 247, 246, 245, 244, 243, 242, 241, 240,
   239, 238, 237, 236, 235, 234, 233, 232, 231, 230, 229, 228, 227, 226, 225, 224,
   223, 222, 221, 220, 219, 218, 217, 216, 215, 214, 213, 212, 211, 210, 209, 208,
   207, 206, 205, 204, 203, 202, 201, 200, 199, 198, 197, 196, 195, 194, 193, 192,
   191, 190, 189, 188, 187, 186, 185, 184, 183, 182, 181, 180, 179, 178, 177, 176,
   175, 174, 173, 172, 171, 170, 169, 168, 167, 166, 165, 164, 163, 162, 161, 160,
   159, 158, 157, 156, 155, 154, 153, 152, 151, 150, 149, 148, 147, 146, 145, 144,
   143, 142, 141, 140, 139, 138, 137, 136, 135, 134, 133, 132, 131, 130, 129, 128,
   127, 126, 125, 124, 123, 122, 121, 120, 119, 118, 117, 116, 115, 114, 113, 112,
   111, 110, 109, 108, 107, 106, 105, 104, 103, 102, 101, 100, 99, 98, 97, 96,
   95, 94, 93, 92, 91, 90, 89, 88, 87, 86, 85, 84, 83, 82, 81, 80,
   79, 78, 77, 76, 75, 74, 73, 72, 71, 70, 69, 68, 67, 66, 65, 64,
   63, 62, 61, 60, 59, 58, 57, 56, 55, 54, 53, 52, 51, 50, 49, 48,
   47, 46, 45, 44, 43, 42, 41, 40, 39, 38, 37, 36, 35, 34, 33, 32,
   31, 30, 29, 28, 27, 26, 25, 24, 23, 22, 21, 20, 19, 18, 17, 16,
   15, 14, 13, 12, 11, 10, 9, 8, 7, 6, 5, 4, 3, 2, 1, 0]"

definition col_reverse_inverse_table :: "nat list" where
  "col_reverse_inverse_table = [
   255, 254, 253, 252, 251, 250, 249, 248, 247, 246, 245, 244, 243, 242, 241, 240,
   239, 238, 237, 236, 235, 234, 233, 232, 231, 230, 229, 228, 227, 226, 225, 224,
   223, 222, 221, 220, 219, 218, 217, 216, 215, 214, 213, 212, 211, 210, 209, 208,
   207, 206, 205, 204, 203, 202, 201, 200, 199, 198, 197, 196, 195, 194, 193, 192,
   191, 190, 189, 188, 187, 186, 185, 184, 183, 182, 181, 180, 179, 178, 177, 176,
   175, 174, 173, 172, 171, 170, 169, 168, 167, 166, 165, 164, 163, 162, 161, 160,
   159, 158, 157, 156, 155, 154, 153, 152, 151, 150, 149, 148, 147, 146, 145, 144,
   143, 142, 141, 140, 139, 138, 137, 136, 135, 134, 133, 132, 131, 130, 129, 128,
   127, 126, 125, 124, 123, 122, 121, 120, 119, 118, 117, 116, 115, 114, 113, 112,
   111, 110, 109, 108, 107, 106, 105, 104, 103, 102, 101, 100, 99, 98, 97, 96,
   95, 94, 93, 92, 91, 90, 89, 88, 87, 86, 85, 84, 83, 82, 81, 80,
   79, 78, 77, 76, 75, 74, 73, 72, 71, 70, 69, 68, 67, 66, 65, 64,
   63, 62, 61, 60, 59, 58, 57, 56, 55, 54, 53, 52, 51, 50, 49, 48,
   47, 46, 45, 44, 43, 42, 41, 40, 39, 38, 37, 36, 35, 34, 33, 32,
   31, 30, 29, 28, 27, 26, 25, 24, 23, 22, 21, 20, 19, 18, 17, 16,
   15, 14, 13, 12, 11, 10, 9, 8, 7, 6, 5, 4, 3, 2, 1, 0]"

definition col_reverse_gtm_ac_xform :: ac_fun where
  "col_reverse_gtm_ac_xform = ac_table col_reverse_xform_table"

definition col_reverse_gtm_ac_xback :: ac_fun where
  "col_reverse_gtm_ac_xback = ac_table col_reverse_inverse_table"

definition col_reverse_gtm_ac_xutil ::
    "gtm_descriptor \<Rightarrow> int \<Rightarrow> gtm_descriptor \<Rightarrow> int \<Rightarrow> int \<Rightarrow> int \<Rightarrow> c_fault + ac_result" where
  "col_reverse_gtm_ac_xutil = ac_xutil col_reverse_xform_table"

definition col_reverse_gtm_ac_version :: "(string \<Rightarrow> string option) \<Rightarrow> int" where
  "col_reverse_gtm_ac_version getenv =
     (case getenv ''gtm_test_col_return_version'' of None \<Rightarrow> 0 | Some v \<Rightarrow> atoi v)"

definition col_reverse_gtm_ac_verify :: "(string \<Rightarrow> string option) \<Rightarrow> byte \<Rightarrow> byte \<Rightarrow> int" where
  "col_reverse_gtm_ac_verify getenv type ver =
     (if uint ver \<le> col_reverse_gtm_ac_version getenv then 0 else 1)"

section \<open>com/polish.c, merge/u_inref/polish.c and merge/u_inref/polish_rev.c\<close>

text \<open>These files repeat the tables of col_polish.c and col_polish_rev.c entry by entry.\<close>

definition polish_xform_table :: "nat list" where
  "polish_xform_table = col_polish_xform_table"

definition polish_inverse_table :: "nat list" where
  "polish_inverse_table = col_polish_inverse_table"

definition polish_gtm_ac_xform :: ac_fun where
  "polish_gtm_ac_xform = ac_table_nul polish_xform_table"

definition polish_gtm_ac_xback :: ac_fun where
  "polish_gtm_ac_xback = ac_table_nul polish_inverse_table"

definition polish_gtm_ac_version :: int where
  "polish_gtm_ac_version = 0"

definition polish_gtm_ac_verify :: "byte \<Rightarrow> byte \<Rightarrow> int" where
  "polish_gtm_ac_verify type ver = 0"

definition merge_polish_xform_table :: "nat list" where
  "merge_polish_xform_table = col_polish_xform_table"

definition merge_polish_inverse_table :: "nat list" where
  "merge_polish_inverse_table = col_polish_inverse_table"

definition merge_polish_gtm_ac_xform :: ac_fun where
  "merge_polish_gtm_ac_xform = ac_table_nul merge_polish_xform_table"

definition merge_polish_gtm_ac_xback :: ac_fun where
  "merge_polish_gtm_ac_xback = ac_table_nul merge_polish_inverse_table"

definition merge_polish_gtm_ac_version :: int where
  "merge_polish_gtm_ac_version = 3"

definition merge_polish_gtm_ac_verify :: "byte \<Rightarrow> byte \<Rightarrow> int" where
  "merge_polish_gtm_ac_verify type ver = (if uint ver = 3 then 0 else 1)"

definition merge_polish_rev_xform_table :: "nat list" where
  "merge_polish_rev_xform_table = col_polish_rev_xform_table"

definition merge_polish_rev_inverse_table :: "nat list" where
  "merge_polish_rev_inverse_table = col_polish_rev_inverse_table"

definition merge_polish_rev_gtm_ac_xform :: ac_fun where
  "merge_polish_rev_gtm_ac_xform = ac_table_nul merge_polish_rev_xform_table"

definition merge_polish_rev_gtm_ac_xback :: ac_fun where
  "merge_polish_rev_gtm_ac_xback = ac_table_nul merge_polish_rev_inverse_table"

definition merge_polish_rev_gtm_ac_version :: int where
  "merge_polish_rev_gtm_ac_version = 3"

definition merge_polish_rev_gtm_ac_verify :: "byte \<Rightarrow> byte \<Rightarrow> int" where
  "merge_polish_rev_gtm_ac_verify type ver = (if uint ver = 3 then 0 else 1)"

section \<open>The tables are permutations\<close>

lemmas col_tables =
  col_polish_xform_table_def col_polish_inverse_table_def
  col_polish_rev_xform_table_def col_polish_rev_inverse_table_def
  col_straight_xform_table_def col_straight_inverse_table_def
  col_reverse_xform_table_def col_reverse_inverse_table_def

lemma col_polish_inverse:
  "map (\<lambda>x. col_polish_inverse_table ! x) col_polish_xform_table = [0..<256]"
  by code_simp

interpretation col_polish: byte_table col_polish_xform_table col_polish_inverse_table
  using col_polish_inverse by unfold_locales (simp_all add: col_tables)

lemma col_polish_rev_tables:
  "col_polish_rev_xform_table = col_polish_inverse_table"
  "col_polish_rev_inverse_table = col_polish_xform_table"
  by (simp_all add: col_tables)

interpretation col_polish_rev: byte_table col_polish_rev_xform_table col_polish_rev_inverse_table
  unfolding col_polish_rev_tables by (rule col_polish.swap)

lemma col_straight_upt: "col_straight_xform_table = [0..<256]"
  by code_simp

lemma col_straight_inverse: "col_straight_inverse_table = col_straight_xform_table"
  by (simp add: col_tables)

lemma col_straight_tables:
  "col_straight_xform_table = [0..<256]" "col_straight_inverse_table = [0..<256]"
  by (simp_all add: col_straight_upt col_straight_inverse)

interpretation col_straight: byte_table col_straight_xform_table col_straight_inverse_table
  by unfold_locales (auto simp: col_straight_tables list_all_length intro!: nth_equalityI)

lemma col_reverse_rev: "rev col_reverse_xform_table = [0..<256]"
  by code_simp

lemma col_reverse_inverse: "col_reverse_inverse_table = col_reverse_xform_table"
  by (simp add: col_tables)

lemma col_reverse_tables:
  "col_reverse_xform_table = rev [0..<256]" "col_reverse_inverse_table = rev [0..<256]"
  by (simp_all add: col_reverse_inverse flip: col_reverse_rev)

interpretation col_reverse: byte_table col_reverse_xform_table col_reverse_inverse_table
  by unfold_locales (auto simp: col_reverse_tables list_all_length rev_nth intro!: nth_equalityI)

section \<open>Properties\<close>

lemmas col_entry_defs =
  col_polish_gtm_ac_xform_def col_polish_gtm_ac_xback_def
  col_polish_rev_gtm_ac_xform_def col_polish_rev_gtm_ac_xback_def
  col_straight_gtm_ac_xform_def col_straight_gtm_ac_xback_def
  col_reverse_gtm_ac_xform_def col_reverse_gtm_ac_xback_def
  polish_gtm_ac_xform_def polish_gtm_ac_xback_def polish_xform_table_def polish_inverse_table_def
  merge_polish_gtm_ac_xform_def merge_polish_gtm_ac_xback_def
  merge_polish_xform_table_def merge_polish_inverse_table_def
  merge_polish_rev_gtm_ac_xform_def merge_polish_rev_gtm_ac_xback_def
  merge_polish_rev_xform_table_def merge_polish_rev_inverse_table_def

text \<open>The modules with their two routines and the bytes they touch behind a key.\<close>

definition table_modules :: "(ac_fun \<times> ac_fun \<times> nat) list" where
  "table_modules =
     [(col_polish_gtm_ac_xform, col_polish_gtm_ac_xback, 1),
      (col_polish_rev_gtm_ac_xform, col_polish_rev_gtm_ac_xback, 1),
      (col_straight_gtm_ac_xform, col_straight_gtm_ac_xback, 0),
      (col_reverse_gtm_ac_xform, col_reverse_gtm_ac_xback, 0),
      (polish_gtm_ac_xform, polish_gtm_ac_xback, 1),
      (merge_polish_gtm_ac_xform, merge_polish_gtm_ac_xback, 1),
      (merge_polish_rev_gtm_ac_xform, merge_polish_rev_gtm_ac_xback, 1)]"

lemma table_modules_cases:
  assumes "(xform, xback, extra) \<in> set table_modules"
  obtains
    "xform = ac_table_nul col_polish_xform_table" "xback = ac_table_nul col_polish_inverse_table" "extra = 1"
  | "xform = ac_table_nul col_polish_rev_xform_table" "xback = ac_table_nul col_polish_rev_inverse_table" "extra = 1"
  | "xform = ac_table col_straight_xform_table" "xback = ac_table col_straight_inverse_table" "extra = 0"
  | "xform = ac_table col_reverse_xform_table" "xback = ac_table col_reverse_inverse_table" "extra = 0"
  using assms by (auto simp: table_modules_def col_entry_defs)

text \<open>
  C1: every table-driven collation module loses nothing: a subscript that fits the
  destination is transformed into a key with status 0, and transforming that key back
  gives the subscript again, byte for byte.
\<close>

theorem table_modules_roundtrip:
  assumes "(xform, xback, extra) \<in> set table_modules"
    and "src_holds src s" "has_room extra dst (length s)" "has_room extra dst2 (length s)"
  shows "\<exists>r. xform src level dst dstlen = Inr r \<and> ac_status r = 0 \<and>
             gives (xback (as_source r) level dst2 dstlen2) dst2 s"
  using assms(1)
proof (rule table_modules_cases)
qed (use assms(2-4) in \<open>auto intro!: col_polish.nul.roundtrip col_polish_rev.nul.roundtrip
    col_straight.plain.roundtrip col_reverse.plain.roundtrip\<close>)

theorem table_modules_roundtrip_witness:
  "\<exists>r. col_polish_gtm_ac_xform \<lparr>d_len = 2, d_val = [65, 161]\<rparr> 0 \<lparr>d_len = 2, d_val = [0, 0, 0]\<rparr> 0 = Inr r \<and>
       ac_status r = 0 \<and>
       gives (col_polish_gtm_ac_xback (as_source r) 0 \<lparr>d_len = 2, d_val = [0, 0, 0]\<rparr> 0)
         \<lparr>d_len = 2, d_val = [0, 0, 0]\<rparr> [65, 161]"
  by (rule table_modules_roundtrip [where s = "[65, 161]" and extra = 1])
    (simp_all add: table_modules_def src_holds_def has_room_def)

lemma table_modules_same_key:
  assumes "(xform, xback, extra) \<in> set table_modules"
    and "src_holds src s" "has_room extra dst (length s)"
    and "src_holds src' t" "has_room extra dst' (length t)"
    and "xform src level dst dl = Inr r" "xform src' level dst' dl' = Inr r'"
    and "take (nat (ac_dstlen r)) (d_val (ac_dst r)) = take (nat (ac_dstlen r')) (d_val (ac_dst r'))"
  shows "s = t"
  using assms(1)
proof (rule table_modules_cases)
qed (use assms(2-) col_polish.nul.distinct_keys [OF TrueI _ _ TrueI]
    col_polish_rev.nul.distinct_keys [OF TrueI _ _ TrueI]
    col_straight.plain.distinct_keys [OF TrueI _ _ TrueI]
    col_reverse.plain.distinct_keys [OF TrueI _ _ TrueI] in \<open>simp; blast\<close>)+

lemma table_modules_succeed:
  assumes "(xform, xback, extra) \<in> set table_modules" "src_holds src s" "has_room extra dst (length s)"
  shows "\<exists>r. xform src level dst dl = Inr r \<and> ac_status r = 0"
  using assms(1)
proof (rule table_modules_cases)
qed (use assms(2-) in \<open>simp add: ac_table_spec ac_table_nul_spec\<close>)+

text \<open>
  two different subscripts never collide: every module writes keys for them that
  differ in length or bytes.
\<close>

theorem table_modules_distinct_keys:
  assumes "(xform, xback, extra) \<in> set table_modules"
    and "src_holds src s" "has_room extra dst (length s)"
    and "src_holds src' t" "has_room extra dst' (length t)" "s \<noteq> t"
  shows "\<exists>r r'. xform src level dst dl = Inr r \<and> xform src' level dst' dl' = Inr r' \<and>
           ac_status r = 0 \<and> ac_status r' = 0 \<and>
           take (nat (ac_dstlen r)) (d_val (ac_dst r)) \<noteq> take (nat (ac_dstlen r')) (d_val (ac_dst r'))"
  using table_modules_succeed [OF assms(1-3), of level dl] table_modules_succeed [OF assms(1,4,5), of level dl']
    table_modules_same_key [OF assms(1-5)] assms(6) by blast

theorem table_modules_distinct_keys_witness:
  "\<exists>r r'. col_straight_gtm_ac_xform \<lparr>d_len = 1, d_val = [65]\<rparr> 0 \<lparr>d_len = 1, d_val = [0]\<rparr> 0 = Inr r \<and>
     col_straight_gtm_ac_xform \<lparr>d_len = 1, d_val = [66]\<rparr> 0 \<lparr>d_len = 1, d_val = [0]\<rparr> 0 = Inr r' \<and>
     ac_status r = 0 \<and> ac_status r' = 0 \<and>
     take (nat (ac_dstlen r)) (d_val (ac_dst r)) \<noteq> take (nat (ac_dstlen r')) (d_val (ac_dst r'))"
  by (rule table_modules_distinct_keys [where s = "[65]" and t = "[66]" and extra = 0
        and xback = col_straight_gtm_ac_xback])
    (simp_all add: table_modules_def src_holds_def has_room_def)

text \<open>
  the Polish modules write one byte more than the destination's length field allows.
  A subscript that exactly fills a destination allocated with \<open>dst->len\<close> bytes makes
  them store out of bounds, where col_straight.c and col_reverse.c succeed.
\<close>

theorem polish_overruns_full_destination:
  assumes "src_holds src s" "d_len dst = int (length s)" "length (d_val dst) = length s"
  shows "col_polish_gtm_ac_xform src level dst dstlen = Inl OutOfBounds \<and>
     col_polish_gtm_ac_xback src level dst dstlen = Inl OutOfBounds \<and>
     gives (col_straight_gtm_ac_xform src level dst dstlen) dst (map (tbl_get col_straight_xform_table) s) \<and>
     gives (col_reverse_gtm_ac_xform src level dst dstlen) dst (map (tbl_get col_reverse_xform_table) s)"
  using assms
  by (simp add: col_entry_defs ac_table_nul_overrun has_room_def
      col_straight.plain.xform_gives col_reverse.plain.xform_gives)

theorem polish_overruns_full_destination_witness:
  "col_polish_gtm_ac_xform \<lparr>d_len = 1, d_val = [65]\<rparr> 0 \<lparr>d_len = 1, d_val = [0]\<rparr> 0 = Inl OutOfBounds"
  using polish_overruns_full_destination [of "\<lparr>d_len = 1, d_val = [65]\<rparr>" "[65]" "\<lparr>d_len = 1, d_val = [0]\<rparr>" 0 0]
  by (simp add: src_holds_def)

text \<open>
  com/col_polish.c orders the ISO 8859-2 letters as the Polish alphabet does: each letter
  with a diacritic gets a key strictly between its base letter and the next one, and Z
  with acute comes before Z with dot above, in both cases.
\<close>

definition polish_triples :: "(nat \<times> nat \<times> nat) list" where
  "polish_triples =
     [(65, 161, 66), (97, 177, 98), (67, 198, 68), (99, 230, 100), (69, 202, 70), (101, 234, 102),
      (76, 163, 77), (108, 179, 109), (78, 209, 79), (110, 241, 111), (79, 211, 80), (111, 243, 112),
      (83, 166, 84), (115, 182, 116), (90, 172, 91), (172, 175, 91), (122, 188, 123), (188, 191, 123)]"

theorem polish_alphabet_order:
  "list_all (\<lambda>(base, letter, nxt).
     tbl_get col_polish_xform_table (word_of_nat base) < tbl_get col_polish_xform_table (word_of_nat letter) \<and>
     tbl_get col_polish_xform_table (word_of_nat letter) < tbl_get col_polish_xform_table (word_of_nat nxt))
   polish_triples"
  by (simp add: polish_triples_def tbl_get_def col_polish_xform_table_def)

text \<open>
  com/col_polish_rev.c is the inverse module of com/col_polish.c: each one's transform
  is the other's transform back, so collating by one and then by the other is the identity.
\<close>

theorem polish_rev_inverts_polish:
  "col_polish_rev_gtm_ac_xform = col_polish_gtm_ac_xback \<and>
   col_polish_rev_gtm_ac_xback = col_polish_gtm_ac_xform"
  by (simp add: fun_eq_iff col_entry_defs col_polish_rev_tables)

lemma xutil_before:
  assumes "0 < length (d_val inp)" "0 < length (d_val out)" "1 \<le> unat (d_val inp ! 0)"
  shows "ac_xutil tbl inp level out outlen 1 honor =
    Inr \<lparr>ac_status = 0,
      ac_dst = out\<lparr>d_val := (d_val out)[0 := word_of_nat (tbl ! (unat (d_val inp ! 0) - 1))]\<rparr>,
      ac_dstlen = 1\<rparr>"
  using assms by (simp add: ac_xutil_def)

lemma unat_reverse_get: "unat (tbl_get col_reverse_xform_table b) = 255 - unat b"
  by (simp add: col_reverse.unat_tbl_get) (simp add: col_reverse_tables rev_nth)

lemma reverse_get_less:
  "tbl_get col_reverse_xform_table a < tbl_get col_reverse_xform_table b \<longleftrightarrow> b < a"
proof -
  have "255 - unat a < 255 - unat b \<longleftrightarrow> unat b < unat a"
    using unat_byte_less [of a] unat_byte_less [of b] by linarith
  then show ?thesis by (simp add: word_less_nat_alt unat_reverse_get)
qed

text \<open>
  com/col_reverse.c collates in reverse: for subscripts of the same length, the byte
  order of the keys is exactly the opposite of the byte order of the subscripts.
\<close>

theorem reverse_reverses_order:
  assumes "length s = length t"
  shows "ord_class.lexordp (map (tbl_get col_reverse_xform_table) s) (map (tbl_get col_reverse_xform_table) t)
         \<longleftrightarrow> ord_class.lexordp t s"
  using assms
  by (induction s t rule: list_induct2) (auto simp: reverse_get_less)

theorem reverse_reverses_order_witness:
  "ord_class.lexordp (map (tbl_get col_reverse_xform_table) [66, 65]) (map (tbl_get col_reverse_xform_table) [65, 66])
   \<longleftrightarrow> ord_class.lexordp [65, 66 :: byte] [66, 65]"
  by (rule reverse_reverses_order) simp

text \<open>
  \<open>gtm_ac_xutil\<close> of com/col_reverse.c answers "the character collating before" with
  the wrong neighbour: operation 1 writes the key of the previous byte, which in this
  collation is one above the input's own key, so it collates after it. For
  com/col_straight.c the same code gives the key one below.
\<close>

theorem reverse_xutil_before_is_after:
  assumes "0 < length (d_val inp)" "0 < length (d_val out)" "1 \<le> unat (d_val inp ! 0)"
  shows "(\<exists>r. col_reverse_gtm_ac_xutil inp level out outlen 1 honor = Inr r \<and> ac_dstlen r = 1 \<and>
             unat (d_val (ac_dst r) ! 0) = unat (tbl_get col_reverse_xform_table (d_val inp ! 0)) + 1) \<and>
         (\<exists>r. col_straight_gtm_ac_xutil inp level out outlen 1 honor = Inr r \<and> ac_dstlen r = 1 \<and>
             unat (d_val (ac_dst r) ! 0) + 1 = unat (tbl_get col_straight_xform_table (d_val inp ! 0)))"
proof -
  let ?b = "d_val inp ! 0"
  have b: "unat ?b < 256" "unat ?b - 1 < 256" using unat_byte_less [of ?b] by linarith+
  have rev: "unat (word_of_nat (col_reverse_xform_table ! (unat ?b - 1)) :: byte) = 255 - unat ?b + 1"
  proof -
    have "col_reverse_xform_table ! (unat ?b - 1) = 256 - unat ?b"
      using assms(3) b by (simp add: col_reverse_tables rev_nth del: of_nat_diff)
    moreover have "256 - unat ?b < 256" "256 - unat ?b = 255 - unat ?b + 1"
      using assms(3) b(1) by linarith+
    ultimately show ?thesis unfolding unat_of_nat by simp
  qed
  have str: "unat (word_of_nat (col_straight_xform_table ! (unat ?b - 1)) :: byte) + 1 = unat ?b"
    using assms(3) b by (simp add: col_straight_tables unat_of_nat del: of_nat_diff)
  have id: "unat (tbl_get col_straight_xform_table ?b) = unat ?b"
    using b by (simp add: col_straight.unat_tbl_get) (simp add: col_straight_tables)
  show ?thesis
    using rev str assms(1,2)
    by (simp add: col_reverse_gtm_ac_xutil_def col_straight_gtm_ac_xutil_def xutil_before [OF assms]
        unat_reverse_get id)
qed

theorem reverse_xutil_before_is_after_witness:
  "\<exists>r. col_reverse_gtm_ac_xutil \<lparr>d_len = 1, d_val = [66]\<rparr> 0 \<lparr>d_len = 1, d_val = [0]\<rparr> 0 1 0 = Inr r \<and>
       ac_dstlen r = 1 \<and>
       unat (d_val (ac_dst r) ! 0) = unat (tbl_get col_reverse_xform_table ([66] ! 0)) + 1"
  using reverse_xutil_before_is_after [of "\<lparr>d_len = 1, d_val = [66]\<rparr>" "\<lparr>d_len = 1, d_val = [0]\<rparr>" 0 0 0]
  by simp

end
