(* ===== verification/CollationComplex.thy ===== *)
theory CollationComplex
  imports Collation
begin

text \<open>
  com/col_complex.c, the collation module for error testing: it swaps the letters a and b,
  and refuses the subscripts that begin with one of two magic texts with an error status
  of its own. Its routines never look at the destination's length.
\<close>

section \<open>The routines\<close>

definition ERR_BADCHAR :: int where "ERR_BADCHAR = 0x87658765"
definition ERR_SUB2LONG :: int where "ERR_SUB2LONG = 150375154"

definition bytes_of :: "string \<Rightarrow> mem" where
  "bytes_of s = map of_char s"

text \<open>
  \<open>strncmp(inbuf, text, n)\<close> where \<open>n\<close> is the length of the text, started at
  index \<open>i\<close> of the buffer: bytes are read until two differ, so the value's length
  field plays no role.
\<close>

fun strncmp_text :: "mem \<Rightarrow> nat \<Rightarrow> mem \<Rightarrow> c_fault + int" where
  "strncmp_text m i [] = Inr 0"
| "strncmp_text m i (c # cs) =
     bindE (load m i) (\<lambda>b. if b \<noteq> c then Inr (uint b - uint c) else strncmp_text m (Suc i) cs)"

definition swap_ab :: "byte \<Rightarrow> byte" where
  "swap_ab ch = (if ch = 97 then 98 else if ch = 98 then 97 else ch)"

definition badchar_text :: mem where "badchar_text = bytes_of ''please return BADCHAR''"
definition sub2long_text :: mem where "sub2long_text = bytes_of ''please return SUB2LONG''"

definition complex_gtm_ac_xback :: ac_fun where
  "complex_gtm_ac_xback src level dst dstlen =
     bindE (copy_loop swap_ab (nat (d_len src)) (d_val src) (d_val dst) 0) (\<lambda>out.
     Inr \<lparr>ac_status = 0, ac_dst = dst\<lparr>d_val := out\<rparr>, ac_dstlen = d_len src\<rparr>)"

definition complex_gtm_ac_xform :: ac_fun where
  "complex_gtm_ac_xform src level dst dstlen =
     bindE (strncmp_text (d_val src) 0 badchar_text) (\<lambda>cmp.
     if cmp = 0 then Inr \<lparr>ac_status = ERR_BADCHAR, ac_dst = dst, ac_dstlen = dstlen\<rparr>
     else bindE (strncmp_text (d_val src) 0 sub2long_text) (\<lambda>cmp2.
     if cmp2 = 0 then Inr \<lparr>ac_status = ERR_SUB2LONG, ac_dst = dst, ac_dstlen = dstlen\<rparr>
     else bindE (copy_loop swap_ab (nat (d_len src)) (d_val src) (d_val dst) 0) (\<lambda>out.
     Inr \<lparr>ac_status = 0, ac_dst = dst\<lparr>d_val := out\<rparr>, ac_dstlen = d_len src\<rparr>)))"

text \<open>The characters operations 1 and 2 of \<open>gtm_ac_xutil\<close> step to.\<close>

definition complex_before :: "byte \<Rightarrow> byte" where
  "complex_before ch = (if ch = 97 then ch + 1 else if ch = 98 \<or> ch = 99 then ch - 2 else ch - 1)"

definition complex_after :: "byte \<Rightarrow> byte" where
  "complex_after ch = (if ch = 96 \<or> ch = 97 then ch + 2 else if ch = 98 then ch - 1 else ch + 1)"

definition complex_gtm_ac_xutil ::
    "gtm_descriptor \<Rightarrow> int \<Rightarrow> gtm_descriptor \<Rightarrow> int \<Rightarrow> int \<Rightarrow> int \<Rightarrow> c_fault + ac_result" where
  "complex_gtm_ac_xutil inp level out outlen op honor_numeric =
     bindE (load (d_val inp) 0) (\<lambda>charindx.
       if op = 0 then
         bindE (store (d_val out) 0 charindx) (\<lambda>o1.
         Inr \<lparr>ac_status = 0, ac_dst = out\<lparr>d_val := o1\<rparr>, ac_dstlen = 1\<rparr>)
       else if op = 1 then
         (if 1 \<le> unat charindx then
            bindE (store (d_val out) 0 (complex_before charindx)) (\<lambda>o1.
            Inr \<lparr>ac_status = 0, ac_dst = out\<lparr>d_val := o1\<rparr>, ac_dstlen = 1\<rparr>)
          else Inr \<lparr>ac_status = 0, ac_dst = out, ac_dstlen = 0\<rparr>)
       else if op = 2 then
         (if 254 \<ge> unat charindx then
            bindE (store (d_val out) 0 (complex_after charindx)) (\<lambda>o1.
            Inr \<lparr>ac_status = 0, ac_dst = out\<lparr>d_val := o1\<rparr>, ac_dstlen = 1\<rparr>)
          else Inr \<lparr>ac_status = 0, ac_dst = out, ac_dstlen = 0\<rparr>)
       else Inr \<lparr>ac_status = -1, ac_dst = out, ac_dstlen = outlen\<rparr>)"

definition complex_gtm_ac_version :: int where "complex_gtm_ac_version = 3"

definition complex_gtm_ac_verify :: "byte \<Rightarrow> byte \<Rightarrow> int" where
  "complex_gtm_ac_verify type ver = (if uint ver = 3 then 0 else 1)"

section \<open>The comparison with the magic texts\<close>

lemma strncmp_text_prefix:
  "i + length t \<le> length m \<Longrightarrow> take (length t) (drop i m) = t \<Longrightarrow> strncmp_text m i t = Inr 0"
proof (induction t arbitrary: i)
  case (Cons c cs)
  then have "i < length m" by simp
  with Cons show ?case by (simp add: Cons_nth_drop_Suc [symmetric])
qed simp

text \<open>The subscript and the text differ at a byte both have.\<close>

fun differs :: "mem \<Rightarrow> mem \<Rightarrow> bool" where
  "differs (x # xs) (y # ys) = (x \<noteq> y \<or> differs xs ys)"
| "differs _ _ = False"

lemma strncmp_text_differs:
  assumes "differs s t" "i + length s \<le> length m" "take (length s) (drop i m) = s"
  shows "\<exists>k. strncmp_text m i t = Inr k \<and> k \<noteq> 0"
  using assms
proof (induction s t arbitrary: i rule: differs.induct)
  case (1 x xs y ys)
  then have i: "i < length m" "m ! i = x" "take (length xs) (drop (Suc i) m) = xs"
    by (auto simp: Cons_nth_drop_Suc [symmetric])
  show ?case
  proof (cases "x = y")
    case True
    with 1 i show ?thesis by simp
  next
    case False
    then have "uint x - uint y \<noteq> 0" by (metis eq_iff_diff_eq_0 word_of_int_uint)
    with i False show ?thesis by simp
  qed
qed auto

section \<open>The module is a collation\<close>

lemma swap_ab_swap_ab [simp]: "swap_ab (swap_ab b) = b"
  by (simp add: swap_ab_def)

definition complex_accepts :: "mem \<Rightarrow> bool" where
  "complex_accepts s \<longleftrightarrow> differs s badchar_text \<and> differs s sub2long_text"

text \<open>Only the allocation matters: the capacity in the destination's descriptor is not checked.\<close>

definition fits :: "gtm_descriptor \<Rightarrow> nat \<Rightarrow> bool" where
  "fits dst n \<longleftrightarrow> n \<le> length (d_val dst)"

lemma swap_copy:
  assumes "src_holds src s" "fits dst (length s)"
  shows "copy_loop swap_ab (nat (d_len src)) (d_val src) (d_val dst) 0 =
         Inr (map swap_ab s @ drop (length s) (d_val dst))"
  using assms copy_loop_spec [of 0 "length s" "d_val src" "d_val dst" swap_ab]
  by (simp add: src_holds_def fits_def)

lemma complex_xback_gives:
  "src_holds src s \<Longrightarrow> fits dst (length (map swap_ab s)) \<Longrightarrow>
   gives (complex_gtm_ac_xback src level dst dstlen) dst (map swap_ab s)"
  by (simp add: complex_gtm_ac_xback_def swap_copy gives_def) (simp add: src_holds_def fits_def)

lemma complex_xform_xback:
  assumes "complex_accepts s" "src_holds src s"
  shows "complex_gtm_ac_xform src level dst dstlen = complex_gtm_ac_xback src level dst dstlen"
proof -
  have m: "0 + length s \<le> length (d_val src)" "take (length s) (drop 0 (d_val src)) = s"
    using assms(2) by (simp_all add: src_holds_def)
  from assms(1) have "differs s badchar_text" "differs s sub2long_text"
    by (simp_all add: complex_accepts_def)
  from this [THEN strncmp_text_differs, OF m] show ?thesis
    by (auto simp: complex_gtm_ac_xform_def complex_gtm_ac_xback_def)
qed

interpretation complex: ac_routine complex_gtm_ac_xform complex_gtm_ac_xback
    "map swap_ab" "map swap_ab" complex_accepts "\<lambda>_. True" fits
proof unfold_locales
  fix src s dst level dstlen
  assume "complex_accepts s" "src_holds src s" "fits dst (length (map swap_ab s))"
  then show "gives (complex_gtm_ac_xform src level dst dstlen) dst (map swap_ab s)"
    by (simp only: complex_xform_xback complex_xback_gives)
qed (auto simp: fits_def map_idI intro: complex_xback_gives [unfolded fits_def length_map])

section \<open>Properties\<close>

lemma src_holds_prefix:
  assumes "src_holds src s" "take (length t) s = t"
  shows "length t \<le> length (d_val src)" "take (length t) (d_val src) = t"
proof -
  have n: "length t \<le> length s" using assms(2) by (metis length_take min.cobounded1)
  then show "length t \<le> length (d_val src)" using assms(1) by (simp add: src_holds_def)
  have "take (length t) (take (length s) (d_val src)) = t"
    using assms by (simp add: src_holds_def)
  then show "take (length t) (d_val src) = t" using n by (simp add: min.absorb1)
qed

lemma src_holds_text:
  "src_holds src s \<Longrightarrow> take (length t) s = t \<Longrightarrow> strncmp_text (d_val src) 0 t = Inr 0"
  using src_holds_prefix by (intro strncmp_text_prefix) simp_all

lemma texts_differ: "differs sub2long_text badchar_text"
  by (simp add: badchar_text_def sub2long_text_def bytes_of_def)

lemma complex_badchar:
  "src_holds src s \<Longrightarrow> take (length badchar_text) s = badchar_text \<Longrightarrow>
   complex_gtm_ac_xform src level dst dstlen = Inr \<lparr>ac_status = ERR_BADCHAR, ac_dst = dst, ac_dstlen = dstlen\<rparr>"
  by (simp add: complex_gtm_ac_xform_def src_holds_text)

lemma complex_sub2long:
  assumes "src_holds src s" "take (length sub2long_text) s = sub2long_text"
  shows "complex_gtm_ac_xform src level dst dstlen =
         Inr \<lparr>ac_status = ERR_SUB2LONG, ac_dst = dst, ac_dstlen = dstlen\<rparr>"
proof -
  obtain k where "strncmp_text (d_val src) 0 badchar_text = Inr k" "k \<noteq> 0"
    using strncmp_text_differs [OF texts_differ, of 0 "d_val src"] src_holds_prefix [OF assms] by auto
  with src_holds_text [OF assms] show ?thesis by (simp add: complex_gtm_ac_xform_def)
qed

text \<open>
  com/col_complex.c decides a subscript by the bytes its buffer begins with: one that
  starts with the first text gets ERR_BADCHAR, one that starts with the second
  ERR_SUB2LONG, in both cases with the destination untouched; one that differs from both
  is transformed by swapping a and b, and transformed back to itself.
\<close>

theorem complex_xform_decides:
  assumes "src_holds src s" "fits dst (length s)" "fits dst2 (length s)"
  shows "(take (length badchar_text) s = badchar_text \<longrightarrow>
            complex_gtm_ac_xform src level dst dstlen = Inr \<lparr>ac_status = ERR_BADCHAR, ac_dst = dst, ac_dstlen = dstlen\<rparr>) \<and>
         (take (length sub2long_text) s = sub2long_text \<longrightarrow>
            complex_gtm_ac_xform src level dst dstlen = Inr \<lparr>ac_status = ERR_SUB2LONG, ac_dst = dst, ac_dstlen = dstlen\<rparr>) \<and>
         (complex_accepts s \<longrightarrow>
            gives (complex_gtm_ac_xform src level dst dstlen) dst (map swap_ab s) \<and>
            (\<exists>r. complex_gtm_ac_xform src level dst dstlen = Inr r \<and>
                 gives (complex_gtm_ac_xback (as_source r) level dst2 dstlen2) dst2 s))"
proof (intro conjI impI)
  show "gives (complex_gtm_ac_xform src level dst dstlen) dst (map swap_ab s)" if "complex_accepts s"
    using complex.xform_gives [OF that assms(1)] assms(2) by simp
  show "\<exists>r. complex_gtm_ac_xform src level dst dstlen = Inr r \<and>
            gives (complex_gtm_ac_xback (as_source r) level dst2 dstlen2) dst2 s" if "complex_accepts s"
    using complex.roundtrip [OF that assms(1) _ assms(3), of dst level dstlen dstlen2] assms(2) by auto
qed (use assms(1) in \<open>simp_all only: complex_badchar complex_sub2long\<close>)

theorem complex_xform_decides_witness:
  "gives (complex_gtm_ac_xform \<lparr>d_len = 2, d_val = [97, 99]\<rparr> 0 \<lparr>d_len = 0, d_val = [0, 0]\<rparr> 0)
     \<lparr>d_len = 0, d_val = [0, 0]\<rparr> [98, 99]"
  using complex_xform_decides [of "\<lparr>d_len = 2, d_val = [97, 99]\<rparr>" "[97, 99]"
      "\<lparr>d_len = 0, d_val = [0, 0]\<rparr>" "\<lparr>d_len = 0, d_val = [0, 0]\<rparr>" 0 0 0]
  by (simp add: src_holds_def fits_def complex_accepts_def badchar_text_def sub2long_text_def
      bytes_of_def swap_ab_def)

lemma byte_step:
  "unat b < 255 \<Longrightarrow> unat (b + 1 :: byte) = unat b + 1"
  "1 \<le> unat b \<Longrightarrow> unat (b - 1 :: byte) + 1 = unat b"
  using unat_add_lem [of b 1] unat_sub [of 1 b] by (simp_all add: word_le_nat_alt)

lemma swap_ab_step:
  "unat b < 255 \<Longrightarrow> unat (swap_ab (complex_after b)) = unat (swap_ab b) + 1"
  "1 \<le> unat b \<Longrightarrow> unat (swap_ab (complex_before b)) + 1 = unat (swap_ab b)"
  using byte_step [of b]
  by (cases "b = 96 \<or> b = 97 \<or> b = 98 \<or> b = 99";
      auto simp: swap_ab_def complex_after_def complex_before_def)+

text \<open>
  Operations 1 and 2 of \<open>gtm_ac_xutil\<close> of com/col_complex.c walk the collation: the
  character after any character but the last has the key one above, the character before
  any but the first has the key one below.
\<close>

theorem complex_xutil_walks:
  assumes "0 < length (d_val inp)" "0 < length (d_val out)"
  shows "(unat (d_val inp ! 0) < 255 \<longrightarrow>
            (\<exists>r. complex_gtm_ac_xutil inp level out outlen 2 honor = Inr r \<and> ac_status r = 0 \<and> ac_dstlen r = 1 \<and>
                 unat (swap_ab (d_val (ac_dst r) ! 0)) = unat (swap_ab (d_val inp ! 0)) + 1)) \<and>
         (1 \<le> unat (d_val inp ! 0) \<longrightarrow>
            (\<exists>r. complex_gtm_ac_xutil inp level out outlen 1 honor = Inr r \<and> ac_status r = 0 \<and> ac_dstlen r = 1 \<and>
                 unat (swap_ab (d_val (ac_dst r) ! 0)) + 1 = unat (swap_ab (d_val inp ! 0))))"
  using assms swap_ab_step [of "d_val inp ! 0"] by (simp add: complex_gtm_ac_xutil_def)

theorem complex_xutil_walks_witness:
  "\<exists>r. complex_gtm_ac_xutil \<lparr>d_len = 1, d_val = [98]\<rparr> 0 \<lparr>d_len = 1, d_val = [0]\<rparr> 0 2 0 = Inr r \<and>
       unat (swap_ab (d_val (ac_dst r) ! 0)) = unat (swap_ab 98) + 1"
  using complex_xutil_walks [of "\<lparr>d_len = 1, d_val = [98]\<rparr>" "\<lparr>d_len = 1, d_val = [0]\<rparr>" 0 0 0] by auto

text \<open>
  The comment of \<open>gtm_ac_xutil\<close> in com/col_complex.c says operation 0 swaps a and b;
  the code answers with the character itself, which for these two letters is not the key
  \<open>gtm_ac_xform\<close> gives them.
\<close>

theorem complex_xutil_0_not_key:
  assumes "d_val inp = [97]" "0 < length (d_val out)"
  shows "\<exists>r. complex_gtm_ac_xutil inp level out outlen 0 honor = Inr r \<and> ac_status r = 0 \<and>
             d_val (ac_dst r) ! 0 = 97 \<and> d_val (ac_dst r) ! 0 \<noteq> swap_ab (d_val inp ! 0)"
  using assms by (simp add: complex_gtm_ac_xutil_def swap_ab_def)

theorem complex_xutil_0_not_key_witness:
  "\<exists>r. complex_gtm_ac_xutil \<lparr>d_len = 1, d_val = [97]\<rparr> 0 \<lparr>d_len = 1, d_val = [0]\<rparr> 0 0 0 = Inr r \<and>
       d_val (ac_dst r) ! 0 \<noteq> swap_ab 97"
  using complex_xutil_0_not_key [of "\<lparr>d_len = 1, d_val = [97]\<rparr>" "\<lparr>d_len = 1, d_val = [0]\<rparr>" 0 0 0] by auto

end
