(* ===== verification/CollationUnicode.thy ===== *)
theory CollationUnicode
  imports Collation
begin

text \<open>
  The two collation modules for Unicode databases: com/col_unicode_numeric.c reverses the
  order of the Devanagari digits inside the destination buffer, com/col_chinese.c hands
  the subscript to iconv. The C library's iconv is a parameter of the second.
\<close>

section \<open>com/col_unicode_numeric.c\<close>

text \<open>\<open>memset(p, 0, n)\<close> and \<open>strncpy(dst, src, n)\<close> on allocated objects.\<close>

definition memset_0 :: "mem \<Rightarrow> nat \<Rightarrow> c_fault + mem" where
  "memset_0 m n = (if n \<le> length m then Inr (replicate n 0 @ drop n m) else Inl OutOfBounds)"

fun strncpy :: "mem \<Rightarrow> mem \<Rightarrow> nat \<Rightarrow> nat \<Rightarrow> c_fault + mem" where
  "strncpy dst src i 0 = Inr dst"
| "strncpy dst src i (Suc n) =
     bindE (load src i) (\<lambda>b.
     if b = 0 then
       bindE (memset_0 (drop i dst) (Suc n)) (\<lambda>rest. Inr (take i dst @ rest))
     else bindE (store dst i b) (\<lambda>dst'. strncpy dst' src (Suc i) n))"

text \<open>The loop over \<open>outbuf\<close>, at index \<open>i\<close>; \<open>continue\<close> is the next round.\<close>

function hindi_loop :: "nat \<Rightarrow> mem \<Rightarrow> nat \<Rightarrow> c_fault + mem" where
  "hindi_loop n out i =
     (if i < n then
        bindE (load out i) (\<lambda>b0.
        if b0 \<noteq> 224 then hindi_loop n out (i + 3)
        else bindE (load out (i + 1)) (\<lambda>b1.
        if b1 \<noteq> 165 then hindi_loop n out (i + 3)
        else bindE (load out (i + 2)) (\<lambda>b2.
             bindE (store out (i + 2) (word_of_int (341 - uint b2))) (\<lambda>out'.
             hindi_loop n out' (i + 3)))))
      else Inr out)"
  by pat_completeness auto
termination by (relation "measure (\<lambda>(n, out, i). n - i)") auto

declare hindi_loop.simps [simp del]

text \<open>
  The pointers \<open>src\<close> and \<open>dst\<close> may be null; the result is the status, the
  destination and \<open>*dstlen\<close>. The loads of \<open>srcbuf\<close> read the source up to its first
  NUL, the rest of the buffer is zero.
\<close>

definition hindinumreverse ::
    "gtm_descriptor option \<Rightarrow> int \<Rightarrow> gtm_descriptor option \<Rightarrow> int \<Rightarrow>
     c_fault + int \<times> gtm_descriptor option \<times> int" where
  "hindinumreverse src level dst dstlen =
     (case dst of None \<Rightarrow> Inr (MYAPPS_SUBSC2LONG, None, dstlen)
      | Some d \<Rightarrow>
        bindE (memset_0 (d_val d) (nat (d_len d))) (\<lambda>v.
        if src = None \<or> d_len (the src) = 0 then
          Inr (0, Some (d\<lparr>d_len := 0, d_val := v\<rparr>), 0)
        else if d_len (the src) > d_len d then
          Inr (MYAPPS_SUBSC2LONG, Some (d\<lparr>d_val := v\<rparr>), dstlen)
        else
          let n = nat (d_len (the src)) in
          bindE (strncpy (replicate (n + 1) 0) (d_val (the src)) 0 n) (\<lambda>srcbuf.
          bindE (strncpy v srcbuf 0 n) (\<lambda>out.
          bindE (hindi_loop n out 0) (\<lambda>out'.
          Inr (0, Some \<lparr>d_len = int n, d_val = out'\<rparr>, int n))))))"

definition hindi_gtm_ac_xform :: ac_fun where
  "hindi_gtm_ac_xform src level dst dstlen =
     bindE (hindinumreverse (Some src) level (Some dst) dstlen) (\<lambda>(status, d, len).
     Inr \<lparr>ac_status = status, ac_dst = the d, ac_dstlen = len\<rparr>)"

definition hindi_gtm_ac_xback :: ac_fun where
  "hindi_gtm_ac_xback src level dst dstlen =
     bindE (hindinumreverse (Some src) level (Some dst) dstlen) (\<lambda>(status, d, len).
     Inr \<lparr>ac_status = status, ac_dst = the d, ac_dstlen = len\<rparr>)"

definition hindi_gtm_ac_version :: int where "hindi_gtm_ac_version = 3"

definition hindi_gtm_ac_verify :: "byte \<Rightarrow> byte \<Rightarrow> int" where
  "hindi_gtm_ac_verify type ver = (if uint ver = 3 then 0 else 1)"

section \<open>What the loop computes\<close>

text \<open>
  On the key itself: every third byte of a triple that starts with 224, 165 is reflected.
\<close>

fun hindi_rev :: "mem \<Rightarrow> mem" where
  "hindi_rev (a # b # c # rest) =
     a # b # (if a = 224 \<and> b = 165 then word_of_int (341 - uint c) else c) # hindi_rev rest"
| "hindi_rev s = s"

lemma reflect [simp]: "word_of_int (341 - uint c) = (85 - c :: byte)"
  by (simp flip: wi_hom_sub)

lemma byte_341: "(341 :: byte) = 85"
  by simp

lemma hindi_rev_rev [simp]: "hindi_rev (hindi_rev s) = s"
  by (induction s rule: hindi_rev.induct) auto

lemma length_hindi_rev [simp]: "length (hindi_rev s) = length s"
  by (induction s rule: hindi_rev.induct) auto

lemma hindi_rev_short: "length s \<le> 2 \<Longrightarrow> hindi_rev s = s"
  by (cases s rule: hindi_rev.cases) auto

definition reflected :: "mem \<Rightarrow> nat \<Rightarrow> mem" where
  "reflected out i = (if out ! i = 224 \<and> out ! (i + 1) = 165 then out[i + 2 := 85 - out ! (i + 2)] else out)"

lemma hindi_loop_step:
  "i < n \<Longrightarrow> i + 3 \<le> length out \<Longrightarrow> hindi_loop n out i = hindi_loop n (reflected out i) (i + 3)"
  by (subst hindi_loop.simps) (simp add: reflected_def byte_341)

lemma hindi_loop_skip:
  "i + 3 * k \<le> n \<Longrightarrow> n \<le> length out \<Longrightarrow>
   \<exists>out'. hindi_loop n out i = hindi_loop n out' (i + 3 * k) \<and> length out' = length out \<and>
     drop (i + 3 * k) out' = drop (i + 3 * k) out"
proof (induction k arbitrary: i out)
  case (Suc k)
  have len: "length (reflected out i) = length out" by (simp add: reflected_def)
  have "drop (i + 3 + 3 * k) (reflected out i) = drop (i + 3 + 3 * k) out"
    by (simp add: reflected_def)
  with len Suc.IH [of "i + 3" "reflected out i"] Suc.prems show ?case
    by (simp add: hindi_loop_step add.assoc)
qed auto

lemma drop_3:
  "i + 2 < length m \<Longrightarrow> drop i m = m ! i # m ! (i + 1) # m ! (i + 2) # drop (i + 3) m"
  by (simp add: Cons_nth_drop_Suc [symmetric] numeral_3_eq_3)

lemma take_3:
  "i + 2 < length m \<Longrightarrow> take (i + 3) m = take i m @ [m ! i, m ! (i + 1), m ! (i + 2)]"
  by (simp add: take_Suc_conv_app_nth numeral_3_eq_3)

lemma reflected_key:
  assumes "i < n" "n \<le> length out"
  shows "take (i + 3) (take n (reflected out i)) @ hindi_rev (drop (i + 3) (take n (reflected out i))) =
         take i (take n out) @ hindi_rev (drop i (take n out))"
proof (cases "i + 2 < n")
  case True
  then have len: "i + 2 < length (take n (reflected out i))" "i + 2 < length (take n out)"
    using assms by (auto simp: reflected_def)
  show ?thesis
    unfolding take_3 [OF len(1)] drop_3 [OF len(2)]
    using True assms by (auto simp: reflected_def byte_341 take_update_swap list_update_beyond)
next
  case False
  have "hindi_rev (drop i (take n out)) = drop i (take n out)"
    using False by (intro hindi_rev_short) auto
  moreover have "take n (reflected out i) = take n out"
    using False by (simp add: reflected_def)
  ultimately show ?thesis using False append_take_drop_id [of i "take n out"] by simp
qed

lemma hindi_loop_spec:
  "n + 2 \<le> length out \<Longrightarrow>
   \<exists>out'. hindi_loop n out i = Inr out' \<and> length out' = length out \<and>
     take n out' = take i (take n out) @ hindi_rev (drop i (take n out))"
proof (induction "n - i" arbitrary: i out rule: less_induct)
  case less
  show ?case
  proof (cases "i < n")
    case True
    have "length (reflected out i) = length out" by (simp add: reflected_def)
    with True less.hyps [of "i + 3" "reflected out i"] less.prems reflected_key [of i n out]
    show ?thesis by (simp add: hindi_loop_step)
  next
    case False
    then show ?thesis by (simp add: hindi_loop.simps)
  qed
qed

lemma strncpy_copy:
  "0 \<notin> set (take n (drop i src)) \<Longrightarrow> strncpy dst src i n = copy_loop id n src dst i"
proof (induction n arbitrary: dst i)
  case (Suc n)
  show ?case
  proof (cases "i < length src")
    case True
    with Suc.prems have "src ! i \<noteq> 0" "0 \<notin> set (take n (drop (Suc i) src))"
      by (auto simp: Cons_nth_drop_Suc [symmetric])
    with True show ?thesis by (auto simp: Suc.IH bindE_assoc)
  qed simp
qed simp

lemma strncpy_text:
  assumes "0 \<notin> set s" "take (length s) src = s" "length s \<le> length src" "length s \<le> length dst"
  shows "strncpy dst src 0 (length s) = Inr (s @ drop (length s) dst)"
  using assms copy_loop_spec [of 0 "length s" src dst id] by (simp add: strncpy_copy)

section \<open>The module is a collation of its keys\<close>

text \<open>
  The routine clears \<open>dst->len\<close> bytes, so the descriptor must not overstate its
  allocation, and looks up to two bytes behind the key.
\<close>

definition hindi_room :: "gtm_descriptor \<Rightarrow> nat \<Rightarrow> bool" where
  "hindi_room dst n \<longleftrightarrow> int n \<le> d_len dst \<and> nat (d_len dst) \<le> length (d_val dst) \<and> n + 2 \<le> length (d_val dst)"

definition hindi_accepts :: "mem \<Rightarrow> bool" where
  "hindi_accepts s \<longleftrightarrow> 0 \<notin> set s \<and> 0 \<notin> set (hindi_rev s)"

lemma hindi_gives:
  assumes "0 \<notin> set s" "src_holds src s" "hindi_room dst (length s)"
  shows "gives (hindi_gtm_ac_xform src level dst dstlen) dst (hindi_rev s)"
proof -
  let ?n = "length s" and ?v = "replicate (nat (d_len dst)) 0 @ drop (nat (d_len dst)) (d_val dst)"
  have src: "take ?n (d_val src) = s" "?n \<le> length (d_val src)" "d_len src = int ?n"
    using assms(2) by (simp_all add: src_holds_def)
  have room: "int ?n \<le> d_len dst" "nat (d_len dst) \<le> length (d_val dst)" "?n + 2 \<le> length (d_val dst)"
    using assms(3) by (simp_all add: hindi_room_def)
  show ?thesis
  proof (cases "s = []")
    case True
    with src room show ?thesis
      by (simp add: hindi_gtm_ac_xform_def hindinumreverse_def memset_0_def gives_def)
  next
    case False
    have v: "length ?v = length (d_val dst)" using room by simp
    have c1: "strncpy (replicate (?n + 1) 0) (d_val src) 0 ?n = Inr (s @ [0])"
      using strncpy_text [OF assms(1) src(1,2), of "replicate (?n + 1) 0"]
      by (simp only: drop_replicate length_replicate) simp
    have c2: "strncpy ?v (s @ [0]) 0 ?n = Inr (s @ drop ?n ?v)"
      using strncpy_text [OF assms(1), of "s @ [0]" ?v] room v by simp
    have "?n + 2 \<le> length (s @ drop ?n ?v)" using room v by simp
    from hindi_loop_spec [OF this, of 0] obtain out where
      "hindi_loop ?n (s @ drop ?n ?v) 0 = Inr out" "length out = length (d_val dst)"
      "take ?n out = hindi_rev s"
      using room v by auto
    with False src room c1 c2 show ?thesis
      by (simp add: hindi_gtm_ac_xform_def hindinumreverse_def memset_0_def gives_def Let_def)
  qed
qed

lemma hindi_xback_xform: "hindi_gtm_ac_xback = hindi_gtm_ac_xform"
  by (simp add: fun_eq_iff hindi_gtm_ac_xback_def hindi_gtm_ac_xform_def)

interpretation hindi: ac_routine hindi_gtm_ac_xform hindi_gtm_ac_xback
    hindi_rev hindi_rev hindi_accepts "\<lambda>s. 0 \<notin> set s" hindi_room
  by unfold_locales
    (auto simp: hindi_room_def hindi_accepts_def hindi_xback_xform intro: hindi_gives [unfolded hindi_room_def])

section \<open>Properties of com/col_unicode_numeric.c\<close>

text \<open>The UTF-8 encoding of the Devanagari digit \<open>d\<close>, U+0966 to U+096F.\<close>

definition hindi_digit :: "nat \<Rightarrow> mem" where
  "hindi_digit d = [224, 165, word_of_nat (166 + d)]"

lemma hindi_rev_digit: "d \<le> 9 \<Longrightarrow> hindi_rev (hindi_digit d @ s) = hindi_digit (9 - d) @ hindi_rev s"
  by (simp add: hindi_digit_def of_nat_diff byte_341)

lemma hindi_rev_digits:
  "\<forall>d \<in> set ds. d \<le> 9 \<Longrightarrow>
   hindi_rev (concat (map hindi_digit ds)) = concat (map (\<lambda>d. hindi_digit (9 - d)) ds)"
  by (induction ds) (simp_all add: hindi_rev_digit)

lemma hindi_digit_less:
  assumes "d \<le> 9" "e \<le> 9"
  shows "ord_class.lexordp (hindi_digit d @ s) (hindi_digit e @ t) \<longleftrightarrow>
         d < e \<or> d = e \<and> ord_class.lexordp s t"
  using assms by (auto simp: hindi_digit_def word_less_nat_alt unat_of_nat word_unat_eq_iff
      simp del: of_nat_add)

lemma hindi_digits_nul_free: "\<forall>d \<in> set ds. d \<le> 9 \<Longrightarrow> 0 \<notin> set (concat (map hindi_digit ds))"
  by (auto simp: hindi_digit_def word_unat_eq_iff unat_of_nat simp del: of_nat_add)

text \<open>
  C2: the module for Hindi numbers does what it is for: the key of a number written in
  Devanagari digits has each digit replaced by its complement to nine, so two numbers of
  the same length collate in the opposite of their order.
\<close>

theorem hindi_numbers_reversed:
  assumes "length ds = length es" "\<forall>d \<in> set ds. d \<le> 9" "\<forall>d \<in> set es. d \<le> 9"
    and "src_holds src (concat (map hindi_digit ds))" "hindi_room dst (3 * length ds)"
  shows "gives (hindi_gtm_ac_xform src level dst dstlen) dst (concat (map (\<lambda>d. hindi_digit (9 - d)) ds)) \<and>
         (ord_class.lexordp (concat (map (\<lambda>d. hindi_digit (9 - d)) ds)) (concat (map (\<lambda>d. hindi_digit (9 - d)) es)) \<longleftrightarrow>
          ord_class.lexordp (concat (map hindi_digit es)) (concat (map hindi_digit ds)))"
proof
  have "length (concat (map hindi_digit ds)) = 3 * length ds"
    by (induction ds) (simp_all add: hindi_digit_def)
  with hindi_gives [OF hindi_digits_nul_free [OF assms(2)] assms(4)] assms(5)
  show "gives (hindi_gtm_ac_xform src level dst dstlen) dst (concat (map (\<lambda>d. hindi_digit (9 - d)) ds))"
    by (simp add: hindi_rev_digits [OF assms(2)])
  show "ord_class.lexordp (concat (map (\<lambda>d. hindi_digit (9 - d)) ds)) (concat (map (\<lambda>d. hindi_digit (9 - d)) es)) \<longleftrightarrow>
        ord_class.lexordp (concat (map hindi_digit es)) (concat (map hindi_digit ds))"
    using assms(1-3)
    by (induction ds es rule: list_induct2) (auto simp: hindi_digit_less)
qed

theorem hindi_numbers_reversed_witness:
  "gives (hindi_gtm_ac_xform \<lparr>d_len = 6, d_val = [224, 165, 167, 224, 165, 168]\<rparr> 0
      \<lparr>d_len = 6, d_val = [0, 0, 0, 0, 0, 0, 0, 0]\<rparr> 0)
     \<lparr>d_len = 6, d_val = [0, 0, 0, 0, 0, 0, 0, 0]\<rparr> (concat (map (\<lambda>d. hindi_digit (9 - d)) [1, 2]))"
  by (rule conjunct1 [OF hindi_numbers_reversed [where es = "[1, 3]"]])
    (simp_all add: src_holds_def hindi_room_def hindi_digit_def)

text \<open>
  com/col_unicode_numeric.c loses nothing on subscripts without NUL whose key has no
  NUL either: transforming forth and back gives the subscript again.
\<close>

theorem hindi_roundtrip:
  assumes "hindi_accepts s" "src_holds src s" "hindi_room dst (length s)" "hindi_room dst2 (length s)"
  shows "\<exists>r. hindi_gtm_ac_xform src level dst dstlen = Inr r \<and> ac_status r = 0 \<and>
             gives (hindi_gtm_ac_xback (as_source r) level dst2 dstlen2) dst2 s"
  using assms by (intro hindi.roundtrip) simp_all

theorem hindi_roundtrip_witness:
  "\<exists>r. hindi_gtm_ac_xform \<lparr>d_len = 3, d_val = [224, 165, 166]\<rparr> 0 \<lparr>d_len = 3, d_val = [1, 1, 1, 1, 1]\<rparr> 0 = Inr r \<and>
       gives (hindi_gtm_ac_xback (as_source r) 0 \<lparr>d_len = 3, d_val = [0, 0, 0, 0, 0]\<rparr> 0)
         \<lparr>d_len = 3, d_val = [0, 0, 0, 0, 0]\<rparr> [224, 165, 166]"
  using hindi_roundtrip [of "[224, 165, 166]" "\<lparr>d_len = 3, d_val = [224, 165, 166]\<rparr>"
      "\<lparr>d_len = 3, d_val = [1, 1, 1, 1, 1]\<rparr>" "\<lparr>d_len = 3, d_val = [0, 0, 0, 0, 0]\<rparr>" 0 0 0]
  by (auto simp: src_holds_def hindi_room_def hindi_accepts_def)

text \<open>
  A subscript that ends in the first two bytes of a Devanagari character makes the
  module write behind the key: in a destination that the key fills exactly, the access is
  out of bounds.
\<close>

theorem hindi_truncated_overrun:
  assumes "src_holds src (p @ [224, 165])" "3 dvd length p" "0 \<notin> set p"
    and "d_len dst = int (length p + 2)" "length (d_val dst) = length p + 2"
  shows "hindi_gtm_ac_xform src level dst dstlen = Inl OutOfBounds"
proof -
  let ?s = "p @ [224, 165 :: byte]" and ?n = "length p + 2"
  have src: "take ?n (d_val src) = ?s" "?n \<le> length (d_val src)" "d_len src = int ?n"
    using assms(1) by (simp_all add: src_holds_def)
  have c1: "strncpy (replicate (?n + 1) 0) (d_val src) 0 ?n = Inr (?s @ [0])"
    using strncpy_text [of ?s "d_val src" "replicate (?n + 1) 0"] assms(3) src
    by (simp only: drop_replicate length_replicate) simp
  have c2: "strncpy (replicate ?n 0) (?s @ [0]) 0 ?n = Inr ?s"
    using strncpy_text [of ?s "?s @ [0]" "replicate ?n 0"] assms(3) by simp
  obtain k where k: "length p = 3 * k" using assms(2) by (elim dvdE)
  obtain out where out: "hindi_loop ?n ?s 0 = hindi_loop ?n out (length p)"
    "length out = ?n" "drop (length p) out = [224, 165]"
    using hindi_loop_skip [of 0 k ?n ?s] k by auto
  then have "out ! length p = 224" "out ! (length p + 1) = 165"
    using nth_drop [of "length p" out 0] nth_drop [of "length p" out 1] by auto
  with out(2) have "hindi_loop ?n out (length p) = Inl OutOfBounds"
    by (subst hindi_loop.simps) simp
  with out(1) have "hindi_loop ?n ?s 0 = Inl OutOfBounds" by simp
  with src assms c1 c2 show ?thesis
    by (simp add: hindi_gtm_ac_xform_def hindinumreverse_def memset_0_def nat_add_distrib Let_def)
qed

theorem hindi_truncated_overrun_witness:
  "hindi_gtm_ac_xform \<lparr>d_len = 2, d_val = [224, 165]\<rparr> 0 \<lparr>d_len = 2, d_val = [0, 0]\<rparr> 0 = Inl OutOfBounds"
  by (rule hindi_truncated_overrun [where p = "[]"]) (simp_all add: src_holds_def)

section \<open>com/col_chinese.c\<close>

text \<open>
  The services of iconv: opening a conversion from one character set to another, which
  may fail with an error number, and converting bytes into a destination of a given
  capacity, which either fails, with the bytes written so far and the error number the
  caller then reads, or writes the converted bytes. The environment is \<open>getenv\<close>.
\<close>

record iconv_lib =
  ic_open :: "string \<Rightarrow> string \<Rightarrow> int option"
  ic_conv :: "string \<Rightarrow> string \<Rightarrow> mem \<Rightarrow> nat \<Rightarrow> (mem \<times> int) + mem"

text \<open>Bytes written through the output pointer, from the start of the destination.\<close>

fun store_all :: "mem \<Rightarrow> nat \<Rightarrow> mem \<Rightarrow> c_fault + mem" where
  "store_all m i [] = Inr m"
| "store_all m i (b # bs) = bindE (store m i b) (\<lambda>m'. store_all m' (Suc i) bs)"

text \<open>
  The part \<open>gtm_ac_xform\<close> and \<open>gtm_ac_xback\<close> have in common: open the conversion to
  \<open>tocode\<close>, convert, terminate the output.
\<close>

definition chinese_convert :: "iconv_lib \<Rightarrow> string \<Rightarrow> string \<Rightarrow> ac_fun" where
  "chinese_convert ic tocode fromcode src level dst dstlen =
     (case ic_open ic tocode fromcode of
        Some errno \<Rightarrow> Inr \<lparr>ac_status = errno, ac_dst = dst, ac_dstlen = dstlen\<rparr>
      | None \<Rightarrow>
          if nat (d_len src) > length (d_val src) then Inl OutOfBounds
          else
            (case ic_conv ic tocode fromcode (take (nat (d_len src)) (d_val src)) (nat (d_len dst)) of
               Inl (part, errno) \<Rightarrow>
                 bindE (store_all (d_val dst) 0 part) (\<lambda>v.
                 Inr \<lparr>ac_status = errno, ac_dst = dst\<lparr>d_val := v\<rparr>, ac_dstlen = dstlen\<rparr>)
             | Inr out \<Rightarrow>
                 bindE (store_all (d_val dst) 0 out) (\<lambda>v.
                 bindE (store v (length out) 0) (\<lambda>v'.
                 Inr \<lparr>ac_status = 0, ac_dst = dst\<lparr>d_val := v'\<rparr>,
                      ac_dstlen = d_len dst - (d_len dst - int (length out))\<rparr>))))"

definition chinese_gtm_ac_xform :: "iconv_lib \<Rightarrow> (string \<Rightarrow> string option) \<Rightarrow> ac_fun" where
  "chinese_gtm_ac_xform ic getenv =
     (case getenv ''gtm_test_linux_distrib'' of
        Some distro \<Rightarrow>
          if strncmp ''alpine'' distro 7 = 0 then chinese_convert ic ''gb18030'' ''utf8''
          else chinese_convert ic ''GB18030'' ''UTF-8''
      | None \<Rightarrow> chinese_convert ic ''GB18030'' ''UTF-8'')"

definition chinese_gtm_ac_xback :: "iconv_lib \<Rightarrow> ac_fun" where
  "chinese_gtm_ac_xback ic = chinese_convert ic ''UTF-8'' ''GB18030''"

definition chinese_gtm_ac_xutil ::
    "gtm_descriptor \<Rightarrow> int \<Rightarrow> gtm_descriptor \<Rightarrow> int \<Rightarrow> int \<Rightarrow> int \<Rightarrow> c_fault + ac_result" where
  "chinese_gtm_ac_xutil inp level out outlen op honor_numeric =
     Inr \<lparr>ac_status = 0, ac_dst = out, ac_dstlen = 0\<rparr>"

definition chinese_gtm_ac_version :: int where "chinese_gtm_ac_version = 3"

definition chinese_gtm_ac_verify :: "byte \<Rightarrow> byte \<Rightarrow> int" where
  "chinese_gtm_ac_verify type ver = (if uint ver = 3 then 0 else 1)"

section \<open>Properties of com/col_chinese.c\<close>

lemma store_all_spec:
  "i + length bs \<le> length m \<Longrightarrow> store_all m i bs = Inr (take i m @ bs @ drop (i + length bs) m)"
proof (induction bs arbitrary: m i)
  case (Cons b bs)
  then have "take (Suc i) (m[i := b]) = take i m @ [b]" by (simp add: take_Suc_conv_app_nth)
  with Cons.IH [of "Suc i" "m[i := b]"] Cons.prems show ?case by simp
qed simp

lemma chinese_convert_success:
  assumes "src_holds src s" "ic_open ic to frm = None" "ic_conv ic to frm s (nat (d_len dst)) = Inr k"
    and "length k < length (d_val dst)"
  shows "chinese_convert ic to frm src level dst dstlen =
         Inr \<lparr>ac_status = 0, ac_dst = dst\<lparr>d_val := k @ 0 # drop (Suc (length k)) (d_val dst)\<rparr>,
              ac_dstlen = int (length k)\<rparr>"
  using assms store_all_spec [of 0 k "d_val dst"] append_store [of k "length k" "d_val dst" 0]
  by (simp add: chinese_convert_def src_holds_def)

text \<open>
  com/col_chinese.c loses nothing exactly as far as iconv does: where iconv converts a
  subscript to GB18030 and those bytes back to the subscript, and both destinations have
  the byte for the NUL, transforming forth and back gives the subscript again.
\<close>

theorem chinese_roundtrip:
  assumes "getenv ''gtm_test_linux_distrib'' = None"
    and "ic_open ic ''GB18030'' ''UTF-8'' = None" "ic_open ic ''UTF-8'' ''GB18030'' = None"
    and "ic_conv ic ''GB18030'' ''UTF-8'' s (nat (d_len dst)) = Inr k"
    and "ic_conv ic ''UTF-8'' ''GB18030'' k (nat (d_len dst2)) = Inr s"
    and "src_holds src s" "length k < length (d_val dst)" "length s < length (d_val dst2)"
  shows "\<exists>r. chinese_gtm_ac_xform ic getenv src level dst dstlen = Inr r \<and> ac_status r = 0 \<and>
             gives (chinese_gtm_ac_xback ic (as_source r) level dst2 dstlen2) dst2 s"
proof -
  let ?r = "\<lparr>ac_status = 0, ac_dst = dst\<lparr>d_val := k @ 0 # drop (Suc (length k)) (d_val dst)\<rparr>,
              ac_dstlen = int (length k)\<rparr>"
  have "src_holds (as_source ?r) k" by (simp add: as_source_def src_holds_def)
  from chinese_convert_success [OF this assms(3,5,8)] chinese_convert_success [OF assms(6,2,4,7)]
  show ?thesis
    using assms(1,8) by (simp add: chinese_gtm_ac_xform_def chinese_gtm_ac_xback_def gives_def)
qed

theorem chinese_roundtrip_witness:
  "\<exists>r. chinese_gtm_ac_xform \<lparr>ic_open = \<lambda>_ _. None, ic_conv = \<lambda>_ _ s n. if length s \<le> n then Inr s else Inl ([], 7)\<rparr>
         (\<lambda>_. None) \<lparr>d_len = 1, d_val = [65]\<rparr> 0 \<lparr>d_len = 1, d_val = [9, 9]\<rparr> 0 = Inr r \<and> ac_status r = 0"
  using chinese_roundtrip [of "\<lambda>_. None"
      "\<lparr>ic_open = \<lambda>_ _. None, ic_conv = \<lambda>_ _ s n. if length s \<le> n then Inr s else Inl ([], 7)\<rparr>"
      "[65]" "\<lparr>d_len = 1, d_val = [9, 9]\<rparr>" "[65]" "\<lparr>d_len = 1, d_val = [0, 0]\<rparr>" "\<lparr>d_len = 1, d_val = [65]\<rparr>" 0 0 0]
  by (auto simp: src_holds_def)

text \<open>
  Two things com/col_chinese.c does against its header comment and its descriptor. A
  source iconv rejects is not returned as it is: the call returns the error number and the
  destination begins with what iconv wrote. And a key that fills a destination of
  \<open>dst->len\<close> bytes is followed by a NUL stored out of bounds.
\<close>

theorem chinese_reject_and_overrun:
  assumes "src_holds src s" "ic_open ic ''UTF-8'' ''GB18030'' = None"
  shows "(ic_conv ic ''UTF-8'' ''GB18030'' s (nat (d_len dst)) = Inl (part, e) \<and>
            length part \<le> length (d_val dst) \<longrightarrow>
          (\<exists>r. chinese_gtm_ac_xback ic src level dst dstlen = Inr r \<and> ac_status r = e \<and>
               ac_dstlen r = dstlen \<and> d_val (ac_dst r) = part @ drop (length part) (d_val dst))) \<and>
         (ic_conv ic ''UTF-8'' ''GB18030'' s (nat (d_len dst)) = Inr k \<and> length k = length (d_val dst) \<longrightarrow>
          chinese_gtm_ac_xback ic src level dst dstlen = Inl OutOfBounds)"
  using assms store_all_spec [of 0 part "d_val dst"] store_all_spec [of 0 k "d_val dst"]
  by (auto simp: chinese_gtm_ac_xback_def chinese_convert_def src_holds_def)

theorem chinese_reject_and_overrun_witness:
  "chinese_gtm_ac_xback \<lparr>ic_open = \<lambda>_ _. None, ic_conv = \<lambda>_ _ s n. if length s \<le> n then Inr s else Inl ([], 7)\<rparr>
     \<lparr>d_len = 1, d_val = [65]\<rparr> 0 \<lparr>d_len = 1, d_val = [0]\<rparr> 0 = Inl OutOfBounds"
  by (rule conjunct2 [OF chinese_reject_and_overrun [where s = "[65]" and k = "[65]"], THEN mp])
    (simp_all add: src_holds_def)

end
