(* ===== verification/SearchTree.thy ===== *)
theory SearchTree
  imports CLib "HOL-Library.Tree"
begin

text \<open>
  Binary search trees over a C comparison function, as env_xlate/inref/gtm_env_xlate_sq.c
  keeps them for hosts and for directories: a negative comparison of the node's key with
  the sought key leads to the left, a positive one to the right. The interface is a
  comparison with the laws of \<open>strcmp\<close>; both orders of that file provide it.
\<close>

section \<open>Search and insertion\<close>

fun tree_find :: "('k \<Rightarrow> 'k \<Rightarrow> int) \<Rightarrow> ('a \<Rightarrow> 'k) \<Rightarrow> 'k \<Rightarrow> 'a tree \<Rightarrow> 'a option" where
  "tree_find cmp key k Leaf = None"
| "tree_find cmp key k (Node l a r) =
     (if cmp (key a) k < 0 then tree_find cmp key k l
      else if cmp (key a) k > 0 then tree_find cmp key k r
      else Some a)"

text \<open>Insertion at a leaf; an entry with an equal key is returned instead.\<close>

fun tree_ins :: "('k \<Rightarrow> 'k \<Rightarrow> int) \<Rightarrow> ('a \<Rightarrow> 'k) \<Rightarrow> 'a \<Rightarrow> 'a tree \<Rightarrow> 'a + 'a tree" where
  "tree_ins cmp key e Leaf = Inr (Node Leaf e Leaf)"
| "tree_ins cmp key e (Node l a r) =
     (if cmp (key a) (key e) < 0 then bindE (tree_ins cmp key e l) (\<lambda>l'. Inr (Node l' a r))
      else if cmp (key a) (key e) > 0 then bindE (tree_ins cmp key e r) (\<lambda>r'. Inr (Node l a r'))
      else Inl a)"

fun search_tree :: "('k \<Rightarrow> 'k \<Rightarrow> int) \<Rightarrow> ('a \<Rightarrow> 'k) \<Rightarrow> 'a tree \<Rightarrow> bool" where
  "search_tree cmp key Leaf = True"
| "search_tree cmp key (Node l a r) =
     ((\<forall>x \<in> set_tree l. cmp (key a) (key x) < 0) \<and> (\<forall>x \<in> set_tree r. cmp (key a) (key x) > 0) \<and>
      search_tree cmp key l \<and> search_tree cmp key r)"

section \<open>The laws of a comparison\<close>

locale cmp_order =
  fixes cmp :: "'k \<Rightarrow> 'k \<Rightarrow> int"
  assumes cmp_flip: "cmp y x < 0 \<longleftrightarrow> cmp x y > 0"
    and cmp_trans: "cmp x y \<le> 0 \<Longrightarrow> cmp y z \<le> 0 \<Longrightarrow> cmp x z \<le> 0"
begin

lemma cmp_refl [simp]: "cmp x x = 0"
  using cmp_flip [of x x] by linarith

lemma cmp_eq_flip: "cmp y x = 0 \<longleftrightarrow> cmp x y = 0"
  using cmp_flip [of x y] cmp_flip [of y x] by linarith

lemma cmp_less_le: "cmp x y < 0 \<Longrightarrow> cmp y z \<le> 0 \<Longrightarrow> cmp x z < 0"
  using cmp_trans [of y z x] cmp_flip [of x z] cmp_flip [of x y] by linarith

lemma cmp_le_less: "cmp x y \<le> 0 \<Longrightarrow> cmp y z < 0 \<Longrightarrow> cmp x z < 0"
  using cmp_trans [of z x y] cmp_flip [of x z] cmp_flip [of z y] cmp_flip [of y z] by linarith

lemma cmp_cong_left: "cmp x y = 0 \<Longrightarrow> cmp x z < 0 \<longleftrightarrow> cmp y z < 0"
  using cmp_le_less [of x y z] cmp_le_less [of y x z] cmp_eq_flip [of x y] by auto

lemma cmp_cong_right: "cmp y z = 0 \<Longrightarrow> cmp x y < 0 \<longleftrightarrow> cmp x z < 0"
  using cmp_less_le [of x y z] cmp_less_le [of x z y] cmp_eq_flip [of y z] by auto

lemma cmp_cong_greater: "cmp y z = 0 \<Longrightarrow> cmp x y > 0 \<longleftrightarrow> cmp x z > 0"
  using cmp_flip [of x y] cmp_flip [of x z] cmp_cong_left [of y z x] cmp_flip [of y x] cmp_flip [of z x]
  by auto

lemma find_SomeD: "tree_find cmp key k t = Some a \<Longrightarrow> a \<in> set_tree t \<and> cmp (key a) k = 0"
  by (induction t) (auto split: if_splits)

lemma find_complete:
  "search_tree cmp key t \<Longrightarrow> a \<in> set_tree t \<Longrightarrow> cmp (key a) k = 0 \<Longrightarrow> tree_find cmp key k t = Some a"
proof (induction t)
  case (Node l b r)
  show ?case
  proof (cases "a = b")
    case False
    with Node.prems consider "a \<in> set_tree l" | "a \<in> set_tree r" by auto
    then show ?thesis
    proof cases
      case 1
      with Node.prems have "cmp (key b) k < 0" using cmp_cong_right [OF Node.prems(3)] by auto
      with 1 Node show ?thesis by simp
    next
      case 2
      with Node.prems have "cmp (key b) k > 0" using cmp_cong_greater [OF Node.prems(3)] by auto
      with 2 Node show ?thesis by simp
    qed
  qed (use Node.prems in simp)
qed simp

lemma find_None_iff:
  "search_tree cmp key t \<Longrightarrow> tree_find cmp key k t = None \<longleftrightarrow> (\<forall>a \<in> set_tree t. cmp (key a) k \<noteq> 0)"
  using find_complete find_SomeD by (metis not_None_eq)

lemma find_cong: "cmp k k' = 0 \<Longrightarrow> tree_find cmp key k t = tree_find cmp key k' t"
  by (induction t) (auto simp: cmp_cong_right [of k k'] cmp_cong_greater [of k k'])

lemma ins_found: "tree_ins cmp key e t = Inl a \<longleftrightarrow> tree_find cmp key (key e) t = Some a"
  by (induction t) (auto simp: bindE_eq_Inl)

lemma ins_new: "(\<exists>t'. tree_ins cmp key e t = Inr t') \<longleftrightarrow> tree_find cmp key (key e) t = None"
  using ins_found [of key e t] by (cases "tree_ins cmp key e t") auto

lemma ins_cases:
  assumes "tree_ins cmp key e (Node l a r) = Inr t'"
  obtains (left) l' where "cmp (key a) (key e) < 0" "tree_ins cmp key e l = Inr l'" "t' = Node l' a r"
    | (right) r' where "cmp (key a) (key e) > 0" "tree_ins cmp key e r = Inr r'" "t' = Node l a r'"
  using assms by (auto simp: bindE_eq_Inr split: if_splits)

lemma ins_set: "tree_ins cmp key e t = Inr t' \<Longrightarrow> set_tree t' = insert e (set_tree t)"
proof (induction t arbitrary: t')
  case (Node l a r)
  from Node.prems show ?case by (cases rule: ins_cases) (use Node.IH in auto)
qed auto

lemma ins_search_tree:
  "search_tree cmp key t \<Longrightarrow> tree_ins cmp key e t = Inr t' \<Longrightarrow> search_tree cmp key t'"
proof (induction t arbitrary: t')
  case (Node l a r)
  from Node.prems(2) show ?case
  proof (cases rule: ins_cases)
    case (left l')
    with Node.prems(1) Node.IH(1) [of l'] ins_set [OF left(2)] show ?thesis by simp
  next
    case (right r')
    with Node.prems(1) Node.IH(2) [of r'] ins_set [OF right(2)] show ?thesis by simp
  qed
qed auto

lemma ins_find:
  "tree_ins cmp key e t = Inr t' \<Longrightarrow>
   tree_find cmp key k t' = (if cmp (key e) k = 0 then Some e else tree_find cmp key k t)"
proof (induction t arbitrary: t')
  case Leaf
  then show ?case by auto
next
  case (Node l a r)
  have eq: "cmp (key e) k = 0 \<Longrightarrow> cmp (key a) (key e) < 0 \<longleftrightarrow> cmp (key a) k < 0"
    "cmp (key e) k = 0 \<Longrightarrow> cmp (key a) (key e) > 0 \<longleftrightarrow> cmp (key a) k > 0"
    by (rule cmp_cong_right cmp_cong_greater; assumption)+
  from Node.prems show ?case
  proof (cases rule: ins_cases)
    case left
    with Node.IH(1) [OF left(2)] eq show ?thesis by auto
  next
    case right
    with Node.IH(2) [OF right(2)] eq show ?thesis by auto
  qed
qed

end

end
