(* ===== verification/EnvXlate.thy ===== *)
theory EnvXlate
  imports SearchTree
begin

text \<open>
  env_xlate/inref/gtm_env_xlate_sq.c, the environment translation service: it maps a
  directory and a host to a global directory file, from a translation table read on the
  first call. This theory has the data, the operating system it calls as a record of
  functions, and every function of the file in the file's order of use; the laws are in
  EnvXlateProps.
\<close>

unbundle bit_operations_syntax

section \<open>The operating system\<close>

text \<open>
  A file opened for reading is its contents and whether a read error follows them. An
  address of 0 and an absent host entry are the same to \<open>get_ip_addr\<close>. The malloc of
  the function table may fail at any call, the calls being numbered.
\<close>

record os_env =
  os_getenv :: "string \<Rightarrow> string option"
  os_gethostname :: "int + string"
  os_gethostbyname :: "string \<Rightarrow> 32 word option"
  os_fopen :: "string \<Rightarrow> int + string \<times> bool"
  os_getcwd :: "string option"
  os_stat :: "string \<Rightarrow> 32 word option"
  os_strerror :: "int \<Rightarrow> string"
  os_malloc :: "nat \<Rightarrow> bool"

section \<open>Data\<close>

text \<open>
  \<open>struct hosts\<close> without its subtrees; a node's \<open>dirtable\<close> pointer changes after
  its creation and several nodes may hold the same one, so it is kept in the state, by the
  node's number, as the number of the directory tree it points to.
\<close>

record hosts =
  h_id :: nat
  h_name :: string
  h_ip :: "32 word"

record tblent =
  t_dir :: string
  t_gbl :: string

record env_state =
  host_tree :: "hosts tree"
  dirtable :: "nat \<Rightarrow> nat option"
  dirtrees :: "nat \<Rightarrow> tblent tree"
  n_hosts :: nat
  n_trees :: nat
  n_malloc :: nat
  our_host :: "hosts option"
  broken_flag :: bool
  recbuf :: string
  outbuff :: string

definition env_init :: env_state where
  "env_init = \<lparr>host_tree = Leaf, dirtable = (\<lambda>_. None), dirtrees = (\<lambda>_. Leaf), n_hosts = 0, n_trees = 0,
     n_malloc = 0, our_host = None, broken_flag = False, recbuf = [], outbuff = []\<rparr>"

definition MSGBUFSIZE :: nat where "MSGBUFSIZE = 4096"
definition MAXPATHLEN :: nat where "MAXPATHLEN = 4096"
definition BUFSIZ :: nat where "BUFSIZ = 8192"

section \<open>Strings\<close>

definition stringcmp :: "string \<Rightarrow> string \<Rightarrow> int" where
  "stringcmp s1 s2 =
     (if length s1 = length s2 then strncmp s1 s2 (length s1) else int (length s1) - int (length s2))"

definition stringcasecmp :: "string \<Rightarrow> string \<Rightarrow> int" where
  "stringcasecmp s1 s2 =
     (if length s1 = length s2 then strncasecmp s1 s2 (length s1) else int (length s1) - int (length s2))"

lemma stringcmp_flip: "stringcmp t s = - stringcmp s t"
  using strncmp_sym [of t s "length s"] by (simp add: stringcmp_def)

lemma stringcmp_trans: "stringcmp s t \<le> 0 \<Longrightarrow> stringcmp t u \<le> 0 \<Longrightarrow> stringcmp s u \<le> 0"
  using strncmp_le_trans [of s t "length s" u] by (auto simp: stringcmp_def split: if_splits)

lemma stringcasecmp_lower: "stringcasecmp s t = stringcmp (map tolower s) (map tolower t)"
  by (simp add: stringcasecmp_def stringcmp_def strncasecmp_def)

interpretation dir_order: cmp_order stringcmp
proof
  fix s t :: string
  show "stringcmp t s < 0 \<longleftrightarrow> stringcmp s t > 0" using stringcmp_flip [of t s] by linarith
qed (rule stringcmp_trans)

interpretation host_order: cmp_order stringcasecmp
  unfolding stringcasecmp_lower
  by unfold_locales (auto simp: dir_order.cmp_flip intro: stringcmp_trans)

lemma stringcmp_eq_0: "nul_free s \<Longrightarrow> nul_free t \<Longrightarrow> stringcmp s t = 0 \<longleftrightarrow> s = t"
  using strncmp_eq_0 [of s "length s" t] by (auto simp: stringcmp_def)

lemma stringcasecmp_eq_0:
  "nul_free s \<Longrightarrow> nul_free t \<Longrightarrow> stringcasecmp s t = 0 \<longleftrightarrow> strcasecmp s t = 0"
  by (simp add: stringcasecmp_lower stringcmp_eq_0 strcasecmp_eq_0)

text \<open>
  \<open>stringcpy\<close> into the output buffer: \<open>strncpy\<close> of at most \<open>MSGBUFSIZE\<close> bytes,
  padded with NUL from the first NUL on.
\<close>

definition stringcpy :: "string \<Rightarrow> string" where
  "stringcpy src =
     (let len = min (length src) MSGBUFSIZE; t = c_str (take len src) in t @ replicate (len - length t) NUL)"

text \<open>
  \<open>msg\<close>: the text in the output buffer, which has room for \<open>MSGBUFSIZE\<close> bytes and
  the NUL; \<open>vsprintf\<close> does not look at that.
\<close>

definition msg :: "string \<Rightarrow> c_fault + string" where
  "msg txt =
     (let m = ''gtm_env_xlate:  '' @ txt in if length m \<le> MSGBUFSIZE then Inr m else Inl OutOfBounds)"

definition msg_fail :: "string \<Rightarrow> env_state \<Rightarrow> c_fault + bool \<times> env_state" where
  "msg_fail txt st = bindE (msg txt) (\<lambda>m. Inr (False, st\<lparr>outbuff := m\<rparr>))"

definition strip_slash :: "string \<Rightarrow> string" where
  "strip_slash d = (if length d > 1 \<and> last d = CHR ''/'' then butlast d else d)"

section \<open>Trees\<close>

fun host_tree_insert :: "hosts tree \<Rightarrow> hosts \<Rightarrow> c_fault + bool \<times> hosts tree" where
  "host_tree_insert Leaf entry = Inl NullDeref"
| "host_tree_insert (Node l root r) entry =
     (let direction = stringcasecmp (h_name root) (h_name entry) in
      if direction < 0 then
        (if l = Leaf then Inr (True, Node (Node Leaf entry Leaf) root r)
         else bindE (host_tree_insert l entry) (\<lambda>(ok, l'). Inr (ok, Node l' root r)))
      else if direction > 0 then
        (if r = Leaf then Inr (True, Node l root (Node Leaf entry Leaf))
         else bindE (host_tree_insert r entry) (\<lambda>(ok, r'). Inr (ok, Node l root r')))
      else Inr (False, Node l root r))"

fun dir_tree_insert :: "tblent tree \<Rightarrow> tblent \<Rightarrow> c_fault + bool \<times> tblent tree" where
  "dir_tree_insert Leaf entry = Inl NullDeref"
| "dir_tree_insert (Node l root r) entry =
     (let direction = stringcmp (t_dir root) (t_dir entry) in
      if direction < 0 then
        (if l = Leaf then Inr (True, Node (Node Leaf entry Leaf) root r)
         else bindE (dir_tree_insert l entry) (\<lambda>(ok, l'). Inr (ok, Node l' root r)))
      else if direction > 0 then
        (if r = Leaf then Inr (True, Node l root (Node Leaf entry Leaf))
         else bindE (dir_tree_insert r entry) (\<lambda>(ok, r'). Inr (ok, Node l root r')))
      else Inr (stringcmp (t_gbl root) (t_gbl entry) = 0, Node l root r))"

fun lookup_host_xc :: "string \<Rightarrow> hosts tree \<Rightarrow> hosts option" where
  "lookup_host_xc hostname Leaf = None"
| "lookup_host_xc hostname (Node l root r) =
     (let direction = stringcasecmp (h_name root) hostname in
      if direction < 0 then lookup_host_xc hostname l
      else if direction > 0 then lookup_host_xc hostname r
      else Some root)"

definition lookup_host :: "string \<Rightarrow> hosts tree \<Rightarrow> hosts option" where
  "lookup_host hostname root = lookup_host_xc (c_str hostname) root"

fun find_host_by_ip :: "32 word \<Rightarrow> hosts tree \<Rightarrow> hosts option" where
  "find_host_by_ip addr Leaf = None"
| "find_host_by_ip addr (Node l root r) =
     (if h_ip root = addr then Some root
      else case find_host_by_ip addr l of
             Some node \<Rightarrow> Some node
           | None \<Rightarrow> find_host_by_ip addr r)"

fun dir_tree_search :: "tblent tree \<Rightarrow> string \<Rightarrow> tblent option" where
  "dir_tree_search Leaf directory = None"
| "dir_tree_search (Node l root r) directory =
     (let direction = stringcmp (t_dir root) directory in
      if direction < 0 then dir_tree_search l directory
      else if direction > 0 then dir_tree_search r directory
      else Some root)"

text \<open>The code's functions are the generic ones at its two orders.\<close>

lemma lookup_host_find: "lookup_host_xc k t = tree_find stringcasecmp h_name k t"
  by (induction t) (auto simp: Let_def)

lemma dir_search_find: "dir_tree_search t k = tree_find stringcmp t_dir k t"
  by (induction t) (auto simp: Let_def)

lemma host_insert_ins:
  "t \<noteq> Leaf \<Longrightarrow> host_tree_insert t e =
     (case tree_ins stringcasecmp h_name e t of Inl _ \<Rightarrow> Inr (False, t) | Inr t' \<Rightarrow> Inr (True, t'))"
  by (induction t) (auto simp: Let_def split: sum.splits)

lemma dir_insert_ins:
  "t \<noteq> Leaf \<Longrightarrow> dir_tree_insert t e =
     (case tree_ins stringcmp t_dir e t of
        Inl a \<Rightarrow> Inr (stringcmp (t_gbl a) (t_gbl e) = 0, t) | Inr t' \<Rightarrow> Inr (True, t'))"
  by (induction t) (auto simp: Let_def split: sum.splits)

definition get_ip_addr :: "os_env \<Rightarrow> string \<Rightarrow> 32 word" where
  "get_ip_addr os hostname = (case os_gethostbyname os hostname of None \<Rightarrow> 0 | Some a \<Rightarrow> a)"

text \<open>The test of \<open>S_IFDIR\<close>, a bit that sockets and block devices have as well.\<close>

definition S_IFDIR :: "32 word" where "S_IFDIR = 0x4000"

definition is_file :: "os_env \<Rightarrow> string \<Rightarrow> c_fault + bool" where
  "is_file os path =
     (if length path > MAXPATHLEN then Inl OutOfBounds
      else Inr (case os_stat os (c_str path) of
                  None \<Rightarrow> False
                | Some st_mode \<Rightarrow> st_mode AND S_IFDIR = 0))"

section \<open>Filling the tables\<close>

text \<open>One call of the function table's malloc; \<open>None\<close> is its NULL.\<close>

definition gtm_malloc :: "os_env \<Rightarrow> env_state \<Rightarrow> bool \<times> env_state" where
  "gtm_malloc os st = (os_malloc os (n_malloc st), st\<lparr>n_malloc := Suc (n_malloc st)\<rparr>)"

definition SIZEOF_NODE :: int where "SIZEOF_NODE = 48"

definition save_host ::
    "os_env \<Rightarrow> string \<Rightarrow> 32 word \<Rightarrow> nat option \<Rightarrow> env_state \<Rightarrow> c_fault + hosts option \<times> env_state" where
  "save_host os hostname ipaddr dirtab st =
     (let (ok1, st1) = gtm_malloc os st in
      if \<not> ok1 then
        bindE (msg (''Failed to allocate '' @ dec SIZEOF_NODE @ '' bytes for host node'')) (\<lambda>m.
        Inr (None, st1\<lparr>outbuff := m\<rparr>))
      else
        let (ok2, st2) = gtm_malloc os st1 in
        if \<not> ok2 then
          bindE (msg (''Failed to allocate '' @ dec (int (length hostname) + 1) @ '' bytes for host name '' @ hostname)) (\<lambda>m.
          Inr (None, st2\<lparr>outbuff := m\<rparr>))
        else
          let host = \<lparr>h_id = n_hosts st2, h_name = hostname, h_ip = ipaddr\<rparr>;
              st3 = st2\<lparr>n_hosts := Suc (n_hosts st2), dirtable := (dirtable st2)(n_hosts st2 := dirtab)\<rparr> in
          if host_tree st3 = Leaf then Inr (Some host, st3\<lparr>host_tree := Node Leaf host Leaf\<rparr>)
          else
            bindE (host_tree_insert (host_tree st3) host) (\<lambda>(ok, t).
            if ok then Inr (Some host, st3\<lparr>host_tree := t\<rparr>)
            else
              bindE (msg (''Impossible duplicate host '' @ hostname @ '' in host tree'')) (\<lambda>m.
              Inr (None, st3\<lparr>host_tree := t, outbuff := m\<rparr>))))"

text \<open>The last part of \<open>save_table_entry\<close>: the new entry goes into the host's tree.\<close>

definition add_entry :: "hosts \<Rightarrow> string \<Rightarrow> tblent \<Rightarrow> env_state \<Rightarrow> c_fault + bool \<times> env_state" where
  "add_entry host hostname direntry st =
     (case dirtable st (h_id host) of
        None \<Rightarrow>
          Inr (True, st\<lparr>dirtrees := (dirtrees st)(n_trees st := Node Leaf direntry Leaf),
                        dirtable := (dirtable st)(h_id host := Some (n_trees st)),
                        n_trees := Suc (n_trees st)\<rparr>)
      | Some root \<Rightarrow>
          bindE (dir_tree_insert (dirtrees st root) direntry) (\<lambda>(ok, t).
          if ok then Inr (True, st\<lparr>dirtrees := (dirtrees st)(root := t)\<rparr>)
          else msg_fail (''Conflicting entry '' @ hostname @ '':'' @ t_dir direntry @ '' in translation file'')
                 (st\<lparr>dirtrees := (dirtrees st)(root := t)\<rparr>)))"

definition new_entry :: "os_env \<Rightarrow> hosts \<Rightarrow> string \<Rightarrow> string \<Rightarrow> string \<Rightarrow> env_state \<Rightarrow> c_fault + bool \<times> env_state" where
  "new_entry os host hostname dir gblpath st =
     (let (ok1, st1) = gtm_malloc os st in
      if \<not> ok1 then msg_fail (''Failed to allocate '' @ dec SIZEOF_NODE @ '' bytes for table memory'') st1
      else
        let d = strip_slash dir; (ok2, st2) = gtm_malloc os st1 in
        if \<not> ok2 then
          msg_fail (''Failed to allocate '' @ dec (int (length d) + 1) @ '' bytes for directory from '' @ recbuf st2) st2
        else
          let (ok3, st3) = gtm_malloc os st2 in
          if \<not> ok3 then
            msg_fail (''Failed to allocate '' @ dec (int (length gblpath) + 1) @ '' bytes for filename from '' @ recbuf st3) st3
          else add_entry host hostname \<lparr>t_dir = d, t_gbl = gblpath\<rparr> st3)"

definition save_table_entry ::
    "os_env \<Rightarrow> string \<Rightarrow> 32 word \<Rightarrow> string \<Rightarrow> string \<Rightarrow> env_state \<Rightarrow> c_fault + bool \<times> env_state" where
  "save_table_entry os hostname0 ip_addr dir gblpath st =
     bindE (if strcasecmp hostname0 ''localhost'' = 0
            then (case our_host st of None \<Rightarrow> Inl NullDeref | Some o1 \<Rightarrow> Inr (h_name o1))
            else Inr hostname0) (\<lambda>hostname.
     bindE (case lookup_host hostname (host_tree st) of
              Some host \<Rightarrow> Inr (Some host, st)
            | None \<Rightarrow>
                save_host os hostname ip_addr
                  (case find_host_by_ip ip_addr (host_tree st) of
                     None \<Rightarrow> None
                   | Some althost \<Rightarrow> dirtable st (h_id althost)) st) (\<lambda>(found, st1).
     case found of
       None \<Rightarrow> Inr (False, st1)
     | Some host \<Rightarrow>
         if strcasecmp dir ''dummy'' = 0 then Inr (True, st1)
         else new_entry os host hostname dir gblpath st1))"

section \<open>Reading the translation table\<close>

definition ws :: string where "ws = [CHR 0x20, CHR 0x09]"
definition ws_nl :: string where "ws_nl = [CHR 0x20, CHR 0x09, CHR 0x0A]"

text \<open>The body of the loop over the records; \<open>True\<close> goes on with the next.\<close>

definition read_record :: "os_env \<Rightarrow> string \<Rightarrow> env_state \<Rightarrow> c_fault + bool \<times> env_state" where
  "read_record os tblbuf st =
     (if take 1 tblbuf = ''#'' then Inr (True, st)
      else
        (case strtok ws_nl (c_str tblbuf) of
           None \<Rightarrow> Inr (True, st)
         | Some (dirptr, rest1) \<Rightarrow>
             let st1 = st\<lparr>recbuf := strtok_cut ws_nl (c_str tblbuf)\<rparr> in
             (case strtok ws rest1 of
                None \<Rightarrow> msg_fail (''No host in translation table record '' @ recbuf st1) st1
              | Some (host, rest2) \<Rightarrow>
                  let ip_addr = get_ip_addr os host in
                  if ip_addr = 0 then msg_fail (''Can't get IP address for host in '' @ recbuf st1) st1
                  else
                    (case strtok ws_nl rest2 of
                       None \<Rightarrow> msg_fail (''No global directory file in translation table record '' @ recbuf st1) st1
                     | Some (gblptr, _) \<Rightarrow> save_table_entry os host ip_addr dirptr gblptr st1))))"

function read_lines :: "os_env \<Rightarrow> string \<Rightarrow> string \<Rightarrow> bool \<Rightarrow> env_state \<Rightarrow> c_fault + bool \<times> env_state" where
  "read_lines os pathptr s err st =
     (case fgets BUFSIZ s err of
        None \<Rightarrow>
          if err then msg_fail (''Error reading translation file '' @ pathptr) st else Inr (True, st)
      | Some (line, rest) \<Rightarrow>
          bindE (read_record os line st) (\<lambda>(ok, st').
          if ok then read_lines os pathptr rest err st' else Inr (False, st')))"
  by pat_completeness auto
termination
  by (relation "measure (\<lambda>(os, p, s, err, st). length s)") (auto dest: fgets_rest simp: BUFSIZ_def)

declare read_lines.simps [simp del]

definition read_dir_table :: "os_env \<Rightarrow> env_state \<Rightarrow> c_fault + bool \<times> env_state" where
  "read_dir_table os st =
     (case os_getenv os ''gtm_gblxlate'' of
        None \<Rightarrow> msg_fail ''Cannot translate environment variable gtm_gblxlate'' st
      | Some pathptr \<Rightarrow>
          (case os_fopen os pathptr of
             Inl errno \<Rightarrow>
               msg_fail (''Cannot open translation file '' @ pathptr @ '' ('' @ dec errno @ '') - '' @
                         os_strerror os errno) st
           | Inr (contents, err) \<Rightarrow> read_lines os pathptr contents err st))"

section \<open>The first call\<close>

text \<open>
  \<open>strtoul\<close> in base 10, as far as \<open>init_functable\<close> looks at it: whether the address
  is 0. The table it points to is the caller's; its entry 4 is \<open>os_malloc\<close>.
\<close>

definition strtoul_zero :: "string \<Rightarrow> bool" where
  "strtoul_zero s =
     (let r = dropWhile is_space s;
          ds = (case r of [] \<Rightarrow> [] | c # r' \<Rightarrow> if c = CHR ''-'' \<or> c = CHR ''+'' then r' else r)
      in digits_val 0 ds = 0)"

definition init_functable :: "os_env \<Rightarrow> env_state \<Rightarrow> c_fault + bool \<times> env_state" where
  "init_functable os st =
     (case os_getenv os ''GTM_CALLIN_START'' of
        None \<Rightarrow> msg_fail ''gtm_env_xlate:  Failed to get environment variable GTM_CALLIN_START'' st
      | Some pcAddress \<Rightarrow>
          if strtoul_zero pcAddress then
            msg_fail (''gtm_env_xlate:  Failed to convert '' @ pcAddress @ '' to a valid address'') st
          else Inr (True, st))"

definition break_service :: "c_fault + bool \<times> env_state \<Rightarrow> c_fault + bool \<times> env_state" where
  "break_service res = bindE res (\<lambda>(_, st). Inr (False, st\<lparr>broken_flag := True\<rparr>))"

definition initialize :: "os_env \<Rightarrow> env_state \<Rightarrow> c_fault + bool \<times> env_state" where
  "initialize os st =
     bindE (init_functable os st) (\<lambda>(ok, st1).
     if \<not> ok then break_service (Inr (ok, st1))
     else
       (case os_gethostname os of
          Inl errno \<Rightarrow>
            break_service (msg_fail (''Failed to get our host name ('' @ dec errno @ '') - '' @ os_strerror os errno) st1)
        | Inr hostbuf \<Rightarrow>
            let hostname0 = c_str hostbuf; host_ipaddr = get_ip_addr os hostname0 in
            if host_ipaddr = 0 then
              break_service (msg_fail (''Failed to get our IP address for our host name '' @ hostname0) st1)
            else
              let hostname = strtok_cut ''.'' hostname0 in
              bindE (save_host os hostname host_ipaddr None st1) (\<lambda>(h, st2).
              let st3 = st2\<lparr>our_host := h\<rparr> in
              if h = None then break_service (Inr (False, st3))
              else
                bindE (read_dir_table os st3) (\<lambda>(ok, st4).
                if ok then Inr (True, st4) else break_service (Inr (False, st4))))))"

section \<open>Translation\<close>

definition xlate_fail :: "string \<Rightarrow> env_state \<Rightarrow> c_fault + int \<times> env_state" where
  "xlate_fail txt st = bindE (msg_fail txt st) (\<lambda>(_, st'). Inr (-1, st'))"

text \<open>The last part of \<open>gtm_env_xlate\<close>, from the host's node on.\<close>

definition xlate_dir :: "os_env \<Rightarrow> hosts \<Rightarrow> bool \<Rightarrow> hosts \<Rightarrow> string \<Rightarrow> env_state \<Rightarrow> c_fault + int \<times> env_state" where
  "xlate_dir os hoststr our_host_flag ourhost dir st =
     bindE (if our_host_flag then is_file os dir else Inr False) (\<lambda>file.
     if file then Inr (0, st\<lparr>outbuff := stringcpy dir\<rparr>)
     else if our_host_flag \<and> dirtable st (h_id ourhost) = None then
       xlate_fail ''No local host translation available'' st
     else
       (case (case dirtable st (h_id hoststr) of
                None \<Rightarrow> None
              | Some root \<Rightarrow> dir_tree_search (dirtrees st root) dir) of
          None \<Rightarrow> xlate_fail ''No translation available'' st
        | Some node \<Rightarrow> Inr (0, st\<lparr>outbuff := stringcpy (t_gbl node)\<rparr>)))"

definition xlate_host ::
    "os_env \<Rightarrow> string option \<Rightarrow> hosts \<Rightarrow> string \<Rightarrow> env_state \<Rightarrow> c_fault + int \<times> env_state" where
  "xlate_host os host ourhost dir st =
     (case host of
        None \<Rightarrow> xlate_dir os ourhost True ourhost dir st
      | Some h \<Rightarrow>
          if h = [] then xlate_dir os ourhost True ourhost dir st
          else
            let name = (if stringcasecmp h ''localhost'' = 0 then h_name ourhost else h) in
            (case lookup_host_xc name (host_tree st) of
               None \<Rightarrow> xlate_fail ''No translation available'' st
             | Some hoststr \<Rightarrow> xlate_dir os hoststr (h_ip hoststr = h_ip ourhost) ourhost dir st))"

definition gtm_env_xlate ::
    "os_env \<Rightarrow> string option \<Rightarrow> string option \<Rightarrow> string option \<Rightarrow> env_state \<Rightarrow> c_fault + int \<times> env_state" where
  "gtm_env_xlate os dir host zdir st =
     (if broken_flag st then xlate_fail ''Environment translation service is broken'' st
      else
        bindE (if our_host st = None then initialize os st else Inr (True, st)) (\<lambda>(ok, st1).
        if \<not> ok then Inr (-1, st1)
        else
          (case our_host st1 of
             None \<Rightarrow> Inl NullDeref
           | Some ourhost \<Rightarrow>
               if dir = None \<or> dir = Some [] then
                 (case os_getcwd os of
                    None \<Rightarrow> xlate_fail ''Failed to get current working directory'' st1
                  | Some curdir \<Rightarrow> xlate_host os host ourhost (strip_slash curdir) st1)
               else xlate_host os host ourhost (strip_slash (the dir)) st1)))"

end
