(* ===== verification/EnvXlateProps.thy ===== *)
theory EnvXlateProps
  imports EnvXlate
begin

text \<open>
  The laws of the environment translation service: the invariant of its tables, that every
  operation keeps it and loses no translation, that every record of a table that was read
  is translated, and what happens when the first call fails.
\<close>

section \<open>The invariant and the abstract table\<close>

definition env_ok :: "env_state \<Rightarrow> bool" where
  "env_ok st \<longleftrightarrow>
     search_tree stringcasecmp h_name (host_tree st) \<and>
     (\<forall>h \<in> set_tree (host_tree st). h_id h < n_hosts st) \<and>
     (\<forall>i r. dirtable st i = Some r \<longrightarrow> i < n_hosts st \<and> r < n_trees st) \<and>
     (\<forall>r < n_trees st. dirtrees st r \<noteq> Leaf \<and> search_tree stringcmp t_dir (dirtrees st r) \<and>
        (\<forall>e \<in> set_tree (dirtrees st r). nul_free (t_gbl e))) \<and>
     (\<forall>h. our_host st = Some h \<longrightarrow> h \<in> set_tree (host_tree st))"

text \<open>What the tables say of a host name and a directory.\<close>

definition table_lookup ::
    "hosts tree \<Rightarrow> (nat \<Rightarrow> nat option) \<Rightarrow> (nat \<Rightarrow> tblent tree) \<Rightarrow> string \<Rightarrow> string \<Rightarrow> string option" where
  "table_lookup t dt trees host dir =
     Option.bind (lookup_host_xc host t) (\<lambda>h.
     Option.bind (dt (h_id h)) (\<lambda>root. map_option t_gbl (dir_tree_search (trees root) dir)))"

definition translate :: "env_state \<Rightarrow> string \<Rightarrow> string \<Rightarrow> string option" where
  "translate st = table_lookup (host_tree st) (dirtable st) (dirtrees st)"

lemma translate_Some:
  "translate st host dir = Some g \<longleftrightarrow>
     (\<exists>h root e. lookup_host_xc host (host_tree st) = Some h \<and> dirtable st (h_id h) = Some root \<and>
        dir_tree_search (dirtrees st root) dir = Some e \<and> t_gbl e = g)"
  by (auto simp: translate_def table_lookup_def bind_eq_Some_conv)

definition grows :: "env_state \<Rightarrow> env_state \<Rightarrow> bool" where
  "grows st st' \<longleftrightarrow>
     env_ok st' \<and> our_host st' = our_host st \<and> broken_flag st' = broken_flag st \<and>
     (\<forall>k h. lookup_host_xc k (host_tree st) = Some h \<longrightarrow> lookup_host_xc k (host_tree st') = Some h) \<and>
     (\<forall>i r. dirtable st i = Some r \<longrightarrow> dirtable st' i = Some r) \<and>
     (\<forall>host dir g. translate st host dir = Some g \<longrightarrow> translate st' host dir = Some g)"

lemma env_ok_irrelevant [simp]:
  "env_ok (st\<lparr>n_malloc := n\<rparr>) = env_ok st" "env_ok (st\<lparr>outbuff := m\<rparr>) = env_ok st"
  "env_ok (st\<lparr>recbuf := m\<rparr>) = env_ok st" "env_ok (st\<lparr>broken_flag := b\<rparr>) = env_ok st"
  by (simp_all add: env_ok_def)

lemma translate_irrelevant [simp]:
  "translate (st\<lparr>n_malloc := n\<rparr>) = translate st" "translate (st\<lparr>outbuff := m\<rparr>) = translate st"
  "translate (st\<lparr>recbuf := m\<rparr>) = translate st" "translate (st\<lparr>broken_flag := b\<rparr>) = translate st"
  "translate (st\<lparr>our_host := h\<rparr>) = translate st"
  by (simp_all add: translate_def)

lemma env_ok_dirtable: "env_ok st \<Longrightarrow> dirtable st i = Some r \<Longrightarrow> i < n_hosts st \<and> r < n_trees st"
  by (simp add: env_ok_def)

lemma env_ok_init: "env_ok env_init"
  by (simp add: env_ok_def env_init_def)

lemma growsI:
  assumes "env_ok st'" "our_host st' = our_host st" "broken_flag st' = broken_flag st"
    and "\<And>k h. lookup_host_xc k (host_tree st) = Some h \<Longrightarrow> lookup_host_xc k (host_tree st') = Some h"
    and "\<And>i r. dirtable st i = Some r \<Longrightarrow> dirtable st' i = Some r"
    and "\<And>host dir g. translate st host dir = Some g \<Longrightarrow> translate st' host dir = Some g"
  shows "grows st st'"
  using assms by (simp add: grows_def)

lemma grows_refl [simp]: "grows st st = env_ok st"
  by (auto simp: grows_def)

lemma grows_trans: "grows st st1 \<Longrightarrow> grows st1 st2 \<Longrightarrow> grows st st2"
  by (auto simp: grows_def)

lemma grows_irrelevant [simp]:
  "grows st (st'\<lparr>n_malloc := n\<rparr>) = grows st st'" "grows st (st'\<lparr>outbuff := m\<rparr>) = grows st st'"
  "grows st (st'\<lparr>recbuf := m\<rparr>) = grows st st'"
  "grows (st\<lparr>n_malloc := n\<rparr>) st' = grows st st'" "grows (st\<lparr>outbuff := m\<rparr>) st' = grows st st'"
  "grows (st\<lparr>recbuf := m\<rparr>) st' = grows st st'"
  by (simp_all add: grows_def)

lemma ends_msg [simp]: "ends {OutOfBounds} (\<lambda>_. True) (msg txt)"
  by (simp add: msg_def Let_def)

lemma ends_msg_then:
  "(\<And>m. P (x, st\<lparr>outbuff := m\<rparr>)) \<Longrightarrow>
   ends {OutOfBounds} P (bindE (msg txt) (\<lambda>m. Inr (x, st\<lparr>outbuff := m\<rparr>)))"
  by (intro ends_bindE [OF ends_msg]) simp

lemma ends_msg_fail:
  "env_ok st \<Longrightarrow> ends {OutOfBounds} (\<lambda>(ok, st'). \<not> ok \<and> grows st st') (msg_fail txt st)"
  unfolding msg_fail_def by (rule ends_bindE [OF ends_msg]) simp

lemma ends_fail_then:
  "(\<And>m. P (False, st\<lparr>outbuff := m\<rparr>)) \<Longrightarrow> ends {OutOfBounds} P (msg_fail txt st)"
  unfolding msg_fail_def by (rule ends_msg_then)

section \<open>Adding a host\<close>

lemma put_host_grows:
  assumes ok: "env_ok st" and id: "h_id host = n_hosts st"
    and dt: "\<And>r. dirtab = Some r \<Longrightarrow> r < n_trees st"
    and ins: "tree_ins stringcasecmp h_name host (host_tree st) = Inr t"
  shows "grows st (st\<lparr>n_hosts := Suc (n_hosts st), dirtable := (dirtable st)(n_hosts st := dirtab), host_tree := t\<rparr>)"
    (is "grows st ?st")
proof (rule growsI)
  have st: "search_tree stringcasecmp h_name (host_tree st)" using ok by (simp add: env_ok_def)
  show "env_ok ?st"
    using ok dt host_order.ins_search_tree [OF st ins] host_order.ins_set [OF ins] id
    by (auto simp: env_ok_def less_Suc_eq)
  have keep: "lookup_host_xc k t = Some h" if k: "lookup_host_xc k (host_tree st) = Some h" for k h
  proof -
    have "tree_find stringcasecmp h_name (h_name host) (host_tree st) = None"
      using host_order.ins_new [of h_name host "host_tree st"] ins by auto
    then have "stringcasecmp (h_name host) k \<noteq> 0"
      using k host_order.find_cong [of "h_name host" k h_name "host_tree st"] by (auto simp: lookup_host_find)
    with k show ?thesis by (simp add: lookup_host_find host_order.ins_find [OF ins])
  qed
  then show "lookup_host_xc k (host_tree st) = Some h \<Longrightarrow> lookup_host_xc k (host_tree ?st) = Some h" for k h
    by simp
  show "dirtable ?st i = Some r" if "dirtable st i = Some r" for i r
    using that env_ok_dirtable [OF ok that] by simp
  fix hn dir g
  assume "translate st hn dir = Some g"
  then obtain h r e where h: "lookup_host_xc hn (host_tree st) = Some h" "dirtable st (h_id h) = Some r"
    "dir_tree_search (dirtrees st r) dir = Some e" "t_gbl e = g"
    by (auto simp: translate_Some)
  then have "h_id h \<noteq> n_hosts st" using env_ok_dirtable [OF ok h(2)] by simp
  with h keep [OF h(1)] show "translate ?st hn dir = Some g" by (auto simp: translate_Some)
qed simp_all

lemma save_host_ends:
  assumes ok: "env_ok st" and new: "lookup_host_xc hostname (host_tree st) = None"
    and dt: "\<And>r. dirtab = Some r \<Longrightarrow> r < n_trees st"
  shows "ends {OutOfBounds} (\<lambda>(res, st').
           grows st st' \<and> dirtrees st' = dirtrees st \<and> n_trees st' = n_trees st \<and> recbuf st' = recbuf st \<and>
           (\<forall>h. res = Some h \<longrightarrow> h_name h = hostname \<and> h_ip h = ip \<and> dirtable st' (h_id h) = dirtab \<and>
                  h \<in> set_tree (host_tree st') \<and> lookup_host_xc hostname (host_tree st') = Some h))
         (save_host os hostname ip dirtab st)"
proof -
  let ?host = "\<lparr>h_id = n_hosts st, h_name = hostname, h_ip = ip\<rparr>"
  obtain t where ins: "tree_ins stringcasecmp h_name ?host (host_tree st) = Inr t"
    using host_order.ins_new [of h_name ?host "host_tree st"] new by (auto simp: lookup_host_find)
  have leaf: "host_tree st = Leaf \<Longrightarrow> t = Node Leaf ?host Leaf" using ins by auto
  have find: "lookup_host_xc hostname t = Some ?host"
    by (simp add: lookup_host_find host_order.ins_find [OF ins])
  have set: "?host \<in> set_tree t" using host_order.ins_set [OF ins] by simp
  have g: "grows st (st\<lparr>n_hosts := Suc (n_hosts st), dirtable := (dirtable st)(n_hosts st := dirtab), host_tree := t\<rparr>)"
    by (rule put_host_grows [OF ok _ dt ins]) simp_all
  have g': "grows st (st\<lparr>n_malloc := n, n_hosts := Suc (n_hosts st),
      dirtable := (dirtable st)(n_hosts st := dirtab), host_tree := t\<rparr>)" for n
  proof -
    have "st\<lparr>n_malloc := n, n_hosts := Suc (n_hosts st), dirtable := (dirtable st)(n_hosts st := dirtab), host_tree := t\<rparr>
      = st\<lparr>n_hosts := Suc (n_hosts st), dirtable := (dirtable st)(n_hosts st := dirtab), host_tree := t\<rparr>\<lparr>n_malloc := n\<rparr>"
      by simp
    then show ?thesis using g by (simp only: grows_irrelevant)
  qed
  show ?thesis
    using ok ins leaf find set g'
    by (auto simp: save_host_def gtm_malloc_def Let_def host_insert_ins intro!: ends_msg_then)
qed

section \<open>Adding a directory entry\<close>

lemma host_in_tree_id: "env_ok st \<Longrightarrow> h \<in> set_tree (host_tree st) \<Longrightarrow> h_id h < n_hosts st"
  by (simp add: env_ok_def)

lemma env_ok_tree:
  assumes "env_ok st" "r < n_trees st"
  shows "dirtrees st r \<noteq> Leaf" "search_tree stringcmp t_dir (dirtrees st r)"
    "e \<in> set_tree (dirtrees st r) \<Longrightarrow> nul_free (t_gbl e)"
  using assms by (auto simp: env_ok_def)

text \<open>A host's directory tree is replaced by a larger one, possibly its first.\<close>

lemma put_tree_grows:
  assumes ok: "env_ok st" and root: "root \<le> n_trees st" and id: "i < n_hosts st"
    and dt: "\<And>r. dirtable st i = Some r \<Longrightarrow> r = root \<and> r < n_trees st"
    and tree: "t \<noteq> Leaf" "search_tree stringcmp t_dir t" "\<And>e. e \<in> set_tree t \<Longrightarrow> nul_free (t_gbl e)"
    and keep: "\<And>d e. root < n_trees st \<Longrightarrow> dir_tree_search (dirtrees st root) d = Some e \<Longrightarrow>
                 dir_tree_search t d = Some e"
  shows "grows st (st\<lparr>dirtrees := (dirtrees st)(root := t), dirtable := (dirtable st)(i := Some root),
                     n_trees := max (n_trees st) (Suc root)\<rparr>)" (is "grows st ?st")
proof (rule growsI)
  have lt: "r < n_trees st" if "r < max (n_trees st) (Suc root)" "r \<noteq> root" for r
    using that root by (auto simp: max_def split: if_splits)
  have "dirtrees ?st r \<noteq> Leaf \<and> search_tree stringcmp t_dir (dirtrees ?st r) \<and>
      (\<forall>e \<in> set_tree (dirtrees ?st r). nul_free (t_gbl e))" if "r < n_trees ?st" for r
    using that tree lt [of r] env_ok_tree [OF ok, of r] by (cases "r = root") auto
  moreover have "j < n_hosts ?st \<and> r < n_trees ?st" if "dirtable ?st j = Some r" for j r
    using that id env_ok_dirtable [OF ok, of j r] by (cases "j = i") auto
  ultimately show "env_ok ?st" using ok by (simp add: env_ok_def)
  show "dirtable ?st j = Some r" if "dirtable st j = Some r" for j r
    using that dt by auto
  fix hn dir g
  assume "translate st hn dir = Some g"
  then obtain h r e where h: "lookup_host_xc hn (host_tree st) = Some h" "dirtable st (h_id h) = Some r"
    "dir_tree_search (dirtrees st r) dir = Some e" "t_gbl e = g"
    by (auto simp: translate_Some)
  have "dirtable ?st (h_id h) = Some r" using h(2) dt by (cases "h_id h = i") auto
  moreover have "dir_tree_search (dirtrees ?st r) dir = Some e"
    using h(3) keep env_ok_dirtable [OF ok h(2)] by (cases "r = root") auto
  ultimately show "translate ?st hn dir = Some g" using h by (auto simp: translate_Some)
qed simp_all

lemma add_entry_ends:
  assumes ok: "env_ok st" and host: "host \<in> set_tree (host_tree st)" and gbl: "nul_free (t_gbl e)"
  shows "ends {OutOfBounds} (\<lambda>(res, st'). grows st st' \<and> host_tree st' = host_tree st \<and>
           (res \<longrightarrow> (\<exists>root n. dirtable st' (h_id host) = Some root \<and>
                     dir_tree_search (dirtrees st' root) (t_dir e) = Some n \<and> t_gbl n = t_gbl e)))
         (add_entry host name e st)"
proof (cases "dirtable st (h_id host)")
  case None
  have "grows st (st\<lparr>dirtrees := (dirtrees st)(n_trees st := Node Leaf e Leaf),
      dirtable := (dirtable st)(h_id host := Some (n_trees st)), n_trees := max (n_trees st) (Suc (n_trees st))\<rparr>)"
    using host_in_tree_id [OF ok host] None gbl by (intro put_tree_grows [OF ok]) auto
  then show ?thesis by (simp add: add_entry_def None max_def)
next
  case (Some root)
  then have root: "root < n_trees st" using env_ok_dirtable [OF ok] by blast
  note t = env_ok_tree [OF ok root]
  have same: "st\<lparr>dirtrees := (dirtrees st)(root := dirtrees st root)\<rparr> = st" by simp
  show ?thesis
  proof (cases "tree_ins stringcmp t_dir e (dirtrees st root)")
    case (Inl a)
    then have a: "tree_find stringcmp t_dir (t_dir e) (dirtrees st root) = Some a"
      by (simp add: dir_order.ins_found)
    have "a \<in> set_tree (dirtrees st root)" using dir_order.find_SomeD [OF a] by simp
    then have "nul_free (t_gbl a)" by (rule t(3))
    then have "stringcmp (t_gbl a) (t_gbl e) = 0 \<longleftrightarrow> t_gbl a = t_gbl e" using gbl by (rule stringcmp_eq_0)
    then show ?thesis
      using ok a Some t(1) Inl ends_mono [OF ends_msg_fail [OF ok]]
      by (auto simp: add_entry_def dir_insert_ins dir_search_find msg_fail_def intro!: ends_msg_then)
  next
    case (Inr u)
    have keep: "dir_tree_search u d = (if stringcmp (t_dir e) d = 0 then Some e else dir_tree_search (dirtrees st root) d)" for d
      by (simp add: dir_search_find dir_order.ins_find [OF Inr])
    have new: "tree_find stringcmp t_dir (t_dir e) (dirtrees st root) = None"
      using dir_order.ins_new [of t_dir e "dirtrees st root"] Inr by auto
    have u: "u \<noteq> Leaf" "search_tree stringcmp t_dir u" "\<And>x. x \<in> set_tree u \<Longrightarrow> nul_free (t_gbl x)"
      using dir_order.ins_set [OF Inr] dir_order.ins_search_tree [OF t(2) Inr] t(3) gbl by auto
    have "dir_tree_search u d = Some x" if "dir_tree_search (dirtrees st root) d = Some x" for d x
      using that new dir_order.find_cong [of "t_dir e" d t_dir "dirtrees st root"]
      unfolding keep by (auto simp: dir_search_find)
    then have "grows st (st\<lparr>dirtrees := (dirtrees st)(root := u), dirtable := (dirtable st)(h_id host := Some root),
        n_trees := max (n_trees st) (Suc root)\<rparr>)"
      using host_in_tree_id [OF ok host] Some root u by (intro put_tree_grows [OF ok]) auto
    moreover have "(dirtable st)(h_id host := Some root) = dirtable st" using Some by auto
    moreover have "max (n_trees st) (Suc root) = n_trees st" using root by simp
    ultimately have "grows st (st\<lparr>dirtrees := (dirtrees st)(root := u)\<rparr>)" by simp
    then show ?thesis using Some Inr t(1) by (auto simp: add_entry_def dir_insert_ins keep)
  qed
qed

section \<open>Adding a record\<close>

lemma new_entry_ends:
  assumes "env_ok st" "host \<in> set_tree (host_tree st)" "nul_free gbl"
  shows "ends {OutOfBounds} (\<lambda>(res, st'). grows st st' \<and> host_tree st' = host_tree st \<and>
           (res \<longrightarrow> (\<exists>root n. dirtable st' (h_id host) = Some root \<and>
                     dir_tree_search (dirtrees st' root) (strip_slash dir) = Some n \<and> t_gbl n = gbl)))
         (new_entry os host name dir gbl st)"
  using assms add_entry_ends [of "st\<lparr>n_malloc := Suc (Suc (Suc (n_malloc st)))\<rparr>" host
      "\<lparr>t_dir = strip_slash dir, t_gbl = gbl\<rparr>" name]
  by (auto simp: new_entry_def gtm_malloc_def Let_def msg_fail_def intro!: ends_msg_then)

text \<open>The host name a record is entered under.\<close>

definition record_host :: "env_state \<Rightarrow> string \<Rightarrow> string" where
  "record_host st hostname =
     (if strcasecmp hostname ''localhost'' = 0
      then (case our_host st of None \<Rightarrow> hostname | Some o1 \<Rightarrow> h_name o1) else hostname)"

lemma find_by_ip_in: "find_host_by_ip ip t = Some h \<Longrightarrow> h \<in> set_tree t \<and> h_ip h = ip"
  by (induction t) (auto split: if_splits option.splits)

lemma lookup_in: "lookup_host_xc k t = Some h \<Longrightarrow> h \<in> set_tree t"
  using host_order.find_SomeD [of h_name k t h] by (simp add: lookup_host_find)

lemma save_table_entry_ends:
  assumes ok: "env_ok st" and our: "our_host st \<noteq> None" and nul: "nul_free (record_host st host)" "nul_free gbl"
  shows "ends {OutOfBounds} (\<lambda>(res, st'). grows st st' \<and>
           (res \<longrightarrow> strcasecmp dir ''dummy'' \<noteq> 0 \<longrightarrow>
              translate st' (record_host st host) (strip_slash dir) = Some gbl))
         (save_table_entry os host ip dir gbl st)"
proof -
  let ?name = "record_host st host"
  let ?dt = "case find_host_by_ip ip (host_tree st) of None \<Rightarrow> None | Some a \<Rightarrow> dirtable st (h_id a)"
  let ?node = "case lookup_host ?name (host_tree st) of Some h \<Rightarrow> Inr (Some h, st) | None \<Rightarrow> save_host os ?name ip ?dt st"
  have name: "(if strcasecmp host ''localhost'' = 0
      then (case our_host st of None \<Rightarrow> Inl NullDeref | Some o1 \<Rightarrow> Inr (h_name o1)) else Inr host) = Inr ?name"
    using our by (auto simp: record_host_def)
  have lk: "lookup_host ?name = lookup_host_xc ?name"
    using nul(1) by (simp add: lookup_host_def fun_eq_iff)
  have node: "ends {OutOfBounds} (\<lambda>(res, st1). grows st st1 \<and>
      (\<forall>h. res = Some h \<longrightarrow> h \<in> set_tree (host_tree st1) \<and> lookup_host_xc ?name (host_tree st1) = Some h)) ?node"
  proof (cases "lookup_host_xc ?name (host_tree st)")
    case None
    have dt: "r < n_trees st" if "?dt = Some r" for r
      using that env_ok_dirtable [OF ok] by (auto split: option.splits)
    from save_host_ends [OF ok None dt] show ?thesis
      unfolding lk None option.case by (rule ends_mono) auto
  next
    case (Some h)
    then show ?thesis using ok lookup_in [OF Some] by (simp add: lk)
  qed
  show ?thesis
    unfolding save_table_entry_def name bindE.simps
  proof (rule ends_bindE [OF node], clarify)
    fix res st1
    assume g: "grows st st1" and r: "\<forall>h. res = Some h \<longrightarrow>
      h \<in> set_tree (host_tree st1) \<and> lookup_host_xc ?name (host_tree st1) = Some h"
    have ok1: "env_ok st1" using g by (simp add: grows_def)
    show "ends {OutOfBounds} (\<lambda>(res, st'). grows st st' \<and>
           (res \<longrightarrow> strcasecmp dir ''dummy'' \<noteq> 0 \<longrightarrow> translate st' ?name (strip_slash dir) = Some gbl))
         (case res of None \<Rightarrow> Inr (False, st1)
          | Some h \<Rightarrow> if strcasecmp dir ''dummy'' = 0 then Inr (True, st1) else new_entry os h ?name dir gbl st1)"
    proof (cases res)
      case (Some h)
      with r have h: "h \<in> set_tree (host_tree st1)" "lookup_host_xc ?name (host_tree st1) = Some h" by auto
      from new_entry_ends [OF ok1 h(1) nul(2), of dir os ?name] g h(2) Some show ?thesis
        by (auto simp: translate_Some elim!: ends_mono intro: grows_trans)
    qed (use g in simp)
  qed
qed

section \<open>Reading a table\<close>

text \<open>The lines \<open>fgets\<close> delivers of a file, and the record a line holds.\<close>

function file_lines :: "string \<Rightarrow> bool \<Rightarrow> string list" where
  "file_lines s err =
     (case fgets BUFSIZ s err of None \<Rightarrow> [] | Some (line, rest) \<Rightarrow> line # file_lines rest err)"
  by pat_completeness auto
termination
  by (relation "measure (\<lambda>(s, err). length s)") (auto dest: fgets_rest simp: BUFSIZ_def)

declare file_lines.simps [simp del]

definition line_record :: "string \<Rightarrow> (string \<times> string \<times> string) option" where
  "line_record line =
     (if take 1 line = ''#'' then None
      else Option.bind (strtok ws_nl (c_str line)) (\<lambda>(dir, rest1).
           Option.bind (strtok ws rest1) (\<lambda>(host, rest2).
           Option.bind (strtok ws_nl rest2) (\<lambda>(gbl, _). Some (dir, host, gbl)))))"

text \<open>The record of a line is in the tables of a state.\<close>

definition entered :: "env_state \<Rightarrow> string \<Rightarrow> bool" where
  "entered st line \<longleftrightarrow>
     (\<forall>dir host gbl. line_record line = Some (dir, host, gbl) \<longrightarrow> strcasecmp dir ''dummy'' \<noteq> 0 \<longrightarrow>
        translate st (record_host st host) (strip_slash dir) = Some gbl)"

definition our_ready :: "env_state \<Rightarrow> bool" where
  "our_ready st \<longleftrightarrow> (\<exists>h. our_host st = Some h \<and> nul_free (h_name h))"

lemma record_host_grows: "grows st st' \<Longrightarrow> record_host st' = record_host st"
  by (simp add: grows_def record_host_def fun_eq_iff)

lemma entered_grows: "entered st line \<Longrightarrow> grows st st' \<Longrightarrow> entered st' line"
  by (simp add: entered_def record_host_grows) (simp add: grows_def)

lemma our_ready_grows: "grows st st' \<Longrightarrow> our_ready st' = our_ready st"
  by (simp add: grows_def our_ready_def)

lemma strtok_nul_free:
  "strtok ds s = Some (tok, rest) \<Longrightarrow> nul_free s \<Longrightarrow> nul_free tok \<and> nul_free rest"
  by (auto simp: strtok_def Let_def nul_free_def split: if_splits
      dest!: set_takeWhileD set_dropWhileD in_set_dropD)

lemma read_record_ends:
  assumes ok: "env_ok st" and our: "our_ready st"
  shows "ends {OutOfBounds} (\<lambda>(res, st'). grows st st' \<and> (res \<longrightarrow> entered st' line)) (read_record os line st)"
proof (cases "take 1 line = ''#'' \<or> strtok ws_nl (c_str line) = None")
  case True
  then show ?thesis using ok by (auto simp: read_record_def entered_def line_record_def split: option.splits)
next
  case False
  then obtain dir rest1 where d: "take 1 line \<noteq> ''#''"
    "strtok ws_nl (c_str line) = Some (dir, rest1)" by auto
  let ?st = "st\<lparr>recbuf := strtok_cut ws_nl (c_str line)\<rparr>"
  have fail: "ends {OutOfBounds} (\<lambda>(res, st'). grows st st' \<and> (res \<longrightarrow> entered st' line)) (msg_fail m ?st)" for m
    using ok by (intro ends_fail_then) simp
  show ?thesis
  proof (cases "strtok ws rest1")
    case None
    then show ?thesis using d fail by (simp add: read_record_def Let_def)
  next
    case (Some p)
    then obtain host rest2 where h: "strtok ws rest1 = Some (host, rest2)" by (cases p) auto
    show ?thesis
    proof (cases "get_ip_addr os host = 0 \<or> strtok ws_nl rest2 = None")
      case True
      then show ?thesis using d h fail by (auto simp: read_record_def Let_def)
    next
      case False
      then obtain gbl x where g: "get_ip_addr os host \<noteq> 0" "strtok ws_nl rest2 = Some (gbl, x)" by auto
      have nf: "nul_free host" "nul_free gbl"
        using strtok_nul_free [OF d(2)] strtok_nul_free [OF h] strtok_nul_free [OF g(2)] by auto
      have rh: "record_host ?st = record_host st" by (simp add: record_host_def fun_eq_iff)
      have "nul_free (record_host ?st host)" using nf our by (auto simp: record_host_def our_ready_def)
      moreover have "our_host ?st \<noteq> None" using our by (auto simp: our_ready_def)
      ultimately have "ends {OutOfBounds} (\<lambda>(res, st'). grows ?st st' \<and>
           (res \<longrightarrow> strcasecmp dir ''dummy'' \<noteq> 0 \<longrightarrow>
              translate st' (record_host ?st host) (strip_slash dir) = Some gbl))
         (save_table_entry os host (get_ip_addr os host) dir gbl ?st)"
        using ok nf(2) by (intro save_table_entry_ends) simp_all
      then have "ends {OutOfBounds} (\<lambda>(res, st'). grows st st' \<and> (res \<longrightarrow> entered st' line))
         (save_table_entry os host (get_ip_addr os host) dir gbl ?st)"
        using d h g by (auto elim!: ends_mono simp: rh entered_def line_record_def record_host_grows)
      then show ?thesis using d h g by (simp add: read_record_def Let_def)
    qed
  qed
qed

lemma read_lines_ends:
  "env_ok st \<Longrightarrow> our_ready st \<Longrightarrow>
   ends {OutOfBounds} (\<lambda>(res, st'). grows st st' \<and> (res \<longrightarrow> (\<forall>line \<in> set (file_lines s err). entered st' line)))
     (read_lines os path s err st)"
proof (induction os path s err st rule: read_lines.induct)
  case (1 os path s err st)
  show ?case
  proof (cases "fgets BUFSIZ s err")
    case None
    then show ?thesis using 1(2)
      by (auto simp: read_lines.simps [of os path] file_lines.simps [of s] intro!: ends_fail_then)
  next
    case (Some p)
    then obtain line rest where l: "fgets BUFSIZ s err = Some (line, rest)" by (cases p) auto
    have "ends {OutOfBounds} (\<lambda>(res, st'). grows st st' \<and>
        (res \<longrightarrow> (\<forall>l \<in> set (line # file_lines rest err). entered st' l)))
      (bindE (read_record os line st) (\<lambda>(ok, st'). if ok then read_lines os path rest err st' else Inr (False, st')))"
    proof (rule ends_bindE [OF read_record_ends [OF 1(2,3)]], clarify)
      fix ok st1
      assume g: "grows st st1" and e: "ok \<longrightarrow> entered st1 line"
      have ok1: "env_ok st1" "our_ready st1" using g our_ready_grows [OF g] 1(3) by (auto simp: grows_def)
      show "ends {OutOfBounds} (\<lambda>(res, st'). grows st st' \<and>
          (res \<longrightarrow> (\<forall>l \<in> set (line # file_lines rest err). entered st' l)))
        (if ok then read_lines os path rest err st1 else Inr (False, st1))"
      proof (cases ok)
        case True
        from 1(1) [OF l refl True ok1] have "ends {OutOfBounds} (\<lambda>(res, st'). grows st st' \<and>
          (res \<longrightarrow> (\<forall>l \<in> set (line # file_lines rest err). entered st' l))) (read_lines os path rest err st1)"
          using g e True by (elim ends_mono) (auto intro: grows_trans entered_grows)
        with True show ?thesis by simp
      qed (use g in simp)
    qed
    then show ?thesis using l by (simp add: read_lines.simps [of os path] file_lines.simps [of s])
  qed
qed

section \<open>The first call\<close>

definition table_read :: "os_env \<Rightarrow> env_state \<Rightarrow> bool" where
  "table_read os st \<longleftrightarrow>
     (\<exists>path contents err. os_getenv os ''gtm_gblxlate'' = Some path \<and>
        os_fopen os path = Inr (contents, err) \<and>
        (\<forall>line \<in> set (file_lines contents err). entered st line))"

lemma read_dir_table_ends:
  assumes "env_ok st" "our_ready st"
  shows "ends {OutOfBounds} (\<lambda>(res, st'). grows st st' \<and> (res \<longrightarrow> table_read os st')) (read_dir_table os st)"
proof (cases "os_getenv os ''gtm_gblxlate''")
  case (Some path)
  show ?thesis
  proof (cases "os_fopen os path")
    case (Inr p)
    then show ?thesis using Some read_lines_ends [OF assms]
      by (cases p) (fastforce simp: read_dir_table_def table_read_def elim!: ends_mono)
  qed (use Some assms in \<open>auto simp: read_dir_table_def intro!: ends_fail_then\<close>)
qed (use assms in \<open>auto simp: read_dir_table_def intro!: ends_fail_then\<close>)

lemma nul_free_strtok_cut: "nul_free s \<Longrightarrow> nul_free (strtok_cut ds s)"
  by (auto simp: strtok_cut_def nul_free_def dest!: set_takeWhileD set_dropWhileD)

definition started :: "os_env \<Rightarrow> bool \<times> env_state \<Rightarrow> bool" where
  "started os = (\<lambda>(ok, st). env_ok st \<and>
     (if ok then our_ready st \<and> \<not> broken_flag st \<and> table_read os st else broken_flag st))"

lemma ends_break: "ends {OutOfBounds} (\<lambda>(_, st). env_ok st) m \<Longrightarrow> ends {OutOfBounds} (started os) (break_service m)"
  unfolding break_service_def by (erule ends_bindE) (auto simp: started_def)

lemma initialize_ends:
  assumes ok: "env_ok st" and fresh: "host_tree st = Leaf" "\<not> broken_flag st" "our_host st = None"
  shows "ends {OutOfBounds} (started os) (initialize os st)"
proof -
  have ft: "ends {OutOfBounds} (\<lambda>(_, st'). st' = st \<or> (\<exists>m. st' = st\<lparr>outbuff := m\<rparr>)) (init_functable os st)"
    by (auto simp: init_functable_def intro!: ends_fail_then split: option.splits)
  show ?thesis
    unfolding initialize_def
  proof (rule ends_bindE [OF ft], clarify)
    fix b st1
    assume "st1 = st \<or> (\<exists>m. st1 = st\<lparr>outbuff := m\<rparr>)"
    then have st1: "env_ok st1" "host_tree st1 = Leaf" "\<not> broken_flag st1" "our_host st1 = None"
      using ok fresh by auto
    have fail: "ends {OutOfBounds} (started os) (break_service (msg_fail m st1))" for m
      using st1 by (intro ends_break ends_fail_then) simp
    have host: "ends {OutOfBounds} (started os)
        (bindE (save_host os name ip None st1) (\<lambda>(h, st2).
         let st3 = st2\<lparr>our_host := h\<rparr> in
         if h = None then break_service (Inr (False, st3))
         else bindE (read_dir_table os st3) (\<lambda>(ok, st4).
              if ok then Inr (True, st4) else break_service (Inr (False, st4)))))"
      if name: "nul_free name" for name ip
    proof (rule ends_bindE [OF save_host_ends [OF st1(1)]], goal_cases)
      case (3 x)
      then obtain h st2 where x: "x = (h, st2)" "grows st1 st2"
        and h: "\<And>n. h = Some n \<Longrightarrow> h_name n = name \<and> n \<in> set_tree (host_tree st2)" by auto
      let ?st3 = "st2\<lparr>our_host := h\<rparr>"
      have ok3: "env_ok ?st3" using x(2) h by (auto simp: grows_def env_ok_def)
      show ?case
      proof (cases h)
        case None
        then show ?thesis using x ok3 by (auto simp: break_service_def started_def)
      next
        case (Some n)
        then have our: "our_ready ?st3" using h name by (auto simp: our_ready_def)
        have nb: "\<not> broken_flag ?st3" using x(2) st1(3) by (simp add: grows_def)
        have "ends {OutOfBounds} (started os) (bindE (read_dir_table os ?st3) (\<lambda>(ok, st4).
              if ok then Inr (True, st4) else break_service (Inr (False, st4))))"
          using our_ready_grows our nb
          by (intro ends_bindE [OF read_dir_table_ends [OF ok3 our]])
            (auto simp: started_def break_service_def grows_def our_ready_def)
        then show ?thesis using x Some by simp
      qed
    qed (use st1 in simp_all)
    show "ends {OutOfBounds} (started os)
        (if \<not> b then break_service (Inr (b, st1))
         else case os_gethostname os of
           Inl errno \<Rightarrow> break_service (msg_fail (''Failed to get our host name ('' @ dec errno @ '') - '' @ os_strerror os errno) st1)
         | Inr hostbuf \<Rightarrow>
             let hostname0 = c_str hostbuf; host_ipaddr = get_ip_addr os hostname0 in
             if host_ipaddr = 0 then
               break_service (msg_fail (''Failed to get our IP address for our host name '' @ hostname0) st1)
             else
               let hostname = strtok_cut ''.'' hostname0 in
               bindE (save_host os hostname host_ipaddr None st1) (\<lambda>(h, st2).
               let st3 = st2\<lparr>our_host := h\<rparr> in
               if h = None then break_service (Inr (False, st3))
               else bindE (read_dir_table os st3) (\<lambda>(ok, st4).
                    if ok then Inr (True, st4) else break_service (Inr (False, st4)))))"
    proof (cases "os_gethostname os")
      case (Inr buf)
      then show ?thesis
        using st1 fail host [of "strtok_cut ''.'' (c_str buf)"] nul_free_strtok_cut [of "c_str buf"]
        by (simp add: Let_def break_service_def started_def)
    qed (use st1 fail in \<open>auto simp: break_service_def started_def\<close>)
  qed
qed

section \<open>Calls of the service\<close>

text \<open>
  Between calls the service is untouched, running or broken; \<open>served\<close> are the states
  any sequence of calls can lead to, in any environment.
\<close>

definition service_ok :: "env_state \<Rightarrow> bool" where
  "service_ok st \<longleftrightarrow> env_ok st \<and>
     (\<not> broken_flag st \<longrightarrow> (if our_host st = None then host_tree st = Leaf else our_ready st))"

inductive served :: "env_state \<Rightarrow> bool" where
  start: "served env_init"
| call: "served st \<Longrightarrow> gtm_env_xlate os dir host zdir st = Inr (r, st') \<Longrightarrow> served st'"

lemma ends_xlate_fail:
  "(\<And>m. P (-1, st\<lparr>outbuff := m\<rparr>)) \<Longrightarrow> ends {OutOfBounds} P (xlate_fail txt st)"
  unfolding xlate_fail_def msg_fail_def bindE_assoc by (rule ends_bindE [OF ends_msg]) simp

lemma xlate_dir_ends:
  "(\<And>m r. P (r, st\<lparr>outbuff := m\<rparr>)) \<Longrightarrow> ends {OutOfBounds} P (xlate_dir os h flag our dir st)"
  unfolding xlate_dir_def
  by (rule ends_bindE [where P = "\<lambda>_. True"])
    (auto simp: is_file_def intro!: ends_xlate_fail split: option.splits)

lemma xlate_host_ends:
  "(\<And>m r. P (r, st\<lparr>outbuff := m\<rparr>)) \<Longrightarrow> ends {OutOfBounds} P (xlate_host os host our dir st)"
  by (auto simp: xlate_host_def Let_def intro!: xlate_dir_ends ends_xlate_fail split: option.splits)

lemma service_ok_outbuff [simp]: "service_ok (st\<lparr>outbuff := m\<rparr>) = service_ok st"
  by (simp add: service_ok_def our_ready_def)

lemma xlate_ends:
  assumes "service_ok st"
  shows "ends {OutOfBounds} (\<lambda>(r, st'). service_ok st') (gtm_env_xlate os dir host zdir st)"
proof (cases "broken_flag st")
  case True
  then show ?thesis using assms by (auto simp: gtm_env_xlate_def intro!: ends_xlate_fail)
next
  case False
  have "ends {OutOfBounds} (\<lambda>(ok, st1). service_ok st1 \<and> (ok \<longrightarrow> our_ready st1))
      (if our_host st = None then initialize os st else Inr (True, st))"
  proof (cases "our_host st")
    case None
    with assms False show ?thesis
      using initialize_ends [of st os]
      by (auto simp: service_ok_def started_def our_ready_def elim!: ends_mono split: if_splits)
  qed (use assms False in \<open>auto simp: service_ok_def\<close>)
  then have "ends {OutOfBounds} (\<lambda>(r, st'). service_ok st')
      (bindE (if our_host st = None then initialize os st else Inr (True, st)) (\<lambda>(ok, st1).
        if \<not> ok then Inr (-1, st1)
        else
          (case our_host st1 of
             None \<Rightarrow> Inl NullDeref
           | Some ourhost \<Rightarrow>
               if dir = None \<or> dir = Some [] then
                 (case os_getcwd os of
                    None \<Rightarrow> xlate_fail ''Failed to get current working directory'' st1
                  | Some curdir \<Rightarrow> xlate_host os host ourhost (strip_slash curdir) st1)
               else xlate_host os host ourhost (strip_slash (the dir)) st1)))"
    by (rule ends_bindE) (auto simp: our_ready_def intro!: xlate_host_ends ends_xlate_fail split: option.splits)
  with False show ?thesis by (simp add: gtm_env_xlate_def)
qed

lemma service_ok_served: "served st \<Longrightarrow> service_ok st"
proof (induction rule: served.induct)
  case (call st os dir host zdir r st')
  then show ?case using xlate_ends [of st os dir host zdir] by simp
qed (simp add: service_ok_def env_ok_init, simp add: env_init_def)

section \<open>Two environments to run the service in\<close>

text \<open>
  A host foo.com with the given translation file; foo and foo.com have one address, bar
  has another, no path can be examined. In the second environment no variable is set.
\<close>

definition sample_os :: "string \<Rightarrow> os_env" where
  "sample_os file =
     \<lparr>os_getenv = (\<lambda>n. if n = ''gtm_gblxlate'' then Some ''/t'' else if n = ''GTM_CALLIN_START'' then Some ''4096'' else None),
      os_gethostname = Inr ''foo.com'',
      os_gethostbyname = (\<lambda>h. if h = ''foo'' \<or> h = ''foo.com'' then Some 1 else if h = ''bar'' then Some 2 else None),
      os_fopen = (\<lambda>_. Inr (file, False)), os_getcwd = Some ''/w'', os_stat = (\<lambda>_. None),
      os_strerror = (\<lambda>_. []), os_malloc = (\<lambda>_. True)\<rparr>"

definition bare_os :: os_env where
  "bare_os = (sample_os [])\<lparr>os_getenv := (\<lambda>_. None)\<rparr>"

text \<open>What the caller sees of a call.\<close>

definition answer :: "c_fault + int \<times> env_state \<Rightarrow> (int \<times> string) option" where
  "answer res = (case res of Inl _ \<Rightarrow> None | Inr (r, st) \<Rightarrow> Some (r, outbuff st))"

definition sample_file :: string where
  "sample_file = ''/x bar b.gld'' @ [CHR 0x0A] @ ''/y'' @ [CHR 0x09] @ ''bar c.gld'' @ [CHR 0x0A]"

definition first_state :: "os_env \<Rightarrow> env_state" where
  "first_state os = (case initialize os env_init of Inr (_, st) \<Rightarrow> st | Inl _ \<Rightarrow> env_init)"

definition starts :: "os_env \<Rightarrow> bool" where
  "starts os = (case initialize os env_init of Inr (ok, _) \<Rightarrow> ok | Inl _ \<Rightarrow> False)"

lemma starts_initialize: "starts os \<Longrightarrow> initialize os env_init = Inr (True, first_state os)"
  by (auto simp: starts_def first_state_def split: sum.splits)

lemma sample_start: "initialize (sample_os sample_file) env_init = Inr (True, first_state (sample_os sample_file))"
proof (rule starts_initialize)
  show "starts (sample_os sample_file)" by code_simp
qed

lemma sample_lines:
  "file_lines sample_file False =
     [''/x bar b.gld'' @ [CHR 0x0A], ''/y'' @ [CHR 0x09] @ ''bar c.gld'' @ [CHR 0x0A]]"
  "map line_record (file_lines sample_file False) = [Some (''/x'', ''bar'', ''b.gld''), Some (''/y'', ''bar'', ''c.gld'')]"
  by code_simp+

lemma sample_host:
  "map_option h_ip (lookup_host_xc ''bar'' (host_tree (first_state (sample_os sample_file)))) = Some 2"
  "map_option h_ip (our_host (first_state (sample_os sample_file))) = Some 1"
  by code_simp+

definition running :: "c_fault + int \<times> env_state \<Rightarrow> bool" where
  "running res = (case res of Inl _ \<Rightarrow> False | Inr (_, st) \<Rightarrow> our_host st \<noteq> None \<and> \<not> broken_flag st)"

lemma sample_running:
  obtains r st where "gtm_env_xlate (sample_os sample_file) (Some ''/y'') (Some ''bar'') None env_init = Inr (r, st)"
    "our_host st \<noteq> None" "\<not> broken_flag st"
proof -
  have "running (gtm_env_xlate (sample_os sample_file) (Some ''/y'') (Some ''bar'') None env_init)"
    by code_simp
  then show ?thesis using that by (auto simp: running_def split: sum.splits)
qed

section \<open>Properties\<close>

text \<open>
  C3: whatever calls were made before, in whatever environments, a call of the translation
  service keeps its tables sorted and well formed and never follows a null pointer; the
  only thing that can go wrong in memory is a text too long for its buffer.
\<close>

theorem xlate_service_invariant:
  assumes "served st"
  shows "env_ok st \<and> ends {OutOfBounds} (\<lambda>(r, st'). env_ok st') (gtm_env_xlate os dir host zdir st)"
  using service_ok_served [OF assms] xlate_ends [OF service_ok_served [OF assms], of os dir host zdir]
  by (auto simp: service_ok_def elim!: ends_mono)

theorem xlate_service_invariant_witness:
  "ends {OutOfBounds} (\<lambda>(r, st'). env_ok st')
     (gtm_env_xlate bare_os (Some ''/tmp'') None None env_init)"
  using xlate_service_invariant [OF served.start] by blast

text \<open>
  C4: a first call that fails in any way breaks the service for good: it and every later
  call, with any arguments and in any environment, return -1, the later ones with the
  message that the service is broken.
\<close>

theorem failed_first_call_is_final:
  assumes "initialize os env_init = Inr (False, st)"
  shows "gtm_env_xlate os dir host zdir env_init = Inr (-1, st) \<and>
         (\<forall>os' dir' host' zdir'. gtm_env_xlate os' dir' host' zdir' st =
            Inr (-1, st\<lparr>outbuff := ''gtm_env_xlate:  Environment translation service is broken''\<rparr>))"
proof -
  have "ends {OutOfBounds} (started os) (initialize os env_init)"
    by (rule initialize_ends [OF env_ok_init]) (simp_all add: env_init_def)
  with assms have "broken_flag st" by (simp add: started_def)
  with assms show ?thesis
    by (simp add: gtm_env_xlate_def xlate_fail_def msg_fail_def msg_def MSGBUFSIZE_def)
      (simp add: env_init_def)
qed

theorem failed_first_call_is_final_witness:
  "\<exists>st. gtm_env_xlate bare_os None None None env_init = Inr (-1, st) \<and>
     answer (gtm_env_xlate (sample_os []) None None None st) =
       Some (-1, ''gtm_env_xlate:  Environment translation service is broken'')"
proof -
  have "\<exists>st. initialize bare_os env_init = Inr (False, st)"
    by (simp add: initialize_def init_functable_def bare_os_def msg_fail_def msg_def MSGBUFSIZE_def
        break_service_def)
  then obtain st where st: "initialize bare_os env_init = Inr (False, st)" ..
  from failed_first_call_is_final [OF this, of None None None] show ?thesis
    by (auto simp: answer_def)
qed

lemma our_host_found:
  assumes "env_ok st" "our_host st = Some h"
  shows "lookup_host_xc (h_name h) (host_tree st) = Some h"
  using assms by (simp add: lookup_host_find env_ok_def host_order.find_complete)

lemma initialized:
  assumes "initialize os env_init = Inr (True, st)"
  shows "env_ok st" "our_ready st" "\<not> broken_flag st" "table_read os st"
proof -
  have "ends {OutOfBounds} (started os) (initialize os env_init)"
    by (rule initialize_ends [OF env_ok_init]) (simp_all add: env_init_def)
  with assms show "env_ok st" "our_ready st" "\<not> broken_flag st" "table_read os st"
    by (simp_all add: started_def)
qed

lemma line_record_nul_free:
  assumes "line_record line = Some (dir, host, gbl)"
  shows "nul_free dir" "nul_free host" "nul_free gbl" "dir \<noteq> []" "host \<noteq> []"
proof -
  obtain r1 r2 r3 where t: "strtok ws_nl (c_str line) = Some (dir, r1)" "strtok ws r1 = Some (host, r2)"
    "strtok ws_nl r2 = Some (gbl, r3)"
    using assms by (auto simp: line_record_def bind_eq_Some_conv split: if_splits prod.splits)
  show "nul_free dir" "nul_free host" "nul_free gbl"
    using strtok_nul_free [OF t(1)] strtok_nul_free [OF t(2)] strtok_nul_free [OF t(3)] by simp_all
  show "dir \<noteq> []" "host \<noteq> []" using strtok_token(1) [OF t(1)] strtok_token(1) [OF t(2)] by simp_all
qed

lemma stringcpy_id: "nul_free s \<Longrightarrow> length s \<le> MSGBUFSIZE \<Longrightarrow> stringcpy s = s"
  by (simp add: stringcpy_def Let_def)

text \<open>
  Once the tables are filled a call changes nothing but the buffer of its answer; so does any
  number of calls, whatever they are asked and in whatever environment.
\<close>

inductive later :: "env_state \<Rightarrow> env_state \<Rightarrow> bool" for st where
  none_yet: "later st st"
| one_more: "later st st1 \<Longrightarrow> gtm_env_xlate os dir host zdir st1 = Inr (r, st2) \<Longrightarrow> later st st2"

lemma xlate_keeps_tables:
  assumes "our_host st \<noteq> None" "\<not> broken_flag st" "gtm_env_xlate os dir host zdir st = Inr (r, st')"
  shows "\<exists>m. st' = st\<lparr>outbuff := m\<rparr>"
proof -
  have "ends {OutOfBounds} (\<lambda>(r, st'). \<exists>m. st' = st\<lparr>outbuff := m\<rparr>) (gtm_env_xlate os dir host zdir st)"
    using assms(1,2) by (auto simp: gtm_env_xlate_def intro!: xlate_host_ends ends_xlate_fail split: option.splits)
  then show ?thesis using assms(3) by simp
qed

lemma later_keeps_tables:
  assumes "later st st'" "our_host st \<noteq> None" "\<not> broken_flag st"
  shows "\<exists>m. st' = st\<lparr>outbuff := m\<rparr>"
  using assms(1)
proof (induction rule: later.induct)
  case none_yet
  show ?case by (intro exI [of _ "outbuff st"]) simp
next
  case (one_more st1 os dir host zdir r st2)
  then obtain m where "st1 = st\<lparr>outbuff := m\<rparr>" by blast
  with one_more(2) assms(2,3) xlate_keeps_tables [of st1 os dir host zdir r st2] show ?case by auto
qed

lemma initialized_translates:
  assumes "initialize os env_init = Inr (True, st)"
    and "os_getenv os ''gtm_gblxlate'' = Some path" "os_fopen os path = Inr (contents, err)"
    and "line \<in> set (file_lines contents err)" "line_record line = Some (dir, host, gbl)"
    and "strcasecmp dir ''dummy'' \<noteq> 0"
  shows "translate st (record_host st host) (strip_slash dir) = Some gbl"
  using initialized(4) [OF assms(1)] assms(2-) by (auto simp: table_read_def entered_def)

text \<open>
  A record is asked for in the table: if its host has the address of the local one, which the
  name localhost stands for, the directory is no file that is there, and the local host has
  a table.
\<close>

definition asked_in_table :: "os_env \<Rightarrow> env_state \<Rightarrow> string \<Rightarrow> string \<Rightarrow> bool" where
  "asked_in_table os st dir host \<longleftrightarrow> (\<forall>h o1.
     lookup_host_xc (record_host st host) (host_tree st) = Some h \<longrightarrow> our_host st = Some o1 \<longrightarrow> h_ip h = h_ip o1 \<longrightarrow>
       is_file os (strip_slash dir) = Inr False \<and> dirtable st (h_id o1) \<noteq> None)"

lemma translated_answers:
  assumes "our_host st = Some o1" "\<not> broken_flag st" "translate st (record_host st host) (strip_slash dir) = Some gbl"
    and "asked_in_table os st dir host" "nul_free host" "nul_free gbl" "dir \<noteq> []" "host \<noteq> []" "length gbl \<le> MSGBUFSIZE"
  shows "gtm_env_xlate os (Some dir) (Some host) zdir st = Inr (0, st\<lparr>outbuff := gbl\<rparr>)"
proof -
  obtain h root e where h: "lookup_host_xc (record_host st host) (host_tree st) = Some h" "dirtable st (h_id h) = Some root"
    "dir_tree_search (dirtrees st root) (strip_slash dir) = Some e" "t_gbl e = gbl"
    using assms(3) by (auto simp: translate_Some)
  have "(if stringcasecmp host ''localhost'' = 0 then h_name o1 else host) = record_host st host"
    using assms(1,5) by (subst stringcasecmp_eq_0) (auto simp: NUL_def record_host_def)
  then have host: "xlate_host os (Some host) o1 d st = xlate_dir os h (h_ip h = h_ip o1) o1 d st" for d
    using h(1) assms(8) by (simp add: xlate_host_def Let_def)
  have "xlate_dir os h (h_ip h = h_ip o1) o1 (strip_slash dir) st = Inr (0, st\<lparr>outbuff := gbl\<rparr>)"
    using h assms(1,4,6,9) by (auto simp: xlate_dir_def asked_in_table_def stringcpy_id)
  then show ?thesis using host assms(1,2,7) by (simp add: gtm_env_xlate_def)
qed

text \<open>
  C5: after a first call that filled the tables, and any number of calls with any arguments in
  any environments, asking for the directory and the host of a record of the file answers with the
  record's global directory file, and the first call itself does. Not for the directory dummy, which
  only names a host; for a host with our own address, localhost
  among them, only if the directory is no file that is there and our host has a table; and
  the name of the file has to fit the buffer.
\<close>

theorem record_is_translated:
  assumes "initialize os env_init = Inr (True, st)" "later st st'"
    and "os_getenv os ''gtm_gblxlate'' = Some path" "os_fopen os path = Inr (contents, err)"
    and "line \<in> set (file_lines contents err)" "line_record line = Some (dir, host, gbl)"
    and "strcasecmp dir ''dummy'' \<noteq> 0" "length gbl \<le> MSGBUFSIZE"
    and "asked_in_table os st dir host" "asked_in_table os' st dir host"
  shows "gtm_env_xlate os' (Some dir) (Some host) zdir' st' = Inr (0, st'\<lparr>outbuff := gbl\<rparr>) \<and>
    gtm_env_xlate os (Some dir) (Some host) zdir env_init = Inr (0, st\<lparr>outbuff := gbl\<rparr>)"
proof -
  obtain o1 where o1: "our_host st = Some o1" using initialized(2) [OF assms(1)] by (auto simp: our_ready_def)
  have nb: "\<not> broken_flag st" by (rule initialized(3) [OF assms(1)])
  have tr: "translate st (record_host st host) (strip_slash dir) = Some gbl"
    by (rule initialized_translates [OF assms(1,3-7)])
  have nf: "nul_free host" "nul_free gbl" "dir \<noteq> []" "host \<noteq> []" using line_record_nul_free [OF assms(6)] by auto
  obtain m where m: "st' = st\<lparr>outbuff := m\<rparr>" using later_keeps_tables [OF assms(2) _ nb] o1 by auto
  have rh: "record_host st' = record_host st" unfolding m by (simp add: record_host_def fun_eq_iff)
  have "gtm_env_xlate os' (Some dir) (Some host) zdir' st' = Inr (0, st'\<lparr>outbuff := gbl\<rparr>)"
    using o1 nb tr assms(10) rh m nf assms(8) by (intro translated_answers) (simp_all add: asked_in_table_def)
  moreover have "gtm_env_xlate os (Some dir) (Some host) zdir env_init = gtm_env_xlate os (Some dir) (Some host) zdir st"
    using assms(1) o1 nb by (simp add: gtm_env_xlate_def) (simp add: env_init_def)
  ultimately show ?thesis using translated_answers [OF o1 nb tr assms(9) nf assms(8)] by simp
qed

text \<open>The record of /y is asked for after two other calls, one of them in a bare environment.\<close>

theorem record_is_translated_witness:
  "\<exists>st'. later (first_state (sample_os sample_file)) st' \<and> outbuff st' = ''gtm_env_xlate:  No translation available'' \<and>
     answer (gtm_env_xlate bare_os (Some ''/y'') (Some ''bar'') None st') = Some (0, ''c.gld'')"
proof -
  let ?os = "sample_os sample_file" and ?ask = "\<lambda>os d. gtm_env_xlate os (Some d) (Some ''bar'') None"
  let ?st = "first_state ?os"
  have "answer (bindE (?ask ?os ''/x'' ?st) (\<lambda>(_, st1). ?ask bare_os ''/q'' st1)) =
      Some (-1, ''gtm_env_xlate:  No translation available'')" by code_simp
  then obtain r st1 r' st' where calls: "?ask ?os ''/x'' ?st = Inr (r, st1)" "?ask bare_os ''/q'' st1 = Inr (r', st')"
    "outbuff st' = ''gtm_env_xlate:  No translation available''"
    by (auto simp: answer_def bindE_eq_Inr split: sum.splits prod.splits)
  have later: "later ?st st'" by (rule later.one_more [OF later.one_more [OF later.none_yet calls(1)] calls(2)])
  have "?ask bare_os ''/y'' st' = Inr (0, st'\<lparr>outbuff := ''c.gld''\<rparr>) \<and> ?ask ?os ''/y'' env_init = Inr (0, ?st\<lparr>outbuff := ''c.gld''\<rparr>)"
  proof (rule record_is_translated [OF sample_start later, where path = "''/t''" and contents = sample_file and err = False
        and line = "''/y'' @ [CHR 0x09] @ ''bar c.gld'' @ [CHR 0x0A]"])
    show "strcasecmp ''/y'' ''dummy'' \<noteq> 0" by code_simp
    have "record_host ?st ''bar'' = ''bar''" by code_simp
    then show "asked_in_table ?os ?st ''/y'' ''bar''" "asked_in_table bare_os ?st ''/y'' ''bar''"
      using sample_host by (auto simp: asked_in_table_def)
  qed (use sample_lines in \<open>simp_all add: sample_os_def MSGBUFSIZE_def\<close>)
  with later calls(3) show ?thesis by (auto simp: answer_def)
qed

text \<open>
  C6: the table is a function: if two records of the file give one directory of one host, up to
  case and a trailing slash, two different global directory files, no first call succeeds: it breaks the
  service and returns -1, unless a message is too long for its buffer.
\<close>

theorem conflicting_records_refused:
  assumes "os_getenv os ''gtm_gblxlate'' = Some path" "os_fopen os path = Inr (contents, err)"
    and "line1 \<in> set (file_lines contents err)" "line_record line1 = Some (dir1, host1, gbl1)"
    and "line2 \<in> set (file_lines contents err)" "line_record line2 = Some (dir2, host2, gbl2)"
    and "strcasecmp dir1 ''dummy'' \<noteq> 0" "strcasecmp dir2 ''dummy'' \<noteq> 0"
    and "map tolower host1 = map tolower host2" "strip_slash dir1 = strip_slash dir2" "gbl1 \<noteq> gbl2"
  shows "gtm_env_xlate os dir host zdir env_init = Inl OutOfBounds \<or>
    (\<exists>st. gtm_env_xlate os dir host zdir env_init = Inr (-1, st) \<and> broken_flag st)"
proof -
  have nf: "nul_free host1" "nul_free host2"
    using line_record_nul_free [OF assms(4)] line_record_nul_free [OF assms(6)] by auto
  have never: "initialize os env_init \<noteq> Inr (True, st)" for st
  proof
    assume start: "initialize os env_init = Inr (True, st)"
    have same: "strcasecmp host1 host2 = 0" using assms(9) nf by (simp add: strcasecmp_eq_0)
    have local: "strcasecmp host1 ''localhost'' = 0 \<longleftrightarrow> strcasecmp host2 ''localhost'' = 0"
      using assms(9) by (simp add: strcasecmp_def)
    have "stringcasecmp host1 host2 = 0" using same nf by (simp add: stringcasecmp_eq_0)
    then have "translate st host1 = translate st host2"
      by (simp add: translate_def table_lookup_def fun_eq_iff lookup_host_find host_order.find_cong [of host1 host2])
    then have "translate st (record_host st host1) = translate st (record_host st host2)"
      using local by (simp add: record_host_def split: option.splits)
    then show False
      using initialized_translates [OF start assms(1-4,7)] initialized_translates [OF start assms(1,2,5,6,8)] assms(10,11) by simp
  qed
  have "ends {OutOfBounds} (started os) (initialize os env_init)"
    by (rule initialize_ends [OF env_ok_init]) (simp_all add: env_init_def)
  moreover have "gtm_env_xlate os dir host zdir env_init = Inr (-1, st)" if "initialize os env_init = Inr (False, st)" for st
    using that by (simp add: gtm_env_xlate_def) (simp add: env_init_def)
  moreover have "gtm_env_xlate os dir host zdir env_init = Inl e" if "initialize os env_init = Inl e" for e
    using that by (simp add: gtm_env_xlate_def) (simp add: env_init_def)
  ultimately show ?thesis using never by (cases "initialize os env_init") (auto simp: started_def split: if_splits)
qed

text \<open>Two records of one directory and one host, spelled differently, with two files.\<close>

definition conflict_file :: string where
  "conflict_file = ''/x bar b.gld'' @ [CHR 0x0A] @ ''/x/ BAR c.gld'' @ [CHR 0x0A]"

definition conflict_os :: os_env where
  "conflict_os = (sample_os conflict_file)\<lparr>os_gethostbyname := (\<lambda>h. Some (if take 3 h = ''foo'' then 1 else 2))\<rparr>"

theorem conflicting_records_refused_witness:
  "\<exists>st. gtm_env_xlate conflict_os (Some ''/x'') (Some ''bar'') None env_init = Inr (-1, st) \<and> broken_flag st \<and>
     outbuff st = ''gtm_env_xlate:  Conflicting entry BAR:/x in translation file''"
proof -
  have said: "answer (gtm_env_xlate conflict_os (Some ''/x'') (Some ''bar'') None env_init) =
      Some (-1, ''gtm_env_xlate:  Conflicting entry BAR:/x in translation file'')" by code_simp
  have lines: "file_lines conflict_file False = [''/x bar b.gld'' @ [CHR 0x0A], ''/x/ BAR c.gld'' @ [CHR 0x0A]]"
    "map line_record (file_lines conflict_file False) = [Some (''/x'', ''bar'', ''b.gld''), Some (''/x/'', ''BAR'', ''c.gld'')]"
    by code_simp+
  have "gtm_env_xlate conflict_os (Some ''/x'') (Some ''bar'') None env_init = Inl OutOfBounds \<or>
      (\<exists>st. gtm_env_xlate conflict_os (Some ''/x'') (Some ''bar'') None env_init = Inr (-1, st) \<and> broken_flag st)"
  proof (rule conflicting_records_refused [where path = "''/t''" and contents = conflict_file and err = False
        and ?line1.0 = "''/x bar b.gld'' @ [CHR 0x0A]" and ?line2.0 = "''/x/ BAR c.gld'' @ [CHR 0x0A]"
        and ?dir1.0 = "''/x''" and ?dir2.0 = "''/x/''" and ?host1.0 = "''bar''" and ?host2.0 = "''BAR''"
        and ?gbl1.0 = "''b.gld''" and ?gbl2.0 = "''c.gld''"])
    show "strcasecmp ''/x'' ''dummy'' \<noteq> 0" "strcasecmp ''/x/'' ''dummy'' \<noteq> 0" "map tolower ''bar'' = map tolower ''BAR''"
      "strip_slash ''/x'' = strip_slash ''/x/''" by code_simp+
  qed (use lines in \<open>simp_all add: conflict_os_def sample_os_def\<close>)
  then show ?thesis using said by (auto simp: answer_def)
qed

text \<open>
  A path that is already a file is its own translation: when the service runs and the
  host is left out, empty or localhost, a path that is no directory comes back unchanged
  but for a trailing slash, whatever the table says.
\<close>

theorem local_file_passes_through:
  assumes "served st" "our_host st \<noteq> None" "\<not> broken_flag st"
    and "host = None \<or> host = Some [] \<or> host = Some ''localhost''"
    and "dir \<noteq> []" "nul_free dir" "length (strip_slash dir) \<le> MSGBUFSIZE"
    and "is_file os (strip_slash dir) = Inr True"
  shows "gtm_env_xlate os (Some dir) host zdir st = Inr (0, st\<lparr>outbuff := strip_slash dir\<rparr>)"
proof -
  have ok: "env_ok st" using service_ok_served [OF assms(1)] by (simp add: service_ok_def)
  obtain o1 where o1: "our_host st = Some o1" using assms(2) by auto
  have "nul_free (strip_slash dir)"
    using assms(6) by (auto simp: strip_slash_def nul_free_def dest: in_set_butlastD)
  then have "stringcpy (strip_slash dir) = strip_slash dir" using assms(7) by (rule stringcpy_id)
  then show ?thesis
    using assms(3-5,8) o1 our_host_found [OF ok o1]
    by (auto simp: gtm_env_xlate_def xlate_host_def xlate_dir_def)
qed

theorem local_file_passes_through_witness:
  "\<exists>st. served st \<and>
     gtm_env_xlate ((sample_os [])\<lparr>os_stat := (\<lambda>_. Some 0)\<rparr>) (Some ''/db/a.gld'') None None st =
       Inr (0, st\<lparr>outbuff := ''/db/a.gld''\<rparr>)"
proof -
  obtain r st where st: "gtm_env_xlate (sample_os sample_file) (Some ''/y'') (Some ''bar'') None env_init = Inr (r, st)"
    "our_host st \<noteq> None" "\<not> broken_flag st" by (rule sample_running)
  have "served st" using served.start st(1) by (rule served.call)
  with local_file_passes_through [of st None "''/db/a.gld''" "(sample_os [])\<lparr>os_stat := (\<lambda>_. Some 0)\<rparr>" None] st(2,3)
  show ?thesis by (auto simp: strip_slash_def NUL_def MSGBUFSIZE_def is_file_def MAXPATHLEN_def)
qed

text \<open>
  C7: two names of one host share one table: a record whose host is new but has the
  address of a host that already has entries makes the new name answer exactly as the known
  one for every directory, the record's own included.
\<close>

theorem alias_shares_table:
  assumes "env_ok st" "our_host st \<noteq> None" "nul_free host" "nul_free gbl"
    and "strcasecmp host ''localhost'' \<noteq> 0" "lookup_host_xc host (host_tree st) = None"
    and "find_host_by_ip ip (host_tree st) = Some a" "dirtable st (h_id a) = Some root"
    and "save_table_entry os host ip dir gbl st = Inr (True, st')"
  shows "\<forall>d. translate st' host d = translate st' (h_name a) d"
proof -
  have lh: "lookup_host host (host_tree st) = None" using assms(3,6) by (simp add: lookup_host_def)
  have "ends {OutOfBounds} (\<lambda>(res, st'). grows st st' \<and>
      (\<forall>h. res = Some h \<longrightarrow> dirtable st' (h_id h) = Some root \<and>
         h \<in> set_tree (host_tree st') \<and> lookup_host_xc host (host_tree st') = Some h))
      (save_host os host ip (Some root) st)"
    using env_ok_dirtable [OF assms(1,8)] save_host_ends [OF assms(1,6), of "Some root" ip os]
    by (auto elim!: ends_mono)
  moreover obtain res st1 where s1: "save_host os host ip (Some root) st = Inr (res, st1)"
    using assms(5,7-9) lh by (auto simp: save_table_entry_def bindE_eq_Inr)
  ultimately have g1: "grows st st1" and new: "\<And>h. res = Some h \<Longrightarrow> dirtable st1 (h_id h) = Some root \<and>
      h \<in> set_tree (host_tree st1) \<and> lookup_host_xc host (host_tree st1) = Some h" by auto
  obtain h where h: "res = Some h"
    using assms(5,7-9) lh s1 by (cases res) (auto simp: save_table_entry_def)
  have "grows st1 st'"
  proof (cases "strcasecmp dir ''dummy'' = 0")
    case True
    then show ?thesis using assms(5,7-9) lh s1 h g1 by (auto simp: save_table_entry_def grows_def)
  next
    case False
    then have "new_entry os h host dir gbl st1 = Inr (True, st')"
      using assms(5,7-9) lh s1 h by (simp add: save_table_entry_def)
    then show ?thesis
      using new_entry_ends [of st1 h gbl dir os host] new [OF h] g1 assms(4) by (auto simp: grows_def)
  qed
  then have "lookup_host_xc host (host_tree st') = Some h" "dirtable st' (h_id h) = Some root"
    "dirtable st' (h_id a) = Some root" "lookup_host_xc (h_name a) (host_tree st') = Some a"
    using new [OF h] g1 assms(1,8) find_by_ip_in [OF assms(7)]
    by (auto simp: grows_def lookup_host_find env_ok_def host_order.find_complete)
  then show ?thesis by (simp add: translate_def table_lookup_def)
qed

theorem alias_shares_table_witness:
  "\<exists>st'. save_table_entry (sample_os []) ''baz'' 2 ''/z'' ''z.gld'' (first_state (sample_os sample_file)) = Inr (True, st') \<and>
     (\<forall>d. translate st' ''baz'' d = translate st' ''bar'' d)"
proof -
  let ?st = "first_state (sample_os sample_file)"
  have "map_option (\<lambda>a. (h_name a, dirtable ?st (h_id a) \<noteq> None)) (find_host_by_ip 2 (host_tree ?st)) = Some (''bar'', True)"
    by code_simp
  then obtain a root where a: "find_host_by_ip 2 (host_tree ?st) = Some a" "h_name a = ''bar''"
    "dirtable ?st (h_id a) = Some root" by auto
  have "(case save_table_entry (sample_os []) ''baz'' 2 ''/z'' ''z.gld'' ?st of Inr (ok, _) \<Rightarrow> ok | Inl _ \<Rightarrow> False)"
    by code_simp
  then obtain st' where st': "save_table_entry (sample_os []) ''baz'' 2 ''/z'' ''z.gld'' ?st = Inr (True, st')"
    by (auto split: sum.splits)
  have "\<forall>d. translate st' ''baz'' d = translate st' (h_name a) d"
  proof (rule alias_shares_table [OF initialized(1) [OF sample_start] _ _ _ _ _ a(1,3) st'])
    show "our_host ?st \<noteq> None" using sample_host(2) by auto
    show "strcasecmp ''baz'' ''localhost'' \<noteq> 0" "lookup_host_xc ''baz'' (host_tree ?st) = None" by code_simp+
  qed (simp_all add: NUL_def)
  with st' a(2) show ?thesis by simp
qed

text \<open>
  But a name entered for a host that has no entries yet shares nothing. The local host
  is entered without entries, so a table that knows it only by its full name is useless:
  the record is in the tables, yet asking for it answers that there is no local host
  translation.
\<close>

definition alias_file :: string where "alias_file = ''/x foo.com g.gld'' @ [CHR 0x0A]"

theorem empty_table_not_shared:
  "translate (first_state (sample_os alias_file)) ''foo.com'' ''/x'' = Some ''g.gld'' \<and>
   answer (gtm_env_xlate (sample_os alias_file) (Some ''/x'') (Some ''foo.com'') None env_init) =
     Some (-1, ''gtm_env_xlate:  No local host translation available'')"
  by code_simp

end
