(* ===== verification/EnvStubs.thy ===== *)
theory EnvStubs
  imports EnvXlate
begin

text \<open>
  The translation routines of env_xlate/inref that exercise the caller: gtm_env_xlate.c,
  ydb_env_xlate.c and ydb_gbldir_xlate.c choose their answer by the first byte of an
  argument, gtm_env_oops.c copies it.
\<close>

section \<open>Strings with a length\<close>

text \<open>\<open>xc_string_t\<close>: a length and a pointer, null or to an object with these bytes.\<close>

record xc_string =
  xc_length :: int
  xc_address :: "string option"

text \<open>\<open>memcpy\<close> of \<open>n\<close> bytes out of the object.\<close>

definition xc_bytes :: "xc_string \<Rightarrow> c_fault + string" where
  "xc_bytes s =
     (if xc_length s = 0 then Inr []
      else case xc_address s of
             None \<Rightarrow> Inl NullDeref
           | Some a \<Rightarrow>
               if 0 \<le> xc_length s \<and> nat (xc_length s) \<le> length a then Inr (take (nat (xc_length s)) a)
               else Inl OutOfBounds)"

text \<open>
  \<open>init_functable\<close> of these files prints its complaints and goes on: without the
  variable \<open>strtoul\<close> is given a null pointer, and an address of 0 is followed.
\<close>

definition stub_init_functable :: "os_env \<Rightarrow> c_fault + unit" where
  "stub_init_functable os =
     (case os_getenv os ''GTM_CALLIN_START'' of
        None \<Rightarrow> Inl NullDeref
      | Some pcAddress \<Rightarrow> if strtoul_zero pcAddress then Inl NullDeref else Inr ())"

definition stub_malloc :: "os_env \<Rightarrow> c_fault + unit" where
  "stub_malloc os = (if os_malloc os 0 then Inr () else Inl NullDeref)"

text \<open>A copy of an argument in fresh memory, handed to the caller.\<close>

definition stub_copy :: "os_env \<Rightarrow> xc_string \<Rightarrow> c_fault + int \<times> xc_string" where
  "stub_copy os ptr =
     bindE (if xc_length ptr = 0 then Inr () else stub_malloc os) (\<lambda>_.
     bindE (xc_bytes ptr) (\<lambda>b. Inr (0, \<lparr>xc_length = xc_length ptr, xc_address = Some b\<rparr>)))"

text \<open>The body the three routines share, with their argument and error text.\<close>

definition stub_xlate ::
    "string \<Rightarrow> os_env \<Rightarrow> xc_string \<Rightarrow> xc_string \<Rightarrow> xc_string \<Rightarrow> c_fault + int \<times> xc_string" where
  "stub_xlate errtext os ptr zdir ret =
     bindE (stub_init_functable os) (\<lambda>_.
     case xc_address ptr of
       None \<Rightarrow> stub_copy os ptr
     | Some a \<Rightarrow>
         let c = c_hd a in
         if c = CHR ''X'' then
           bindE (stub_malloc os) (\<lambda>_. Inr (-1, \<lparr>xc_length = 35, xc_address = Some errtext\<rparr>))
         else if c = CHR ''Y'' then Inr (100, ret\<lparr>xc_length := 0\<rparr>)
         else if c = CHR ''Z'' then Inr (1, ret\<lparr>xc_length := 33333\<rparr>)
         else if c = CHR ''T'' then
           bindE (xc_bytes zdir) (\<lambda>z.
           if length z + 5 > 100 then Inl OutOfBounds
           else Inr (0, \<lparr>xc_length = xc_length zdir + 5, xc_address = Some (z @ ''mumps'')\<rparr>))
         else stub_copy os ptr)"

definition stub_gtm_env_xlate ::
    "os_env \<Rightarrow> xc_string \<Rightarrow> xc_string \<Rightarrow> xc_string \<Rightarrow> xc_string \<Rightarrow> c_fault + int \<times> xc_string" where
  "stub_gtm_env_xlate os ptr1 ptr2 zdir ret = stub_xlate ''This is an error from gtm_env_xlate'' os ptr2 zdir ret"

definition stub_ydb_env_xlate ::
    "os_env \<Rightarrow> xc_string \<Rightarrow> xc_string \<Rightarrow> xc_string \<Rightarrow> xc_string \<Rightarrow> c_fault + int \<times> xc_string" where
  "stub_ydb_env_xlate os ptr1 ptr2 zdir ret = stub_xlate ''This is an error from ydb_env_xlate'' os ptr2 zdir ret"

definition stub_ydb_gbldir_xlate ::
    "os_env \<Rightarrow> xc_string \<Rightarrow> xc_string \<Rightarrow> xc_string \<Rightarrow> xc_string \<Rightarrow> c_fault + int \<times> xc_string" where
  "stub_ydb_gbldir_xlate os ptr1 ptr2 zdir ret = stub_xlate ''This is an error from ydb_env_xlate'' os ptr1 zdir ret"

definition gtm_env_oops ::
    "os_env \<Rightarrow> xc_string \<Rightarrow> xc_string \<Rightarrow> xc_string \<Rightarrow> xc_string \<Rightarrow> c_fault + int \<times> xc_string" where
  "gtm_env_oops os ptr1 ptr2 zdir ret = bindE (stub_init_functable os) (\<lambda>_. stub_copy os ptr2)"

section \<open>Properties\<close>

definition xc_of :: "string \<Rightarrow> xc_string" where
  "xc_of s = \<lparr>xc_length = int (length s), xc_address = Some s\<rparr>"

text \<open>
  The argument T of the stub routines makes them append mumps to the directory they
  are given; their buffer has 100 bytes and nothing checks it, so the call succeeds for
  directories of up to 95 bytes and is out of bounds for every longer one.
\<close>

theorem stub_T_buffer:
  assumes "stub_init_functable os = Inr ()" "c_hd arg = CHR ''T''"
  shows "stub_gtm_env_xlate os ptr1 (xc_of arg) (xc_of zdir) ret =
           (if length zdir \<le> 95 then Inr (0, xc_of (zdir @ ''mumps'')) else Inl OutOfBounds) \<and>
         stub_ydb_gbldir_xlate os (xc_of arg) ptr2 (xc_of zdir) ret =
           (if length zdir \<le> 95 then Inr (0, xc_of (zdir @ ''mumps'')) else Inl OutOfBounds)"
  using assms
  by (auto simp: stub_gtm_env_xlate_def stub_ydb_gbldir_xlate_def stub_xlate_def xc_of_def xc_bytes_def Let_def)

definition stub_os :: os_env where
  "stub_os = \<lparr>os_getenv = (\<lambda>_. Some ''4096''), os_gethostname = Inl 1, os_gethostbyname = (\<lambda>_. None),
     os_fopen = (\<lambda>_. Inl 2), os_getcwd = None, os_stat = (\<lambda>_. None), os_strerror = (\<lambda>_. []),
     os_malloc = (\<lambda>_. True)\<rparr>"

theorem stub_T_buffer_witness:
  "stub_gtm_env_xlate stub_os (xc_of []) (xc_of ''T'') (xc_of ''/a/'') (xc_of []) =
     Inr (0, xc_of (''/a/'' @ ''mumps''))"
proof -
  have "stub_init_functable stub_os = Inr ()" by code_simp
  from stub_T_buffer [OF this, of "''T''" "xc_of []" "''/a/''" "xc_of []" "xc_of []"] show ?thesis
    by (simp add: c_hd_def)
qed

end
