(* ===== verification/AuditListener.thy ===== *)
theory AuditListener
  imports CLib
begin

text \<open>
  com/audit_listener.c, the listener that writes the audit messages of a YottaDB process to
  a log file: escaping, log file switching, option parsing, the setup of its three variants
  and one round of each accept loop. The operating system and OpenSSL are records of
  functions; the file system is state.
\<close>

section \<open>State\<close>

text \<open>
  Standard error goes to the terminal or to the file it was last duplicated to; a rename
  takes the open file with it. \<open>leaked\<close> counts connections that were accepted and never
  closed.
\<close>

record listener =
  logfile :: string
  logfileswitch :: bool
  files :: "string \<Rightarrow> string option"
  err_file :: "string option"
  terminal :: string
  leaked :: nat

record listener_os =
  lo_stat :: "string \<Rightarrow> int option"
  lo_rename :: "string \<Rightarrow> string \<Rightarrow> int option"
  lo_open :: "string \<Rightarrow> int option"
  lo_dup2 :: "int option"
  lo_time :: "int option"
  lo_stamp :: string
  lo_date :: string
  lo_close :: "int option"
  lo_strerror :: "int \<Rightarrow> string"

definition PATH_MAX :: nat where "PATH_MAX = 4096"
definition MAX_BUF_SIZE :: nat where "MAX_BUF_SIZE = 2048"
definition EXIT_OK :: int where "EXIT_OK = 0"
definition EXIT_ERROR :: int where "EXIT_ERROR = 1"
definition EXIT_SSL_ERROR :: int where "EXIT_SSL_ERROR = 2"
definition ENOENT :: int where "ENOENT = 2"
definition EINTR :: int where "EINTR = 4"
definition EBADF :: int where "EBADF = 9"

definition NL :: char where "NL = CHR 0x0A"

text \<open>Output to standard error.\<close>

definition emit :: "string \<Rightarrow> listener \<Rightarrow> listener" where
  "emit txt st =
     (case err_file st of
        None \<Rightarrow> st\<lparr>terminal := terminal st @ txt\<rparr>
      | Some f \<Rightarrow>
          (case files st f of
             None \<Rightarrow> st
           | Some old \<Rightarrow> st\<lparr>files := (files st)(f := Some (old @ txt))\<rparr>))"

definition perror :: "listener_os \<Rightarrow> string \<Rightarrow> int \<Rightarrow> listener \<Rightarrow> listener" where
  "perror os s errno = emit (s @ '': '' @ lo_strerror os errno @ [NL])"

text \<open>The handler of SIGHUP (signal 1).\<close>

definition listener_signal_handler :: "int \<Rightarrow> listener \<Rightarrow> listener" where
  "listener_signal_handler sig st = (if sig = 1 then st\<lparr>logfileswitch := True\<rparr> else st)"

section \<open>The log file\<close>

text \<open>\<open>open\<close> with O_CREAT and O_APPEND: the file exists afterwards.\<close>

definition touch :: "string \<Rightarrow> listener \<Rightarrow> listener" where
  "touch f st = (if files st f = None then st\<lparr>files := (files st)(f := Some [])\<rparr> else st)"

definition open_logfile :: "listener_os \<Rightarrow> string option \<Rightarrow> listener \<Rightarrow> int \<times> listener" where
  "open_logfile os path st =
     (let st1 = (case path of None \<Rightarrow> st | Some w \<Rightarrow> st\<lparr>logfile := c_str (take PATH_MAX w)\<rparr>) in
      if length (logfile st1) \<noteq> 0 then
        (case lo_open os (logfile st1) of
           Some errno \<Rightarrow>
             (EXIT_ERROR, emit (''Failed to open output file '' @ logfile st1 @ '': '' @ lo_strerror os errno @ [NL]) st1)
         | None \<Rightarrow> (EXIT_ERROR, (touch (logfile st1) st1)\<lparr>err_file := Some (logfile st1)\<rparr>))
      else (EXIT_ERROR, emit ''No log file specified.'' st1))"

text \<open>
  The loop that looks for an unused name: it goes on while \<open>stat\<close> succeeds, and also
  while it fails for any reason but a missing file, so it need not end. The name is built
  in a buffer of \<open>PATH_MAX + 1\<close> bytes; the suffix is an \<open>int\<close>.
\<close>

definition name_taken :: "listener_os \<Rightarrow> listener \<Rightarrow> string \<Rightarrow> bool" where
  "name_taken os st name =
     (case lo_stat os name of
        Some errno \<Rightarrow> errno \<noteq> ENOENT
      | None \<Rightarrow> files st name \<noteq> None)"

partial_function (option) suffix_loop ::
    "(string \<Rightarrow> bool) \<Rightarrow> string \<Rightarrow> string \<Rightarrow> int \<Rightarrow> (c_fault + string) option" where
  "suffix_loop taken base name suffix =
     (if taken name then
        (let name' = base @ ''_'' @ dec suffix in
         if length name' > PATH_MAX then Some (Inl OutOfBounds)
         else suffix_loop taken base name' (int32 (suffix + 1)))
      else Some (Inr name))"

definition rename_file :: "string \<Rightarrow> string \<Rightarrow> listener \<Rightarrow> listener" where
  "rename_file old new st =
     st\<lparr>files := (files st)(new := files st old, old := None),
        err_file := (if err_file st = Some old then Some new else err_file st)\<rparr>"

definition switch_logfile :: "listener_os \<Rightarrow> listener \<Rightarrow> (c_fault + int \<times> listener) option" where
  "switch_logfile os st =
     (case lo_time os of
        Some errno \<Rightarrow> Some (Inr (EXIT_ERROR, perror os ''Error determining switch time'' errno st))
      | None \<Rightarrow>
          let base = logfile st @ lo_stamp os in
          if length base > PATH_MAX then Some (Inl OutOfBounds)
          else
            (case suffix_loop (name_taken os st) base base 1 of
               None \<Rightarrow> None
             | Some (Inl e) \<Rightarrow> Some (Inl e)
             | Some (Inr new) \<Rightarrow>
                 (case (if files st (logfile st) = None then Some ENOENT else lo_rename os (logfile st) new) of
                    Some errno \<Rightarrow> Some (Inr (EXIT_ERROR, perror os ''Error switching log file'' errno st))
                  | None \<Rightarrow>
                      let st1 = rename_file (logfile st) new st in
                      (case lo_open os (logfile st1) of
                         Some errno \<Rightarrow> Some (Inr (EXIT_ERROR, perror os ''Error switching log file'' errno st1))
                       | None \<Rightarrow>
                           let st2 = touch (logfile st1) st1 in
                           (case lo_dup2 os of
                              Some errno \<Rightarrow> Some (Inr (EXIT_ERROR, perror os ''Error switching log file'' errno st2))
                            | None \<Rightarrow> Some (Inr (EXIT_OK, st2\<lparr>err_file := Some (logfile st2)\<rparr>)))))))"

section \<open>Escaping\<close>

text \<open>
  \<open>escape_string\<close> at source index \<open>i\<close> and target index \<open>o\<close>; an escape is written by
  \<open>snprintf(optr, 3, ...)\<close>, which stores two characters and a NUL.
\<close>

definition put_escape :: "string \<Rightarrow> nat \<Rightarrow> char \<Rightarrow> c_fault + string" where
  "put_escape target ot c =
     bindE (store target ot (CHR 0x5C)) (\<lambda>t1. bindE (store t1 (ot + 1) c) (\<lambda>t2. store t2 (ot + 2) NUL))"

fun escape_loop :: "string \<Rightarrow> string \<Rightarrow> nat \<Rightarrow> nat \<Rightarrow> nat \<Rightarrow> c_fault + string" where
  "escape_loop source target 0 i ot = Inr target"
| "escape_loop source target (Suc n) i ot =
     bindE (load source i) (\<lambda>c.
     if c = CHR 0x5C then bindE (put_escape target ot (CHR 0x5C)) (\<lambda>t. escape_loop source t n (Suc i) (ot + 2))
     else if c = NL then bindE (put_escape target ot (CHR ''n'')) (\<lambda>t. escape_loop source t n (Suc i) (ot + 2))
     else if c = NUL then bindE (put_escape target ot (CHR ''0'')) (\<lambda>t. escape_loop source t n (Suc i) (ot + 2))
     else bindE (store target ot c) (\<lambda>t. escape_loop source t n (Suc i) (Suc ot)))"

definition escape_string :: "string \<Rightarrow> string \<Rightarrow> int \<Rightarrow> c_fault + string" where
  "escape_string source target maxlen = escape_loop source target (nat maxlen) 0 0"

section \<open>Program name, process id, usage\<close>

fun strip_loop :: "string \<Rightarrow> string \<Rightarrow> string" where
  "strip_loop prognam [] = prognam"
| "strip_loop prognam (c # full) = strip_loop (if c = CHR ''/'' then full else prognam) full"

definition strip_prognam :: "string \<Rightarrow> string" where
  "strip_prognam full = strip_loop full full"

definition about :: "string \<Rightarrow> listener \<Rightarrow> int \<times> listener" where
  "about prognam st =
     (EXIT_ERROR,
      emit (''Usage: '' @ [NL] @
        ''  - '' @ prognam @ '' tcp <pidfile> <logfile> <portno> '' @ [NL] @
        ''  - '' @ prognam @ '' tls <pidfile> <logfile> <portno> '' @ [CHR 0x5C] @ '' '' @ [NL] @
        ''      <certfile> <privkeyfile> <passphrase> '' @ [CHR 0x5C] @ '' '' @ [NL] @
        ''      [-clicert] [-cafile <CAfilepath>] [-capath <CApath>] '' @ [NL] @
        ''  - '' @ prognam @ '' unix <pidfile> <logfile> <uxsockfile> '' @ [NL]) st)"

section \<open>One round of the accept loops\<close>

text \<open>The switch at the top of a round: the flag stays set if switching fails.\<close>

definition check_switch :: "listener_os \<Rightarrow> listener \<Rightarrow> (c_fault + listener) option" where
  "check_switch os st =
     (if logfileswitch st then
        (case switch_logfile os st of
           None \<Rightarrow> None
         | Some (Inl e) \<Rightarrow> Some (Inl e)
         | Some (Inr (r, st')) \<Rightarrow> Some (Inr (if r = 0 then st'\<lparr>logfileswitch := False\<rparr> else st')))
      else Some (Inr st))"

definition hang_up :: "bool \<Rightarrow> listener \<Rightarrow> listener" where
  "hang_up hup st = (if hup then listener_signal_handler 1 st else st)"

text \<open>
  The receive loop of the TCP listener: what \<open>recv\<close> returns, in order, as error numbers
  and pieces of the message; the list ends where the peer has closed. A full buffer asks
  for no bytes and gets none.
\<close>

fun tcp_receive :: "listener_os \<Rightarrow> (int + string) list \<Rightarrow> string \<Rightarrow> listener \<Rightarrow> string \<times> listener" where
  "tcp_receive os [] buf st = (buf, st)"
| "tcp_receive os (Inl errno # rest) buf st =
     tcp_receive os rest buf (if errno = EINTR then st else perror os ''recv'' errno st)"
| "tcp_receive os (Inr piece # rest) buf st =
     (let got = take (MAX_BUF_SIZE - length buf - 1) piece in
      if got = [] then (buf, st) else tcp_receive os rest (buf @ got) st)"

text \<open>
  The message is escaped into \<open>escaped\<close>; the argument \<open>shown\<close> chooses the buffer that
  is then printed as a string.
\<close>

definition log_message :: "listener_os \<Rightarrow> (string \<Rightarrow> string \<Rightarrow> string) \<Rightarrow> string \<Rightarrow> listener \<Rightarrow> c_fault + listener" where
  "log_message os shown buf st =
     bindE (escape_string buf (replicate (2 * MAX_BUF_SIZE) NUL) (int (length buf))) (\<lambda>escaped.
     Inr (emit (lo_date os @ ''; '' @ c_str (shown buf escaped) @ [NL]) st))"

definition close_connection :: "listener_os \<Rightarrow> listener \<Rightarrow> listener" where
  "close_connection os st =
     (case lo_close os of
        None \<Rightarrow> st
      | Some errno \<Rightarrow> if errno = EINTR then st else perror os ''close'' errno st)"

definition tcp_round ::
    "listener_os \<Rightarrow> bool \<Rightarrow> int + (int + string) list \<Rightarrow> listener \<Rightarrow> (c_fault + listener) option" where
  "tcp_round os hup acc st =
     map_option (\<lambda>res. bindE res (\<lambda>st1.
       case acc of
         Inl errno \<Rightarrow> Inr (if errno = EINTR then st1 else perror os ''accept'' errno st1)
       | Inr pieces \<Rightarrow>
           (case tcp_receive os pieces [] st1 of
              (buf, st2) \<Rightarrow>
                bindE (if 0 < length buf then log_message os (\<lambda>buf escaped. buf) buf st2 else Inr st2) (\<lambda>st3.
                Inr (close_connection os st3)))))
     (check_switch os (hang_up hup st))"

text \<open>
  The TLS listener. A connection fails at one of three calls, each with the texts OpenSSL
  prints, or is read once. Without DEBUG \<open>date\<close> is written only when a message is
  logged, and the failures print it.
\<close>

datatype tls_connection =
  SSL_new_fails string | SSL_set_fd_fails string | SSL_accept_fails string | SSL_read_gives string

definition tls_failure :: "string \<Rightarrow> string \<Rightarrow> string option \<Rightarrow> listener \<Rightarrow> c_fault + string option \<times> listener" where
  "tls_failure errors what date st =
     (case date of
        None \<Rightarrow> Inl UninitRead
      | Some d \<Rightarrow> Inr (Some d, emit (d @ ''; failed at '' @ what @ [NL]) (emit errors st)))"

definition tls_round ::
    "listener_os \<Rightarrow> bool \<Rightarrow> int + tls_connection \<Rightarrow> string option \<Rightarrow> listener \<Rightarrow>
     (c_fault + string option \<times> listener) option" where
  "tls_round os hup acc date st =
     map_option (\<lambda>res. bindE res (\<lambda>st1.
       case acc of
         Inl errno \<Rightarrow> Inr (date, if errno = EINTR then st1 else perror os ''accept'' errno st1)
       | Inr (SSL_new_fails e) \<Rightarrow> tls_failure e ''SSL_new'' date st1
       | Inr (SSL_set_fd_fails e) \<Rightarrow> tls_failure e ''SSL_set_fd'' date st1
       | Inr (SSL_accept_fails e) \<Rightarrow> tls_failure e ''SSL_accept'' date st1
       | Inr (SSL_read_gives msg) \<Rightarrow>
           let buf = take (MAX_BUF_SIZE - 1) msg in
           if 0 < length buf then
             bindE (log_message os (\<lambda>buf escaped. buf) buf st1) (\<lambda>st2. Inr (Some (lo_date os), st2))
           else Inr (date, st1)))
     (check_switch os (hang_up hup st))"

text \<open>
  The UNIX listener accepts first and looks at the flag afterwards; after EINTR it goes on
  with the descriptor -1. The second component of an accepted connection is what
  \<open>recv\<close> returns.
\<close>

definition leak :: "listener \<Rightarrow> listener" where
  "leak st = st\<lparr>leaked := Suc (leaked st)\<rparr>"

definition unix_receive :: "listener_os \<Rightarrow> int + string \<Rightarrow> listener \<Rightarrow> c_fault + listener" where
  "unix_receive os received st =
     (case received of
        Inl errno \<Rightarrow>
          if errno = EINTR then Inr (leak st)
          else if errno \<noteq> EBADF then Inr (perror os ''recv'' errno st)
          else Inr st
      | Inr msg \<Rightarrow>
          let buf = take (MAX_BUF_SIZE - 1) msg in
          if 0 < length buf then log_message os (\<lambda>buf escaped. escaped) buf st else Inr st)"

definition unix_round ::
    "listener_os \<Rightarrow> bool \<Rightarrow> int + (int + string) \<Rightarrow> listener \<Rightarrow> (c_fault + listener) option" where
  "unix_round os hup acc st =
     (let st1 = hang_up hup st in
      case acc of
        Inl errno \<Rightarrow>
          if errno \<noteq> EINTR then Some (Inr (perror os ''accept'' errno st1))
          else if logfileswitch st1 then check_switch os st1
          else Some (Inr st1)
      | Inr received \<Rightarrow>
          if logfileswitch st1 then check_switch os (leak st1)
          else Some (unix_receive os received st1))"

section \<open>Certificates and options of the TLS listener\<close>

text \<open>The passphrase callback, for a buffer of the given allocation.\<close>

definition pem_passwd_cb :: "string \<Rightarrow> nat \<Rightarrow> int \<Rightarrow> c_fault + string \<times> int" where
  "pem_passwd_cb pass alloc sz =
     (if sz \<le> 0 \<or> nat sz > alloc then Inl OutOfBounds
      else let s = c_str (take (nat sz - 1) pass) in Inr (s, int (length s)))"

text \<open>What OpenSSL answers, and the context the code configures through it.\<close>

record openssl =
  ss_init :: bool
  ss_ctx_new :: bool
  ss_session_id :: bool
  ss_verify_locations :: "string option \<Rightarrow> string option \<Rightarrow> bool"
  ss_certificate :: "string \<Rightarrow> bool"
  ss_privkey :: "string \<Rightarrow> bool"
  ss_check_key :: bool
  ss_errors :: string
  ss_errno :: int

record ssl_ctx =
  ctx_clicert :: bool
  ctx_cafile :: "string option"
  ctx_capath :: "string option"
  ctx_cert :: string
  ctx_key :: string

definition ssl_context_init ::
    "openssl \<Rightarrow> string \<Rightarrow> string \<Rightarrow> string option \<Rightarrow> string option \<Rightarrow> bool \<Rightarrow> listener \<Rightarrow> ssl_ctx option \<times> listener" where
  "ssl_context_init ss certfile privkeyfile cafile capath req_clicert st =
     (let failed = (None, emit (ss_errors ss) st) in
      if \<not> ss_ctx_new ss then failed
      else if req_clicert \<and> \<not> ss_session_id ss then failed
      else if (cafile \<noteq> None \<or> capath \<noteq> None) \<and> \<not> ss_verify_locations ss cafile capath then failed
      else if \<not> ss_certificate ss certfile then failed
      else if \<not> ss_privkey ss privkeyfile then failed
      else if \<not> ss_check_key ss then failed
      else (Some \<lparr>ctx_clicert = req_clicert, ctx_cafile = cafile, ctx_capath = capath,
                  ctx_cert = certfile, ctx_key = privkeyfile\<rparr>, st))"

text \<open>The optional arguments; \<open>None\<close> is a parse error.\<close>

fun parse_options ::
    "string list \<Rightarrow> bool \<times> string option \<times> string option \<Rightarrow> (bool \<times> string option \<times> string option) option" where
  "parse_options [] opts = Some opts"
| "parse_options (a # args) (req, cafile, capath) =
     (if a = [] \<or> hd a \<noteq> CHR ''-'' then None
      else
        let opt_str = tl a in
        if opt_str = [] then None
        else if strcasecmp ''CLICERT'' opt_str = 0 then parse_options args (True, cafile, capath)
        else
          (case args of
             [] \<Rightarrow> None
           | val_str # args' \<Rightarrow>
               if val_str = [] then None
               else if strcasecmp ''CAFILE'' opt_str = 0 then parse_options args' (req, Some val_str, capath)
               else if strcasecmp ''CAPATH'' opt_str = 0 then parse_options args' (req, cafile, Some val_str)
               else None))"

section \<open>Setting up a listener\<close>

record setup_os =
  so_socket :: "int option"
  so_bind :: "int option"
  so_listen :: "int option"
  so_getpid :: int
  so_fopen :: "string \<Rightarrow> int option"
  so_rename :: "int option"

datatype outcome = Exits int | Listening

text \<open>
  \<open>argv\<close> as the list of the arguments; the null pointer behind them may be read, nothing
  further.
\<close>

definition arg :: "string list \<Rightarrow> nat \<Rightarrow> c_fault + string option" where
  "arg argv i =
     (if i < length argv then Inr (Some (argv ! i)) else if i = length argv then Inr None else Inl OutOfBounds)"

text \<open>
  \<open>save_pidfile\<close>: the copy of the name is terminated only if it is shorter than
  MAX_STR_SIZE (1024). The rename is of the file to its own name.
\<close>

definition save_pidfile :: "setup_os \<Rightarrow> string \<Rightarrow> listener \<Rightarrow> c_fault + outcome \<times> listener" where
  "save_pidfile so pidfilename st =
     (if length pidfilename \<ge> 1024 then Inl UninitRead
      else if so_fopen so pidfilename \<noteq> None then
        Inr (Exits EXIT_ERROR, emit (''failed to create file: '' @ pidfilename @ '' '' @ [NL]) st)
      else
        let st1 = st\<lparr>files := (files st)(pidfilename := Some (dec (so_getpid so) @ [NL]))\<rparr> in
        if so_rename so \<noteq> None then
          Inr (Exits EXIT_ERROR,
               emit (''rename failed: '' @ pidfilename @ '' -> '' @ pidfilename @ '' '' @ [NL]) st1)
        else Inr (Listening, st1))"

text \<open>Socket, bind and listen, with the texts of the variant at hand, then the pid file.\<close>

definition start_listening ::
    "listener_os \<Rightarrow> setup_os \<Rightarrow> int \<Rightarrow> string \<Rightarrow> listener \<Rightarrow> c_fault + outcome \<times> listener" where
  "start_listening os so socket_exit pidfilename st =
     (case so_socket so of
        Some errno \<Rightarrow> Inr (Exits socket_exit, perror os ''socket'' errno st)
      | None \<Rightarrow>
          (case so_bind so of
             Some errno \<Rightarrow> Inr (Exits EXIT_ERROR, perror os ''bind'' errno st)
           | None \<Rightarrow>
               (case so_listen so of
                  Some errno \<Rightarrow> Inr (Exits EXIT_ERROR, perror os ''listen'' errno st)
                | None \<Rightarrow> save_pidfile so pidfilename st)))"

definition main_tcp ::
    "listener_os \<Rightarrow> setup_os \<Rightarrow> string \<Rightarrow> string list \<Rightarrow> listener \<Rightarrow> c_fault + outcome \<times> listener" where
  "main_tcp os so pidfilename argv st =
     bindE (arg argv 3) (\<lambda>path.
     case open_logfile os path st of (r, st1) \<Rightarrow>
       if r \<noteq> 1 then Inr (Exits EXIT_ERROR, st1)
       else bindE (arg argv 4) (\<lambda>portno.
            if portno = None then Inl NullDeref else start_listening os so EXIT_ERROR pidfilename st1))"

definition main_unix ::
    "listener_os \<Rightarrow> setup_os \<Rightarrow> string \<Rightarrow> string list \<Rightarrow> listener \<Rightarrow> c_fault + outcome \<times> listener" where
  "main_unix os so pidfilename argv st =
     bindE (arg argv 3) (\<lambda>path.
     case open_logfile os path st of (r, st1) \<Rightarrow>
       if r \<noteq> 1 then Inr (Exits EXIT_ERROR, st1)
       else
         (case so_socket so of
            Some errno \<Rightarrow> Inr (Exits EXIT_ERROR, perror os ''Failed to create socket'' errno st1)
          | None \<Rightarrow>
              bindE (arg argv 4) (\<lambda>sockfile.
              case sockfile of
                None \<Rightarrow> Inl NullDeref
              | Some f \<Rightarrow>
                  let st2 = st1\<lparr>files := (files st1)(f := None)\<rparr> in
                  (case so_bind so of
                     Some errno \<Rightarrow>
                       Inr (Exits EXIT_ERROR,
                            emit (''Failed to bind socket '' @ f @ '': '' @ lo_strerror os errno @ [NL]) st2)
                   | None \<Rightarrow>
                       (case so_listen so of
                          Some errno \<Rightarrow> Inr (Exits EXIT_ERROR, perror os ''Failed to listen'' errno st2)
                        | None \<Rightarrow> save_pidfile so pidfilename st2)))))"

definition main_tls ::
    "listener_os \<Rightarrow> setup_os \<Rightarrow> openssl \<Rightarrow> string \<Rightarrow> string \<Rightarrow> string list \<Rightarrow> listener \<Rightarrow>
     c_fault + outcome \<times> listener" where
  "main_tls os so ss prognam pidfilename argv st =
     (if \<not> ss_init ss then Inr (Exits EXIT_SSL_ERROR, perror os ''OpenSSL library initialization failed'' (ss_errno ss) st)
      else
        bindE (arg argv 7) (\<lambda>pass.
        if pass = None then Inl NullDeref
        else
          (case parse_options (drop 8 argv) (False, None, None) of
             None \<Rightarrow> (case about prognam st of (r, st1) \<Rightarrow> Inr (Exits EXIT_ERROR, st1))
           | Some (req_clicert, cafile, capath) \<Rightarrow>
               (case ssl_context_init ss (argv ! 5) (argv ! 6) cafile capath req_clicert st of
                  (None, st1) \<Rightarrow> Inr (Exits EXIT_SSL_ERROR, st1)
                | (Some ctx, st1) \<Rightarrow>
                    (case open_logfile os (Some (argv ! 3)) st1 of (r, st2) \<Rightarrow>
                       if r \<noteq> 1 then Inr (Exits EXIT_ERROR, st2)
                       else start_listening os so EXIT_SSL_ERROR pidfilename st2)))))"

text \<open>
  \<open>main\<close> takes the program's name and the pid file's name out of \<open>argv\<close> before it
  looks at the number of arguments.
\<close>

definition listener_main ::
    "listener_os \<Rightarrow> setup_os \<Rightarrow> openssl \<Rightarrow> string list \<Rightarrow> listener \<Rightarrow> c_fault + outcome \<times> listener" where
  "listener_main os so ss argv st =
     bindE (arg argv 0) (\<lambda>full.
     bindE (case full of None \<Rightarrow> Inl NullDeref | Some f \<Rightarrow> Inr (strip_prognam f)) (\<lambda>prognam.
     bindE (arg argv 2) (\<lambda>pidfile.
       let usage = (case about prognam st of (r, st1) \<Rightarrow> Inr (Exits r, st1)) in
       if length argv < 2 then usage
       else if strcasecmp (argv ! 1) ''tcp'' = 0 then
         (if 5 > length argv then usage else main_tcp os so (the pidfile) argv st)
       else if strcasecmp (argv ! 1) ''tls'' = 0 then
         (if 8 > length argv then usage else main_tls os so ss prognam (the pidfile) argv st)
       else if strcasecmp (argv ! 1) ''unix'' = 0 then
         (if 5 > length argv then usage else main_unix os so (the pidfile) argv st)
       else usage)))"

end
