(* ===== verification/AuditListenerProps.thy ===== *)
theory AuditListenerProps
  imports AuditListener
begin

text \<open>
  The laws of com/audit_listener.c: escaping is reversible and fits, the UNIX variant logs
  one decodable line per message and the TCP variant does not, a log switch overwrites
  nothing, and the ways a message or the listener itself can be lost.
\<close>

section \<open>Escaping and its inverse\<close>

definition esc1 :: "char \<Rightarrow> string" where
  "esc1 c =
     (if c = CHR 0x5C then [CHR 0x5C, CHR 0x5C]
      else if c = NL then [CHR 0x5C, CHR ''n'']
      else if c = NUL then [CHR 0x5C, CHR ''0'']
      else [c])"

definition esc :: "string \<Rightarrow> string" where
  "esc s = concat (map esc1 s)"

fun unesc :: "string \<Rightarrow> string" where
  "unesc (c # d # s) =
     (if c = CHR 0x5C then (if d = CHR ''n'' then NL else if d = CHR ''0'' then NUL else d) # unesc s
      else c # unesc (d # s))"
| "unesc s = s"

lemma esc_simps [simp]: "esc [] = []" "esc (c # s) = esc1 c @ esc s" "esc (s @ t) = esc s @ esc t"
  by (simp_all add: esc_def)

lemma NL_NUL [simp]: "NL \<noteq> NUL" "NUL \<noteq> NL"
  by (simp_all add: NL_def NUL_def)

lemma unesc_plain: "c \<noteq> CHR 0x5C \<Longrightarrow> unesc (c # s) = c # unesc s"
  by (cases s) auto

lemma unesc_esc [simp]: "unesc (esc s) = s"
  by (induction s) (auto simp: esc1_def unesc_plain NL_def NUL_def)

lemma esc_inj: "esc s = esc t \<Longrightarrow> s = t"
  using unesc_esc by metis

lemma length_esc: "length (esc s) \<le> 2 * length s"
  by (induction s) (auto simp: esc1_def)

lemma esc_clean: "NL \<notin> set (esc s)" "NUL \<notin> set (esc s)"
  by (induction s) (auto simp: esc1_def NL_def NUL_def)

lemma escape_loop_spec:
  assumes "i + n \<le> length src" "ot + 2 * n < length t"
  shows "\<exists>t'. escape_loop src t n i ot = Inr t' \<and> length t' = length t \<and>
    take (ot + length (esc (take n (drop i src)))) t' = take ot t @ esc (take n (drop i src)) \<and>
    (\<forall>k \<ge> ot + length (esc (take n (drop i src))). k < length t \<longrightarrow> t' ! k = NUL \<or> t' ! k = t ! k)"
  using assms
proof (induction n arbitrary: i ot t)
  case (Suc n)
  let ?c = "src ! i"
  have src: "take (Suc n) (drop i src) = ?c # take n (drop (Suc i) src)"
    using Suc.prems by (simp add: Cons_nth_drop_Suc [symmetric])
  define u where "u = (if length (esc1 ?c) = 2 then t[ot := CHR 0x5C, ot + 1 := esc1 ?c ! 1, ot + 2 := NUL] else t[ot := ?c])"
  have step: "escape_loop src t (Suc n) i ot = escape_loop src u n (Suc i) (ot + length (esc1 ?c))"
    using Suc.prems by (auto simp: u_def esc1_def put_escape_def)
  have len: "length u = length t" "1 \<le> length (esc1 ?c)" "length (esc1 ?c) \<le> 2" by (auto simp: u_def esc1_def)
  have pre: "take (ot + length (esc1 ?c)) u = take ot t @ esc1 ?c"
    using Suc.prems by (auto simp: u_def esc1_def take_Suc_conv_app_nth numeral_2_eq_2)
  have post: "u ! k = NUL \<or> u ! k = t ! k" if "k \<ge> ot + length (esc1 ?c)" "k < length t" for k
    using that by (auto simp: u_def esc1_def nth_list_update split: if_splits)
  obtain t' where t': "escape_loop src u n (Suc i) (ot + length (esc1 ?c)) = Inr t'" "length t' = length t"
    "take (ot + length (esc1 ?c) + length (esc (take n (drop (Suc i) src)))) t' =
       take (ot + length (esc1 ?c)) u @ esc (take n (drop (Suc i) src))"
    "\<forall>k \<ge> ot + length (esc1 ?c) + length (esc (take n (drop (Suc i) src))).
       k < length t \<longrightarrow> t' ! k = NUL \<or> t' ! k = u ! k"
    using Suc.IH [of "Suc i" "ot + length (esc1 ?c)" u] Suc.prems len by auto
  have "t' ! k = NUL \<or> t' ! k = t ! k"
    if "ot + length (esc1 ?c) + length (esc (take n (drop (Suc i) src))) \<le> k" "k < length t" for k
    using t'(4) post [of k] that by (metis add_leD1)
  then show ?case
    unfolding src step using t'(1-3) pre by (auto simp: add.assoc)
qed auto

lemma take_NULs:
  assumes "take k t = e" "NUL \<notin> set e" "k < length t" "t ! k = NUL"
  shows "c_str t = e"
proof -
  have "t = take k t @ NUL # drop (Suc k) t" using assms(3,4) by (metis id_take_nth_drop)
  then show ?thesis
    using assms(1,2) unfolding c_str_def by (metis (mono_tags, lifting) takeWhile_tail takeWhile_eq_all_conv takeWhile_append2)
qed

lemma escape_zeroed:
  assumes "2 * length src < m"
  shows "\<exists>t. escape_string src (replicate m NUL) (int (length src)) = Inr t \<and> c_str t = esc src"
proof -
  obtain t where t: "escape_loop src (replicate m NUL) (length src) 0 0 = Inr t" "length t = m"
    "take (length (esc src)) t = esc src" "\<forall>k \<ge> length (esc src). k < m \<longrightarrow> t ! k = NUL"
    using escape_loop_spec [of 0 "length src" src 0 "replicate m NUL"] assms by auto
  have "length (esc src) < m" using length_esc [of src] assms by simp
  with t have "c_str t = esc src" using esc_clean(2) by (intro take_NULs) auto
  with t show ?thesis by (simp add: escape_string_def)
qed

text \<open>
  C8: \<open>escape_string\<close> loses nothing: into a cleared target of more than twice the
  source's length it writes a string with no newline and no NUL of the source's, from which
  the source can be computed back.
\<close>

theorem escape_decodable:
  assumes "2 * length src < m"
  shows "\<exists>t. escape_string src (replicate m NUL) (int (length src)) = Inr t \<and>
             unesc (c_str t) = src \<and> NL \<notin> set (c_str t) \<and> length (c_str t) \<le> 2 * length src"
  using escape_zeroed [OF assms] esc_clean(1) length_esc [of src] by auto

theorem escape_decodable_witness:
  "\<exists>t. escape_string [NL, CHR ''a'', NUL] (replicate 7 NUL) 3 = Inr t \<and> unesc (c_str t) = [NL, CHR ''a'', NUL]"
  using escape_decodable [of "[NL, CHR ''a'', NUL]" 7] by auto

text \<open>
  The comment that twice the length of the source is enough is wrong by one: a target
  of exactly that size is overrun, by the NUL of the last escape, when every character is
  escaped.
\<close>

theorem escape_exact_target_overrun:
  "0 < n \<Longrightarrow> escape_string (replicate n NL) (replicate (2 * n) NUL) (int n) = Inl OutOfBounds"
proof -
  have step: "escape_loop (replicate n NL) t (Suc m) k ot =
      bindE (put_escape t ot (CHR ''n'')) (\<lambda>t. escape_loop (replicate n NL) t m (Suc k) (ot + 2))"
    if "k < n" for t m k ot
    using that by (simp add: NL_def)
  have "escape_loop (replicate n NL) t m k (2 * k) = Inl OutOfBounds"
    if "n = k + m" "length t = 2 * n" "0 < m" for k m t
    using that
  proof (induction m arbitrary: k t)
    case (Suc m)
    then have k: "k < n" "2 * k + 1 < length t" by auto
    show ?case
    proof (cases "m = 0")
      case True
      with Suc.prems k(2) show ?thesis unfolding step [OF k(1)] by (simp add: put_escape_def)
    next
      case False
      let ?t = "t[2 * k := CHR 0x5C, 2 * k + 1 := CHR ''n'', 2 * k + 2 := NUL]"
      have "escape_loop (replicate n NL) ?t m (Suc k) (2 * Suc k) = Inl OutOfBounds"
        using Suc.prems False by (intro Suc.IH) auto
      with Suc.prems k(2) False show ?thesis unfolding step [OF k(1)] by (simp add: put_escape_def)
    qed
  qed simp
  from this [of 0 n "replicate (2 * n) NUL"] show "0 < n \<Longrightarrow> ?thesis" by (simp add: escape_string_def)
qed

theorem escape_exact_target_overrun_witness:
  "escape_string (replicate 3 NL) (replicate 6 NUL) 3 = Inl OutOfBounds"
  using escape_exact_target_overrun [of 3] by simp

section \<open>What a message leaves in the log\<close>

lemma emit_emit: "emit t (emit s st) = emit (s @ t) st"
  by (auto simp: emit_def split: option.splits)

lemma log_message_escaped:
  assumes "length buf < MAX_BUF_SIZE"
  shows "log_message os (\<lambda>b e. e) buf st = Inr (emit (lo_date os @ ''; '' @ esc buf @ [NL]) st)"
proof -
  obtain t where "escape_string buf (replicate (2 * MAX_BUF_SIZE) NUL) (int (length buf)) = Inr t" "c_str t = esc buf"
    using escape_zeroed [of buf "2 * MAX_BUF_SIZE"] assms by auto
  then show ?thesis by (simp add: log_message_def)
qed

lemma log_message_raw:
  assumes "length buf < MAX_BUF_SIZE"
  shows "log_message os (\<lambda>b e. b) buf st = Inr (emit (lo_date os @ ''; '' @ c_str buf @ [NL]) st)"
proof -
  obtain t where "escape_string buf (replicate (2 * MAX_BUF_SIZE) NUL) (int (length buf)) = Inr t"
    using escape_zeroed [of buf "2 * MAX_BUF_SIZE"] assms by auto
  then show ?thesis by (simp add: log_message_def)
qed

text \<open>
  C9: when no log switch is due and the client has not hung up, the UNIX variant writes exactly one line
  for a message of 1 to 2047 bytes, the date and the escaped message, from which the message can be read back; two such
  messages never leave the same line. A longer message is cut off, and one that comes when a switch is due is lost.
\<close>

theorem unix_logs_one_line:
  assumes "\<not> logfileswitch st" "msg \<noteq> []" "length msg < MAX_BUF_SIZE"
  shows "\<exists>line. unix_round os False (Inr (Inr msg)) st = Some (Inr (emit (lo_date os @ ''; '' @ line @ [NL]) st)) \<and>
           NL \<notin> set line \<and> NUL \<notin> set line \<and> unesc line = msg"
proof -
  have "take (MAX_BUF_SIZE - 1) msg = msg" using assms(3) by simp
  then have "unix_round os False (Inr (Inr msg)) st = Some (Inr (emit (lo_date os @ ''; '' @ esc msg @ [NL]) st))"
    using assms log_message_escaped [OF assms(3), of os st]
    by (simp add: unix_round_def hang_up_def unix_receive_def Let_def)
  then show ?thesis using esc_clean [of msg] by auto
qed

lemma receive_pieces:
  assumes "\<forall>p \<in> set pieces. p \<noteq> []" "length buf < MAX_BUF_SIZE"
  shows "tcp_receive os (map Inr pieces) buf st = (take (MAX_BUF_SIZE - 1) (buf @ concat pieces), st)"
  using assms
proof (induction pieces arbitrary: buf)
  case (Cons p pieces)
  let ?got = "take (MAX_BUF_SIZE - length buf - 1) p"
  show ?case
  proof (cases "?got = []")
    case True
    then have "length buf = MAX_BUF_SIZE - 1" using Cons.prems by auto
    with True show ?thesis by simp
  next
    case False
    have len: "length (buf @ ?got) < MAX_BUF_SIZE" using Cons.prems(2) by auto
    have "take (MAX_BUF_SIZE - 1) (buf @ ?got @ concat pieces) = take (MAX_BUF_SIZE - 1) (buf @ p @ concat pieces)"
      using Cons.prems(2) by (cases "length p \<le> MAX_BUF_SIZE - length buf - 1") auto
    with False Cons.IH [OF _ len] Cons.prems(1) show ?thesis by (simp add: Let_def)
  qed
qed simp

lemma tcp_round_pieces:
  assumes "\<not> logfileswitch st" "lo_close os = None" "\<forall>p \<in> set pieces. p \<noteq> []" "concat pieces \<noteq> []"
  shows "tcp_round os False (Inr (map Inr pieces)) st =
    Some (Inr (emit (lo_date os @ ''; '' @ c_str (take (MAX_BUF_SIZE - 1) (concat pieces)) @ [NL]) st))"
proof -
  let ?m = "take (MAX_BUF_SIZE - 1) (concat pieces)"
  have m: "?m \<noteq> []" "length ?m < MAX_BUF_SIZE" using assms(4) by (auto simp: MAX_BUF_SIZE_def)
  have r: "tcp_receive os (map Inr pieces) [] st = (?m, st)"
    using receive_pieces [OF assms(3), of "[]" os st] by (simp add: MAX_BUF_SIZE_def)
  show ?thesis
    using assms(1,2) m log_message_raw [OF m(2), of os st]
    by (simp add: tcp_round_def check_switch_def hang_up_def r close_connection_def)
qed

text \<open>
  the TCP variant puts a message together whatever the pieces it arrives in, up to
  2047 bytes, and drops the rest.
\<close>

theorem tcp_reassembles:
  assumes "\<not> logfileswitch st" "lo_close os = None"
    and "\<forall>p \<in> set pieces. p \<noteq> []" "concat pieces \<noteq> []" "nul_free (concat pieces)"
  shows "tcp_round os False (Inr (map Inr pieces)) st =
         Some (Inr (emit (lo_date os @ ''; '' @ take 2047 (concat pieces) @ [NL]) st))"
proof -
  have "nul_free (take 2047 (concat pieces))"
    using assms(5) by (auto simp: nul_free_def dest!: in_set_takeD simp del: set_concat)
  then show ?thesis using tcp_round_pieces [OF assms(1-4)] by (simp add: MAX_BUF_SIZE_def)
qed

text \<open>
  C10: the TCP variant computes the escaped message and prints the raw one, so a message
  can forge an entry: one message that contains a newline, a date and a second text leaves
  the very log that two separate messages leave.
\<close>

theorem tcp_message_forges_entry:
  assumes "\<not> logfileswitch st" "lo_close os = None" "m1 \<noteq> []" "m2 \<noteq> []" "nul_free (m1 @ lo_date os @ m2)"
    and "length m1 + length (lo_date os) + length m2 + 3 < MAX_BUF_SIZE"
  shows "tcp_round os False (Inr [Inr (m1 @ [NL] @ lo_date os @ ''; '' @ m2)]) st =
         Option.bind (tcp_round os False (Inr [Inr m1]) st)
           (\<lambda>r. case r of Inl e \<Rightarrow> None | Inr st1 \<Rightarrow> tcp_round os False (Inr [Inr m2]) st1)"
proof -
  let ?f = "m1 @ [NL] @ lo_date os @ ''; '' @ m2"
  have one: "tcp_round os False (Inr [Inr m]) s =
      Some (Inr (emit (lo_date os @ ''; '' @ m @ [NL]) s))"
    if "m \<noteq> []" "nul_free m" "length m < MAX_BUF_SIZE" "\<not> logfileswitch s" for m s
    using tcp_round_pieces [of s os "[m]"] that assms(2) by simp
  have semi: "nul_free ''; ''" by (simp add: nul_free_def NUL_def)
  have sw: "logfileswitch (emit t st) = logfileswitch st" for t
    by (auto simp: emit_def split: option.splits)
  have "tcp_round os False (Inr [Inr ?f]) st = Some (Inr (emit (lo_date os @ ''; '' @ ?f @ [NL]) st))"
    using assms semi by (intro one) auto
  moreover have "tcp_round os False (Inr [Inr m1]) st = Some (Inr (emit (lo_date os @ ''; '' @ m1 @ [NL]) st))"
    using assms by (intro one) auto
  moreover have "tcp_round os False (Inr [Inr m2]) (emit (lo_date os @ ''; '' @ m1 @ [NL]) st) =
      Some (Inr (emit (lo_date os @ ''; '' @ m2 @ [NL]) (emit (lo_date os @ ''; '' @ m1 @ [NL]) st)))"
    using assms by (intro one) (auto simp: sw)
  ultimately show ?thesis by (simp add: emit_emit)
qed

text \<open>A listener to run, with its log open, and an operating system that grants everything.\<close>

definition sample_listener :: listener where
  "sample_listener = \<lparr>logfile = ''/log'', logfileswitch = False, files = [''/log'' \<mapsto> ''old''],
     err_file = Some ''/log'', terminal = [], leaked = 0\<rparr>"

definition sample_los :: listener_os where
  "sample_los = \<lparr>lo_stat = (\<lambda>_. None), lo_rename = (\<lambda>_ _. None), lo_open = (\<lambda>_. None), lo_dup2 = None,
     lo_time = None, lo_stamp = ''_1'', lo_date = ''2026'', lo_close = None, lo_strerror = (\<lambda>_. ''E'')\<rparr>"

theorem unix_logs_one_line_witness:
  "\<exists>line. unix_round sample_los False (Inr (Inr [CHR ''a'', NL])) sample_listener =
      Some (Inr (emit (lo_date sample_los @ ''; '' @ line @ [NL]) sample_listener)) \<and> unesc line = [CHR ''a'', NL]"
proof -
  have "\<not> logfileswitch sample_listener" by (simp add: sample_listener_def)
  from unix_logs_one_line [OF this, of "[CHR ''a'', NL]" sample_los] show ?thesis
    by (auto simp: MAX_BUF_SIZE_def)
qed

theorem tcp_reassembles_witness:
  "tcp_round sample_los False (Inr (map Inr [''ab'', ''c''])) sample_listener =
     Some (Inr (emit (lo_date sample_los @ ''; '' @ take 2047 (concat [''ab'', ''c'']) @ [NL]) sample_listener))"
  by (rule tcp_reassembles) (simp_all add: sample_listener_def sample_los_def NUL_def)

theorem tcp_message_forges_entry_witness:
  "tcp_round sample_los False (Inr [Inr (''a'' @ [NL] @ lo_date sample_los @ ''; '' @ ''b'')]) sample_listener =
     Option.bind (tcp_round sample_los False (Inr [Inr ''a'']) sample_listener)
       (\<lambda>r. case r of Inl e \<Rightarrow> None | Inr st1 \<Rightarrow> tcp_round sample_los False (Inr [Inr ''b'']) st1)"
  by (rule tcp_message_forges_entry)
    (simp_all add: sample_listener_def sample_los_def NUL_def MAX_BUF_SIZE_def)

section \<open>Switching the log\<close>

lemma suffix_loop_result:
  assumes "suffix_loop taken base name suffix = Some (Inr new)"
  shows "\<not> taken new"
proof -
  have "suffix_loop taken base name suffix = Some y \<Longrightarrow> \<forall>new. y = Inr new \<longrightarrow> \<not> taken new" for y
  proof (erule suffix_loop.raw_induct
      [of "\<lambda>taken base name suffix y. \<forall>new. y = Inr new \<longrightarrow> \<not> taken new", rotated], goal_cases)
    case (1 rec taken base name suffix y)
    show ?case
    proof (cases "taken name \<and> \<not> length (base @ ''_'' @ dec suffix) > PATH_MAX")
      case True
      with 1(2) have "rec taken base (base @ ''_'' @ dec suffix) (int32 (suffix + 1)) = Some y"
        by (simp add: Let_def)
      then show ?thesis by (rule 1(1))
    qed (use 1(2) in \<open>auto simp: Let_def split: if_splits\<close>)
  qed
  with assms show ?thesis by blast
qed

lemma suffix_loop_hangs:
  assumes "\<forall>n. taken n" "length base + 12 \<le> PATH_MAX" "is_int32 suffix"
  shows "suffix_loop taken base name suffix = None"
proof (rule ccontr)
  assume "suffix_loop taken base name suffix \<noteq> None"
  then obtain y where y: "suffix_loop taken base name suffix = Some y" by auto
  have "(\<forall>n. taken n) \<longrightarrow> length base + 12 \<le> PATH_MAX \<longrightarrow> is_int32 suffix \<longrightarrow> False"
  proof (rule suffix_loop.raw_induct [OF _ y,
      of "\<lambda>taken base name suffix y. (\<forall>n. taken n) \<longrightarrow> length base + 12 \<le> PATH_MAX \<longrightarrow> is_int32 suffix \<longrightarrow> False"], goal_cases)
    case (1 rec taken base name suffix y)
    show ?case
    proof (intro impI)
      assume h: "\<forall>n. taken n" "length base + 12 \<le> PATH_MAX" "is_int32 suffix"
      then have "\<not> length (base @ ''_'' @ dec suffix) > PATH_MAX" using length_dec [OF h(3)] by simp
      with 1(2) h have "rec taken base (base @ ''_'' @ dec suffix) (int32 (suffix + 1)) = Some y"
        by (simp add: Let_def)
      from 1(1) [OF this] h show False by simp
    qed
  qed
  with assms show False by blast
qed

lemma suffix_loop_ends:
  assumes "\<not> taken (base @ ''_'' @ dec k)" "1 \<le> j" "j \<le> k" "k < 2 ^ 31 - 1" "length base + 12 \<le> PATH_MAX"
  shows "\<exists>new. suffix_loop taken base name j = Some (Inr new)"
  using assms
proof (induction "nat (k - j)" arbitrary: j name)
  case 0
  then have "j = k" by simp
  moreover have "length (dec k) \<le> 11" using 0 by (intro length_dec) (auto simp: is_int32_def)
  ultimately show ?case
    using 0 by (subst suffix_loop.simps, subst suffix_loop.simps) (simp add: Let_def)
next
  case (Suc m)
  have "length (dec j) \<le> 11" using Suc by (intro length_dec) (auto simp: is_int32_def)
  moreover have "int32 (j + 1) = j + 1" using Suc by (intro int32_id) (auto simp: is_int32_def)
  moreover have "\<exists>new. suffix_loop taken base (base @ ''_'' @ dec j) (j + 1) = Some (Inr new)"
    using Suc by (intro Suc(1)) auto
  ultimately show ?case
    using Suc.prems by (subst suffix_loop.simps) (simp add: Let_def)
qed

lemma free_suffix:
  assumes "finite S" "int (card S) < 2 ^ 31 - 2"
  shows "\<exists>k. 1 \<le> k \<and> k < 2 ^ 31 - 1 \<and> base @ ''_'' @ dec k \<notin> S"
proof (rule ccontr)
  let ?f = "\<lambda>k :: int. base @ ''_'' @ dec k"
  let ?K = "{1 .. int (card S) + 1}"
  assume "\<not> ?thesis"
  then have "?f ` ?K \<subseteq> S" using assms(2) by auto
  moreover have "inj_on ?f ?K" by (auto intro!: inj_onI dest: dec_inj)
  ultimately have "card ?K \<le> card S" using assms(1) by (metis card_image card_mono)
  then show False by simp
qed

text \<open>
  C11: switching the log loses and overwrites nothing: the old log is found, complete,
  under a name no file had before, the log file itself is new and empty and takes the
  further output, and every other file is as it was.
\<close>

theorem switch_overwrites_nothing:
  assumes "\<forall>f. lo_stat os f = None" "files st (logfile st) = Some old"
    and "switch_logfile os st = Some (Inr (EXIT_OK, st'))"
  shows "\<exists>new. files st new = None \<and> files st' new = Some old \<and> files st' (logfile st) = Some [] \<and>
           err_file st' = Some (logfile st) \<and>
           (\<forall>f. f \<noteq> new \<longrightarrow> f \<noteq> logfile st \<longrightarrow> files st' f = files st f)"
proof -
  from assms(2,3) obtain new where new:
    "suffix_loop (name_taken os st) (logfile st @ lo_stamp os) (logfile st @ lo_stamp os) 1 = Some (Inr new)"
    "st' = (touch (logfile st) (rename_file (logfile st) new st))\<lparr>err_file := Some (logfile st)\<rparr>"
    by (auto simp: switch_logfile_def Let_def EXIT_ERROR_def EXIT_OK_def rename_file_def touch_def
        split: option.splits sum.splits if_splits)
  have "files st new = None"
    using suffix_loop_result [OF new(1)] assms(1) by (simp add: name_taken_def)
  with assms(2) new(2) show ?thesis
    by (intro exI [of _ new]) (auto simp: touch_def rename_file_def)
qed

lemma sample_switch:
  "switch_logfile sample_los sample_listener =
     Some (Inr (EXIT_OK, (touch ''/log'' (rename_file ''/log'' ''/log_1'' sample_listener))\<lparr>err_file := Some ''/log''\<rparr>))"
proof -
  have "suffix_loop (name_taken sample_los sample_listener) ''/log_1'' ''/log_1'' 1 = Some (Inr ''/log_1'')"
    by (subst suffix_loop.simps) (simp add: name_taken_def sample_los_def sample_listener_def)
  then show ?thesis
    by (simp add: switch_logfile_def sample_los_def sample_listener_def Let_def PATH_MAX_def
        touch_def rename_file_def)
qed

theorem switch_overwrites_nothing_witness:
  "\<exists>st' new. switch_logfile sample_los sample_listener = Some (Inr (EXIT_OK, st')) \<and>
     files st' new = Some ''old'' \<and> files st' ''/log'' = Some []"
proof -
  have "\<forall>f. lo_stat sample_los f = None" "files sample_listener (logfile sample_listener) = Some ''old''"
    by (simp_all add: sample_los_def sample_listener_def)
  from switch_overwrites_nothing [OF this sample_switch] show ?thesis
    using sample_switch by (auto simp: sample_listener_def)
qed

text \<open>
  C12: the search for an unused name ends: if \<open>stat\<close> can examine every path and there
  are fewer than 2 ^ 31 - 2 files, \<open>switch_logfile\<close> returns.
\<close>

theorem switch_returns:
  assumes "\<forall>f. lo_stat os f = None" "finite (dom (files st))" "int (card (dom (files st))) < 2 ^ 31 - 2"
    and "length (logfile st) + length (lo_stamp os) + 12 \<le> PATH_MAX"
  shows "\<exists>r st'. switch_logfile os st = Some (Inr (r, st'))"
proof -
  let ?base = "logfile st @ lo_stamp os"
  obtain k where k: "1 \<le> k" "k < 2 ^ 31 - 1" "?base @ ''_'' @ dec k \<notin> dom (files st)"
    using free_suffix [OF assms(2,3)] by blast
  then have "\<not> name_taken os st (?base @ ''_'' @ dec k)" using assms(1) by (auto simp: name_taken_def)
  then obtain new where "suffix_loop (name_taken os st) ?base ?base 1 = Some (Inr new)"
    using suffix_loop_ends [of "name_taken os st" ?base k 1 ?base] k assms(4) by auto
  then show ?thesis
    using assms(4) by (auto simp: switch_logfile_def Let_def split: option.splits)
qed

theorem switch_returns_witness: "\<exists>r st'. switch_logfile sample_los sample_listener = Some (Inr (r, st'))"
  by (rule switch_returns) (simp_all add: sample_los_def sample_listener_def PATH_MAX_def)

text \<open>
  and it need not end otherwise: the loop takes every failure of \<open>stat\<close> but a
  missing file for an existing file, so in a directory whose entries cannot be examined
  the listener never returns from switching its log.
\<close>

theorem switch_hangs:
  assumes "\<forall>f. lo_stat os f = Some e" "e \<noteq> ENOENT" "lo_time os = None"
    and "length (logfile st) + length (lo_stamp os) + 12 \<le> PATH_MAX"
  shows "switch_logfile os st = None"
proof -
  have "suffix_loop (name_taken os st) (logfile st @ lo_stamp os) (logfile st @ lo_stamp os) 1 = None"
    using assms by (intro suffix_loop_hangs) (auto simp: name_taken_def is_int32_def)
  with assms(3,4) show ?thesis by (simp add: switch_logfile_def Let_def)
qed

theorem switch_hangs_witness:
  "switch_logfile (sample_los\<lparr>lo_stat := (\<lambda>_. Some 13)\<rparr>) sample_listener = None"
  by (rule switch_hangs [where e = 13])
    (simp_all add: sample_los_def sample_listener_def PATH_MAX_def ENOENT_def)

section \<open>Losing a message, the log and the date\<close>

lemma emit_leaked [simp]: "leaked (emit t st) = leaked st"
  by (auto simp: emit_def split: option.splits)

lemma perror_leaked [simp]: "leaked (perror os t e st) = leaked st"
  by (simp add: perror_def)

lemma switch_leaked: "switch_logfile os st = Some (Inr (r, st')) \<Longrightarrow> leaked st' = leaked st"
  by (auto simp: switch_logfile_def Let_def touch_def rename_file_def
      split: option.splits sum.splits if_splits)

lemma check_switch_leaked: "check_switch os st = Some (Inr st') \<Longrightarrow> leaked st' = leaked st"
  by (auto simp: check_switch_def switch_leaked split: if_splits option.splits sum.splits)

text \<open>
  C13: the UNIX variant loses a message when a switch of the log is due as it accepts a
  connection: the round does the same whatever the client sends, so nothing of the message
  is logged, and the connection is never closed.
\<close>

theorem unix_drops_message:
  assumes "logfileswitch (hang_up hup st)"
  shows "unix_round os hup (Inr received) st = unix_round os hup (Inr received') st \<and>
         ends UNIV (\<lambda>st'. leaked st' = Suc (leaked st))
           (case unix_round os hup (Inr received) st of None \<Rightarrow> Inl OutOfBounds | Some res \<Rightarrow> res)"
proof -
  have r: "unix_round os hup (Inr x) st = check_switch os (leak (hang_up hup st))" for x
    using assms by (simp add: unix_round_def Let_def)
  have "leaked (leak (hang_up hup st)) = Suc (leaked st)"
    by (simp add: leak_def hang_up_def listener_signal_handler_def)
  then show ?thesis
    using check_switch_leaked [of os "leak (hang_up hup st)"]
    by (auto simp: r ends_def split: option.splits sum.splits)
qed

theorem unix_drops_message_witness:
  "unix_round sample_los True (Inr (Inr ''secret'')) sample_listener =
   unix_round sample_los True (Inr (Inr ''other'')) sample_listener"
  using unix_drops_message [of True sample_listener sample_los "Inr ''secret''" "Inr ''other''"]
  by (simp add: hang_up_def listener_signal_handler_def)

text \<open>
  \<open>open_logfile\<close> answers 1, its documented success, whatever happens, so its callers
  cannot see a failure: with a log that cannot be opened the TCP listener starts all the
  same, its output going where it went before.
\<close>

theorem open_failure_ignored:
  assumes "lo_open os path = Some errno" "c_str (take PATH_MAX path) = path" "path \<noteq> []"
    and "so_socket so = None" "so_bind so = None" "so_listen so = None"
    and "so_fopen so pidfile = None" "so_rename so = None" "length pidfile < 1024"
  shows "fst (open_logfile os p st) = 1 \<and>
         (\<exists>st'. main_tcp os so pidfile [prog, ''tcp'', pidfile, path, port] st = Inr (Listening, st') \<and>
                err_file st' = err_file st)"
proof
  show "fst (open_logfile os p st) = 1"
    by (auto simp: open_logfile_def EXIT_ERROR_def Let_def split: option.splits)
  have "err_file (emit t s) = err_file s" for t s
    by (auto simp: emit_def split: option.splits)
  with assms show "\<exists>st'. main_tcp os so pidfile [prog, ''tcp'', pidfile, path, port] st = Inr (Listening, st') \<and>
      err_file st' = err_file st"
    by (auto simp: main_tcp_def arg_def open_logfile_def EXIT_ERROR_def start_listening_def
        save_pidfile_def Let_def)
qed

theorem open_failure_ignored_witness:
  "\<exists>st'. main_tcp (sample_los\<lparr>lo_open := (\<lambda>_. Some 13)\<rparr>)
      \<lparr>so_socket = None, so_bind = None, so_listen = None, so_getpid = 1, so_fopen = (\<lambda>_. None), so_rename = None\<rparr>
      ''/pid'' [''a'', ''tcp'', ''/pid'', ''/log'', ''80''] sample_listener = Inr (Listening, st') \<and>
      err_file st' = err_file sample_listener"
  by (rule conjunct2 [OF open_failure_ignored]) (simp_all add: PATH_MAX_def NUL_def)

text \<open>
  The options of the TLS variant are parsed as documented: whatever combination of the
  three is given, in either order of the two paths and in any case of letters, comes back
  as the settings; an option without its value and an unknown option are refused.
\<close>

definition render_options :: "string list \<Rightarrow> bool \<times> string option \<times> string option \<Rightarrow> string list" where
  "render_options names opts =
     (case (names, opts) of
        ([clicert, cafile, capath], (req, ca, cp)) \<Rightarrow>
          (if req then [CHR ''-'' # clicert] else []) @
          (case ca of None \<Rightarrow> [] | Some f \<Rightarrow> [CHR ''-'' # cafile, f]) @
          (case cp of None \<Rightarrow> [] | Some d \<Rightarrow> [CHR ''-'' # capath, d])
      | _ \<Rightarrow> [])"

lemma option_names:
  "map tolower n = ''clicert'' \<Longrightarrow> n \<noteq> [] \<and> strcasecmp ''CLICERT'' n = 0"
  "map tolower n = ''cafile'' \<Longrightarrow> n \<noteq> [] \<and> strcasecmp ''CAFILE'' n = 0 \<and> strcasecmp ''CLICERT'' n \<noteq> 0"
  "map tolower n = ''capath'' \<Longrightarrow>
     n \<noteq> [] \<and> strcasecmp ''CAPATH'' n = 0 \<and> strcasecmp ''CLICERT'' n \<noteq> 0 \<and> strcasecmp ''CAFILE'' n \<noteq> 0"
proof -
  have up: "map tolower ''CLICERT'' = ''clicert''" "map tolower ''CAFILE'' = ''cafile''"
    "map tolower ''CAPATH'' = ''capath''" by code_simp+
  show "map tolower n = ''clicert'' \<Longrightarrow> n \<noteq> [] \<and> strcasecmp ''CLICERT'' n = 0"
    "map tolower n = ''cafile'' \<Longrightarrow> n \<noteq> [] \<and> strcasecmp ''CAFILE'' n = 0 \<and> strcasecmp ''CLICERT'' n \<noteq> 0"
    "map tolower n = ''capath'' \<Longrightarrow>
     n \<noteq> [] \<and> strcasecmp ''CAPATH'' n = 0 \<and> strcasecmp ''CLICERT'' n \<noteq> 0 \<and> strcasecmp ''CAFILE'' n \<noteq> 0"
    unfolding strcasecmp_def up by (auto simp: strcmp_eq_0 NUL_def)
qed

theorem options_roundtrip:
  assumes "map tolower n1 = ''clicert''" "map tolower n2 = ''cafile''" "map tolower n3 = ''capath''"
    and "cafile \<noteq> Some []" "capath \<noteq> Some []"
  shows "parse_options (render_options [n1, n2, n3] (req, cafile, capath)) (False, None, None) = Some (req, cafile, capath) \<and>
         parse_options [CHR ''-'' # n2] (False, None, None) = None \<and>
         parse_options [''-verify'', ''x''] (False, None, None) = None"
proof -
  have "strcasecmp ''CLICERT'' ''verify'' \<noteq> 0" "strcasecmp ''CAFILE'' ''verify'' \<noteq> 0" "strcasecmp ''CAPATH'' ''verify'' \<noteq> 0"
    by code_simp+
  then show ?thesis
    using option_names(1) [OF assms(1)] option_names(2) [OF assms(2)] option_names(3) [OF assms(3)] assms(4,5)
    by (auto simp: render_options_def Let_def split: option.splits)
qed

theorem options_roundtrip_witness:
  "parse_options (render_options [''clicert'', ''CAfile'', ''CApath''] (True, Some ''/a'', None)) (False, None, None) =
     Some (True, Some ''/a'', None)"
proof -
  have "map tolower ''clicert'' = ''clicert''" "map tolower ''CAfile'' = ''cafile''" "map tolower ''CApath'' = ''capath''"
    by code_simp+
  from options_roundtrip [OF this, of "Some ''/a''" None True] show ?thesis by simp
qed

definition sample_setup :: setup_os where
  "sample_setup = \<lparr>so_socket = None, so_bind = None, so_listen = None, so_getpid = 1,
     so_fopen = (\<lambda>_. None), so_rename = None\<rparr>"

definition sample_ssl :: openssl where
  "sample_ssl = \<lparr>ss_init = True, ss_ctx_new = True, ss_session_id = True, ss_verify_locations = (\<lambda>_ _. True),
     ss_certificate = (\<lambda>_. True), ss_privkey = (\<lambda>_. True), ss_check_key = True, ss_errors = [], ss_errno = 0\<rparr>"

lemma strip_loop_plain: "CHR ''/'' \<notin> set b \<Longrightarrow> strip_loop p b = p"
  by (induction b arbitrary: p) auto

lemma strip_loop_last: "CHR ''/'' \<notin> set b \<Longrightarrow> strip_loop p (d @ CHR ''/'' # b) = b"
  by (induction d arbitrary: p) (auto simp: strip_loop_plain)

text \<open>
  \<open>main\<close> takes the pid file's name before it counts its arguments: started without
  any it reads behind the argument vector. With one argument that names no variant it
  prints its usage, under the name behind the last slash of its path, and exits with 1.
\<close>

theorem listener_main_arguments:
  assumes "CHR ''/'' \<notin> set b" "strcasecmp v ''tcp'' \<noteq> 0" "strcasecmp v ''tls'' \<noteq> 0" "strcasecmp v ''unix'' \<noteq> 0"
  shows "listener_main os so ss [d @ CHR ''/'' # b] st = Inl OutOfBounds \<and>
         listener_main os so ss [d @ CHR ''/'' # b, v] st = Inr (Exits 1, snd (about b st))"
  using assms
  by (simp add: listener_main_def arg_def strip_prognam_def strip_loop_last about_def EXIT_ERROR_def)

theorem listener_main_arguments_witness:
  "listener_main sample_los sample_setup sample_ssl [''/bin'' @ CHR ''/'' # ''audit''] sample_listener = Inl OutOfBounds"
proof -
  have "strcasecmp ''x'' ''tcp'' \<noteq> 0" "strcasecmp ''x'' ''tls'' \<noteq> 0" "strcasecmp ''x'' ''unix'' \<noteq> 0"
    by code_simp+
  then show ?thesis by (intro conjunct1 [OF listener_main_arguments [where v = "''x''"]]) simp_all
qed

end
