(* ===== verification/YdbApi.thy ===== *)
theory YdbApi
  imports CLib
begin

text \<open>
  YottaDB's simple API as the test programs call it. The library is not part of the
  repository: it is a record of functions on a database state, and what the programs rely
  on is a predicate of that record, a hypothesis of the theorems that use it. The
  second section is an instance of it to run programs on; how the programs use it is theory
  YdbProg.
\<close>

section \<open>The API\<close>

text \<open>
  A node is a variable's name and its subscripts; names of global variables begin with a
  caret. \<open>ydb_get_s\<close> answers a status and a value, \<open>ydb_data_s\<close> a status and what
  is there, \<open>ydb_subscript_next_s\<close> and \<open>ydb_subscript_previous_s\<close> a status and the
  subscript beside the last one (no buffer is changed when there is none), the others a status
  (\<open>ydb_incr_s\<close> also the new value) and the database after them; \<open>ydb_tp_s\<close> runs a callback
  as a transaction and \<open>ydb_cip\<close> calls an M routine. \<open>ydb_delete_s\<close> is called with YDB_DEL_TREE only; None is a NULL increment.
\<close>

record 'db ydb =
  ydb_get_s :: "'db \<Rightarrow> string \<Rightarrow> string list \<Rightarrow> int \<times> string"
  ydb_set_s :: "'db \<Rightarrow> string \<Rightarrow> string list \<Rightarrow> string \<Rightarrow> int \<times> 'db"
  ydb_data_s :: "'db \<Rightarrow> string \<Rightarrow> string list \<Rightarrow> int \<times> int"
  ydb_incr_s :: "'db \<Rightarrow> string \<Rightarrow> string list \<Rightarrow> string option \<Rightarrow> int \<times> string \<times> 'db"
  ydb_delete_s :: "'db \<Rightarrow> string \<Rightarrow> string list \<Rightarrow> int \<times> 'db"
  ydb_subscript_next_s :: "'db \<Rightarrow> string \<Rightarrow> string list \<Rightarrow> int \<times> string"
  ydb_subscript_previous_s :: "'db \<Rightarrow> string \<Rightarrow> string list \<Rightarrow> int \<times> string"
  ydb_tp_s :: "('db \<Rightarrow> c_fault + int \<times> 'db) \<Rightarrow> 'db \<Rightarrow> c_fault + int \<times> 'db"
  ydb_cip :: "'db \<Rightarrow> string \<Rightarrow> int \<times> 'db"
  ydb_lock_incr_s :: "'db \<Rightarrow> string \<Rightarrow> string list \<Rightarrow> int \<times> 'db"
  ydb_lock_decr_s :: "'db \<Rightarrow> string \<Rightarrow> string list \<Rightarrow> int \<times> 'db"
  YDB_TP_RESTART :: int
  YDB_TP_ROLLBACK :: int
  YDB_ERR_GVUNDEF :: int
  YDB_ERR_LVUNDEF :: int
  YDB_ERR_NODEEND :: int
  YDB_ERR_JNLEXTEND :: int
  YDB_ERR_JNLSWITCHFAIL :: int

definition YDB_OK :: int where "YDB_OK = 0"

text \<open>
  What the programs rely on: a value set is the value got, other nodes keep theirs, a
  restart is not a success, and a callback that succeeds is committed.
\<close>

definition ydb_store :: "'db ydb \<Rightarrow> bool" where
  "ydb_store Y \<longleftrightarrow> YDB_TP_RESTART Y \<noteq> YDB_OK \<and>
     (\<forall>db g s v db'. ydb_set_s Y db g s v = (YDB_OK, db') \<longrightarrow>
        (\<forall>g' s'. ydb_get_s Y db' g' s' = (if g' = g \<and> s' = s then (YDB_OK, v) else ydb_get_s Y db g' s'))) \<and>
     (\<forall>f db db'. f db = Inr (YDB_OK, db') \<longrightarrow> ydb_tp_s Y f db = Inr (YDB_OK, db'))"

text \<open>No set fails, as in a database one process has for itself.\<close>

definition ydb_calm :: "'db ydb \<Rightarrow> bool" where
  "ydb_calm Y \<longleftrightarrow> (\<forall>db g s v. \<exists>db'. ydb_set_s Y db g s v = (YDB_OK, db'))"

lemma ydb_get_set:
  assumes "ydb_store Y" "ydb_set_s Y db g s v = (YDB_OK, db')"
  shows "ydb_get_s Y db' g' s' = (if g' = g \<and> s' = s then (YDB_OK, v) else ydb_get_s Y db g' s')"
  using assms by (simp add: ydb_store_def)

lemma ydb_tp_commit: "ydb_store Y \<Longrightarrow> f db = Inr (YDB_OK, db') \<Longrightarrow> ydb_tp_s Y f db = Inr (YDB_OK, db')"
  by (simp add: ydb_store_def)

text \<open>The value of a node, if it has one; whether it or a node below it has one.\<close>

definition node :: "'db ydb \<Rightarrow> 'db \<Rightarrow> string \<Rightarrow> string list \<Rightarrow> string option" where
  "node Y db g s = (if fst (ydb_get_s Y db g s) = YDB_OK then Some (snd (ydb_get_s Y db g s)) else None)"

definition below :: "'db ydb \<Rightarrow> 'db \<Rightarrow> string \<Rightarrow> string list \<Rightarrow> bool" where
  "below Y db g s \<longleftrightarrow> (\<exists>u r. node Y db g (s @ u # r) \<noteq> None)"

text \<open>The status of a get of a node without a value, for a global and for a local variable.\<close>

definition undef_status :: "'db ydb \<Rightarrow> string \<Rightarrow> int" where
  "undef_status Y g = (if take 1 g = ''^'' then YDB_ERR_GVUNDEF Y else YDB_ERR_LVUNDEF Y)"

text \<open>What a string counts for as an increment: an integer, or nothing if it begins with a letter.\<close>

definition counts_as :: "string \<Rightarrow> int \<Rightarrow> bool" where
  "counts_as s b \<longleftrightarrow> s = dec b \<or> b = 0 \<and> s \<noteq> [] \<and> uc (hd s) \<in> {97..122}"

definition ydb_get_law :: "'db ydb \<Rightarrow> bool" where
  "ydb_get_law Y \<longleftrightarrow> (\<forall>db g s. node Y db g s = None \<longrightarrow> fst (ydb_get_s Y db g s) = undef_status Y g) \<and>
     distinct [YDB_OK, YDB_TP_RESTART Y, YDB_TP_ROLLBACK Y, YDB_ERR_GVUNDEF Y, YDB_ERR_LVUNDEF Y, YDB_ERR_NODEEND Y]"

definition ydb_data_law :: "'db ydb \<Rightarrow> bool" where
  "ydb_data_law Y \<longleftrightarrow> (\<forall>db g s. ydb_data_s Y db g s =
     (YDB_OK, (if node Y db g s = None then 0 else 1) + (if below Y db g s then 10 else 0)))"

definition ydb_incr_law :: "'db ydb \<Rightarrow> bool" where
  "ydb_incr_law Y \<longleftrightarrow> (\<forall>db g s by a b.
     (case node Y db g s of None \<Rightarrow> a = 0 | Some v \<Rightarrow> v = dec a) \<longrightarrow>
     (case by of None \<Rightarrow> b = 1 | Some t \<Rightarrow> counts_as t b) \<longrightarrow> \<bar>a\<bar> < 10 ^ 18 \<longrightarrow> \<bar>b\<bar> < 10 ^ 18 \<longrightarrow>
     (\<exists>db'. ydb_incr_s Y db g s by = (YDB_OK, dec (a + b), db') \<and>
        (\<forall>g' s'. node Y db' g' s' = (if g' = g \<and> s' = s then Some (dec (a + b)) else node Y db g' s')))) \<and>
     (\<forall>db g s by g' s'. (g', s') \<noteq> (g, s) \<longrightarrow> node Y (snd (snd (ydb_incr_s Y db g s by))) g' s' = node Y db g' s')"

definition ydb_delete_law :: "'db ydb \<Rightarrow> bool" where
  "ydb_delete_law Y \<longleftrightarrow> (\<forall>db g s. \<exists>db'. ydb_delete_s Y db g s = (YDB_OK, db') \<and>
     (\<forall>g' s'. node Y db' g' s' = (if g' = g \<and> take (length s) s' = s then None else node Y db g' s')))"

text \<open>Of a variable whose first subscripts are the numbers below \<open>n\<close>, each is followed by the next.\<close>

definition ydb_next_law :: "'db ydb \<Rightarrow> bool" where
  "ydb_next_law Y \<longleftrightarrow> (\<forall>db g n. n < 10 ^ 18 \<longrightarrow>
     (\<forall>u. (\<exists>r. node Y db g (u # r) \<noteq> None) \<longleftrightarrow> (\<exists>i<n. u = dec (int i))) \<longrightarrow>
     ydb_subscript_next_s Y db g [[]] = (if n = 0 then (YDB_ERR_NODEEND Y, []) else (YDB_OK, dec 0)) \<and>
     (\<forall>i<n. ydb_subscript_next_s Y db g [dec (int i)] =
        (if i + 1 < n then (YDB_OK, dec (int i + 1)) else (YDB_ERR_NODEEND Y, []))))"

text \<open>
  The order of subscripts: a strict total order in which numbers come first, by size. Of the
  subscripts below a node the one beside \<open>u\<close> is the first one after it, the first of all if
  \<open>u\<close> is empty.
\<close>

definition collation :: "(string \<Rightarrow> string \<Rightarrow> bool) \<Rightarrow> bool" where
  "collation before \<longleftrightarrow> irreflp before \<and> transp before \<and> totalp before \<and>
     (\<forall>a b. \<bar>a\<bar> < 10 ^ 18 \<longrightarrow> \<bar>b\<bar> < 10 ^ 18 \<longrightarrow> (before (dec a) (dec b) \<longleftrightarrow> a < b)) \<and>
     (\<forall>a c w. \<bar>a\<bar> < 10 ^ 18 \<longrightarrow> uc c \<in> {97..122} \<longrightarrow> before (dec a) (c # w))"

definition first_after :: "(string \<Rightarrow> string \<Rightarrow> bool) \<Rightarrow> string set \<Rightarrow> string \<Rightarrow> string \<Rightarrow> bool" where
  "first_after before A u v \<longleftrightarrow> v \<in> A \<and> (u = [] \<or> before u v) \<and> (\<forall>w \<in> A. (u = [] \<or> before u w) \<longrightarrow> w = v \<or> before v w)"

definition subscripts :: "'db ydb \<Rightarrow> 'db \<Rightarrow> string \<Rightarrow> string list \<Rightarrow> string set" where
  "subscripts Y db g s = {v. \<exists>r. node Y db g (s @ v # r) \<noteq> None}"

definition ydb_order_law :: "'db ydb \<Rightarrow> (string \<Rightarrow> string \<Rightarrow> bool) \<Rightarrow> bool" where
  "ydb_order_law Y before \<longleftrightarrow> (\<forall>db g s u v. finite (subscripts Y db g s) \<longrightarrow> [] \<notin> subscripts Y db g s \<longrightarrow>
     (first_after before (subscripts Y db g s) u v \<longrightarrow> ydb_subscript_next_s Y db g (s @ [u]) = (YDB_OK, v)) \<and>
     (first_after before\<inverse>\<inverse> (subscripts Y db g s) u v \<longrightarrow> ydb_subscript_previous_s Y db g (s @ [u]) = (YDB_OK, v)) \<and>
     ((\<nexists>v. first_after before (subscripts Y db g s) u v) \<longrightarrow> ydb_subscript_next_s Y db g (s @ [u]) = (YDB_ERR_NODEEND Y, [])) \<and>
     ((\<nexists>v. first_after before\<inverse>\<inverse> (subscripts Y db g s) u v) \<longrightarrow>
        ydb_subscript_previous_s Y db g (s @ [u]) = (YDB_ERR_NODEEND Y, [])))"

lemma order_next:
  assumes "ydb_order_law Y before" "collation before"
  shows "ydb_next_law Y"
  unfolding ydb_next_law_def
proof (intro allI impI)
  fix db g n
  assume n: "n < 10 ^ 18" and nodes: "\<forall>u. (\<exists>r. node Y db g (u # r) \<noteq> None) \<longleftrightarrow> (\<exists>i<n. u = dec (int i))"
  let ?A = "(\<lambda>i. dec (int i)) ` {..<n}"
  have A: "subscripts Y db g [] = ?A" unfolding subscripts_def append_Nil nodes [rule_format] by blast
  have lt: "before (dec (int i)) (dec (int j)) \<longleftrightarrow> i < j" if "i < n" "j < n" for i j
    using assms(2) that n by (simp add: collation_def)
  have fin: "finite ?A" "[] \<notin> ?A" by (simp_all add: image_iff dec_not_Nil [symmetric] del: dec_not_Nil)
  have law: "first_after before ?A u v \<Longrightarrow> ydb_subscript_next_s Y db g [u] = (YDB_OK, v)"
    "\<nexists>v. first_after before ?A u v \<Longrightarrow> ydb_subscript_next_s Y db g [u] = (YDB_ERR_NODEEND Y, [])" for u v
    using assms(1) [unfolded ydb_order_law_def, rule_format, of db g "[]", unfolded A append_Nil, OF fin] by blast+
  have start: "first_after before ?A [] (dec 0)" if "0 < n"
  proof -
    have "dec (int i) = dec 0 \<or> before (dec 0) (dec (int i))" if "i < n" for i
      using lt [of 0 i] \<open>0 < n\<close> that by auto
    then show ?thesis using that unfolding first_after_def by (auto intro!: image_eqI [of _ _ 0])
  qed
  have beside: "first_after before ?A (dec (int i)) (dec (int i + 1))" if "i + 1 < n" for i
  proof -
    have "dec (int j) = dec (int i + 1) \<or> before (dec (int i + 1)) (dec (int j))" if "j < n" "i < j" for j
      using lt [of "i + 1" j] \<open>i + 1 < n\<close> that by (auto simp: add.commute)
    moreover have "before (dec (int i)) (dec (int i + 1))" using lt [of i "i + 1"] that by (simp add: add.commute)
    ultimately show ?thesis using that lt unfolding first_after_def by (auto intro!: image_eqI [of _ _ "i + 1"])
  qed
  have end_of: "\<nexists>v. first_after before ?A (dec (int i)) v" if "i < n" "\<not> i + 1 < n" for i
    using that lt by (auto simp: first_after_def)
  show "ydb_subscript_next_s Y db g [[]] = (if n = 0 then (YDB_ERR_NODEEND Y, []) else (YDB_OK, dec 0)) \<and>
     (\<forall>i<n. ydb_subscript_next_s Y db g [dec (int i)] =
        (if i + 1 < n then (YDB_OK, dec (int i + 1)) else (YDB_ERR_NODEEND Y, [])))"
  proof (intro conjI allI impI)
    show "ydb_subscript_next_s Y db g [[]] = (if n = 0 then (YDB_ERR_NODEEND Y, []) else (YDB_OK, dec 0))"
      using law(1) [OF start] law(2) [of "[]"] by (auto simp: first_after_def)
    show "ydb_subscript_next_s Y db g [dec (int i)] = (if i + 1 < n then (YDB_OK, dec (int i + 1)) else (YDB_ERR_NODEEND Y, []))"
      if "i < n" for i
      using law(1) [OF beside] law(2) [OF end_of [OF that]] by simp
  qed
qed

text \<open>Locks are granted, and change no node.\<close>

definition ydb_lock_law :: "'db ydb \<Rightarrow> bool" where
  "ydb_lock_law Y \<longleftrightarrow> (\<forall>db g s.
     (\<exists>db'. ydb_lock_incr_s Y db g s = (YDB_OK, db') \<and> (\<forall>g' s'. node Y db' g' s' = node Y db g' s')) \<and>
     (\<exists>db'. ydb_lock_decr_s Y db g s = (YDB_OK, db') \<and> (\<forall>g' s'. node Y db' g' s' = node Y db g' s')))"

text \<open>A callback that asks for a rollback leaves the global variables as they were.\<close>

definition ydb_rollback_law :: "'db ydb \<Rightarrow> bool" where
  "ydb_rollback_law Y \<longleftrightarrow> (\<forall>f db db'. f db = Inr (YDB_TP_ROLLBACK Y, db') \<longrightarrow>
     (\<exists>db''. ydb_tp_s Y f db = Inr (YDB_TP_ROLLBACK Y, db'') \<and>
        (\<forall>g s. node Y db'' g s = node Y (if take 1 g = ''^'' then db else db') g s)))"

text \<open>A database one process has for itself, with all of the API's documented behaviour.\<close>

definition ydb_good :: "'db ydb \<Rightarrow> bool" where
  "ydb_good Y \<longleftrightarrow> ydb_store Y \<and> ydb_calm Y \<and> ydb_get_law Y \<and> ydb_data_law Y \<and> ydb_incr_law Y \<and>
     ydb_delete_law Y \<and> ydb_next_law Y \<and> ydb_lock_law Y \<and> ydb_rollback_law Y"

section \<open>A database to run programs on\<close>

text \<open>
  Integers come before other strings, and these in the order of their bytes.
\<close>

definition m_number :: "string \<Rightarrow> bool" where
  "m_number s \<longleftrightarrow> s = dec (strtol10 s)"

definition m_before :: "string \<Rightarrow> string \<Rightarrow> bool" where
  "m_before u v \<longleftrightarrow>
     (if m_number u then m_number v \<longrightarrow> strtol10 u < strtol10 v
      else \<not> m_number v \<and> (u, v) \<in> lexord {(a, b). uc a < uc b})"

definition beside :: "(string \<Rightarrow> string \<Rightarrow> bool) \<Rightarrow> string set \<Rightarrow> string \<Rightarrow> int \<times> string" where
  "beside before A u =
     (if \<exists>v. first_after before A u v then (0, THE v. first_after before A u v) else (-151027722, []))"

text \<open>Nodes in a map; a node without a value is an error, the numbers being arbitrary.\<close>

definition map_ydb :: "(string \<times> string list \<Rightarrow> string option) ydb" where
  "map_ydb =
     \<lparr>ydb_get_s = (\<lambda>db g s. case db (g, s) of
        None \<Rightarrow> (if take 1 g = ''^'' then -150372994 else -150373850, []) | Some v \<Rightarrow> (0, v)),
      ydb_set_s = (\<lambda>db g s v. (0, db((g, s) := Some v))),
      ydb_data_s = (\<lambda>db g s. (0, (if db (g, s) = None then 0 else 1) +
        (if \<exists>u r. db (g, s @ u # r) \<noteq> None then 10 else 0))),
      ydb_incr_s = (\<lambda>db g s by.
        let a = (case db (g, s) of None \<Rightarrow> 0 | Some v \<Rightarrow> strtol10 v);
            b = (case by of None \<Rightarrow> 1 | Some t \<Rightarrow> strtol10 t)
        in (0, dec (a + b), db((g, s) := Some (dec (a + b))))),
      ydb_delete_s = (\<lambda>db g s. (0, \<lambda>(g', s'). if g' = g \<and> take (length s) s' = s then None else db (g', s'))),
      ydb_subscript_next_s = (\<lambda>db g s. beside m_before {v. \<exists>r. db (g, butlast s @ v # r) \<noteq> None} (last s)),
      ydb_subscript_previous_s = (\<lambda>db g s. beside m_before\<inverse>\<inverse> {v. \<exists>r. db (g, butlast s @ v # r) \<noteq> None} (last s)),
      ydb_tp_s = (\<lambda>f db. case f db of Inl e \<Rightarrow> Inl e | Inr (status, db') \<Rightarrow>
        Inr (status, if status = 2147483645 then (\<lambda>(g, s). (if take 1 g = ''^'' then db else db') (g, s)) else db')),
      ydb_cip = (\<lambda>db name. (0, db)),
      ydb_lock_incr_s = (\<lambda>db g s. (0, db)), ydb_lock_decr_s = (\<lambda>db g s. (0, db)),
      YDB_TP_RESTART = 2147483646, YDB_TP_ROLLBACK = 2147483645, YDB_ERR_GVUNDEF = -150372994,
      YDB_ERR_LVUNDEF = -150373850, YDB_ERR_NODEEND = -151027722,
      YDB_ERR_JNLEXTEND = -150376595, YDB_ERR_JNLSWITCHFAIL = -150379506\<rparr>"

lemma map_ydb_store [simp]: "ydb_store map_ydb" "ydb_calm map_ydb"
  by (auto simp: ydb_store_def ydb_calm_def map_ydb_def YDB_OK_def)

lemma node_map_ydb [simp]: "node map_ydb db g s = db (g, s)"
  by (auto simp: node_def map_ydb_def YDB_OK_def split: option.splits)

lemma strtol10_counts: "counts_as t b \<Longrightarrow> \<bar>b\<bar> < 10 ^ 18 \<Longrightarrow> strtol10 t = b"
proof (cases "t = dec b")
  case False
  assume "counts_as t b" "\<bar>b\<bar> < 10 ^ 18"
  with False obtain c r where t: "t = c # r" "b = 0" "uc c \<in> {97..122}"
    by (cases t) (auto simp: counts_as_def)
  then have "\<not> is_space c" "\<not> is_digit c" "c \<noteq> CHR ''-''" "c \<noteq> CHR ''+''"
    by (auto simp: is_space_def is_digit_def) (simp_all add: uc_def)
  with t show ?thesis by (simp add: strtol10_def)
qed (simp add: strtol10_dec)

lemma m_number_dec: "\<bar>a\<bar> < 10 ^ 18 \<Longrightarrow> m_number (dec a) \<and> strtol10 (dec a) = a"
  by (simp add: m_number_def strtol10_dec)

lemma m_number_alpha: "uc c \<in> {97..122} \<Longrightarrow> \<not> m_number (c # w)"
proof
  assume c: "uc c \<in> {97..122}" and "m_number (c # w)"
  then have "c # w = dec (strtol10 (c # w))" unfolding m_number_def by blast
  moreover have "strtol10 (c # w) = 0" using c by (intro strtol10_counts) (simp_all add: counts_as_def)
  ultimately have "c # w = dec 0" by simp
  with c show False by (simp add: dec_def dec_nat.simps digit_char_def uc_def)
qed

lemma m_before_collation: "collation m_before"
  unfolding collation_def
proof (intro conjI allI impI)
  let ?r = "{(a, b). uc a < uc b}"
  show "irreflp m_before" by (auto simp: irreflp_def m_before_def lexord_irreflexive)
  have "trans ?r" by (auto simp: trans_def)
  then show "transp m_before"
    by (intro transpI) (auto simp: m_before_def split: if_splits intro: lexord_trans)
  have "(u, v) \<in> lexord ?r \<or> u = v \<or> (v, u) \<in> lexord ?r" for u v :: string
    by (rule lexord_linear) (auto simp: uc_inject [symmetric] simp del: uc_inject)
  then show "totalp m_before"
    by (intro totalpI) (auto simp: m_before_def m_number_def, metis linorder_neqE)
  show "m_before (dec a) (dec b) \<longleftrightarrow> a < b" if "\<bar>a\<bar> < 10 ^ 18" "\<bar>b\<bar> < 10 ^ 18" for a b
    using m_number_dec that by (simp add: m_before_def)
  show "m_before (dec a) (c # w)" if "\<bar>a\<bar> < 10 ^ 18" "uc c \<in> {97..122}" for a c w
    using m_number_dec [OF that(1)] m_number_alpha [OF that(2)] by (simp add: m_before_def)
qed

lemma collation_converse: "irreflp before \<Longrightarrow> transp before \<Longrightarrow> irreflp before\<inverse>\<inverse> \<and> transp before\<inverse>\<inverse>"
  by (auto simp: irreflp_def transp_def)

lemma beside_first:
  assumes "irreflp before" "transp before" "first_after before A u v"
  shows "beside before A u = (0, v)"
proof -
  have "w = v" if "first_after before A u w" for w
  proof (rule ccontr)
    assume "w \<noteq> v"
    then have "before v w" "before w v" using assms(3) that by (auto simp: first_after_def)
    then show False using assms(1,2) by (auto simp: irreflp_def dest: transpD)
  qed
  then have "(THE v. first_after before A u v) = v" using assms(3) by blast
  with assms(3) show ?thesis by (auto simp: beside_def)
qed

lemma map_ydb_order [simp]: "ydb_order_law map_ydb m_before"
proof -
  note c = m_before_collation [unfolded collation_def]
  have "irreflp m_before" "transp m_before" using c by blast+
  note one = beside_first [OF this] and two = beside_first [OF collation_converse [OF this, THEN conjunct1] collation_converse [OF this, THEN conjunct2]]
  show ?thesis
    unfolding ydb_order_law_def subscripts_def node_map_ydb
    by (simp add: map_ydb_def YDB_OK_def one two) (simp add: beside_def)
qed

lemma map_ydb_good [simp]: "ydb_good map_ydb"
proof -
  have "ydb_get_law map_ydb" "ydb_data_law map_ydb" "ydb_delete_law map_ydb"
    by (auto simp: ydb_get_law_def ydb_data_law_def ydb_delete_law_def below_def undef_status_def)
       (auto simp: map_ydb_def YDB_OK_def)
  moreover have "ydb_incr_law map_ydb"
    by (auto simp: ydb_incr_law_def strtol10_counts strtol10_dec split: option.splits)
       (auto simp: map_ydb_def YDB_OK_def Let_def strtol10_counts strtol10_dec split: option.splits)
  moreover have "ydb_lock_law map_ydb" by (simp add: ydb_lock_law_def) (simp add: map_ydb_def YDB_OK_def)
  moreover have "ydb_rollback_law map_ydb" by (simp add: ydb_rollback_law_def) (simp add: map_ydb_def)
  moreover have "ydb_next_law map_ydb" by (rule order_next [OF map_ydb_order m_before_collation])
  ultimately show ?thesis by (simp add: ydb_good_def)
qed

text \<open>The call-ins matter to none of the laws.\<close>

lemma node_cip [simp]: "node (Y\<lparr>ydb_cip := c\<rparr>) = node Y" "below (Y\<lparr>ydb_cip := c\<rparr>) = below Y"
  by (simp_all add: node_def below_def fun_eq_iff)

lemma ydb_good_cip: "ydb_good (Y\<lparr>ydb_cip := c\<rparr>) \<longleftrightarrow> ydb_good Y"
proof -
  let ?Z = "Y\<lparr>ydb_cip := c\<rparr>"
  have "ydb_store ?Z \<longleftrightarrow> ydb_store Y" "ydb_calm ?Z \<longleftrightarrow> ydb_calm Y" "ydb_get_law ?Z \<longleftrightarrow> ydb_get_law Y"
    "ydb_data_law ?Z \<longleftrightarrow> ydb_data_law Y" "ydb_incr_law ?Z \<longleftrightarrow> ydb_incr_law Y" "ydb_delete_law ?Z \<longleftrightarrow> ydb_delete_law Y"
    "ydb_next_law ?Z \<longleftrightarrow> ydb_next_law Y" "ydb_lock_law ?Z \<longleftrightarrow> ydb_lock_law Y"
    "ydb_rollback_law ?Z \<longleftrightarrow> ydb_rollback_law Y"
    by (simp_all add: ydb_store_def ydb_calm_def ydb_get_law_def ydb_data_law_def ydb_incr_law_def
        ydb_delete_law_def ydb_next_law_def ydb_lock_law_def ydb_rollback_law_def undef_status_def cong: if_cong)
  then show ?thesis by (simp add: ydb_good_def)
qed

end
