(* ===== verification/PseudoBank.thy ===== *)
theory PseudoBank
  imports YdbApi
begin

text \<open>
  simpleapi/inref/pseudoBank.c: processes that transfer amounts between accounts in
  transactions, keeping a history per account and a log of the transfers.
\<close>

section \<open>Data\<close>

definition TRAN_AMT :: int where "TRAN_AMT = 1"
definition START_CID :: int where "START_CID = 100001"
definition ACC_NEEDED :: int where "ACC_NEEDED = 1000"
definition ACC_GLOBAL :: string where "ACC_GLOBAL = ''^ZACN''"
definition HIST_GLOBAL :: string where "HIST_GLOBAL = ''^ZHIST''"
definition TRN_GLOBAL :: string where "TRN_GLOBAL = ''^ZTRNLOG''"

record Account =
  a_cid :: int
  a_bal :: int
  a_histSeq :: int

record HistRecord =
  hr_cid :: int
  hr_histSeq :: int
  hr_comment :: string
  hr_amt :: int
  hr_endBal :: int
  hr_user :: int

record TrnLog =
  tl_guid :: int
  tl_tSeq :: int
  tl_comment :: string
  tl_tDateTime :: int
  tl_cid :: int
  tl_amt :: int
  tl_endBal :: int
  tl_user :: int

record tpArgs =
  tp_ref :: int
  tp_from :: int
  tp_to :: int
  tp_amt :: int
  tp_user :: int

section \<open>The classes\<close>

definition bar :: string where "bar = ''|''"

text \<open>
  The two numbers of an account's value. The buffer has 64 bytes: a longer value is an error
  of \<open>ydb_get_s\<close>, which the assertion after it stops at, and one of 64 bytes leaves no
  room for the NUL that is set behind it.
\<close>

definition parse_account :: "int \<Rightarrow> string \<Rightarrow> c_fault + Account" where
  "parse_account cid v =
     (if length v > 64 then Inl AssertFailed
      else if length v = 64 then Inl OutOfBounds
      else
        (case strtok bar (c_str v) of
           None \<Rightarrow> Inl NullDeref
         | Some (value, rest) \<Rightarrow>
             (case strtok bar rest of
                None \<Rightarrow> Inl NullDeref
              | Some (value2, _) \<Rightarrow> Inr \<lparr>a_cid = cid, a_bal = atoi value2, a_histSeq = atoi value\<rparr>)))"

text \<open>Every operation returns a status; a failed YDB_ASSERT is a fault.\<close>

definition Account_Load :: "'db ydb \<Rightarrow> int \<Rightarrow> 'db \<Rightarrow> c_fault + int \<times> Account option" where
  "Account_Load Y cid db =
     (let (status, v) = ydb_get_s Y db ACC_GLOBAL [dec cid] in
      if status = YDB_TP_RESTART Y then Inr (status, None)
      else if status \<noteq> YDB_OK then Inl AssertFailed
      else bindE (parse_account cid v) (\<lambda>a. Inr (YDB_OK, Some a)))"

definition set_checked :: "'db ydb \<Rightarrow> string \<Rightarrow> string list \<Rightarrow> string \<Rightarrow> 'db \<Rightarrow> c_fault + int \<times> 'db" where
  "set_checked Y g s v db =
     (let (status, db') = ydb_set_s Y db g s v in
      if status = YDB_TP_RESTART Y then Inr (status, db')
      else if status \<noteq> YDB_OK then Inl AssertFailed
      else Inr (YDB_OK, db'))"

definition Account_Save :: "'db ydb \<Rightarrow> Account \<Rightarrow> 'db \<Rightarrow> c_fault + int \<times> 'db" where
  "Account_Save Y a = set_checked Y ACC_GLOBAL [dec (a_cid a)] (dec (a_histSeq a) @ bar @ dec (a_bal a))"

definition Hist_Save :: "'db ydb \<Rightarrow> HistRecord \<Rightarrow> 'db \<Rightarrow> c_fault + int \<times> 'db" where
  "Hist_Save Y h =
     set_checked Y HIST_GLOBAL [dec (hr_cid h), dec (hr_histSeq h)]
       (hr_comment h @ bar @ dec (hr_amt h) @ bar @ dec (hr_endBal h) @ bar @ dec (hr_user h))"

definition Trn_Save :: "'db ydb \<Rightarrow> int \<Rightarrow> TrnLog \<Rightarrow> 'db \<Rightarrow> c_fault + int \<times> 'db" where
  "Trn_Save Y now t =
     set_checked Y TRN_GLOBAL [dec (tl_guid t), dec (tl_tSeq t)]
       (dec (tl_guid t) @ bar @ dec now @ bar @ dec (tl_cid t) @ bar @ dec (tl_amt t) @ bar @
        dec (tl_endBal t) @ bar @ dec (tl_user t))"

section \<open>The transaction\<close>

text \<open>\<open>if (status == YDB_TP_RESTART) return status;\<close> after each step.\<close>

definition next_step ::
    "'db ydb \<Rightarrow> c_fault + int \<times> 'db \<Rightarrow> ('db \<Rightarrow> c_fault + int \<times> 'db) \<Rightarrow> c_fault + int \<times> 'db" where
  "next_step Y res k =
     bindE res (\<lambda>(status, db). if status = YDB_TP_RESTART Y then Inr (status, db) else k db)"

definition with_account ::
    "'db ydb \<Rightarrow> int \<Rightarrow> 'db \<Rightarrow> (Account \<Rightarrow> c_fault + int \<times> 'db) \<Rightarrow> c_fault + int \<times> 'db" where
  "with_account Y cid db k =
     bindE (Account_Load Y cid db) (\<lambda>(status, a).
     if status = YDB_TP_RESTART Y then Inr (status, db) else k (the a))"

definition debit :: "tpArgs \<Rightarrow> Account \<Rightarrow> Account" where
  "debit args a = a\<lparr>a_histSeq := int32 (a_histSeq a + 1), a_bal := int32 (a_bal a - tp_amt args)\<rparr>"

definition credit :: "tpArgs \<Rightarrow> Account \<Rightarrow> Account" where
  "credit args a = a\<lparr>a_histSeq := int32 (a_histSeq a + 1), a_bal := int32 (a_bal a + tp_amt args)\<rparr>"

definition hist_from :: "tpArgs \<Rightarrow> Account \<Rightarrow> HistRecord" where
  "hist_from args a =
     \<lparr>hr_cid = tp_from args, hr_histSeq = a_histSeq a, hr_comment = ''Transfer to '' @ dec (tp_to args),
      hr_amt = - tp_amt args, hr_endBal = a_bal a, hr_user = tp_ref args\<rparr>"

definition hist_to :: "tpArgs \<Rightarrow> Account \<Rightarrow> HistRecord" where
  "hist_to args a =
     \<lparr>hr_cid = tp_to args, hr_histSeq = a_histSeq a, hr_comment = ''Transfer from '' @ dec (tp_from args),
      hr_amt = tp_amt args, hr_endBal = a_bal a, hr_user = tp_ref args\<rparr>"

text \<open>
  Both log records take the account and the balance of the account debited. Their comment and
  the time \<open>dt\<close> are not saved.
\<close>

definition trn_from :: "int \<Rightarrow> tpArgs \<Rightarrow> Account \<Rightarrow> TrnLog" where
  "trn_from dt args accountFrom =
     \<lparr>tl_guid = tp_ref args, tl_tSeq = 1,
      tl_comment = ''Transfer to '' @ dec (tp_to args), tl_tDateTime = dt, tl_cid = tp_from args, tl_amt = - tp_amt args,
      tl_endBal = a_bal accountFrom, tl_user = tp_user args\<rparr>"

definition trn_to :: "int \<Rightarrow> tpArgs \<Rightarrow> Account \<Rightarrow> TrnLog" where
  "trn_to dt args accountFrom =
     \<lparr>tl_guid = tp_ref args, tl_tSeq = 2,
      tl_comment = ''Transfer from '' @ dec (tp_from args), tl_tDateTime = dt, tl_cid = tp_from args, tl_amt = tp_amt args,
      tl_endBal = a_bal accountFrom, tl_user = tp_user args\<rparr>"

text \<open>\<open>now\<close> gives the values of its three calls of \<open>time\<close>, in order.\<close>

definition postTransfer :: "'db ydb \<Rightarrow> (nat \<Rightarrow> int) \<Rightarrow> tpArgs \<Rightarrow> 'db \<Rightarrow> c_fault + int \<times> 'db" where
  "postTransfer Y now args db0 =
     with_account Y (tp_from args) db0 (\<lambda>from0.
     with_account Y (tp_to args) db0 (\<lambda>to0.
       let accountFrom = debit args from0; accountTo = credit args to0 in
       next_step Y (Account_Save Y accountFrom db0) (\<lambda>db1.
       next_step Y (Account_Save Y accountTo db1) (\<lambda>db2.
       next_step Y (Hist_Save Y (hist_from args accountFrom) db2) (\<lambda>db3.
       next_step Y (Hist_Save Y (hist_to args accountTo) db3) (\<lambda>db4.
       next_step Y (Trn_Save Y (now 1) (trn_from (now 0) args accountFrom) db4) (\<lambda>db5.
       next_step Y (Trn_Save Y (now 2) (trn_to (now 0) args accountFrom) db5) (\<lambda>db6.
         Inr (YDB_OK, db6)))))))))"

section \<open>The processes\<close>

text \<open>\<open>initData\<close>: the account of index \<open>i\<close> and its first history record, for \<open>n\<close> accounts.\<close>

fun init_loop :: "'db ydb \<Rightarrow> nat \<Rightarrow> int \<Rightarrow> 'db \<Rightarrow> c_fault + 'db" where
  "init_loop Y 0 i db = Inr db"
| "init_loop Y (Suc n) i db =
     (let (s1, db1) = ydb_set_s Y db ACC_GLOBAL [dec (START_CID + i)] ''1|10000000'' in
      if s1 \<noteq> YDB_OK then Inl AssertFailed
      else
        let (s2, db2) = ydb_set_s Y db1 HIST_GLOBAL [dec (START_CID + i), ''1''] ''Account Create||10000000'' in
        if s2 \<noteq> YDB_OK then Inl AssertFailed
        else init_loop Y n (i + 1) db2)"

definition initData :: "'db ydb \<Rightarrow> 'db \<Rightarrow> c_fault + 'db" where
  "initData Y db = init_loop Y (nat ACC_NEEDED) 0 db"

text \<open>
  \<open>childThread\<close> with the two values of \<open>rand\<close> it draws. \<open>idShift\<close> is 1, the
  logarithm of NUM_THREADS; the reference number is the process's own. It fits an int for
  two hundred million calls; beyond them the code's conversion from double is undefined, and the model's number is unbounded.
\<close>

definition RAND_INT :: "int \<Rightarrow> int \<Rightarrow> int \<Rightarrow> int" where
  "RAND_INT r a b = r mod (b - a) + a"

definition idShift :: nat where "idShift = 1"

definition child_args :: "int \<Rightarrow> int \<Rightarrow> int \<Rightarrow> int \<Rightarrow> int \<Rightarrow> tpArgs" where
  "child_args guid numRuns user rand1 rand2 =
     (let from = START_CID + RAND_INT rand1 0 ACC_NEEDED;
          to = START_CID + RAND_INT rand2 0 (ACC_NEEDED - 1)
      in \<lparr>tp_ref = guid + numRuns * 10 ^ idShift, tp_from = from, tp_to = (if from = to then to + 1 else to),
          tp_amt = TRAN_AMT, tp_user = user\<rparr>)"

text \<open>One call; the code leaves \<open>toPass.user\<close> unset, so \<open>user\<close> is whatever was there.\<close>

definition childThread ::
    "'db ydb \<Rightarrow> (nat \<Rightarrow> int) \<Rightarrow> int \<Rightarrow> int \<Rightarrow> int \<Rightarrow> int \<Rightarrow> int \<Rightarrow> 'db \<Rightarrow> c_fault + int \<times> 'db" where
  "childThread Y now guid numRuns user rand1 rand2 db =
     bindE (ydb_tp_s Y (postTransfer Y now (child_args guid numRuns user rand1 rand2)) db) (\<lambda>(status, db').
     if status \<noteq> YDB_OK then Inl AssertFailed else Inr (numRuns + 1, db'))"

text \<open>
  \<open>childThread_driver\<close>: how often it calls \<open>childThread\<close>, given the readings of its clock
  less \<open>startTime\<close>, in order; None when they end before it does. Batches of a hundred
  calls while \<open>estimate\<close> is below 110, then single calls up to TEST_TIMEOUT.
\<close>

definition TEST_TIMEOUT :: int where "TEST_TIMEOUT = 120"

fun single_calls :: "int list \<Rightarrow> nat \<Rightarrow> nat option" where
  "single_calls [] calls = None"
| "single_calls (t # ts) calls = (if t < TEST_TIMEOUT then single_calls ts (calls + 1) else Some calls)"

fun batches :: "int \<Rightarrow> int list \<Rightarrow> nat \<Rightarrow> nat option" where
  "batches estimate [] calls = (if estimate < 110 then None else single_calls [] calls)"
| "batches estimate (t # ts) calls =
     (if estimate < 110 then batches t ts (calls + 100) else single_calls (t # ts) calls)"

definition childThread_driver :: "int list \<Rightarrow> nat option" where
  "childThread_driver readings = batches 0 readings 0"

end
