(* ===== verification/YdbProg.thy ===== *)
theory YdbProg
  imports YdbApi
begin

text \<open>
  Programs on the database: what one call may do (go on with a value, or make the function
  return at once with a status), calls one after the other, and the calls with the checks
  the test programs wrap around them. The locale \<open>calm_db\<close> is the interface the programs
  rely on; inside it their runs evaluate by simplification.
\<close>

section \<open>Sequencing\<close>

datatype 'a outcome = Go 'a | Stop int

type_synonym ('db, 'a) act = "'db \<Rightarrow> c_fault + 'a outcome \<times> 'db"

definition ret :: "'a \<Rightarrow> ('db, 'a) act" where
  "ret x db = Inr (Go x, db)"

definition stop :: "int \<Rightarrow> ('db, 'a) act" where
  "stop status db = Inr (Stop status, db)"

definition fault :: "c_fault \<Rightarrow> ('db, 'a) act" where
  "fault e db = Inl e"

fun continue :: "c_fault + 'a outcome \<times> 'db \<Rightarrow> ('a \<Rightarrow> ('db, 'b) act) \<Rightarrow> c_fault + 'b outcome \<times> 'db" where
  "continue (Inl e) k = Inl e"
| "continue (Inr (Stop status, db)) k = Inr (Stop status, db)"
| "continue (Inr (Go x, db)) k = k x db"

definition andThen :: "('db, 'a) act \<Rightarrow> ('a \<Rightarrow> ('db, 'b) act) \<Rightarrow> ('db, 'b) act" where
  "andThen m k db = continue (m db) k"

fun block :: "('db, unit) act list \<Rightarrow> ('db, unit) act" where
  "block [] = ret ()"
| "block (a # as) = andThen a (\<lambda>_. block as)"

text \<open>A statement under an \<open>if\<close> without an else; a check.\<close>

definition onlyIf :: "bool \<Rightarrow> ('db, unit) act list \<Rightarrow> ('db, unit) act" where
  "onlyIf b as = (if b then block as else ret ())"

definition check :: "bool \<Rightarrow> ('db, unit) act" where
  "check b = (if b then ret () else fault AssertFailed)"

lemma act_simps [simp]:
  "ret x db = Inr (Go x, db)" "stop status db = Inr (Stop status, db)" "fault e db = Inl e"
  "andThen m k db = continue (m db) k" "onlyIf True as = block as" "onlyIf False as = ret ()"
  "check True = ret ()" "check False = fault AssertFailed"
  by (simp_all add: ret_def stop_def fault_def andThen_def onlyIf_def check_def)

text \<open>A function of the code is called with its status as result.\<close>

fun returned :: "c_fault + unit outcome \<times> 'db \<Rightarrow> c_fault + int \<times> 'db" where
  "returned (Inl e) = Inl e"
| "returned (Inr (Stop status, db)) = Inr (status, db)"
| "returned (Inr (Go _, db)) = Inr (YDB_OK, db)"

definition as_function :: "('db, unit) act \<Rightarrow> 'db \<Rightarrow> c_fault + int \<times> 'db" where
  "as_function m db = returned (m db)"

lemma block_append: "block (as @ bs) db = continue (block as db) (\<lambda>_. block bs)"
proof (induction as arbitrary: db)
  case (Cons a as)
  show ?case by (cases "(a db, \<lambda>_ :: unit. block as)" rule: continue.cases) (use Cons in auto)
qed simp

section \<open>Checked calls\<close>

text \<open>
  \<open>status = ydb_...; YDB_ASSERT(YDB_OK == status)\<close>; with \<open>tp\<close>, a status that asks for a
  restart is returned first.
\<close>

definition asserted :: "int \<Rightarrow> 'a \<Rightarrow> ('db, 'a) act" where
  "asserted status x = (if status = YDB_OK then ret x else fault AssertFailed)"

definition asserted_tp :: "'db ydb \<Rightarrow> int \<Rightarrow> 'a \<Rightarrow> ('db, 'a) act" where
  "asserted_tp Y status x =
     (if status = YDB_TP_RESTART Y then stop status
      else if status = YDB_OK then ret x else fault AssertFailed)"

definition set_ok :: "'db ydb \<Rightarrow> string \<Rightarrow> string list \<Rightarrow> string \<Rightarrow> ('db, unit) act" where
  "set_ok Y g s v db = (let (status, db') = ydb_set_s Y db g s v in asserted status () db')"

definition set_tp :: "'db ydb \<Rightarrow> string \<Rightarrow> string list \<Rightarrow> string \<Rightarrow> ('db, unit) act" where
  "set_tp Y g s v db = (let (status, db') = ydb_set_s Y db g s v in asserted_tp Y status () db')"

definition delete_ok :: "'db ydb \<Rightarrow> string \<Rightarrow> string list \<Rightarrow> ('db, unit) act" where
  "delete_ok Y g s db = (let (status, db') = ydb_delete_s Y db g s in asserted status () db')"

definition delete_tp :: "'db ydb \<Rightarrow> string \<Rightarrow> string list \<Rightarrow> ('db, unit) act" where
  "delete_tp Y g s db = (let (status, db') = ydb_delete_s Y db g s in asserted_tp Y status () db')"

definition data_ok :: "'db ydb \<Rightarrow> string \<Rightarrow> string list \<Rightarrow> ('db, int) act" where
  "data_ok Y g s db = (let (status, d) = ydb_data_s Y db g s in asserted status d db)"

definition incr_ok :: "'db ydb \<Rightarrow> string \<Rightarrow> string list \<Rightarrow> string option \<Rightarrow> ('db, string) act" where
  "incr_ok Y g s by db = (let (status, v, db') = ydb_incr_s Y db g s by in asserted status v db')"

definition incr_tp :: "'db ydb \<Rightarrow> string \<Rightarrow> string list \<Rightarrow> string option \<Rightarrow> ('db, string) act" where
  "incr_tp Y g s by db = (let (status, v, db') = ydb_incr_s Y db g s by in asserted_tp Y status v db')"

definition cip_ok :: "'db ydb \<Rightarrow> string \<Rightarrow> ('db, unit) act" where
  "cip_ok Y name db = (let (status, db') = ydb_cip Y db name in asserted status () db')"

definition cip_tp :: "'db ydb \<Rightarrow> string \<Rightarrow> ('db, unit) act" where
  "cip_tp Y name db = (let (status, db') = ydb_cip Y db name in asserted_tp Y status () db')"

definition lock_ok :: "'db ydb \<Rightarrow> string \<Rightarrow> string list \<Rightarrow> ('db, unit) act" where
  "lock_ok Y g s db = (let (status, db') = ydb_lock_incr_s Y db g s in asserted status () db')"

definition unlock_ok :: "'db ydb \<Rightarrow> string \<Rightarrow> string list \<Rightarrow> ('db, unit) act" where
  "unlock_ok Y g s db = (let (status, db') = ydb_lock_decr_s Y db g s in asserted status () db')"

text \<open>A function that is called, directly or as a transaction, must return YDB_OK.\<close>

definition call_ok :: "('db \<Rightarrow> c_fault + int \<times> 'db) \<Rightarrow> ('db, unit) act" where
  "call_ok f db = (case f db of Inl e \<Rightarrow> Inl e | Inr (status, db') \<Rightarrow> asserted status () db')"

text \<open>
  A value is got into a buffer of \<open>n\<close> bytes: a longer one is an error of \<open>ydb_get_s\<close>, and
  one that fills it leaves no room for the NUL that is set behind it (\<open>get_text\<close>).
\<close>

definition into_buffer :: "nat \<Rightarrow> string \<Rightarrow> ('db, string) act" where
  "into_buffer n v = (if length v \<le> n then ret v else fault AssertFailed)"

definition nul_ended :: "nat \<Rightarrow> string \<Rightarrow> ('db, string) act" where
  "nul_ended n v = (if length v < n then ret v else if length v = n then fault OutOfBounds else fault AssertFailed)"

definition get_ok :: "'db ydb \<Rightarrow> nat \<Rightarrow> string \<Rightarrow> string list \<Rightarrow> ('db, string) act" where
  "get_ok Y n g s db =
     (let (status, v) = ydb_get_s Y db g s in andThen (asserted status v) (into_buffer n) db)"

definition get_tp :: "'db ydb \<Rightarrow> nat \<Rightarrow> string \<Rightarrow> string list \<Rightarrow> ('db, string) act" where
  "get_tp Y n g s db =
     (let (status, v) = ydb_get_s Y db g s in andThen (asserted_tp Y status v) (into_buffer n) db)"

definition get_text :: "'db ydb \<Rightarrow> nat \<Rightarrow> string \<Rightarrow> string list \<Rightarrow> ('db, string) act" where
  "get_text Y n g s db =
     (let (status, v) = ydb_get_s Y db g s in andThen (asserted status v) (nul_ended n) db)"

definition get_int :: "'db ydb \<Rightarrow> nat \<Rightarrow> string \<Rightarrow> string list \<Rightarrow> ('db, int) act" where
  "get_int Y n g s = andThen (get_text Y n g s) (\<lambda>v. ret (atoi v))"

text \<open>A node that may be undefined: 0 then.\<close>

definition get_int_or_0 :: "'db ydb \<Rightarrow> nat \<Rightarrow> string \<Rightarrow> string list \<Rightarrow> ('db, int) act" where
  "get_int_or_0 Y n g s db =
     (if fst (ydb_get_s Y db g s) = YDB_ERR_GVUNDEF Y then ret 0 db else get_int Y n g s db)"

definition get_int_tp :: "'db ydb \<Rightarrow> nat \<Rightarrow> string \<Rightarrow> string list \<Rightarrow> ('db, int) act" where
  "get_int_tp Y n g s db =
     (let (status, v) = ydb_get_s Y db g s in
      andThen (asserted_tp Y status v) (\<lambda>v. andThen (nul_ended n v) (\<lambda>v. ret (atoi v))) db)"

definition get_int_or_0_tp :: "'db ydb \<Rightarrow> nat \<Rightarrow> string \<Rightarrow> string list \<Rightarrow> ('db, int) act" where
  "get_int_or_0_tp Y n g s db =
     (if fst (ydb_get_s Y db g s) = YDB_ERR_GVUNDEF Y then ret 0 db else get_int_tp Y n g s db)"

section \<open>Programs alone with their database\<close>

text \<open>What a call leaves; in a calm database these say all about it.\<close>

definition put :: "'db ydb \<Rightarrow> string \<Rightarrow> string list \<Rightarrow> string \<Rightarrow> 'db \<Rightarrow> 'db" where
  "put Y g s v db = snd (ydb_set_s Y db g s v)"

definition bumped :: "'db ydb \<Rightarrow> string \<Rightarrow> string list \<Rightarrow> string option \<Rightarrow> 'db \<Rightarrow> 'db" where
  "bumped Y g s by db = snd (snd (ydb_incr_s Y db g s by))"

definition deleted :: "'db ydb \<Rightarrow> string \<Rightarrow> string list \<Rightarrow> 'db \<Rightarrow> 'db" where
  "deleted Y g s db = snd (ydb_delete_s Y db g s)"

definition locked :: "'db ydb \<Rightarrow> string \<Rightarrow> string list \<Rightarrow> 'db \<Rightarrow> 'db" where
  "locked Y g s db = snd (ydb_lock_incr_s Y db g s)"

definition unlocked :: "'db ydb \<Rightarrow> string \<Rightarrow> string list \<Rightarrow> 'db \<Rightarrow> 'db" where
  "unlocked Y g s db = snd (ydb_lock_decr_s Y db g s)"

locale calm_db =
  fixes Y :: "'db ydb"
  assumes good: "ydb_good Y"
begin

lemma laws: "ydb_store Y" "ydb_calm Y" "ydb_get_law Y" "ydb_data_law Y" "ydb_incr_law Y" "ydb_delete_law Y" "ydb_next_law Y"
    "ydb_lock_law Y" "ydb_rollback_law Y"
  using good by (simp_all add: ydb_good_def)

lemma codes [simp]:
  "YDB_TP_RESTART Y \<noteq> YDB_OK" "YDB_OK \<noteq> YDB_TP_RESTART Y"
  "YDB_ERR_GVUNDEF Y \<noteq> YDB_OK" "YDB_OK \<noteq> YDB_ERR_GVUNDEF Y"
  "YDB_ERR_LVUNDEF Y \<noteq> YDB_OK" "YDB_OK \<noteq> YDB_ERR_LVUNDEF Y"
  "YDB_TP_ROLLBACK Y \<noteq> YDB_OK" "YDB_OK \<noteq> YDB_TP_ROLLBACK Y"
  "YDB_ERR_NODEEND Y \<noteq> YDB_OK" "YDB_OK \<noteq> YDB_ERR_NODEEND Y"
  "YDB_TP_ROLLBACK Y \<noteq> YDB_TP_RESTART Y" "YDB_TP_RESTART Y \<noteq> YDB_TP_ROLLBACK Y"
  "YDB_ERR_GVUNDEF Y \<noteq> YDB_TP_RESTART Y" "YDB_ERR_LVUNDEF Y \<noteq> YDB_TP_RESTART Y"
  "YDB_ERR_LVUNDEF Y \<noteq> YDB_ERR_GVUNDEF Y" "YDB_ERR_GVUNDEF Y \<noteq> YDB_ERR_LVUNDEF Y"
  using laws(3) by (auto simp: ydb_get_law_def)

lemma got: "node Y db g s = Some v \<Longrightarrow> ydb_get_s Y db g s = (YDB_OK, v)"
  by (auto simp: node_def prod_eq_iff split: if_splits)

lemma got_undef: "node Y db g s = None \<Longrightarrow> fst (ydb_get_s Y db g s) = undef_status Y g"
  using laws(3) by (simp add: ydb_get_law_def)

lemma set_put: "ydb_set_s Y db g s v = (YDB_OK, put Y g s v db)"
proof -
  obtain db' where "ydb_set_s Y db g s v = (YDB_OK, db')" using laws(2) unfolding ydb_calm_def by blast
  then show ?thesis by (simp add: put_def)
qed

lemma node_put [simp]: "node Y (put Y g s v db) g' s' = (if g' = g \<and> s' = s then Some v else node Y db g' s')"
  using ydb_get_set [OF laws(1) set_put] by (simp add: node_def)

lemma set_runs [simp]: "set_ok Y g s v db = Inr (Go (), put Y g s v db)" "set_tp Y g s v db = Inr (Go (), put Y g s v db)"
  by (simp_all add: set_ok_def set_tp_def set_put asserted_def asserted_tp_def)

lemma delete_deleted: "ydb_delete_s Y db g s = (YDB_OK, deleted Y g s db)"
  and node_deleted [simp]:
    "node Y (deleted Y g s db) g' s' = (if g' = g \<and> take (length s) s' = s then None else node Y db g' s')"
  using laws(6) [unfolded ydb_delete_law_def, rule_format, of db g s] by (auto simp: deleted_def)

lemma delete_runs [simp]:
  "delete_ok Y g s db = Inr (Go (), deleted Y g s db)" "delete_tp Y g s db = Inr (Go (), deleted Y g s db)"
  by (simp_all add: delete_ok_def delete_tp_def delete_deleted asserted_def asserted_tp_def)

lemma data_runs [simp]:
  "data_ok Y g s db = Inr (Go ((if node Y db g s = None then 0 else 1) + (if below Y db g s then 10 else 0)), db)"
  using laws(4) by (simp add: data_ok_def ydb_data_law_def asserted_def)

lemma incr_bumped:
  assumes "case node Y db g s of None \<Rightarrow> a = 0 | Some v \<Rightarrow> v = dec a" "\<bar>a\<bar> < 10 ^ 18"
    and "case by of None \<Rightarrow> b = 1 | Some t \<Rightarrow> counts_as t b" "\<bar>b\<bar> < 10 ^ 18"
  shows "ydb_incr_s Y db g s by = (YDB_OK, dec (a + b), bumped Y g s by db)"
    and "node Y (bumped Y g s by db) g' s' = (if g' = g \<and> s' = s then Some (dec (a + b)) else node Y db g' s')"
  using laws(5) [unfolded ydb_incr_law_def, THEN conjunct1, rule_format, OF assms(1,3,2,4)] by (auto simp: bumped_def)

lemma incr_runs:
  assumes "case node Y db g s of None \<Rightarrow> a = 0 | Some v \<Rightarrow> v = dec a" "\<bar>a\<bar> < 10 ^ 18"
    and "case by of None \<Rightarrow> b = 1 | Some t \<Rightarrow> counts_as t b" "\<bar>b\<bar> < 10 ^ 18"
  shows "incr_ok Y g s by db = Inr (Go (dec (a + b)), bumped Y g s by db)"
    and "incr_tp Y g s by db = Inr (Go (dec (a + b)), bumped Y g s by db)"
  by (simp_all add: incr_ok_def incr_tp_def incr_bumped(1) [OF assms] asserted_def asserted_tp_def)

lemma get_runs:
  assumes "node Y db g s = Some v" "length v \<le> n"
  shows "get_ok Y n g s db = Inr (Go v, db)" "get_tp Y n g s db = Inr (Go v, db)"
  using assms by (simp_all add: get_ok_def get_tp_def got asserted_def asserted_tp_def into_buffer_def)

lemma get_text_runs:
  assumes "node Y db g s = Some v" "length v < n"
  shows "get_text Y n g s db = Inr (Go v, db)" "get_int Y n g s db = Inr (Go (atoi v), db)"
    "get_int_tp Y n g s db = Inr (Go (atoi v), db)" "get_int_or_0 Y n g s db = Inr (Go (atoi v), db)"
    "get_int_or_0_tp Y n g s db = Inr (Go (atoi v), db)"
  using assms
  by (simp_all add: get_text_def get_int_def get_int_tp_def get_int_or_0_def get_int_or_0_tp_def got asserted_def
      asserted_tp_def nul_ended_def)

lemma get_or_0_runs:
  assumes "node Y db g s = None" "take 1 g = ''^''"
  shows "get_int_or_0 Y n g s db = Inr (Go 0, db)" "get_int_or_0_tp Y n g s db = Inr (Go 0, db)"
  using assms got_undef by (simp_all add: get_int_or_0_def get_int_or_0_tp_def undef_status_def)

lemma lock_runs [simp]:
  "lock_ok Y g s db = Inr (Go (), locked Y g s db)" "unlock_ok Y g s db = Inr (Go (), unlocked Y g s db)"
  "node Y (locked Y g s db) = node Y db" "node Y (unlocked Y g s db) = node Y db"
proof -
  obtain d d' where "ydb_lock_incr_s Y db g s = (YDB_OK, d)" "node Y d = node Y db"
    "ydb_lock_decr_s Y db g s = (YDB_OK, d')" "node Y d' = node Y db"
    using laws(8) unfolding ydb_lock_law_def fun_eq_iff by blast
  then show "lock_ok Y g s db = Inr (Go (), locked Y g s db)" "unlock_ok Y g s db = Inr (Go (), unlocked Y g s db)"
    "node Y (locked Y g s db) = node Y db" "node Y (unlocked Y g s db) = node Y db"
    by (simp_all add: lock_ok_def unlock_ok_def locked_def unlocked_def asserted_def)
qed

lemma call_runs:
  assumes "as_function m db = Inr (YDB_OK, db')"
  shows "call_ok (as_function m) db = Inr (Go (), db')" "call_ok (ydb_tp_s Y (as_function m)) db = Inr (Go (), db')"
  using assms ydb_tp_commit [of Y "as_function m", OF laws(1) assms] by (simp_all add: call_ok_def asserted_def)

lemma tp_runs: "as_function m db = Inr (YDB_OK, db') \<Longrightarrow> ydb_tp_s Y (as_function m) db = Inr (YDB_OK, db')"
  using ydb_tp_commit [OF laws(1)] .

end

text \<open>What a program leaves alone: all nodes outside \<open>T\<close>, whatever its result.\<close>

definition keeps :: "'db ydb \<Rightarrow> (string \<times> string list) set \<Rightarrow> ('db, 'a) act \<Rightarrow> bool" where
  "keeps Y T m \<longleftrightarrow> (\<forall>db r db'. m db = Inr (r, db') \<longrightarrow> (\<forall>g s. (g, s) \<notin> T \<longrightarrow> node Y db' g s = node Y db g s))"

lemma keepsD: "keeps Y T m \<Longrightarrow> m db = Inr (r, db') \<Longrightarrow> (g, s) \<notin> T \<Longrightarrow> node Y db' g s = node Y db g s"
  by (simp add: keeps_def)

lemma keeps_then:
  assumes "keeps Y T m" "\<And>x. keeps Y T (k x)"
  shows "keeps Y T (andThen m k)"
  unfolding keeps_def
proof (intro allI impI)
  fix db r db' g s assume run: "andThen m k db = Inr (r, db')" and out: "(g, s) \<notin> T"
  then obtain q d where m: "m db = Inr (q, d)" by (cases "m db") auto
  have d: "node Y d g s = node Y db g s" by (rule keepsD [OF assms(1) m out])
  show "node Y db' g s = node Y db g s"
  proof (cases q)
    case (Go x)
    then have "k x d = Inr (r, db')" using run m by simp
    then show ?thesis using keepsD [OF assms(2) _ out] d by simp
  next
    case (Stop status)
    then show ?thesis using run m d by simp
  qed
qed

text \<open>What only looks, or writes inside \<open>T\<close>.\<close>

lemma keeps_pure:
  "keeps Y T (ret x)" "keeps Y T (stop status)" "keeps Y T (fault e)" "keeps Y T (check b)"
  "keeps Y T (into_buffer n v)" "keeps Y T (nul_ended n v)" "keeps Y T (asserted status x)" "keeps Y T (asserted_tp Y status x)"
  by (cases b; cases "length v \<le> n"; cases "length v < n"; cases "status = YDB_OK"; cases "status = YDB_TP_RESTART Y";
      simp add: keeps_def into_buffer_def nul_ended_def asserted_def asserted_tp_def)+

lemma keeps_block: "(\<And>a. a \<in> set as \<Longrightarrow> keeps Y T a) \<Longrightarrow> keeps Y T (block as)"
proof (induction as)
  case (Cons a as)
  then show ?case unfolding block.simps by (intro keeps_then) simp_all
qed (simp add: keeps_def)

lemma keeps_get:
  "keeps Y T (get_ok Y n g s)" "keeps Y T (get_tp Y n g s)" "keeps Y T (get_text Y n g s)" "keeps Y T (get_int Y n g s)"
  "keeps Y T (get_int_tp Y n g s)" "keeps Y T (get_int_or_0 Y n g s)" "keeps Y T (get_int_or_0_tp Y n g s)"
proof -
  show got: "keeps Y T (get_ok Y n g s)" "keeps Y T (get_tp Y n g s)" "keeps Y T (get_text Y n g s)"
    and tp: "keeps Y T (get_int_tp Y n g s)"
    by (auto simp: keeps_def get_ok_def get_tp_def get_text_def get_int_tp_def asserted_def asserted_tp_def into_buffer_def
        nul_ended_def split: prod.splits if_splits)
  show int: "keeps Y T (get_int Y n g s)"
    unfolding get_int_def by (intro keeps_then got keeps_pure)
  show "keeps Y T (get_int_or_0 Y n g s)" "keeps Y T (get_int_or_0_tp Y n g s)"
    using int tp by (auto simp: keeps_def get_int_or_0_def get_int_or_0_tp_def split: if_splits)
qed

context calm_db
begin

lemma keeps_write:
  assumes "(g, s) \<in> T"
  shows "keeps Y T (set_ok Y g s v)" "keeps Y T (set_tp Y g s v)" "keeps Y T (incr_ok Y g s a)" "keeps Y T (incr_tp Y g s a)"
proof -
  have "node Y (snd (snd (ydb_incr_s Y db g s a))) g' s' = node Y db g' s'" if "(g', s') \<notin> T" for db g' s'
  proof -
    have "(g', s') \<noteq> (g, s)" using assms that by blast
    then show ?thesis using laws(5) [unfolded ydb_incr_law_def, THEN conjunct2] by blast
  qed
  then show "keeps Y T (incr_ok Y g s a)" "keeps Y T (incr_tp Y g s a)"
    by (auto simp: keeps_def incr_ok_def incr_tp_def asserted_def asserted_tp_def case_prod_beta split: if_splits)
qed (use assms in \<open>auto simp: keeps_def\<close>)

lemma keeps_delete:
  assumes "\<And>r. (g, s @ r) \<in> T"
  shows "keeps Y T (delete_ok Y g s)" "keeps Y T (delete_tp Y g s)"
proof -
  have "node Y (deleted Y g s db) g' s' = node Y db g' s'" if "(g', s') \<notin> T" for db g' s'
  proof (cases "g' = g \<and> take (length s) s' = s")
    case True
    then have "s' = s @ drop (length s) s'" by (metis append_take_drop_id)
    then have "(g', s') \<in> T" using assms [of "drop (length s) s'"] True by simp
    with that show ?thesis by simp
  qed auto
  then show "keeps Y T (delete_ok Y g s)" "keeps Y T (delete_tp Y g s)" by (simp_all add: keeps_def)
qed

lemma keeps_lock: "keeps Y T (lock_ok Y g s)" "keeps Y T (unlock_ok Y g s)"
  by (simp_all add: keeps_def)

end

interpretation map: calm_db map_ydb
  by unfold_locales simp

end
