(* ===== verification/PseudoBankProps.thy ===== *)
theory PseudoBankProps
  imports PseudoBank YdbProg
begin

text \<open>
  The laws of simpleapi/inref/pseudoBank.c: a transfer moves exactly its amount, the total
  stays what \<open>initData\<close> deposited through any sequence of transfers, and what the
  transfer log records.
\<close>

section \<open>Accounts in the database\<close>

definition account_at :: "'db ydb \<Rightarrow> 'db \<Rightarrow> int \<Rightarrow> Account option" where
  "account_at Y db cid =
     (case ydb_get_s Y db ACC_GLOBAL [dec cid] of (status, v) \<Rightarrow>
        if status \<noteq> YDB_OK then None
        else (case parse_account cid v of Inl _ \<Rightarrow> None | Inr a \<Rightarrow> Some a))"

definition balance :: "'db ydb \<Rightarrow> 'db \<Rightarrow> int \<Rightarrow> int" where
  "balance Y db cid = (case account_at Y db cid of None \<Rightarrow> 0 | Some a \<Rightarrow> a_bal a)"

lemma bar_notin_dec: "CHR ''|'' \<notin> set (dec i)"
proof
  assume "CHR ''|'' \<in> set (dec i)"
  then have "is_digit (CHR ''|'')" using dec_nat_digits by (auto simp: dec_def split: if_splits)
  then show False by (simp add: is_digit_def uc_def)
qed

text \<open>Printing an account and parsing it again.\<close>

lemma parse_printed:
  assumes "is_int32 hist" "is_int32 bal"
  shows "parse_account cid (dec hist @ bar @ dec bal) = Inr \<lparr>a_cid = cid, a_bal = bal, a_histSeq = hist\<rparr>"
proof -
  let ?v = "dec hist @ CHR ''|'' # dec bal"
  have "length ?v < 64" using length_dec [OF assms(1)] length_dec [OF assms(2)] by simp
  moreover have "nul_free ?v" by (simp add: NUL_def)
  moreover have "strtok bar ?v = Some (dec hist, dec bal)" "strtok bar (dec bal) = Some (dec bal, [])"
    using bar_notin_dec strtok_plain(1) [of "dec hist" bar "CHR ''|''" "dec bal"]
      strtok_plain(2) [of "dec bal" bar "CHR ''|''"] by (simp_all add: bar_def dec_not_Nil)
  moreover have v: "dec hist @ bar @ dec bal = ?v" by (simp add: bar_def)
  ultimately show ?thesis unfolding v using assms by (simp add: parse_account_def)
qed

lemma account_cid: "account_at Y db c = Some a \<Longrightarrow> a_cid a = c"
  by (auto simp: account_at_def parse_account_def Let_def split: prod.splits if_splits sum.splits option.splits)

lemma account_load: "account_at Y db c = Some a \<Longrightarrow> ydb_store Y \<Longrightarrow> Account_Load Y c db = Inr (YDB_OK, Some a)"
  by (auto simp: account_at_def Account_Load_def ydb_store_def split: prod.splits if_splits sum.splits)

lemma int32_debit [simp]: "is_int32 (a_bal (debit args a))" "is_int32 (a_histSeq (debit args a))"
  by (simp_all add: debit_def)

lemma int32_credit [simp]: "is_int32 (a_bal (credit args a))" "is_int32 (a_histSeq (credit args a))"
  by (simp_all add: credit_def)

lemma cid_simps [simp]: "a_cid (debit args a) = a_cid a" "a_cid (credit args a) = a_cid a"
  by (simp_all add: debit_def credit_def)

section \<open>One transfer\<close>

definition acc_value :: "Account \<Rightarrow> string" where
  "acc_value a = dec (a_histSeq a) @ bar @ dec (a_bal a)"

definition trn_value :: "int \<Rightarrow> TrnLog \<Rightarrow> string" where
  "trn_value t0 t = dec (tl_guid t) @ bar @ dec t0 @ bar @ dec (tl_cid t) @ bar @ dec (tl_amt t) @ bar @
     dec (tl_endBal t) @ bar @ dec (tl_user t)"

lemma bank_set:
  assumes "ydb_calm Y"
  shows "ydb_set_s Y db g s v = (YDB_OK, put Y g s v db)"
proof -
  obtain db' where "ydb_set_s Y db g s v = (YDB_OK, db')" using assms unfolding ydb_calm_def by blast
  then show ?thesis by (simp add: put_def)
qed

lemma bank_get:
  assumes "ydb_store Y" "ydb_calm Y"
  shows "ydb_get_s Y (put Y g s v db) g' s' = (if g' = g \<and> s' = s then (YDB_OK, v) else ydb_get_s Y db g' s')"
  using ydb_get_set [OF assms(1) bank_set [OF assms(2)]] .

lemma bank_next:
  assumes "ydb_store Y" "ydb_calm Y"
  shows "next_step Y (set_checked Y g s v db) k = k (put Y g s v db)"
  using assms by (auto simp: next_step_def set_checked_def bank_set ydb_store_def)

text \<open>The six sets of a transfer, and what they leave in the database.\<close>

lemma transfer_sets:
  assumes Y: "ydb_store Y" "ydb_calm Y"
    and acc: "account_at Y db (tp_from args) = Some a" "account_at Y db (tp_to args) = Some b"
  shows "\<exists>db'. postTransfer Y now args db = Inr (YDB_OK, db') \<and>
    (\<forall>c. ydb_get_s Y db' ACC_GLOBAL [dec c] =
       (if c = tp_to args then (YDB_OK, acc_value (credit args b))
        else if c = tp_from args then (YDB_OK, acc_value (debit args a))
        else ydb_get_s Y db ACC_GLOBAL [dec c])) \<and>
    ydb_get_s Y db' TRN_GLOBAL [dec (tp_ref args), dec 1] = (YDB_OK, trn_value (now 1) (trn_from (now 0) args (debit args a))) \<and>
    ydb_get_s Y db' TRN_GLOBAL [dec (tp_ref args), dec 2] = (YDB_OK, trn_value (now 2) (trn_to (now 0) args (debit args a)))"
proof -
  have cid: "a_cid a = tp_from args" "a_cid b = tp_to args" using acc by (simp_all add: account_cid)
  have load: "with_account Y (tp_from args) db k = k a" "with_account Y (tp_to args) db k = k b" for k
    using account_load [OF acc(1) Y(1)] account_load [OF acc(2) Y(1)] Y(1)
    by (auto simp: with_account_def ydb_store_def)
  have g: "ACC_GLOBAL \<noteq> HIST_GLOBAL" "ACC_GLOBAL \<noteq> TRN_GLOBAL" "HIST_GLOBAL \<noteq> TRN_GLOBAL"
    by (simp_all add: ACC_GLOBAL_def HIST_GLOBAL_def TRN_GLOBAL_def)
  show ?thesis
    by (simp add: postTransfer_def load Let_def Account_Save_def Hist_Save_def Trn_Save_def bank_next [OF Y]
        bank_get [OF Y] cid g g [symmetric] acc_value_def trn_value_def trn_from_def trn_to_def)
qed

lemma account_of_value:
  assumes "ydb_get_s Y db ACC_GLOBAL [dec c] = (YDB_OK, acc_value a)" "is_int32 (a_bal a)" "is_int32 (a_histSeq a)" "a_cid a = c"
  shows "account_at Y db c = Some a"
  using assms parse_printed [OF assms(3,2), of c] by (simp add: account_at_def acc_value_def)

lemma transfer_accounts:
  assumes Y: "ydb_store Y" "ydb_calm Y"
    and acc: "account_at Y db (tp_from args) = Some a" "account_at Y db (tp_to args) = Some b"
    and ne: "tp_from args \<noteq> tp_to args"
  shows "\<exists>db'. postTransfer Y now args db = Inr (YDB_OK, db') \<and>
    account_at Y db' (tp_from args) = Some (debit args a) \<and> account_at Y db' (tp_to args) = Some (credit args b) \<and>
    (\<forall>c. c \<noteq> tp_from args \<longrightarrow> c \<noteq> tp_to args \<longrightarrow> account_at Y db' c = account_at Y db c)"
proof -
  have cid: "a_cid a = tp_from args" "a_cid b = tp_to args" using acc by (simp_all add: account_cid)
  obtain db' where db': "postTransfer Y now args db = Inr (YDB_OK, db')"
    "\<forall>c. ydb_get_s Y db' ACC_GLOBAL [dec c] =
       (if c = tp_to args then (YDB_OK, acc_value (credit args b))
        else if c = tp_from args then (YDB_OK, acc_value (debit args a))
        else ydb_get_s Y db ACC_GLOBAL [dec c])"
    using transfer_sets [OF Y acc, of now] by blast
  then have "account_at Y db' (tp_from args) = Some (debit args a)" "account_at Y db' (tp_to args) = Some (credit args b)"
    using ne cid by (auto intro!: account_of_value)
  moreover have "account_at Y db' c = account_at Y db c" if "c \<noteq> tp_from args" "c \<noteq> tp_to args" for c
    using db'(2) that by (simp add: account_at_def)
  ultimately show ?thesis using db'(1) by blast
qed

section \<open>Any sequence of transfers\<close>

text \<open>
  Transactions of all processes in the order they are committed, each with its process's
  number, its count and the random numbers it drew.
\<close>

fun bank_run :: "'db ydb \<Rightarrow> (nat \<Rightarrow> int) \<Rightarrow> (int \<times> int \<times> int \<times> int \<times> int) list \<Rightarrow> 'db \<Rightarrow> c_fault + 'db" where
  "bank_run Y now [] db = Inr db"
| "bank_run Y now ((guid, numRuns, user, r1, r2) # rest) db =
     bindE (childThread Y now guid numRuns user r1 r2 db) (\<lambda>(_, db'). bank_run Y now rest db')"

definition cids :: "int set" where
  "cids = {START_CID ..< START_CID + ACC_NEEDED}"

text \<open>All accounts are there, within \<open>k\<close> of their first balance, and the total is the deposit.\<close>

definition bank_ok :: "'db ydb \<Rightarrow> int \<Rightarrow> 'db \<Rightarrow> bool" where
  "bank_ok Y k db \<longleftrightarrow>
     (\<forall>c \<in> cids. \<exists>a. account_at Y db c = Some a \<and> \<bar>a_bal a - 10000000\<bar> \<le> k) \<and>
     (\<Sum>c \<in> cids. balance Y db c) = ACC_NEEDED * 10000000"

lemma finite_cids: "finite cids"
  by (simp add: cids_def)

lemma child_ids:
  "tp_from (child_args g n u r1 r2) \<in> cids" "tp_to (child_args g n u r1 r2) \<in> cids"
  "tp_from (child_args g n u r1 r2) \<noteq> tp_to (child_args g n u r1 r2)"
proof -
  have "0 \<le> r1 mod 1000" "r1 mod 1000 < 1000" "0 \<le> r2 mod 999" "r2 mod 999 < 999" by simp_all
  then show "tp_from (child_args g n u r1 r2) \<in> cids" "tp_to (child_args g n u r1 r2) \<in> cids"
    "tp_from (child_args g n u r1 r2) \<noteq> tp_to (child_args g n u r1 r2)"
    unfolding child_args_def cids_def Let_def RAND_INT_def ACC_NEEDED_def START_CID_def
    by (auto simp del: pos_mod_bound pos_mod_sign)
qed

lemma child_amt [simp]: "tp_amt (child_args g n u r1 r2) = 1"
  by (simp add: child_args_def Let_def TRAN_AMT_def)

lemma child_keeps_bank:
  assumes Y: "ydb_store Y" "ydb_calm Y" and ok: "bank_ok Y k db" and k: "0 \<le> k" "k < 2000000000"
  shows "\<exists>db'. childThread Y now g n u r1 r2 db = Inr (n + 1, db') \<and> bank_ok Y (k + 1) db'"
proof -
  let ?args = "child_args g n u r1 r2"
  let ?f = "tp_from ?args" and ?t = "tp_to ?args"
  note ids = child_ids [of g n u r1 r2]
  obtain a b where a: "account_at Y db ?f = Some a" "\<bar>a_bal a - 10000000\<bar> \<le> k"
    and b: "account_at Y db ?t = Some b" "\<bar>a_bal b - 10000000\<bar> \<le> k"
    using ok ids(1,2) unfolding bank_ok_def by blast
  obtain db' where db': "postTransfer Y now ?args db = Inr (YDB_OK, db')"
    "account_at Y db' ?f = Some (debit ?args a)" "account_at Y db' ?t = Some (credit ?args b)"
    "\<forall>c. c \<noteq> ?f \<longrightarrow> c \<noteq> ?t \<longrightarrow> account_at Y db' c = account_at Y db c"
    using transfer_accounts [OF Y a(1) b(1) ids(3), of now] by blast
  have bal: "a_bal (debit ?args a) = a_bal a - 1" "a_bal (credit ?args b) = a_bal b + 1"
  proof -
    have "is_int32 (a_bal a - 1)" "is_int32 (a_bal b + 1)"
      using a(2) b(2) k unfolding is_int32_def by linarith+
    then show "a_bal (debit ?args a) = a_bal a - 1" "a_bal (credit ?args b) = a_bal b + 1"
      by (simp_all add: debit_def credit_def int32_id)
  qed
  have "\<exists>x. account_at Y db' c = Some x \<and> \<bar>a_bal x - 10000000\<bar> \<le> k + 1" if c: "c \<in> cids" for c
  proof -
    consider "c = ?f" | "c = ?t" | "c \<noteq> ?f" "c \<noteq> ?t" by blast
    then show ?thesis
    proof cases
      case 3
      with db'(4) ok c show ?thesis by (force simp: bank_ok_def)
    qed (use db'(2,3) a(2) b(2) bal in auto)
  qed
  moreover have "(\<Sum>c \<in> cids. balance Y db' c) = (\<Sum>c \<in> cids. balance Y db c)"
  proof -
    have split: "(\<Sum>c \<in> cids. h c) = h ?f + (h ?t + (\<Sum>c \<in> cids - {?f} - {?t}. h c))" for h :: "int \<Rightarrow> int"
      using ids sum.remove [of cids ?f h] sum.remove [of "cids - {?f}" ?t h] by (simp add: finite_cids)
    have "(\<Sum>c \<in> cids - {?f} - {?t}. balance Y db' c) = (\<Sum>c \<in> cids - {?f} - {?t}. balance Y db c)"
      using db'(4) by (intro sum.cong) (auto simp: balance_def)
    with split [of "balance Y db'"] split [of "balance Y db"] a(1) b(1) db'(2,3) bal
    show ?thesis by (simp add: balance_def)
  qed
  ultimately have "bank_ok Y (k + 1) db'" using ok by (simp add: bank_ok_def)
  moreover have "childThread Y now g n u r1 r2 db = Inr (n + 1, db')"
    using ydb_tp_commit [of Y "postTransfer Y now ?args", OF Y(1) db'(1)] by (simp add: childThread_def)
  ultimately show ?thesis by blast
qed

lemma run_keeps_bank:
  assumes "ydb_store Y" "ydb_calm Y" "bank_ok Y k db" "0 \<le> k" "k + int (length ops) \<le> 2000000000"
  shows "\<exists>db'. bank_run Y now ops db = Inr db' \<and> bank_ok Y (k + int (length ops)) db'"
  using assms(3-)
proof (induction ops arbitrary: k db)
  case (Cons op ops)
  obtain g n u r1 r2 where op: "op = (g, n, u, r1, r2)" by (cases op) auto
  have "k < 2000000000" using Cons.prems(3) by simp
  then obtain db1 where d: "childThread Y now g n u r1 r2 db = Inr (n + 1, db1)" "bank_ok Y (k + 1) db1"
    using child_keeps_bank [OF assms(1,2) Cons.prems(1,2), of now g n u r1 r2] by blast
  from Cons.IH [OF d(2)] Cons.prems obtain db' where
    "bank_run Y now ops db1 = Inr db'" "bank_ok Y (k + 1 + int (length ops)) db'" by auto
  with d(1) show ?case by (auto simp: op add_ac)
qed simp

lemma init_loop_accounts:
  assumes Y: "ydb_store Y" "ydb_calm Y" and i: "0 \<le> i"
  shows "\<exists>db'. init_loop Y n i db = Inr db' \<and>
    (\<forall>c. ydb_get_s Y db' ACC_GLOBAL [dec c] =
       (if START_CID + i \<le> c \<and> c < START_CID + i + int n then (YDB_OK, ''1|10000000'')
        else ydb_get_s Y db ACC_GLOBAL [dec c]))"
  using i
proof (induction n arbitrary: i db)
  case (Suc n)
  let ?db = "put Y HIST_GLOBAL [dec (START_CID + i), ''1''] ''Account Create||10000000''
      (put Y ACC_GLOBAL [dec (START_CID + i)] ''1|10000000'' db)"
  have g: "ACC_GLOBAL \<noteq> HIST_GLOBAL" by (simp add: ACC_GLOBAL_def HIST_GLOBAL_def)
  obtain db' where db': "init_loop Y n (i + 1) ?db = Inr db'"
    "\<forall>c. ydb_get_s Y db' ACC_GLOBAL [dec c] =
       (if START_CID + (i + 1) \<le> c \<and> c < START_CID + (i + 1) + int n then (YDB_OK, ''1|10000000'')
        else ydb_get_s Y ?db ACC_GLOBAL [dec c])"
    using Suc.IH [of "i + 1" ?db] Suc.prems by auto
  moreover have "init_loop Y (Suc n) i db = init_loop Y n (i + 1) ?db"
    by (simp add: bank_set [OF Y(2)] Let_def)
  ultimately show ?case by (auto simp: bank_get [OF Y] g)
qed auto

lemma initial_account:
  assumes "ydb_get_s Y db ACC_GLOBAL [dec c] = (YDB_OK, ''1|10000000'')"
  shows "account_at Y db c = Some \<lparr>a_cid = c, a_bal = 10000000, a_histSeq = 1\<rparr>"
proof -
  have "''1|10000000'' = dec 1 @ bar @ dec 10000000"
    by (simp add: dec_def bar_def dec_nat.simps digit_char_def char_of_def bit_Suc_0_iff)
  then show ?thesis
    using assms parse_printed [of 1 10000000 c] by (simp add: account_at_def is_int32_def)
qed

lemma init_bank_ok:
  assumes "ydb_store Y" "ydb_calm Y"
  shows "\<exists>db'. initData Y db = Inr db' \<and> bank_ok Y 0 db'"
proof -
  obtain db' where db': "initData Y db = Inr db'"
    "\<forall>c. ydb_get_s Y db' ACC_GLOBAL [dec c] =
       (if START_CID \<le> c \<and> c < START_CID + 1000 then (YDB_OK, ''1|10000000'') else ydb_get_s Y db ACC_GLOBAL [dec c])"
    using init_loop_accounts [OF assms, of 0 1000 db] by (auto simp: initData_def ACC_NEEDED_def)
  then have acc: "account_at Y db' c = Some \<lparr>a_cid = c, a_bal = 10000000, a_histSeq = 1\<rparr>" if "c \<in> cids" for c
    using that by (intro initial_account) (auto simp: cids_def ACC_NEEDED_def)
  then have "(\<Sum>c \<in> cids. balance Y db' c) = (\<Sum>c \<in> cids. 10000000)"
    by (intro sum.cong) (auto simp: balance_def)
  then have "bank_ok Y 0 db'" using acc by (auto simp: bank_ok_def cids_def ACC_NEEDED_def)
  with db'(1) show ?thesis by blast
qed

section \<open>The driver, and a database to try transfers on\<close>

lemma single_calls_eq:
  "single_calls ts n =
     (if \<exists>t \<in> set ts. TEST_TIMEOUT \<le> t then Some (n + length (takeWhile (\<lambda>t. t < TEST_TIMEOUT) ts)) else None)"
  by (induction ts n rule: single_calls.induct) auto

lemma batches_eq:
  "\<forall>t \<in> set early. t < 110 \<Longrightarrow> 110 \<le> late \<Longrightarrow> e < 110 \<Longrightarrow>
   batches e (early @ late # rest) n = single_calls rest (n + 100 * (length early + 1))"
  by (induction early arbitrary: e n) (cases rest; auto simp: algebra_simps)+

lemma full_account:
  "account_at map_ydb (\<lambda>_. Some (dec 1 @ bar @ dec 10)) c = Some \<lparr>a_cid = c, a_bal = 10, a_histSeq = 1\<rparr>"
  using parse_printed [of 1 10 c] by (simp add: account_at_def map_ydb_def YDB_OK_def is_int32_def)

section \<open>Properties\<close>

text \<open>
  C14: the bank neither makes nor loses money: after \<open>initData\<close>, any sequence of up to two
  thousand million transfers, of any processes in any order and with any random numbers,
  succeeds and leaves all accounts with the total that was deposited.
\<close>

theorem bank_total_preserved:
  assumes "ydb_store Y" "ydb_calm Y" "int (length ops) \<le> 2000000000"
  shows "\<exists>db1 db2. initData Y db = Inr db1 \<and> bank_run Y now ops db1 = Inr db2 \<and>
           (\<forall>c \<in> cids. account_at Y db2 c \<noteq> None) \<and>
           (\<Sum>c \<in> cids. balance Y db2 c) = 1000 * 10000000"
proof -
  obtain db1 where db1: "initData Y db = Inr db1" "bank_ok Y 0 db1"
    using init_bank_ok [OF assms(1,2)] by blast
  obtain db2 where "bank_run Y now ops db1 = Inr db2" "bank_ok Y (int (length ops)) db2"
    using run_keeps_bank [OF assms(1,2) db1(2), of ops now] assms(3) by auto
  with db1(1) show ?thesis by (auto simp: bank_ok_def ACC_NEEDED_def)
qed

theorem bank_total_preserved_witness:
  "\<exists>db1 db2. initData map_ydb (\<lambda>_. None) = Inr db1 \<and>
     bank_run map_ydb (\<lambda>_. 0) [(0, 0, 7, 5, 5), (1, 0, 7, 999, 3)] db1 = Inr db2 \<and>
     (\<Sum>c \<in> cids. balance map_ydb db2 c) = 1000 * 10000000"
  using bank_total_preserved [of map_ydb "[(0, 0, 7, 5, 5), (1, 0, 7, 999, 3)]" "\<lambda>_. None" "\<lambda>_. 0"] by auto

text \<open>
  What a transfer does to the accounts: between two different accounts it succeeds,
  takes the amount from one and gives it to the other, counts one more history record in
  both and touches no other account.
\<close>

theorem transfer_effect:
  assumes "ydb_store Y" "ydb_calm Y" "tp_from args \<noteq> tp_to args"
    and "account_at Y db (tp_from args) = Some a" "account_at Y db (tp_to args) = Some b"
    and "is_int32 (a_bal a - tp_amt args)" "is_int32 (a_bal b + tp_amt args)"
    and "is_int32 (a_histSeq a + 1)" "is_int32 (a_histSeq b + 1)"
  shows "\<exists>db'. postTransfer Y now args db = Inr (YDB_OK, db') \<and>
    account_at Y db' (tp_from args) = Some (a\<lparr>a_bal := a_bal a - tp_amt args, a_histSeq := a_histSeq a + 1\<rparr>) \<and>
    account_at Y db' (tp_to args) = Some (b\<lparr>a_bal := a_bal b + tp_amt args, a_histSeq := a_histSeq b + 1\<rparr>) \<and>
    (\<forall>c. c \<noteq> tp_from args \<longrightarrow> c \<noteq> tp_to args \<longrightarrow> account_at Y db' c = account_at Y db c)"
proof -
  have "debit args a = a\<lparr>a_bal := a_bal a - tp_amt args, a_histSeq := a_histSeq a + 1\<rparr>"
    "credit args b = b\<lparr>a_bal := a_bal b + tp_amt args, a_histSeq := a_histSeq b + 1\<rparr>"
    using assms(6-9) by (simp_all add: debit_def credit_def int32_id)
  then show ?thesis using transfer_accounts [OF assms(1,2,4,5,3), of now] by simp
qed

theorem transfer_effect_witness:
  "\<exists>db'. postTransfer map_ydb (\<lambda>_. 0) \<lparr>tp_ref = 1, tp_from = 100001, tp_to = 100002, tp_amt = 1, tp_user = 0\<rparr>
      (\<lambda>_. Some (dec 1 @ bar @ dec 10)) = Inr (YDB_OK, db') \<and>
    account_at map_ydb db' 100001 = Some \<lparr>a_cid = 100001, a_bal = 9, a_histSeq = 2\<rparr> \<and>
    account_at map_ydb db' 100002 = Some \<lparr>a_cid = 100002, a_bal = 11, a_histSeq = 2\<rparr>"
proof -
  have acc: "account_at map_ydb (\<lambda>_. Some (dec 1 @ bar @ dec 10)) c = Some \<lparr>a_cid = c, a_bal = 10, a_histSeq = 1\<rparr>" for c
    using full_account .
  show ?thesis
    using transfer_effect [of map_ydb "\<lparr>tp_ref = 1, tp_from = 100001, tp_to = 100002, tp_amt = 1, tp_user = 0\<rparr>"
        "\<lambda>_. Some (dec 1 @ bar @ dec 10)" "\<lparr>a_cid = 100001, a_bal = 10, a_histSeq = 1\<rparr>"
        "\<lparr>a_cid = 100002, a_bal = 10, a_histSeq = 1\<rparr>" "\<lambda>_. 0"] acc
    by (auto simp: is_int32_def)
qed

text \<open>
  The second log record of a transfer is that of the first: it is meant for the account
  credited, and names the account debited and that account's balance instead.
\<close>

theorem transfer_log_names_debited:
  assumes "ydb_store Y" "ydb_calm Y"
    and "account_at Y db (tp_from args) = Some a" "account_at Y db (tp_to args) = Some b"
  shows "\<exists>db'. postTransfer Y now args db = Inr (YDB_OK, db') \<and>
    ydb_get_s Y db' TRN_GLOBAL [dec (tp_ref args), ''2''] =
      (YDB_OK, dec (tp_ref args) @ bar @ dec (now 2) @ bar @ dec (tp_from args) @ bar @ dec (tp_amt args) @ bar @
               dec (a_bal (debit args a)) @ bar @ dec (tp_user args))"
proof -
  have "dec 2 = ''2''" by code_simp
  with transfer_sets [OF assms, of now] show ?thesis by (auto simp: trn_value_def trn_to_def)
qed

theorem transfer_log_names_debited_witness:
  "\<exists>db'. postTransfer map_ydb (\<lambda>_. 0) \<lparr>tp_ref = 1, tp_from = 100001, tp_to = 100002, tp_amt = 1, tp_user = 0\<rparr>
      (\<lambda>_. Some (dec 1 @ bar @ dec 10)) = Inr (YDB_OK, db') \<and>
    ydb_get_s map_ydb db' TRN_GLOBAL [''1'', ''2''] = (YDB_OK, ''1|0|100001|1|9|0'')"
proof -
  have d: "dec 1 = ''1''" "dec 0 = ''0''" "dec 100001 = ''100001''" "dec 9 = ''9''"
    by (simp_all add: dec_def dec_nat.simps digit_char_def char_of_def bit_Suc_0_iff)
  show ?thesis
    using transfer_log_names_debited [of map_ydb "\<lambda>_. Some (dec 1 @ bar @ dec 10)"
        "\<lparr>tp_ref = 1, tp_from = 100001, tp_to = 100002, tp_amt = 1, tp_user = 0\<rparr>"
        "\<lparr>a_cid = 100001, a_bal = 10, a_histSeq = 1\<rparr>" "\<lparr>a_cid = 100002, a_bal = 10, a_histSeq = 1\<rparr>" "\<lambda>_. 0"]
      full_account [of 100001] full_account [of 100002]
    by (simp add: debit_def int32_id is_int32_def d bar_def)
qed

text \<open>
  A process transfers between two different accounts that exist, whatever random
  numbers it draws.
\<close>

theorem child_transfers_between_accounts:
  "tp_from (child_args g n u r1 r2) \<in> cids \<and> tp_to (child_args g n u r1 r2) \<in> cids \<and>
   tp_from (child_args g n u r1 r2) \<noteq> tp_to (child_args g n u r1 r2)"
  using child_ids [of g n u r1 r2] by simp

text \<open>
  The ten processes never use one reference number twice: it tells the process and its
  count, so no transfer overwrites the log of another.
\<close>

theorem reference_numbers_unique:
  assumes "tp_ref (child_args g n u r1 r2) = tp_ref (child_args g' n' u' r1' r2')"
    and "g \<in> {0 ..< 10}" "g' \<in> {0 ..< 10}"
  shows "g = g' \<and> n = n'"
proof -
  have "g + n * 10 = g' + n' * 10" using assms(1) by (simp add: child_args_def Let_def idShift_def)
  with assms(2,3) show ?thesis by simp presburger
qed

theorem reference_numbers_unique_witness:
  "tp_ref (child_args 3 5 0 1 2) = tp_ref (child_args 3 5 1 7 9) \<and> (3::int) = 3 \<and> (5::int) = 5"
  using reference_numbers_unique [of 3 5 0 1 2 3 5 1 7 9] by (simp add: child_args_def Let_def)

text \<open>
  How long a process goes on: a hundred calls before each reading of the clock up to
  the first from 110 seconds on, then a call for each reading below the timeout; it stops at
  the first reading of these at the timeout, and not before.
\<close>

theorem driver_calls:
  assumes "\<forall>t \<in> set early. t < 110" "110 \<le> late" "\<exists>t \<in> set rest. TEST_TIMEOUT \<le> t"
  shows "childThread_driver (early @ late # rest) =
    Some (100 * (length early + 1) + length (takeWhile (\<lambda>t. t < TEST_TIMEOUT) rest))"
  using assms by (simp add: childThread_driver_def batches_eq single_calls_eq)

theorem driver_calls_witness: "childThread_driver ([50, 100] @ 115 # [118, 119, 120]) = Some 302"
  using driver_calls [of "[50, 100]" 115 "[118, 119, 120]"] by (simp add: TEST_TIMEOUT_def)

end
