(* ===== verification/ThreeN1.thy ===== *)
theory ThreeN1
  imports YdbProg
begin

text \<open>
  v62002/inref/simpleapi_threeen1f.c: processes that share a table of the numbers of steps
  the 3n+1 iteration takes to reach 1, with numbers spelled out digit by digit in words.
\<close>

section \<open>Numbers as words\<close>

definition MAXVALUELEN :: nat where "MAXVALUELEN = 256"

definition digitstrings :: "string list" where
  "digitstrings =
     [''zero'',
      ''eins'',
      ''deux'',
      ''tres'',
      ''quattro'',
      [CHR 0xD0, CHR 0xBF, CHR 0xD1, CHR 0x8F, CHR 0xD1, CHR 0x82, CHR 0xD1, CHR 0x8C],
      [CHR 0xD8, CHR 0xB3, CHR 0xD8, CHR 0xAA, CHR 0xD8, CHR 0xA9],
      [CHR 0xE0, CHR 0xA4, CHR 0xB8, CHR 0xE0, CHR 0xA4, CHR 0xBE, CHR 0xE0, CHR 0xA4, CHR 0xA4],
      [CHR 0xE6, CHR 0x8D, CHR 0x8C],
      [CHR 0xE0, CHR 0xAE, CHR 0x92, CHR 0xE0, CHR 0xAE, CHR 0xA9, CHR 0xE0, CHR 0xAF, CHR 0x8D, CHR 0xE0, CHR 0xAE, CHR 0xAA, CHR 0xE0, CHR 0xAE, CHR 0xA4, CHR 0xE0, CHR 0xAF, CHR 0x81]]"

definition digitsinit :: "'db ydb \<Rightarrow> ('db, unit) act" where
  "digitsinit Y = block (concat (List.map (\<lambda>i.
     [set_ok Y ''di'' [digitstrings ! i] (dec (int i)), set_ok Y ''ds'' [dec (int i)] (digitstrings ! i)]) [0..<10]))"

text \<open>The loop over the digits of \<open>nstr\<close>, \<open>buff\<close> being what is written so far.\<close>

fun inttostr_loop :: "'db ydb \<Rightarrow> string \<Rightarrow> bool \<Rightarrow> string \<Rightarrow> ('db, string) act" where
  "inttostr_loop Y [] i_is_0 buff = ret buff"
| "inttostr_loop Y (d # nstr) i_is_0 buff =
     andThen (get_text Y MAXVALUELEN ''ds'' [dec (uc d - 48)]) (\<lambda>w.
       if i_is_0 then inttostr_loop Y nstr False (c_str w)
       else andThen (check (length buff + length w + 1 < MAXVALUELEN)) (\<lambda>_.
            andThen (check (length (c_str w) = length w)) (\<lambda>_.
              inttostr_loop Y nstr False (buff @ '' '' @ c_str w))))"

definition inttostr :: "'db ydb \<Rightarrow> int \<Rightarrow> ('db, string) act" where
  "inttostr Y n = andThen (check (0 \<le> n)) (\<lambda>_. inttostr_loop Y (dec n) True [])"

text \<open>The tokens one \<open>strtok\<close> call after the other finds.\<close>

function tokens :: "string \<Rightarrow> string \<Rightarrow> string list" where
  "tokens ds s = (case strtok ds s of None \<Rightarrow> [] | Some (tok, rest) \<Rightarrow> tok # tokens ds rest)"
  by pat_completeness auto
termination
  by (relation "measure (\<lambda>(ds, s). length s)") (auto dest: strtok_shorter)

declare tokens.simps [simp del]

fun strtoint_loop :: "'db ydb \<Rightarrow> string list \<Rightarrow> int \<Rightarrow> ('db, int) act" where
  "strtoint_loop Y [] n = ret n"
| "strtoint_loop Y (ptr # toks) n =
     andThen (get_text Y MAXVALUELEN ''di'' [ptr]) (\<lambda>v. strtoint_loop Y toks (int64 (10 * n + atoi v)))"

definition strtoint :: "'db ydb \<Rightarrow> string \<Rightarrow> ('db, int) act" where
  "strtoint Y s = andThen (nul_ended MAXVALUELEN s) (\<lambda>s. strtoint_loop Y (tokens '' '' (c_str s)) 0)"

section \<open>The steps of a range of numbers\<close>

text \<open>
  The loop that goes from \<open>current\<close> to 1 or to a number with known steps: the number it ends
  at and the steps taken, or None if \<open>fuel\<close> does not last. The number before the step is
  what is stored as the highest (\<open>value\<close> still holds it).
\<close>

fun path_loop :: "'db ydb \<Rightarrow> nat \<Rightarrow> int \<Rightarrow> int \<Rightarrow> ('db, (int \<times> int) option) act" where
  "path_loop Y 0 n i = ret None"
| "path_loop Y (Suc fuel) n i =
     andThen (incr_ok Y ''reads'' [] None) (\<lambda>_.
       if n = 1 then ret (Some (n, i))
       else
         andThen (inttostr Y n) (\<lambda>sub.
         andThen (data_ok Y ''^step'' [sub]) (\<lambda>data_value.
           if data_value \<noteq> 0 then ret (Some (n, i))
           else
             andThen (set_ok Y ''currpath'' [dec i] (dec n)) (\<lambda>_.
             let n' = (if c_mod n 2 = 0 then c_div n 2 else int64 (3 * n + 1)) in
             andThen (get_text Y MAXVALUELEN ''highest'' []) (\<lambda>highest_lcl.
             andThen (onlyIf (atoll highest_lcl < n') [set_ok Y ''highest'' [] (dec n)]) (\<lambda>_.
               path_loop Y fuel n' (i + 1)))))))"

definition tp_setmaximum :: "'db ydb \<Rightarrow> int \<Rightarrow> ('db, unit) act" where
  "tp_setmaximum Y i =
     andThen (get_int_or_0_tp Y MAXVALUELEN ''^result'' []) (\<lambda>result.
       onlyIf (result < i) [set_tp Y ''^result'' [] (dec i)])"

text \<open>A transaction whose status must be YDB_OK.\<close>

definition tp_ok :: "'db ydb \<Rightarrow> ('db, unit) act \<Rightarrow> ('db, unit) act" where
  "tp_ok Y f db =
     (case ydb_tp_s Y (as_function f) db of Inl e \<Rightarrow> Inl e | Inr (status, db') \<Rightarrow> asserted status () db')"

text \<open>
  The loop over \<open>currpath\<close>: every number on the path gets its steps. It ends when the
  subscripts do; \<open>fuel\<close> bounds it, False says that it did not last.
\<close>

fun step_loop :: "'db ydb \<Rightarrow> nat \<Rightarrow> string \<Rightarrow> int \<Rightarrow> ('db, bool) act" where
  "step_loop Y 0 sub i db = ret False db"
| "step_loop Y (Suc fuel) sub i db =
     (let (status, u) = ydb_subscript_next_s Y db ''currpath'' [sub] in
      if status = YDB_ERR_NODEEND Y then ret True db
      else
        andThen (asserted status ()) (\<lambda>_.
        andThen (check (u \<noteq> [])) (\<lambda>_.
        andThen (nul_ended MAXVALUELEN u) (\<lambda>_.
        let tmp1 = atoi u in
        andThen (incr_ok Y ''updates'' [] None) (\<lambda>_.
        andThen (get_text Y MAXVALUELEN ''currpath'' [u]) (\<lambda>v.
        andThen (inttostr Y (atoll v)) (\<lambda>key.
        andThen (inttostr Y (i - tmp1)) (\<lambda>steps.
        andThen (set_ok Y ''^step'' [key] steps) (\<lambda>_.
          step_loop Y fuel (dec tmp1) i)))))))) db)"

definition known_steps :: "'db ydb \<Rightarrow> int \<Rightarrow> ('db, int) act" where
  "known_steps Y n =
     andThen (inttostr Y n) (\<lambda>sub. andThen (get_ok Y MAXVALUELEN ''^step'' [sub]) (\<lambda>v. strtoint Y v))"

text \<open>One round of \<open>dostep\<close>; False when \<open>fuel\<close> does not last.\<close>

definition dostep_one :: "'db ydb \<Rightarrow> nat \<Rightarrow> int \<Rightarrow> ('db, bool) act" where
  "dostep_one Y fuel current =
     andThen (delete_ok Y ''currpath'' []) (\<lambda>_.
     andThen (path_loop Y fuel current 0) (\<lambda>r.
     case r of None \<Rightarrow> ret False
     | Some (n, i) \<Rightarrow>
         if 0 < i then
           andThen (if 1 < n then andThen (known_steps Y n) (\<lambda>k. ret (int64 (i + k))) else ret i) (\<lambda>i.
           andThen (tp_ok Y (tp_setmaximum Y i)) (\<lambda>_.
             step_loop Y fuel [] i))
         else ret True))"

fun dostep_loop :: "'db ydb \<Rightarrow> nat \<Rightarrow> int list \<Rightarrow> ('db, bool) act" where
  "dostep_loop Y fuel [] = ret True"
| "dostep_loop Y fuel (current # rest) =
     andThen (dostep_one Y fuel current) (\<lambda>ok. if ok then dostep_loop Y fuel rest else ret False)"

definition dostep :: "'db ydb \<Rightarrow> nat \<Rightarrow> int \<Rightarrow> int \<Rightarrow> ('db, bool) act" where
  "dostep Y fuel first final = dostep_loop Y fuel [first..final]"

section \<open>The blocks of a range\<close>

text \<open>The block size: \<open>blk\<close> where the line gives one that is not above the default.\<close>

definition block_size :: "int \<Rightarrow> int \<Rightarrow> int \<Rightarrow> int \<Rightarrow> int" where
  "block_size i j k blk = (let tmp = c_div (int32 (j - i + k)) k in if blk \<noteq> 0 \<and> blk \<le> tmp then blk else tmp)"

text \<open>
  A line of input, with the number of streams of the machine: the range, the streams and the
  block size. A \<open>strtok\<close> that finds nothing hands NULL to \<open>atoi\<close>.
\<close>

definition MAXCHILDREN :: int where "MAXCHILDREN = 32"

definition parse_line :: "int \<Rightarrow> string \<Rightarrow> c_fault + int \<times> int \<times> int \<times> int" where
  "parse_line streams lineptr =
     (case tokens '' '' lineptr of
        ti # tj # tk # rest \<Rightarrow>
          let i = atoi ti; j = atoi tj; k = max streams (atoi tk);
              blk = (case rest of [] \<Rightarrow> 0 | tb # _ \<Rightarrow> atoi tb)
          in if k \<le> MAXCHILDREN then Inr (i, j, k, block_size i j k blk) else Inl AssertFailed
      | _ \<Rightarrow> Inl NullDeref)"

text \<open>The loop that sets ^limits; False when \<open>fuel\<close> does not last.\<close>

fun limits_loop :: "'db ydb \<Rightarrow> nat \<Rightarrow> int \<Rightarrow> int \<Rightarrow> int \<Rightarrow> int \<Rightarrow> ('db, bool) act" where
  "limits_loop Y 0 blk j tmp count = ret False"
| "limits_loop Y (Suc fuel) blk j tmp count =
     (if tmp = j then ret True
      else
        let tmp' = min j (int32 (tmp + blk)) in
        andThen (set_ok Y ''^limits'' [dec count] (dec tmp')) (\<lambda>_. limits_loop Y fuel blk j tmp' (count + 1)))"

definition define_limits :: "'db ydb \<Rightarrow> nat \<Rightarrow> int \<Rightarrow> int \<Rightarrow> int \<Rightarrow> ('db, bool) act" where
  "define_limits Y fuel i j blk =
     andThen (delete_ok Y ''^limits'' []) (\<lambda>_. limits_loop Y fuel blk j (i - 1) 1)"

text \<open>The bounds of block \<open>tmp\<close>, as \<open>doblk\<close> reads them.\<close>

definition block_bounds :: "'db ydb \<Rightarrow> int \<Rightarrow> int \<Rightarrow> ('db, int \<times> int) act" where
  "block_bounds Y allfirst tmp db =
     andThen
       (if fst (ydb_get_s Y db ''^limits'' [dec (tmp - 1)]) = YDB_ERR_GVUNDEF Y then ret allfirst
        else andThen (get_int Y MAXVALUELEN ''^limits'' [dec (tmp - 1)]) (\<lambda>cnt. ret (cnt + 1))) (\<lambda>first.
     andThen (get_int Y MAXVALUELEN ''^limits'' [dec tmp]) (\<lambda>last. ret (first, last))) db"

section \<open>The processes\<close>

text \<open>
  Where a process is in \<open>doblk\<close>: about to look whether block \<open>tmp\<close> exists, about to
  increment its counter, working on it, or done with all blocks.
\<close>

datatype doblk_pc = Look int | Claim int | Work int | Quit

text \<open>
  One call of one process on the database they share, and the block it has got to itself by
  the call, if any. While a process works on its block, it and its calls may change anything
  but ^limits.
\<close>

inductive doblk_step ::
    "'db ydb \<Rightarrow> 'db \<times> ('p \<Rightarrow> doblk_pc) \<Rightarrow> int list \<Rightarrow> 'db \<times> ('p \<Rightarrow> doblk_pc) \<Rightarrow> bool" for Y where
  look: "pc p = Look tmp \<Longrightarrow> data_ok Y ''^limits'' [dec tmp] db = Inr (Go data_value, db') \<Longrightarrow>
     doblk_step Y (db, pc) [] (db', pc(p := if data_value = 0 then Quit else Claim tmp))"
| claim: "pc p = Claim tmp \<Longrightarrow> incr_ok Y ''^limits'' [dec tmp, dec 1] None db = Inr (Go cnt, db') \<Longrightarrow>
     doblk_step Y (db, pc) (if atoi cnt = 1 then [tmp] else [])
       (db', pc(p := if atoi cnt = 1 then Work tmp else Look (tmp + 1)))"
| work: "pc p = Work tmp \<Longrightarrow> (\<And>s. node Y db' ''^limits'' s = node Y db ''^limits'' s) \<Longrightarrow>
     doblk_step Y (db, pc) [] (db', pc)"
| worked: "pc p = Work tmp \<Longrightarrow> doblk_step Y (db, pc) [] (db, pc(p := Look (tmp + 1)))"

text \<open>All processes start looking at block 1; the blocks are listed in the order they are claimed.\<close>

inductive doblk_run ::
    "'db ydb \<Rightarrow> 'db \<Rightarrow> int list \<Rightarrow> 'db \<times> ('p \<Rightarrow> doblk_pc) \<Rightarrow> bool" for Y db0 where
  start: "doblk_run Y db0 [] (db0, \<lambda>_. Look 1)"
| step: "doblk_run Y db0 claimed st \<Longrightarrow> doblk_step Y st new st' \<Longrightarrow> doblk_run Y db0 (claimed @ new) st'"

definition tp_gvstatsincr :: "'db ydb \<Rightarrow> ('db, unit) act" where
  "tp_gvstatsincr Y =
     andThen (incr_tp Y ''^reads'' [] (Some ''reads'')) (\<lambda>_.
     andThen (incr_tp Y ''^updates'' [] (Some ''updates'')) (\<lambda>_.
     andThen (get_int_or_0_tp Y MAXVALUELEN ''^highest'' []) (\<lambda>highest_gbl.
     andThen (get_text Y MAXVALUELEN ''highest'' []) (\<lambda>v.
       onlyIf (highest_gbl < atoi v) [set_tp Y ''^highest'' [] v]))))"

definition dbinit :: "'db ydb \<Rightarrow> ('db, unit) act" where
  "dbinit Y = block (List.map (\<lambda>g. set_ok Y g [] (dec 0))
     [''^count'', ''^highest'', ''^reads'', ''^result'', ''^step'', ''^updates''])"

end
