(* ===== verification/ThreeN1Words.thy ===== *)
theory ThreeN1Words
  imports ThreeN1
begin

text \<open>
  Numbers spelled as words in v62002/inref/simpleapi_threeen1f.c: \<open>inttostr\<close> and
  \<open>strtoint\<close> on numbers below ten to the thirteenth, and why words determine the number.
\<close>

section \<open>Numbers as words\<close>

definition word_of :: "char \<Rightarrow> string" where
  "word_of d = digitstrings ! nat (uc d - 48)"

definition spaced :: "string \<Rightarrow> string" where
  "spaced ds = concat (map (\<lambda>d. '' '' @ word_of d) ds)"

definition words :: "int \<Rightarrow> string" where
  "words n = word_of (hd (dec n)) @ spaced (tl (dec n))"

definition has_digits :: "'db ydb \<Rightarrow> 'db \<Rightarrow> bool" where
  "has_digits Y db \<longleftrightarrow> (\<forall>i<10. node Y db ''ds'' [dec (int i)] = Some (digitstrings ! i) \<and>
     node Y db ''di'' [digitstrings ! i] = Some (dec (int i)))"

lemma digitstrings_plain:
  "i < 10 \<Longrightarrow> digitstrings ! i \<noteq> [] \<and> nul_free (digitstrings ! i) \<and> CHR '' '' \<notin> set (digitstrings ! i) \<and>
     length (digitstrings ! i) \<le> 18"
proof -
  have "\<forall>w \<in> set digitstrings. w \<noteq> [] \<and> nul_free w \<and> CHR '' '' \<notin> set w \<and> length w \<le> 18"
    by (simp add: digitstrings_def nul_free_def NUL_def)
  moreover have "length digitstrings = 10" by (simp add: digitstrings_def)
  ultimately show "i < 10 \<Longrightarrow> ?thesis" by (metis nth_mem)
qed

lemma word_of_plain:
  assumes "is_digit d"
  shows "word_of d \<noteq> []" "nul_free (word_of d)" "CHR '' '' \<notin> set (word_of d)" "length (word_of d) \<le> 18"
proof -
  have "nat (uc d - 48) < 10" using assms by (auto simp: is_digit_def)
  from digitstrings_plain [OF this]
  show "word_of d \<noteq> []" "nul_free (word_of d)" "CHR '' '' \<notin> set (word_of d)" "length (word_of d) \<le> 18"
    by (simp_all add: word_of_def)
qed

lemma length_spaced: "\<forall>d \<in> set ds. is_digit d \<Longrightarrow> length (spaced ds) \<le> 19 * length ds"
  by (induction ds) (auto simp: spaced_def dest: word_of_plain(4))

lemma spaced_simps [simp]: "spaced [] = []" "spaced (d # ds) = '' '' @ word_of d @ spaced ds"
  by (simp_all add: spaced_def)

lemma dec_digits: "0 \<le> n \<Longrightarrow> \<forall>d \<in> set (dec n). is_digit d"
  using dec_nat_digits by (simp add: dec_def)

text \<open>The tokens of a spelled number are its words.\<close>

lemma tokens_words:
  assumes "is_digit d" "\<forall>d \<in> set ds. is_digit d"
  shows "tokens '' '' (word_of d @ spaced ds) = map word_of (d # ds)"
  using assms
proof (induction ds arbitrary: d)
  case Nil
  then have "strtok '' '' (word_of d) = Some (word_of d, [])"
    by (intro strtok_plain(2)) (auto simp: word_of_plain)
  then show ?case by (simp add: tokens.simps [of _ "word_of d"]) (simp add: tokens.simps strtok_def)
next
  case (Cons e ds)
  then have "strtok '' '' (word_of d @ CHR '' '' # word_of e @ spaced ds) = Some (word_of d, word_of e @ spaced ds)"
    by (intro strtok_plain(1)) (auto simp: word_of_plain)
  then show ?case using Cons by (subst tokens.simps) simp
qed

lemma digits_val_mono: "acc \<le> digits_val acc ds"
proof (induction ds arbitrary: acc)
  case (Cons d ds)
  have "acc \<le> 10 * acc + nat (uc d - 48)" by simp
  also have "\<dots> \<le> digits_val (10 * acc + nat (uc d - 48)) ds" by (rule Cons)
  finally show ?case by simp
qed simp

text \<open>Words determine the number.\<close>

lemma word_of_inj: "is_digit c \<Longrightarrow> is_digit d \<Longrightarrow> word_of c = word_of d \<Longrightarrow> c = d"
proof -
  assume dig: "is_digit c" "is_digit d" and eq: "word_of c = word_of d"
  have "distinct digitstrings" "length digitstrings = 10" by (simp_all add: digitstrings_def)
  moreover have "nat (uc c - 48) < 10" "nat (uc d - 48) < 10" using dig by (auto simp: is_digit_def)
  ultimately have "nat (uc c - 48) = nat (uc d - 48)" using eq by (simp add: word_of_def nth_eq_iff_index_eq)
  moreover have "0 \<le> uc c - 48" "0 \<le> uc d - 48" using dig by (simp_all add: is_digit_def)
  ultimately have "uc c - 48 = uc d - 48" using eq_nat_nat_iff by blast
  then show "c = d" by simp
qed

lemma words_inj:
  assumes "0 \<le> n" "0 \<le> m" "words n = words m"
  shows "n = m"
proof -
  have toks: "tokens '' '' (words i) = map word_of (dec i)" "\<forall>d \<in> set (dec i). is_digit d" if "0 \<le> i" for i
    using tokens_words [of "hd (dec i)" "tl (dec i)"] dec_digits [OF that]
    by (auto simp: words_def list.set_sel)
  then have "map word_of (dec n) = map word_of (dec m)" using assms by metis
  moreover have "inj_on word_of (set (dec n) \<union> set (dec m))"
    using toks(2) assms(1,2) word_of_inj by (intro inj_onI) blast
  ultimately have "dec n = dec m" by (rule map_inj_on)
  then show ?thesis by simp
qed

context calm_db
begin

lemma digit_word:
  assumes "has_digits Y db" "is_digit d"
  shows "node Y db ''ds'' [dec (uc d - 48)] = Some (word_of d)" "node Y db ''di'' [word_of d] = Some (dec (uc d - 48))"
proof -
  have "nat (uc d - 48) < 10" "int (nat (uc d - 48)) = uc d - 48" using assms(2) by (auto simp: is_digit_def)
  with assms(1) show "node Y db ''ds'' [dec (uc d - 48)] = Some (word_of d)" "node Y db ''di'' [word_of d] = Some (dec (uc d - 48))"
    unfolding has_digits_def word_of_def by metis+
qed

lemma inttostr_loop_runs:
  assumes "has_digits Y db" "\<forall>d \<in> set ds. is_digit d" "length buff + length (spaced ds) < 256"
  shows "inttostr_loop Y ds False buff db = Inr (Go (buff @ spaced ds), db)"
  using assms
proof (induction ds arbitrary: buff)
  case (Cons d ds)
  have w: "nul_free (word_of d)" "length (word_of d) \<le> 18" using Cons.prems(2) word_of_plain by auto
  have "get_text Y 256 ''ds'' [dec (uc d - 48)] db = Inr (Go (word_of d), db)"
    using digit_word(1) [OF Cons.prems(1)] Cons.prems(2) w by (intro get_text_runs) auto
  with Cons w show ?case by (auto simp: MAXVALUELEN_def)
qed simp

lemma length_words:
  assumes "0 \<le> n" "n < 10 ^ 13"
  shows "length (words n) < 256"
proof -
  have d: "length (dec n) \<le> 13" using assms length_dec_nat [of "nat n" 13] by (simp add: dec_def)
  have "is_digit (hd (dec n))" using dec_digits [OF assms(1)] by simp
  then have "length (word_of (hd (dec n))) \<le> 18" by (rule word_of_plain)
  moreover have "\<forall>d \<in> set (tl (dec n)). is_digit d"
    using dec_digits [OF assms(1)] by (meson dec_not_Nil list.set_sel(2))
  then have "length (spaced (tl (dec n))) \<le> 19 * length (tl (dec n))" by (rule length_spaced)
  ultimately show ?thesis using d by (simp add: words_def)
qed

lemma inttostr_runs:
  assumes "has_digits Y db" "0 \<le> n" "n < 10 ^ 13"
  shows "inttostr Y n db = Inr (Go (words n), db)"
proof -
  obtain d ds where n: "dec n = d # ds" by (cases "dec n") auto
  have dig: "is_digit d" "\<forall>d \<in> set ds. is_digit d" using dec_digits [OF assms(2)] n by auto
  have len: "length (word_of d @ spaced ds) < 256" using length_words [OF assms(2,3)] by (simp add: words_def n)
  have "get_text Y 256 ''ds'' [dec (uc d - 48)] db = Inr (Go (word_of d), db)"
    using digit_word(1) [OF assms(1) dig(1)] len by (intro get_text_runs) auto
  with len dig assms show ?thesis
    by (simp add: inttostr_def n words_def inttostr_loop_runs word_of_plain MAXVALUELEN_def)
qed

lemma strtoint_loop_runs:
  assumes "has_digits Y db" "\<forall>d \<in> set ds. is_digit d" "digits_val acc ds < 2 ^ 63"
  shows "strtoint_loop Y (map word_of ds) (int acc) db = Inr (Go (int (digits_val acc ds)), db)"
  using assms
proof (induction ds arbitrary: acc)
  case (Cons d ds)
  have d: "is_digit d" using Cons.prems by simp
  have b: "0 \<le> uc d - 48" "uc d - 48 < 10" using d by (auto simp: is_digit_def)
  have "length (dec (uc d - 48)) < 256" using length_dec [of "uc d - 48"] b by (simp add: is_int32_def)
  then have "get_text Y 256 ''di'' [word_of d] db = Inr (Go (dec (uc d - 48)), db)"
    using digit_word(2) [OF Cons.prems(1) d] by (intro get_text_runs) auto
  moreover have "int64 (10 * int acc + (uc d - 48)) = int (10 * acc + nat (uc d - 48))"
  proof -
    have "10 * acc + nat (uc d - 48) \<le> digits_val (10 * acc + nat (uc d - 48)) ds" by (rule digits_val_mono)
    with Cons.prems(3) d b show ?thesis by (simp add: int64_id)
  qed
  ultimately show ?case
    using Cons.IH [of "10 * acc + nat (uc d - 48)"] Cons.prems b d by (simp add: MAXVALUELEN_def is_int32_def)
qed simp

lemma strtoint_runs:
  assumes "has_digits Y db" "0 \<le> n" "n < 10 ^ 13"
  shows "strtoint Y (words n) db = Inr (Go n, db)"
proof -
  obtain d ds where n: "dec n = d # ds" by (cases "dec n") auto
  have dig: "is_digit d" "\<forall>d \<in> set ds. is_digit d" using dec_digits [OF assms(2)] n by auto
  have val: "digits_val 0 (d # ds) = nat n"
    using digits_val_dec_nat [of "nat n"] assms(2) by (simp add: n [symmetric] dec_def)
  have "nul_free (words n)" using dig word_of_plain by (auto simp: words_def n spaced_def nul_free_def NUL_def)
  then have "strtoint Y (words n) db = strtoint_loop Y (map word_of (d # ds)) (int 0) db"
    using length_words [OF assms(2,3)] tokens_words [OF dig]
    by (simp add: strtoint_def nul_ended_def MAXVALUELEN_def words_def n)
  also have "\<dots> = Inr (Go n, db)"
    using strtoint_loop_runs [OF assms(1), of "d # ds" 0] dig val assms(2,3) by simp
  finally show ?thesis .
qed

end

end
