(* ===== verification/ThreeN1Steps.thy ===== *)
theory ThreeN1Steps
  imports ThreeN1Words
begin

text \<open>
  \<open>dostep\<close> of v62002/inref/simpleapi_threeen1f.c: the table ^step keeps right numbers of
  steps only, and the range's numbers get theirs.
\<close>

section \<open>The iteration\<close>

definition cstep :: "int \<Rightarrow> int" where
  "cstep n = (if even n then n div 2 else 3 * n + 1)"

text \<open>From \<open>n\<close> to 1 in exactly \<open>k\<close> steps, through numbers that can be spelled.\<close>

fun path :: "nat \<Rightarrow> int \<Rightarrow> bool" where
  "path 0 n \<longleftrightarrow> n = 1"
| "path (Suc k) n \<longleftrightarrow> 1 < n \<and> n < 10 ^ 13 \<and> path k (cstep n)"

lemma path_unique: "path k n \<Longrightarrow> path k' n \<Longrightarrow> k = k'"
proof (induction k arbitrary: n k')
  case 0
  then show ?case by (cases k') auto
next
  case (Suc k)
  then show ?case by (cases k') auto
qed

lemma path_range: "path k n \<Longrightarrow> 1 \<le> n \<and> n < 10 ^ 13"
  by (cases k) auto

lemma path_pos: "path k n \<Longrightarrow> 1 < n \<longleftrightarrow> 0 < k"
  by (cases k) auto

lemma path_later: "path k n \<Longrightarrow> j \<le> k \<Longrightarrow> path (k - j) ((cstep ^^ j) n)"
proof (induction j)
  case (Suc j)
  then have "path (Suc (k - Suc j)) ((cstep ^^ j) n)" by (simp add: Suc_diff_Suc)
  then show ?case by simp
qed simp

section \<open>What the database holds\<close>

text \<open>Entries of the table: a number above 1 and its steps, both spelled.\<close>

definition table_ok :: "'db ydb \<Rightarrow> 'db \<Rightarrow> bool" where
  "table_ok Y db \<longleftrightarrow> (\<forall>s t v. node Y db ''^step'' (s # t) = Some v \<longrightarrow>
     t = [] \<and> (\<exists>n k. s = words n \<and> v = words (int k) \<and> path k n \<and> 1 < n))"

definition known :: "'db ydb \<Rightarrow> 'db \<Rightarrow> int \<Rightarrow> nat \<Rightarrow> bool" where
  "known Y db n k \<longleftrightarrow> node Y db ''^step'' [words n] = Some (words (int k))"

definition path_keys :: "nat \<Rightarrow> string list" where
  "path_keys n = map (\<lambda>j. dec (int j)) [0..<n]"

definition path_map :: "int list \<Rightarrow> string \<Rightarrow> string option" where
  "path_map ps = map_of (zip (path_keys (length ps)) (map dec ps))"

definition path_node :: "int list \<Rightarrow> string list \<Rightarrow> string option" where
  "path_node ps s = (case s of [u] \<Rightarrow> path_map ps u | _ \<Rightarrow> None)"

definition currpath_is :: "'db ydb \<Rightarrow> 'db \<Rightarrow> int list \<Rightarrow> bool" where
  "currpath_is Y db ps \<longleftrightarrow> (\<forall>s. node Y db ''currpath'' s = path_node ps s)"

text \<open>A counter of the process, and the highest number so far.\<close>

definition counter :: "'db ydb \<Rightarrow> 'db \<Rightarrow> string \<Rightarrow> int \<Rightarrow> bool" where
  "counter Y db g b \<longleftrightarrow> (\<exists>a. node Y db g [] = Some (dec a) \<and> 0 \<le> a \<and> a \<le> b)"

definition highest_ok :: "'db ydb \<Rightarrow> 'db \<Rightarrow> bool" where
  "highest_ok Y db \<longleftrightarrow> (\<exists>h. node Y db ''highest'' [] = Some (dec h) \<and> 0 \<le> h \<and> h < 10 ^ 13)"

text \<open>Nothing changed in the variables other than these.\<close>

definition only_changed :: "'db ydb \<Rightarrow> string set \<Rightarrow> 'db \<Rightarrow> 'db \<Rightarrow> bool" where
  "only_changed Y gs db db' \<longleftrightarrow> (\<forall>g s. g \<notin> gs \<longrightarrow> node Y db' g s = node Y db g s)"

lemma only_changed_refl [simp]: "only_changed Y gs db db"
  by (simp add: only_changed_def)

lemma only_changed_trans:
  "only_changed Y gs db db1 \<Longrightarrow> only_changed Y gs' db1 db2 \<Longrightarrow> gs \<union> gs' \<subseteq> hs \<Longrightarrow> only_changed Y hs db db2"
  unfolding only_changed_def by (metis Un_iff subsetD)

lemma only_changedD: "only_changed Y gs db db' \<Longrightarrow> g \<notin> gs \<Longrightarrow> node Y db' g s = node Y db g s"
  by (simp add: only_changed_def)

lemma digits_kept: "only_changed Y gs db db' \<Longrightarrow> ''ds'' \<notin> gs \<Longrightarrow> ''di'' \<notin> gs \<Longrightarrow> has_digits Y db' = has_digits Y db"
  by (simp add: has_digits_def only_changed_def)

lemma table_kept: "only_changed Y gs db db' \<Longrightarrow> ''^step'' \<notin> gs \<Longrightarrow> table_ok Y db' = table_ok Y db"
  by (simp add: table_ok_def only_changed_def)

lemma known_kept: "only_changed Y gs db db' \<Longrightarrow> ''^step'' \<notin> gs \<Longrightarrow> known Y db' = known Y db"
  by (simp add: known_def only_changed_def fun_eq_iff)

lemma known_right:
  assumes "table_ok Y db" "known Y db n k" "0 \<le> n"
  shows "path k n \<and> 1 < n"
proof -
  obtain m j where m: "words n = words m" "words (int k) = words (int j)" "path j m" "1 < m"
    using assms(1,2) unfolding table_ok_def known_def by blast
  then have "n = m" "k = j" using words_inj [of n m] words_inj [of "int k" "int j"] assms(3) by auto
  with m show ?thesis by simp
qed

lemma path_keys_simps: "length (path_keys n) = n" "distinct (path_keys n)" "set (path_keys n) = (\<lambda>j. dec (int j)) ` {..<n}"
  by (auto simp: path_keys_def distinct_map inj_on_def)

lemma path_map_nth: "j < length ps \<Longrightarrow> path_map ps (dec (int j)) = Some (dec (ps ! j))"
proof -
  assume j: "j < length ps"
  then have "path_keys (length ps) ! j = dec (int j)" by (simp add: path_keys_def)
  moreover have "path_map ps (path_keys (length ps) ! j) = Some (map dec ps ! j)"
    unfolding path_map_def using j path_keys_simps by (intro map_of_zip_nth) auto
  ultimately show ?thesis using j by simp
qed

lemma path_map_dom: "path_map ps u \<noteq> None \<longleftrightarrow> (\<exists>j<length ps. u = dec (int j))"
  by (auto simp: path_map_def map_of_zip_is_None path_keys_simps)

lemma path_map_snoc: "path_map (ps @ [n]) u = (if u = dec (int (length ps)) then Some (dec n) else path_map ps u)"
proof (cases "\<exists>j<length ps. u = dec (int j)")
  case True
  then obtain j where "j < length ps" "u = dec (int j)" by blast
  then show ?thesis using path_map_nth [of j "ps @ [n]"] path_map_nth [of j ps] by (simp add: nth_append)
next
  case False
  then have none: "path_map ps u = None" using path_map_dom by blast
  show ?thesis
  proof (cases "u = dec (int (length ps))")
    case True
    then show ?thesis using path_map_nth [of "length ps" "ps @ [n]"] by (simp add: nth_append)
  next
    case other: False
    then have "path_map (ps @ [n]) u = None" using False path_map_dom [of "ps @ [n]" u] by (auto simp: less_Suc_eq)
    with none other show ?thesis by simp
  qed
qed

lemma currpath_node: "currpath_is Y db ps \<Longrightarrow> j < length ps \<Longrightarrow> node Y db ''currpath'' [dec (int j)] = Some (dec (ps ! j))"
  by (simp add: currpath_is_def path_node_def path_map_nth)

lemma currpath_children:
  assumes "currpath_is Y db ps"
  shows "(\<exists>r. node Y db ''currpath'' (u # r) \<noteq> None) \<longleftrightarrow> (\<exists>j<length ps. u = dec (int j))"
proof -
  have "(\<exists>r. path_node ps (u # r) \<noteq> None) \<longleftrightarrow> path_map ps u \<noteq> None"
  proof
    assume "\<exists>r. path_node ps (u # r) \<noteq> None"
    then obtain r where "path_node ps (u # r) \<noteq> None" ..
    then show "path_map ps u \<noteq> None" by (cases r) (auto simp: path_node_def)
  next
    assume "path_map ps u \<noteq> None"
    then have "path_node ps [u] \<noteq> None" by (simp add: path_node_def)
    then show "\<exists>r. path_node ps (u # r) \<noteq> None" ..
  qed
  then show ?thesis using assms path_map_dom by (simp add: currpath_is_def)
qed

lemma currpath_Nil: "(\<And>s. node Y db ''currpath'' s = None) \<Longrightarrow> currpath_is Y db []"
  by (simp add: currpath_is_def path_node_def path_map_def split: list.splits)

lemma currpath_snoc:
  assumes "currpath_is Y db ps"
    and "\<And>s. node Y db' ''currpath'' s = (if s = [dec (int (length ps))] then Some (dec n) else node Y db ''currpath'' s)"
  shows "currpath_is Y db' (ps @ [n])"
proof -
  have "path_node (ps @ [n]) s = (if s = [dec (int (length ps))] then Some (dec n) else path_node ps s)" for s
    by (auto simp: path_node_def path_map_snoc split: list.splits)
  then show ?thesis using assms by (simp add: currpath_is_def)
qed

section \<open>Going down the path\<close>

lemma length_dec_13: "0 \<le> n \<Longrightarrow> n < 10 ^ 13 \<Longrightarrow> length (dec n) \<le> 13"
  using length_dec_nat [of "nat n" 13] by (simp add: dec_def nat_less_iff)

definition walk_ok :: "'db ydb \<Rightarrow> 'db \<Rightarrow> int list \<Rightarrow> int \<Rightarrow> bool" where
  "walk_ok Y db ps b \<longleftrightarrow> has_digits Y db \<and> table_ok Y db \<and> currpath_is Y db ps \<and> counter Y db ''reads'' b \<and> highest_ok Y db"

abbreviation walk_vars :: "string set" where
  "walk_vars \<equiv> {''reads'', ''currpath'', ''highest''}"

lemma table_below: "table_ok Y db \<Longrightarrow> \<not> below Y db ''^step'' [s]"
  unfolding table_ok_def below_def by (metis append_Cons append_Nil list.distinct(1) not_Some_eq)

lemma next_number:
  assumes "1 < n" "n < 10 ^ 13"
  shows "(if c_mod n 2 = 0 then c_div n 2 else int64 (3 * n + 1)) = cstep n"
proof -
  have "c_mod n 2 = n mod 2" "c_div n 2 = n div 2" using assms by (simp_all add: c_mod_pos c_div_pos)
  moreover have "int64 (3 * n + 1) = 3 * n + 1" using assms by (simp add: int64_id)
  ultimately show ?thesis by (auto simp: cstep_def even_iff_mod_2_eq_zero)
qed

text \<open>The loop that writes the table, from the subscript after \<open>sub\<close> on.\<close>

definition written :: "'db ydb \<Rightarrow> int list \<Rightarrow> nat \<Rightarrow> int \<Rightarrow> 'db \<Rightarrow> 'db \<Rightarrow> bool" where
  "written Y ps j i db db' \<longleftrightarrow>
     (\<forall>s v. node Y db' ''^step'' s = Some v \<longrightarrow> node Y db ''^step'' s = Some v \<or>
        (\<exists>l. j \<le> l \<and> l < length ps \<and> s = [words (ps ! l)] \<and> v = words (i - int l))) \<and>
     (\<forall>s. node Y db ''^step'' s \<noteq> None \<longrightarrow> node Y db' ''^step'' s \<noteq> None) \<and>
     (\<forall>l. j \<le> l \<longrightarrow> l < length ps \<longrightarrow> node Y db' ''^step'' [words (ps ! l)] \<noteq> None)"

context calm_db
begin

lemma counter_bump:
  assumes "counter Y db g b" "b < 10 ^ 17"
  shows "\<exists>v. incr_ok Y g [] None db = Inr (Go v, bumped Y g [] None db)"
    and "counter Y (bumped Y g [] None db) g (b + 1)"
    and "only_changed Y {g} db (bumped Y g [] None db)"
proof -
  obtain a where a: "node Y db g [] = Some (dec a)" "0 \<le> a" "a \<le> b" using assms(1) by (auto simp: counter_def)
  then have pre: "case node Y db g [] of None \<Rightarrow> a = 0 | Some v \<Rightarrow> v = dec a" "\<bar>a\<bar> < 10 ^ 18"
    "case None of None \<Rightarrow> (1 :: int) = 1 | Some t \<Rightarrow> counts_as t 1" "\<bar>1 :: int\<bar> < 10 ^ 18"
    using assms(2) by simp_all
  show "\<exists>v. incr_ok Y g [] None db = Inr (Go v, bumped Y g [] None db)" using incr_runs(1) [OF pre] by blast
  show "counter Y (bumped Y g [] None db) g (b + 1)" "only_changed Y {g} db (bumped Y g [] None db)"
    using a by (auto simp: counter_def only_changed_def incr_bumped(2) [OF pre])
qed

lemma only_changed_put: "g \<in> gs \<Longrightarrow> only_changed Y gs db (put Y g s v db)"
  by (auto simp: only_changed_def)

lemma walk_bump:
  assumes "walk_ok Y db ps b" "b < 10 ^ 17"
  shows "walk_ok Y (bumped Y ''reads'' [] None db) ps (b + 1)"
proof -
  have ch: "only_changed Y {''reads''} db (bumped Y ''reads'' [] None db)"
    using counter_bump(3) [of db "''reads''" b] assms by (simp add: walk_ok_def)
  show ?thesis
    using assms counter_bump(2) [of db "''reads''" b] digits_kept [OF ch] table_kept [OF ch]
      only_changedD [OF ch, of "''currpath''"] only_changedD [OF ch, of "''highest''"]
    by (simp add: walk_ok_def currpath_is_def highest_ok_def)
qed

lemma walk_log:
  assumes "walk_ok Y db ps b"
  shows "walk_ok Y (put Y ''currpath'' [dec (int (length ps))] (dec n) db) (ps @ [n]) b"
proof -
  let ?db = "put Y ''currpath'' [dec (int (length ps))] (dec n) db"
  have ch: "only_changed Y {''currpath''} db ?db" by (simp add: only_changed_put)
  have "currpath_is Y ?db (ps @ [n])" using assms by (intro currpath_snoc [of Y db]) (auto simp: walk_ok_def)
  then show ?thesis
    using assms digits_kept [OF ch] table_kept [OF ch] by (simp add: walk_ok_def counter_def highest_ok_def)
qed

text \<open>The test for a new highest number, which stores the number before the step.\<close>

lemma walk_highest:
  assumes "walk_ok Y db ps b" "0 \<le> n" "n < 10 ^ 13"
  shows "\<exists>h db'. get_text Y 256 ''highest'' [] db = Inr (Go h, db) \<and>
     onlyIf (atoll h < n') [set_ok Y ''highest'' [] (dec n)] db = Inr (Go (), db') \<and>
     walk_ok Y db' ps b \<and> only_changed Y {''highest''} db db'"
proof -
  obtain h where h: "node Y db ''highest'' [] = Some (dec h)" "0 \<le> h" "h < 10 ^ 13"
    using assms(1) by (auto simp: walk_ok_def highest_ok_def)
  have "length (dec h) \<le> 13" using h by (intro length_dec_13)
  then have get: "get_text Y 256 ''highest'' [] db = Inr (Go (dec h), db)" using h by (intro get_text_runs) auto
  let ?db = "put Y ''highest'' [] (dec n) db"
  have ch: "only_changed Y {''highest''} db ?db" by (simp add: only_changed_put)
  have "walk_ok Y ?db ps b"
    using assms digits_kept [OF ch] table_kept [OF ch] by (auto simp: walk_ok_def counter_def highest_ok_def currpath_is_def)
  then show ?thesis using get ch assms(1)
    by (cases "atoll (dec h) < n'") (auto intro!: exI [of _ "dec h"])
qed

lemma path_loop_runs:
  assumes "walk_ok Y db ps b" "path k n" "k < fuel" "b + int k + 1 < 10 ^ 17"
  shows "\<exists>db' l. path_loop Y fuel n (int (length ps)) db =
       Inr (Go (Some ((cstep ^^ l) n, int (length ps + l))), db') \<and> l \<le> k \<and>
     ((cstep ^^ l) n = 1 \<or> (\<exists>k'. known Y db' ((cstep ^^ l) n) k')) \<and>
     walk_ok Y db' (ps @ map (\<lambda>j. (cstep ^^ j) n) [0..<l]) (b + int k + 1) \<and> only_changed Y walk_vars db db'"
  using assms
proof (induction k arbitrary: n ps db fuel b)
  case 0
  then obtain f where f: "fuel = Suc f" "n = 1" by (cases fuel) auto
  obtain v where v: "incr_ok Y ''reads'' [] None db = Inr (Go v, bumped Y ''reads'' [] None db)"
    using counter_bump(1) [of db "''reads''" b] 0 by (auto simp: walk_ok_def)
  have ch: "only_changed Y {''reads''} db (bumped Y ''reads'' [] None db)"
    using counter_bump(3) 0 by (auto simp: walk_ok_def)
  show ?case
    using 0 f v walk_bump [OF 0(1)] only_changed_trans [OF ch only_changed_refl, of "{}" walk_vars]
    by (intro exI [of _ "bumped Y ''reads'' [] None db"] exI [of _ 0]) auto
next
  case (Suc k)
  have n: "1 < n" "n < 10 ^ 13" "path k (cstep n)" using Suc.prems(2) by auto
  obtain f where f: "fuel = Suc f" "k < f" using Suc.prems(3) by (cases fuel) auto
  let ?d1 = "bumped Y ''reads'' [] None db"
  have b: "b < 10 ^ 17" using Suc.prems(4) by simp
  obtain v where v: "incr_ok Y ''reads'' [] None db = Inr (Go v, ?d1)"
    using counter_bump(1) [of db "''reads''" b] Suc.prems(1) b by (auto simp: walk_ok_def)
  have ch1: "only_changed Y walk_vars db ?d1"
    using counter_bump(3) [of db "''reads''" b] Suc.prems(1) b by (auto simp: walk_ok_def only_changed_def)
  have w1: "walk_ok Y ?d1 ps (b + 1)" using walk_bump [OF Suc.prems(1) b] .
  have spell: "inttostr Y n ?d1 = Inr (Go (words n), ?d1)"
    using w1 n by (intro inttostr_runs) (auto simp: walk_ok_def)
  have table: "table_ok Y ?d1" "\<not> below Y ?d1 ''^step'' [words n]" using w1 by (auto simp: walk_ok_def table_below)
  show ?case
  proof (cases "node Y ?d1 ''^step'' [words n] = None")
    case False
    then obtain k' where "known Y ?d1 n k'" using table(1) unfolding table_ok_def known_def by blast
    moreover have "walk_ok Y ?d1 ps (b + int (Suc k) + 1)" using w1 by (auto simp: walk_ok_def counter_def)
    moreover from False obtain y where "node Y ?d1 ''^step'' [words n] = Some y" by blast
    then have "path_loop Y fuel n (int (length ps)) db = Inr (Go (Some (n, int (length ps))), ?d1)"
      using n table(2) by (simp add: f v spell)
    ultimately show ?thesis using ch1 by (intro exI [of _ ?d1] exI [of _ 0]) auto
  next
    case True
    let ?d2 = "put Y ''currpath'' [dec (int (length ps))] (dec n) ?d1"
    have w2: "walk_ok Y ?d2 (ps @ [n]) (b + 1)" using walk_log [OF w1] .
    obtain h d3 where d3: "get_text Y 256 ''highest'' [] ?d2 = Inr (Go h, ?d2)"
      "onlyIf (atoll h < cstep n) [set_ok Y ''highest'' [] (dec n)] ?d2 = Inr (Go (), d3)"
      "walk_ok Y d3 (ps @ [n]) (b + 1)" "only_changed Y {''highest''} ?d2 d3"
      using walk_highest [OF w2, of n "cstep n"] n by auto
    obtain db' l where l: "path_loop Y f (cstep n) (int (length (ps @ [n]))) d3 =
         Inr (Go (Some ((cstep ^^ l) (cstep n), int (length (ps @ [n]) + l))), db')" "l \<le> k"
       "(cstep ^^ l) (cstep n) = 1 \<or> (\<exists>k'. known Y db' ((cstep ^^ l) (cstep n)) k')"
       "walk_ok Y db' ((ps @ [n]) @ map (\<lambda>j. (cstep ^^ j) (cstep n)) [0..<l]) (b + 1 + int k + 1)"
       "only_changed Y walk_vars d3 db'"
      using Suc.IH [OF d3(3) n(3) f(2)] Suc.prems(4) by auto
    have run: "path_loop Y fuel n (int (length ps)) db = path_loop Y f (cstep n) (int (length ps) + 1) d3"
      using n True table(2) d3(1,2) by (simp add: f v spell next_number Let_def MAXVALUELEN_def)
    have iter: "(cstep ^^ j) (cstep n) = (cstep ^^ Suc j) n" for j by (simp add: funpow_swap1)
    have "map (\<lambda>j. (cstep ^^ j) n) [0..<Suc l] = n # map (\<lambda>j. (cstep ^^ Suc j) n) [0..<l]"
      by (subst map_upt_Suc) simp
    then have steps: "(ps @ [n]) @ map (\<lambda>j. (cstep ^^ j) (cstep n)) [0..<l] = ps @ map (\<lambda>j. (cstep ^^ j) n) [0..<Suc l]"
      by (simp only: iter append_assoc append_Cons append_Nil)
    have "only_changed Y walk_vars ?d1 d3"
      using d3(4) by (auto simp: only_changed_def)
    then have ch: "only_changed Y walk_vars db db'"
      using ch1 l(5) by (auto simp: only_changed_def)
    show ?thesis
      using l(1-4) ch unfolding steps run
      by (intro exI [of _ db'] exI [of _ "Suc l"]) (auto simp: iter add_ac simp del: upt_Suc funpow.simps)
  qed
qed

lemma next_on_path:
  assumes "currpath_is Y db ps" "j \<le> length ps" "length ps < 10 ^ 18"
  shows "ydb_subscript_next_s Y db ''currpath'' [if j = 0 then [] else dec (int (j - 1))] =
     (if j < length ps then (YDB_OK, dec (int j)) else (YDB_ERR_NODEEND Y, []))"
proof -
  have "\<forall>u. (\<exists>r. node Y db ''currpath'' (u # r) \<noteq> None) \<longleftrightarrow> (\<exists>i<length ps. u = dec (int i))"
    using currpath_children [OF assms(1)] by blast
  then have nx: "ydb_subscript_next_s Y db ''currpath'' [[]] = (if length ps = 0 then (YDB_ERR_NODEEND Y, []) else (YDB_OK, dec 0))"
    "\<forall>i<length ps. ydb_subscript_next_s Y db ''currpath'' [dec (int i)] =
        (if i + 1 < length ps then (YDB_OK, dec (int i + 1)) else (YDB_ERR_NODEEND Y, []))"
    using laws(7) assms(3) unfolding ydb_next_law_def by blast+
  show ?thesis
  proof (cases j)
    case (Suc i)
    then show ?thesis using nx(2) assms(2) by (auto simp: add_ac)
  qed (use nx(1) in auto)
qed

lemma step_loop_runs:
  assumes "has_digits Y db" "currpath_is Y db ps" "counter Y db ''updates'' b" "b + int (length ps - j) < 10 ^ 17"
    and "j \<le> length ps" "length ps - j < fuel" "\<forall>l<length ps. 0 \<le> ps ! l \<and> ps ! l < 10 ^ 13"
    and "int (length ps) \<le> i" "i < 10 ^ 13" "is_int32 (int (length ps))"
  shows "\<exists>db'. step_loop Y fuel (if j = 0 then [] else dec (int (j - 1))) i db = Inr (Go True, db') \<and>
     written Y ps j i db db' \<and> only_changed Y {''updates'', ''^step''} db db' \<and>
     counter Y db' ''updates'' (b + int (length ps - j))"
  using assms(1-6)
proof (induction "length ps - j" arbitrary: j db b fuel)
  case 0
  then obtain f where f: "fuel = Suc f" by (cases fuel) auto
  from 0 have "j = length ps" by simp
  with 0 assms(10) show ?case
    using next_on_path [OF 0(3), of j] by (auto simp: f written_def is_int32_def)
next
  case (Suc d)
  obtain f where f: "fuel = Suc f" "d < f" using Suc by (cases fuel) auto
  have j: "j < length ps" using Suc.hyps(2) by simp
  have i32: "is_int32 (int j)" using assms(10) j by (simp add: is_int32_def)
  have len: "length (dec (int j)) < 256" using length_dec [OF i32] by simp
  have pj: "0 \<le> ps ! j" "ps ! j < 10 ^ 13" using assms(7) j by auto
  let ?d1 = "bumped Y ''updates'' [] None db"
  have b: "b < 10 ^ 17" using Suc.prems(4) by simp
  obtain v where v: "incr_ok Y ''updates'' [] None db = Inr (Go v, ?d1)" using counter_bump(1) Suc.prems(3) b by blast
  have ch1: "only_changed Y {''updates''} db ?d1" using counter_bump(3) Suc.prems(3) b by blast
  let ?d2 = "put Y ''^step'' [words (ps ! j)] (words (i - int j)) ?d1"
  have ch2: "only_changed Y {''updates'', ''^step''} db ?d2" using ch1 by (simp add: only_changed_def)
  have dig: "has_digits Y ?d1" "has_digits Y ?d2"
    using digits_kept [OF ch1] digits_kept [OF ch2] Suc.prems(1) by simp_all
  have path: "currpath_is Y ?d1 ps" "currpath_is Y ?d2 ps"
    using Suc.prems(2) only_changedD [OF ch1, of "''currpath''"] only_changedD [OF ch2, of "''currpath''"]
    by (simp_all add: currpath_is_def)
  have len2: "length (dec (ps ! j)) < 256" using length_dec_13 [OF pj] by simp
  have txt1: "get_text Y 256 ''currpath'' [dec (int j)] ?d1 = Inr (Go (dec (ps ! j)), ?d1)"
    using currpath_node [OF path(1) j] len2 by (rule get_text_runs)
  have spell: "inttostr Y (ps ! j) ?d1 = Inr (Go (words (ps ! j)), ?d1)"
    "inttostr Y (i - int j) ?d1 = Inr (Go (words (i - int j)), ?d1)"
    using dig(1) pj assms(8,9) j by (intro inttostr_runs; simp)+
  have "length ps < 10 ^ 18" using assms(10) by (simp add: is_int32_def)
  then have nx: "ydb_subscript_next_s Y db ''currpath'' [if j = 0 then [] else dec (int (j - 1))] = (YDB_OK, dec (int j))"
    using next_on_path [OF Suc.prems(2), of j] j by simp
  have num: "atoi (dec (int j)) = int j" "atoll (dec (ps ! j)) = ps ! j"
    using i32 pj by (simp_all add: atoll_def strtol10_dec)
  have run: "step_loop Y fuel (if j = 0 then [] else dec (int (j - 1))) i db = step_loop Y f (dec (int j)) i ?d2"
    unfolding f(1) step_loop.simps nx
    by (simp add: asserted_def nul_ended_def MAXVALUELEN_def len num v txt1 spell Let_def)
  have "counter Y ?d2 ''updates'' (b + 1)" using counter_bump(2) [OF Suc.prems(3) b] by (simp add: counter_def)
  moreover have "d = length ps - Suc j" using Suc.hyps(2) by simp
  ultimately obtain db' where db': "step_loop Y f (dec (int j)) i ?d2 = Inr (Go True, db')"
    "written Y ps (Suc j) i ?d2 db'" "only_changed Y {''updates'', ''^step''} ?d2 db'"
    "counter Y db' ''updates'' (b + 1 + int (length ps - Suc j))"
    using Suc.hyps(1) [of "Suc j" ?d2 "b + 1" f] dig(2) path(2) Suc.prems(4,5) j f by auto
  have "written Y ps j i db db'"
  proof -
    have s2: "node Y ?d2 ''^step'' s = (if s = [words (ps ! j)] then Some (words (i - int j)) else node Y db ''^step'' s)" for s
      using only_changedD [OF ch1, of "''^step''"] by simp
    note w = db'(2) [unfolded written_def]
    show ?thesis unfolding written_def
    proof (intro conjI allI impI)
      fix s v
      assume "node Y db' ''^step'' s = Some v"
      then consider "node Y ?d2 ''^step'' s = Some v"
        | l where "Suc j \<le> l" "l < length ps" "s = [words (ps ! l)]" "v = words (i - int l)"
        using w by blast
      then show "node Y db ''^step'' s = Some v \<or>
          (\<exists>l\<ge>j. l < length ps \<and> s = [words (ps ! l)] \<and> v = words (i - int l))"
      proof cases
        case 1
        then show ?thesis using j unfolding s2 by (auto split: if_splits)
      next
        case 2
        then show ?thesis by (intro disjI2 exI [of _ l]) auto
      qed
    next
      fix s
      assume "node Y db ''^step'' s \<noteq> None"
      then have "node Y ?d2 ''^step'' s \<noteq> None" unfolding s2 by simp
      then show "node Y db' ''^step'' s \<noteq> None" using w by blast
    next
      fix l
      assume l: "j \<le> l" "l < length ps"
      have "node Y ?d2 ''^step'' [words (ps ! j)] \<noteq> None" unfolding s2 by simp
      then show "node Y db' ''^step'' [words (ps ! l)] \<noteq> None" using w l by (cases "l = j") auto
    qed
  qed
  moreover have "only_changed Y {''updates'', ''^step''} db db'" using ch2 db'(3) by (auto simp: only_changed_def)
  moreover have "b + 1 + int (length ps - Suc j) = b + int (length ps - j)" using j by simp
  ultimately show ?case using db'(1,4) unfolding run by auto
qed

text \<open>The maximum: at least every number of steps in the table, and one of them.\<close>

end

definition result_ok :: "'db ydb \<Rightarrow> 'db \<Rightarrow> bool" where
  "result_ok Y db \<longleftrightarrow> (\<exists>r. (node Y db ''^result'' [] = Some (dec (int r)) \<or> node Y db ''^result'' [] = None \<and> r = 0) \<and>
     int r < 2 ^ 31 \<and> (\<forall>n k. 0 \<le> n \<longrightarrow> known Y db n k \<longrightarrow> k \<le> r) \<and>
     (r = 0 \<or> (\<exists>n. 0 \<le> n \<and> known Y db n r)))"

definition steps_ok :: "'db ydb \<Rightarrow> 'db \<Rightarrow> int \<Rightarrow> bool" where
  "steps_ok Y db b \<longleftrightarrow> has_digits Y db \<and> table_ok Y db \<and> counter Y db ''reads'' b \<and> counter Y db ''updates'' b \<and>
     highest_ok Y db \<and> result_ok Y db"

context calm_db
begin

lemma setmaximum_runs:
  assumes "node Y db ''^result'' [] = Some (dec (int r)) \<or> node Y db ''^result'' [] = None \<and> r = 0" "int r < 2 ^ 31"
  shows "\<exists>db'. tp_ok Y (tp_setmaximum Y (int k)) db = Inr (Go (), db') \<and> only_changed Y {''^result''} db db' \<and>
     (node Y db' ''^result'' [] = Some (dec (int (max r k))) \<or> node Y db' ''^result'' [] = None \<and> max r k = 0)"
proof -
  have i32: "is_int32 (int r)" using assms(2) by (simp add: is_int32_def)
  have get: "get_int_or_0_tp Y 256 ''^result'' [] db = Inr (Go (int r), db)"
  proof (cases "node Y db ''^result'' [] = None")
    case True
    then show ?thesis using assms(1) get_or_0_runs(2) [of db "''^result''" "[]"] by simp
  next
    case False
    then have "node Y db ''^result'' [] = Some (dec (int r))" "length (dec (int r)) < 256"
      using assms(1) length_dec [OF i32] by auto
    from get_text_runs(5) [OF this] show ?thesis using i32 by simp
  qed
  show ?thesis
  proof (cases "int r < int k")
    case True
    then have "as_function (tp_setmaximum Y (int k)) db = Inr (YDB_OK, put Y ''^result'' [] (dec (int k)) db)"
      by (simp add: as_function_def tp_setmaximum_def MAXVALUELEN_def get)
    from tp_runs [OF this] True show ?thesis
      by (intro exI [of _ "put Y ''^result'' [] (dec (int k)) db"])
         (simp add: tp_ok_def asserted_def only_changed_put max_def)
  next
    case False
    then have "as_function (tp_setmaximum Y (int k)) db = Inr (YDB_OK, db)"
      by (simp add: as_function_def tp_setmaximum_def MAXVALUELEN_def get)
    from tp_runs [OF this] False assms(1) show ?thesis
      by (intro exI [of _ db]) (auto simp: tp_ok_def asserted_def max_def)
  qed
qed

lemma known_steps_runs:
  assumes "has_digits Y db" "table_ok Y db" "known Y db n k" "0 \<le> n" "n < 10 ^ 13" "k < 10 ^ 13"
  shows "known_steps Y n db = Inr (Go (int k), db)"
proof -
  have "length (words (int k)) < 256" using length_words [of "int k"] assms(6) by simp
  then have "get_ok Y 256 ''^step'' [words n] db = Inr (Go (words (int k)), db)"
    using assms(3) by (intro get_runs) (auto simp: known_def)
  with assms show ?thesis by (simp add: known_steps_def inttostr_runs strtoint_runs MAXVALUELEN_def)
qed

end

text \<open>The numbers on the first \<open>l\<close> steps from \<open>n\<close>.\<close>

abbreviation trail :: "int \<Rightarrow> nat \<Rightarrow> int list" where
  "trail n l \<equiv> map (\<lambda>j. (cstep ^^ j) n) [0..<l]"

lemma counter_mono: "counter Y db g b \<Longrightarrow> b \<le> b' \<Longrightarrow> counter Y db g b'"
  unfolding counter_def by (meson order_trans)

lemma known_entry:
  assumes "table_ok Y db" "node Y db ''^step'' [words n] \<noteq> None" "path k n"
  shows "known Y db n k"
proof -
  obtain m j where m: "words n = words m" "node Y db ''^step'' [words n] = Some (words (int j))" "path j m" "1 < m"
    using assms(1,2) unfolding table_ok_def by blast
  have "0 \<le> n" using path_range [OF assms(3)] by simp
  then have "n = m" using words_inj [of n m] m(1,4) by simp
  with m(2,3) path_unique [OF assms(3)] show ?thesis by (auto simp: known_def)
qed

lemma known_more:
  assumes "table_ok Y db" "table_ok Y db'" "node Y db ''^step'' [words n] \<noteq> None \<Longrightarrow> node Y db' ''^step'' [words n] \<noteq> None"
    and "known Y db n k" "0 \<le> n"
  shows "known Y db' n k"
  using known_right [OF assms(1,4,5)] assms(2,3,4) by (intro known_entry) (auto simp: known_def)

text \<open>What the loop over the path has written keeps the table right.\<close>

lemma writtenD:
  assumes "written Y ps j i db db'" "node Y db' ''^step'' s = Some v"
  obtains "node Y db ''^step'' s = Some v"
    | l where "l < length ps" "s = [words (ps ! l)]" "v = words (i - int l)"
  using assms unfolding written_def by blast

lemma written_table:
  assumes "table_ok Y db" "written Y ps 0 (int k) db db'" "length ps \<le> k"
    and entry: "\<forall>i<length ps. path (k - i) (ps ! i) \<and> 1 < ps ! i"
  shows "table_ok Y db'"
    and "known Y db' m j \<Longrightarrow> 0 \<le> m \<Longrightarrow> known Y db m j \<or> j \<le> k"
proof -
  have diff: "int k - int i = int (k - i)" if "i < length ps" for i using that assms(3) by simp
  show "table_ok Y db'"
    unfolding table_ok_def
  proof (intro allI impI)
    fix s t v
    assume "node Y db' ''^step'' (s # t) = Some v"
    from writtenD [OF assms(2) this]
    show "t = [] \<and> (\<exists>n k. s = words n \<and> v = words (int k) \<and> path k n \<and> 1 < n)"
    proof cases
      case 1
      then show ?thesis using assms(1) unfolding table_ok_def by blast
    next
      case (2 l)
      then have "s = words (ps ! l)" "t = []" by simp_all
      moreover have "v = words (int (k - l))" using 2(3) unfolding diff [OF 2(1)] .
      ultimately show ?thesis using entry 2(1) by blast
    qed
  qed
  assume j: "known Y db' m j" "0 \<le> m"
  from writtenD [OF assms(2) j(1) [unfolded known_def]]
  show "known Y db m j \<or> j \<le> k"
  proof cases
    case 1
    then show ?thesis by (simp add: known_def)
  next
    case (2 l)
    have "words (int j) = words (int (k - l))" using 2(3) unfolding diff [OF 2(1)] .
    then have "int j = int (k - l)" by (intro words_inj) simp_all
    then show ?thesis by simp
  qed
qed

context calm_db
begin

text \<open>From the end of the path on: the total, the maximum, the table.\<close>

lemma finish_runs:
  assumes "walk_ok Y db (trail n l) b" "path k n" "0 < l" "l \<le> k" "int k < 2 ^ 31" "b + int k < 10 ^ 17"
    and m: "m = (cstep ^^ l) n" "m = 1 \<or> (\<exists>k'. known Y db m k')"
    and "counter Y db ''updates'' b" "result_ok Y db" and fuel: "l < fuel"
  shows "\<exists>db'. andThen (if 1 < m then andThen (known_steps Y m) (\<lambda>k'. ret (int64 (int l + k'))) else ret (int l)) (\<lambda>i.
      andThen (tp_ok Y (tp_setmaximum Y i)) (\<lambda>_. step_loop Y fuel [] i)) db = Inr (Go True, db') \<and>
     steps_ok Y db' (b + int k) \<and> known Y db' n k \<and>
     (\<forall>n' k'. 0 \<le> n' \<longrightarrow> known Y db n' k' \<longrightarrow> known Y db' n' k') \<and>
     only_changed Y {''updates'', ''^step'', ''^result''} db db'"
proof -
  have w: "has_digits Y db" "table_ok Y db" "currpath_is Y db (trail n l)" "counter Y db ''reads'' b" "highest_ok Y db"
    using assms(1) by (simp_all add: walk_ok_def)
  have pm: "path (k - l) m" using path_later [OF assms(2,4)] m(1) by simp
  then have mr: "1 \<le> m" "m < 10 ^ 13" using path_range by auto
  have total: "(if 1 < m then andThen (known_steps Y m) (\<lambda>k'. ret (int64 (int l + k'))) else ret (int l)) db
      = Inr (Go (int k), db)"
  proof (cases "1 < m")
    case True
    then obtain k' where k': "known Y db m k'" using m(2) by auto
    then have "path k' m" using known_right [OF w(2) k'] mr by simp
    then have kl: "k' = k - l" using path_unique [OF pm] by simp
    with known_steps_runs [OF w(1,2) k'] mr assms(5) have "known_steps Y m db = Inr (Go (int (k - l)), db)" by simp
    moreover have "int64 (int l + int (k - l)) = int k" using assms(4,5) by (simp add: int64_id)
    ultimately show ?thesis using True by simp
  next
    case False
    then have "k = l" using path_pos [OF pm] mr assms(4) by simp
    with False show ?thesis by simp
  qed
  obtain r where r: "node Y db ''^result'' [] = Some (dec (int r)) \<or> node Y db ''^result'' [] = None \<and> r = 0"
    "int r < 2 ^ 31" "\<forall>n k. 0 \<le> n \<longrightarrow> known Y db n k \<longrightarrow> k \<le> r"
    "r = 0 \<or> (\<exists>n. 0 \<le> n \<and> known Y db n r)"
    using assms(10) unfolding result_ok_def by blast
  obtain d1 where d1: "tp_ok Y (tp_setmaximum Y (int k)) db = Inr (Go (), d1)" "only_changed Y {''^result''} db d1"
    "node Y d1 ''^result'' [] = Some (dec (int (max r k))) \<or> node Y d1 ''^result'' [] = None \<and> max r k = 0"
    using setmaximum_runs [OF r(1,2), of k] by blast
  have d1_ok: "has_digits Y d1" "table_ok Y d1" "currpath_is Y d1 (trail n l)" "counter Y d1 ''updates'' b"
    using w assms(9) digits_kept [OF d1(2)] table_kept [OF d1(2)] d1(2)
    by (simp_all add: currpath_is_def counter_def only_changed_def)
  have entry: "\<forall>i<length (trail n l). path (k - i) (trail n l ! i) \<and> 1 < trail n l ! i"
  proof (intro allI impI)
    fix i
    assume i: "i < length (trail n l)"
    then have "path (k - i) (trail n l ! i)" using path_later [OF assms(2), of i] assms(4) by simp
    moreover have "0 < k - i" using i assms(4) by simp
    ultimately show "path (k - i) (trail n l ! i) \<and> 1 < trail n l ! i" using path_pos by blast
  qed
  then have range: "\<forall>i<length (trail n l). 0 \<le> trail n l ! i \<and> trail n l ! i < 10 ^ 13"
    using path_range by fastforce
  obtain db' where db': "step_loop Y fuel [] (int k) d1 = Inr (Go True, db')"
    "written Y (trail n l) 0 (int k) d1 db'" "only_changed Y {''updates'', ''^step''} d1 db'"
    "counter Y db' ''updates'' (b + int l)"
    using step_loop_runs [OF d1_ok(1,3,4), of 0 fuel "int k"] range fuel assms(4-6)
    by (auto simp: is_int32_def)
  have "length (trail n l) \<le> k" using assms(4) by simp
  note t = written_table [OF d1_ok(2) db'(2) this entry]
  have ch: "only_changed Y {''updates'', ''^step'', ''^result''} db db'" using d1(2) db'(3) by (auto simp: only_changed_def)
  have goal1: "known Y db' n k"
  proof -
    have "node Y db' ''^step'' [words (trail n l ! 0)] \<noteq> None" using db'(2) assms(3) unfolding written_def by auto
    then show ?thesis using known_entry [OF t(1) _ assms(2)] assms(3) by simp
  qed
  have goal2: "known Y db' n' k'" if "0 \<le> n'" "known Y db n' k'" for n' k'
  proof -
    have "known Y d1 n' k'" using known_kept [OF d1(2)] that(2) by simp
    moreover have "node Y d1 ''^step'' [words n'] \<noteq> None \<Longrightarrow> node Y db' ''^step'' [words n'] \<noteq> None"
      using db'(2) unfolding written_def by blast
    ultimately show ?thesis using known_more [OF d1_ok(2) t(1)] that(1) by blast
  qed
  have "result_ok Y db'"
  proof -
    have "node Y db' ''^result'' [] = node Y d1 ''^result'' []" using db'(3) by (simp add: only_changed_def)
    moreover have "k' \<le> max r k" if "0 \<le> n'" "known Y db' n' k'" for n' k'
      using t(2) [OF that(2,1)] r(3) that known_kept [OF d1(2)] by (auto simp: le_max_iff_disj)
    moreover have "max r k = 0 \<or> (\<exists>n. 0 \<le> n \<and> known Y db' n (max r k))"
    proof (cases "r \<le> k")
      case True
      then show ?thesis using goal1 path_range [OF assms(2)] by (intro disjI2 exI [of _ n]) (auto simp: max_absorb2)
    next
      case False
      then show ?thesis using r(4) goal2 by (auto simp: max_absorb1)
    qed
    ultimately show ?thesis using d1(3) r(2) assms(5) unfolding result_ok_def
      by (intro exI [of _ "max r k"]) auto
  qed
  moreover have "has_digits Y db'" "counter Y db' ''reads'' (b + int k)" "highest_ok Y db'"
    using digits_kept [OF ch] w counter_mono [OF w(4), of "b + int k"] ch
    by (simp_all add: counter_def highest_ok_def only_changed_def)
  moreover have "counter Y db' ''updates'' (b + int k)" using counter_mono [OF db'(4)] assms(4) by simp
  ultimately have ok: "steps_ok Y db' (b + int k)" using t(1) by (simp add: steps_ok_def)
  show ?thesis using ok ch goal1 goal2 by (intro exI [of _ db']) (simp add: total d1(1) db'(1))
qed

lemma dostep_one_runs:
  assumes "steps_ok Y db b" "path k n" "k < fuel" "int k < 2 ^ 31" "0 \<le> b" "b + 2 * int k + 1 < 10 ^ 17"
  shows "\<exists>db'. dostep_one Y fuel n db = Inr (Go True, db') \<and> steps_ok Y db' (b + 2 * int k + 1) \<and>
     (1 < n \<longrightarrow> known Y db' n k) \<and> (\<forall>n' k'. 0 \<le> n' \<longrightarrow> known Y db n' k' \<longrightarrow> known Y db' n' k') \<and>
     only_changed Y (walk_vars \<union> {''updates'', ''^step'', ''^result''}) db db'"
proof -
  let ?d1 = "deleted Y ''currpath'' [] db"
  have ch1: "only_changed Y walk_vars db ?d1" by (simp add: only_changed_def)
  have one: "has_digits Y ?d1" "table_ok Y ?d1" "counter Y ?d1 ''updates'' b" "result_ok Y ?d1"
    using assms(1) digits_kept [OF ch1] table_kept [OF ch1] known_kept [OF ch1]
    by (simp_all add: steps_ok_def counter_def result_ok_def)
  have "walk_ok Y ?d1 [] b"
    using assms(1) one by (auto simp: walk_ok_def steps_ok_def counter_def highest_ok_def intro!: currpath_Nil)
  then obtain d2 l where d2: "path_loop Y fuel n 0 ?d1 = Inr (Go (Some ((cstep ^^ l) n, int l)), d2)" "l \<le> k"
    "(cstep ^^ l) n = 1 \<or> (\<exists>k'. known Y d2 ((cstep ^^ l) n) k')"
    "walk_ok Y d2 (trail n l) (b + int k + 1)" "only_changed Y walk_vars ?d1 d2"
    using path_loop_runs [of ?d1 "[]" b k n fuel] assms(2,3,5,6) by auto
  have ch2: "only_changed Y walk_vars db d2" using ch1 d2(5) by (auto simp: only_changed_def)
  have kept: "known Y d2 = known Y db" using known_kept [OF ch2] by simp
  have d2_ok: "counter Y d2 ''updates'' (b + int k + 1)" "result_ok Y d2"
    using one d2(5) kept known_kept [OF ch1] counter_mono [of Y d2 "''updates''" b "b + int k + 1"]
    by (auto simp: counter_def result_ok_def only_changed_def)
  show ?thesis
  proof (cases "0 < l")
    case False
    then have l: "l = 0" by simp
    have "known Y d2 n k" if n1: "1 < n"
    proof -
      obtain k' where k': "known Y d2 n k'" using d2(3) n1 l by auto
      then have "path k' n" using known_right [OF _ k'] d2(4) n1 by (simp add: walk_ok_def)
      with path_unique [OF assms(2)] k' show ?thesis by simp
    qed
    moreover have "steps_ok Y d2 (b + 2 * int k + 1)"
      using d2(4) d2_ok counter_mono [of Y d2 _ "b + int k + 1" "b + 2 * int k + 1"] by (auto simp: steps_ok_def walk_ok_def)
    ultimately show ?thesis
      using ch2 kept d2(1) l
      by (intro exI [of _ d2]) (auto simp: dostep_one_def only_changed_def)
  next
    case True
    obtain db' where db': "andThen (if 1 < (cstep ^^ l) n then andThen (known_steps Y ((cstep ^^ l) n)) (\<lambda>k'. ret (int64 (int l + k')))
        else ret (int l)) (\<lambda>i. andThen (tp_ok Y (tp_setmaximum Y i)) (\<lambda>_. step_loop Y fuel [] i)) d2 = Inr (Go True, db')"
      "steps_ok Y db' (b + int k + 1 + int k)" "known Y db' n k"
      "\<forall>n' k'. 0 \<le> n' \<longrightarrow> known Y d2 n' k' \<longrightarrow> known Y db' n' k'"
      "only_changed Y {''updates'', ''^step'', ''^result''} d2 db'"
      using finish_runs [OF d2(4) assms(2) True d2(2) assms(4) _ refl d2(3) d2_ok, of fuel] d2(2) assms(3,6) by auto
    have run: "dostep_one Y fuel n db = Inr (Go True, db')"
      using True db'(1) by (simp add: dostep_one_def d2(1) del: act_simps(4)) (simp add: d2(1))
    have eq: "b + int k + 1 + int k = b + 2 * int k + 1" by simp
    have "steps_ok Y db' (b + 2 * int k + 1)" using db'(2) unfolding eq .
    moreover have "only_changed Y (walk_vars \<union> {''updates'', ''^step'', ''^result''}) db db'"
      using ch2 db'(5) by (auto simp: only_changed_def)
    ultimately show ?thesis using db'(3,4) run kept by (intro exI [of _ db']) simp
  qed
qed

lemma dostep_loop_runs:
  assumes "steps_ok Y db b" "\<forall>n \<in> set ns. \<exists>k. path k n \<and> k \<le> kmax" "kmax < fuel" "int kmax < 2 ^ 31"
    and "0 \<le> b" "b + int (length ns) * (2 * int kmax + 1) < 10 ^ 17"
  shows "\<exists>db'. dostep_loop Y fuel ns db = Inr (Go True, db') \<and>
     steps_ok Y db' (b + int (length ns) * (2 * int kmax + 1)) \<and>
     (\<forall>n \<in> set ns. 1 < n \<longrightarrow> (\<exists>k. path k n \<and> known Y db' n k)) \<and>
     (\<forall>n' k'. 0 \<le> n' \<longrightarrow> known Y db n' k' \<longrightarrow> known Y db' n' k')"
  using assms(1,2,5,6)
proof (induction ns arbitrary: db b)
  case (Cons n ns)
  obtain k where k: "path k n" "k \<le> kmax" using Cons.prems(2) by auto
  have len: "int (length (n # ns)) * (2 * int kmax + 1) = int (length ns) * (2 * int kmax + 1) + (2 * int kmax + 1)"
    by (simp add: algebra_simps)
  have pos: "0 \<le> int (length ns) * (2 * int kmax + 1)" by simp
  have small: "b + 2 * int k + 1 < 10 ^ 17" using Cons.prems(4) k(2) pos unfolding len by linarith
  obtain d1 where d1: "dostep_one Y fuel n db = Inr (Go True, d1)" "steps_ok Y d1 (b + 2 * int k + 1)"
    "1 < n \<longrightarrow> known Y d1 n k" "\<forall>n' k'. 0 \<le> n' \<longrightarrow> known Y db n' k' \<longrightarrow> known Y d1 n' k'"
    using dostep_one_runs [OF Cons.prems(1) k(1) _ _ Cons.prems(3) small, of fuel] k(2) assms(3,4) by auto
  have "steps_ok Y d1 (b + (2 * int kmax + 1))"
    using d1(2) k(2) counter_mono [of Y d1 _ "b + 2 * int k + 1" "b + (2 * int kmax + 1)"] by (simp add: steps_ok_def)
  from Cons.IH [OF this] obtain db' where db': "dostep_loop Y fuel ns d1 = Inr (Go True, db')"
    "steps_ok Y db' (b + (2 * int kmax + 1) + int (length ns) * (2 * int kmax + 1))"
    "\<forall>n \<in> set ns. 1 < n \<longrightarrow> (\<exists>k. path k n \<and> known Y db' n k)"
    "\<forall>n' k'. 0 \<le> n' \<longrightarrow> known Y d1 n' k' \<longrightarrow> known Y db' n' k'"
    using Cons.prems(2-4) len by auto
  have eq: "b + (2 * int kmax + 1) + int (length ns) * (2 * int kmax + 1) = b + int (length (n # ns)) * (2 * int kmax + 1)"
    unfolding len by simp
  show ?case
  proof (intro exI [of _ db'] conjI)
    show "steps_ok Y db' (b + int (length (n # ns)) * (2 * int kmax + 1))" using db'(2) unfolding eq .
  qed (use d1 db'(1,3,4) k(1) in auto)
qed simp

end

end
