(* ===== verification/ThreeN1Blocks.thy ===== *)
theory ThreeN1Blocks
  imports ThreeN1
begin

text \<open>
  The blocks of a range in v62002/inref/simpleapi_threeen1f.c: what ^limits holds after the
  parent has set it, the bounds a process reads from it, and the processes' claims.
\<close>

section \<open>The limits\<close>

text \<open>The number of blocks from \<open>tmp\<close> to \<open>j\<close>, and the limit of the one with number \<open>c\<close>.\<close>

definition blocks :: "int \<Rightarrow> int \<Rightarrow> int \<Rightarrow> int" where
  "blocks blk tmp j = (j - tmp + blk - 1) div blk"

definition limit :: "int \<Rightarrow> int \<Rightarrow> int \<Rightarrow> int \<Rightarrow> int" where
  "limit blk tmp j c = min j (tmp + c * blk)"

lemma blocks_step:
  assumes "1 \<le> blk" "tmp < j"
  shows "blocks blk tmp j = blocks blk (min j (tmp + blk)) j + 1"
proof (cases "tmp + blk \<le> j")
  case True
  have "blocks blk tmp j = ((j - (tmp + blk) + blk - 1) + blk) div blk"
    unfolding blocks_def by (rule arg_cong [of _ _ "\<lambda>x. x div blk"]) simp
  also have "\<dots> = blocks blk (tmp + blk) j + 1"
    unfolding blocks_def using assms(1) by (intro div_add_self2) simp
  finally show ?thesis using True by (simp add: min_absorb2)
next
  case False
  then have "(j - tmp + blk - 1) div blk = 1" "(blk - 1) div blk = 0"
    using assms by (auto intro: int_div_pos_eq div_pos_pos_trivial)
  with False show ?thesis by (simp add: blocks_def min_def)
qed

lemma blocks_end: "1 \<le> blk \<Longrightarrow> blocks blk j j = 0"
  by (simp add: blocks_def)

lemma blocks_nonneg: "1 \<le> blk \<Longrightarrow> tmp \<le> j \<Longrightarrow> 0 \<le> blocks blk tmp j"
  by (simp add: blocks_def pos_imp_zdiv_nonneg_iff)

lemma blocks_mult:
  assumes "1 \<le> blk"
  shows "blocks blk tmp j * blk \<le> j - tmp + blk - 1"
  using assms div_mult_mod_eq [of "j - tmp + blk - 1" blk] pos_mod_sign [of blk "j - tmp + blk - 1"]
  unfolding blocks_def by linarith

lemma blocks_le:
  assumes "1 \<le> blk" "tmp \<le> j"
  shows "blocks blk tmp j \<le> j - tmp"
proof (rule ccontr)
  assume "\<not> ?thesis"
  then have "(j - tmp + 1) * blk \<le> blocks blk tmp j * blk" using assms(1) by (intro mult_right_mono) auto
  moreover have "(j - tmp) * 1 \<le> (j - tmp) * blk" using assms by (intro mult_left_mono) auto
  ultimately show False using blocks_mult [OF assms(1), of tmp j] by (simp add: algebra_simps)
qed

text \<open>A limit before the last is short of the end.\<close>

lemma limit_inner:
  assumes "1 \<le> blk" "c < blocks blk tmp j"
  shows "limit blk tmp j c = tmp + c * blk" "tmp + c * blk < j"
proof -
  have "(c + 1) * blk \<le> blocks blk tmp j * blk" using assms by (intro mult_right_mono) auto
  also have "\<dots> \<le> j - tmp + blk - 1" using blocks_mult [OF assms(1)] .
  finally show "tmp + c * blk < j" by (simp add: algebra_simps)
  then show "limit blk tmp j c = tmp + c * blk" by (simp add: limit_def)
qed

lemma limit_last:
  assumes "1 \<le> blk" "tmp \<le> j"
  shows "limit blk tmp j (blocks blk tmp j) = j"
proof -
  have "j - tmp + blk - 1 = blocks blk tmp j * blk + (j - tmp + blk - 1) mod blk"
    unfolding blocks_def by simp
  moreover have "(j - tmp + blk - 1) mod blk < blk" using assms(1) by simp
  ultimately have "j \<le> tmp + blocks blk tmp j * blk" by linarith
  then show ?thesis by (simp add: limit_def)
qed

text \<open>What ^limits holds: \<open>n\<close> limits, and nothing below them.\<close>

definition limits_are :: "'db ydb \<Rightarrow> 'db \<Rightarrow> int \<Rightarrow> (int \<Rightarrow> int) \<Rightarrow> bool" where
  "limits_are Y db n f \<longleftrightarrow> (\<forall>c. node Y db ''^limits'' [dec c] = (if 1 \<le> c \<and> c \<le> n then Some (dec (f c)) else None)) \<and>
     (\<forall>u v r. node Y db ''^limits'' (u # v # r) = None)"

context calm_db
begin

lemma limits_loop_runs:
  assumes "1 \<le> blk" "tmp \<le> j" "is_int32 tmp" "is_int32 (j + blk)" "nat (blocks blk tmp j) < fuel"
  shows "\<exists>db'. limits_loop Y fuel blk j tmp count db = Inr (Go True, db') \<and>
     (\<forall>c. node Y db' ''^limits'' [dec c] =
        (if count \<le> c \<and> c < count + blocks blk tmp j then Some (dec (limit blk tmp j (c - count + 1)))
         else node Y db ''^limits'' [dec c])) \<and>
     (\<forall>s. (\<forall>c. s \<noteq> [dec c]) \<longrightarrow> node Y db' ''^limits'' s = node Y db ''^limits'' s)"
  using assms(2-5)
proof (induction fuel arbitrary: tmp count db)
  case (Suc fuel)
  show ?case
  proof (cases "tmp = j")
    case True
    then show ?thesis using assms(1) by (intro exI [of _ db]) (auto simp: blocks_end)
  next
    case False
    then have lt: "tmp < j" using Suc.prems(1) by simp
    let ?tmp = "min j (tmp + blk)"
    let ?db = "put Y ''^limits'' [dec count] (dec ?tmp) db"
    have wrap: "int32 (tmp + blk) = tmp + blk"
      using lt Suc.prems(2,3) assms(1) by (intro int32_id) (simp add: is_int32_def)
    have t: "?tmp \<le> j" "is_int32 ?tmp" using lt Suc.prems(2,3) assms(1) by (auto simp: is_int32_def min_def)
    have fewer: "blocks blk tmp j = blocks blk ?tmp j + 1" using blocks_step [OF assms(1) lt] .
    moreover have "0 \<le> blocks blk ?tmp j" using blocks_nonneg [OF assms(1) t(1)] .
    ultimately have "nat (blocks blk ?tmp j) < fuel" using Suc.prems(4) by simp
    from Suc.IH [OF t Suc.prems(3) this, of "count + 1" ?db] obtain db' where
      db': "limits_loop Y fuel blk j ?tmp (count + 1) ?db = Inr (Go True, db')"
      "\<forall>c. node Y db' ''^limits'' [dec c] =
        (if count + 1 \<le> c \<and> c < count + 1 + blocks blk ?tmp j then Some (dec (limit blk ?tmp j (c - (count + 1) + 1)))
         else node Y ?db ''^limits'' [dec c])"
      "\<forall>s. (\<forall>c. s \<noteq> [dec c]) \<longrightarrow> node Y db' ''^limits'' s = node Y ?db ''^limits'' s"
      by blast
    have lim: "limit blk ?tmp j (c - (count + 1) + 1) = limit blk tmp j (c - count + 1)" if "count < c" for c
    proof -
      define p where "p = (c - count) * blk"
      have "1 * blk \<le> (c - count) * blk" using that assms(1) by (intro mult_right_mono) auto
      then have "blk \<le> p" by (simp add: p_def)
      then have "min j (min j (tmp + blk) + p) = min j (tmp + (p + blk))" using assms(1) by (auto simp: min_def)
      moreover have "c - (count + 1) + 1 = c - count" "(c - count + 1) * blk = p + blk"
        by (simp_all add: p_def distrib_right)
      ultimately show ?thesis unfolding limit_def by (simp add: p_def)
    qed
    have "node Y db' ''^limits'' [dec c] =
        (if count \<le> c \<and> c < count + blocks blk tmp j then Some (dec (limit blk tmp j (c - count + 1)))
         else node Y db ''^limits'' [dec c])" for c
      using db'(2) [rule_format, of c] fewer blocks_nonneg [OF assms(1) t(1)] lim [of c]
      by (cases "c = count") (auto simp: limit_def)
    moreover have "node Y db' ''^limits'' s = node Y db ''^limits'' s" if "\<forall>c. s \<noteq> [dec c]" for s
      using db'(3) that by auto
    ultimately show ?thesis using False db'(1) by (intro exI [of _ db']) (simp add: wrap Let_def)
  qed
qed simp

lemma define_limits_runs:
  assumes "1 \<le> blk" "i - 1 \<le> j" "is_int32 (i - 1)" "is_int32 (j + blk)" "nat (j - i + 1) < fuel"
  shows "\<exists>db'. define_limits Y fuel i j blk db = Inr (Go True, db') \<and>
     limits_are Y db' (blocks blk (i - 1) j) (limit blk (i - 1) j)"
proof -
  let ?d = "deleted Y ''^limits'' [] db"
  have "nat (blocks blk (i - 1) j) < fuel" using blocks_le [OF assms(1,2)] assms(5) by linarith
  from limits_loop_runs [OF assms(1-4) this, of 1 ?d] obtain db' where db':
    "limits_loop Y fuel blk j (i - 1) 1 ?d = Inr (Go True, db')"
    "\<forall>c. node Y db' ''^limits'' [dec c] =
        (if 1 \<le> c \<and> c < 1 + blocks blk (i - 1) j then Some (dec (limit blk (i - 1) j (c - 1 + 1)))
         else node Y ?d ''^limits'' [dec c])"
    "\<forall>s. (\<forall>c. s \<noteq> [dec c]) \<longrightarrow> node Y db' ''^limits'' s = node Y ?d ''^limits'' s"
    by blast
  then have "limits_are Y db' (blocks blk (i - 1) j) (limit blk (i - 1) j)"
    by (auto simp: limits_are_def)
  with db'(1) show ?thesis by (simp add: define_limits_def)
qed

text \<open>The bounds a process reads.\<close>

lemma block_bounds_runs:
  assumes "limits_are Y db n f" "1 \<le> c" "c \<le> n" "\<And>c. 1 \<le> c \<Longrightarrow> c \<le> n \<Longrightarrow> is_int32 (f c)"
  shows "block_bounds Y allfirst c db = Inr (Go (if c = 1 then allfirst else f (c - 1) + 1, f c), db)"
proof -
  have read: "get_int Y 256 ''^limits'' [dec c'] db = Inr (Go (f c'), db)" if "1 \<le> c'" "c' \<le> n" for c'
  proof -
    have "node Y db ''^limits'' [dec c'] = Some (dec (f c'))" using assms(1) that by (simp add: limits_are_def)
    moreover have "length (dec (f c')) < 256" using length_dec [OF assms(4) [OF that]] by simp
    ultimately show ?thesis using get_text_runs(2) assms(4) [OF that] by simp
  qed
  show ?thesis
  proof (cases "c = 1")
    case True
    have "node Y db ''^limits'' [dec 0] = None" using assms(1) by (simp add: limits_are_def)
    then have "fst (ydb_get_s Y db ''^limits'' [dec 0]) = YDB_ERR_GVUNDEF Y" by (simp add: got_undef undef_status_def)
    with True read [of 1] assms(3) show ?thesis by (simp add: block_bounds_def MAXVALUELEN_def)
  next
    case False
    then have "node Y db ''^limits'' [dec (c - 1)] = Some (dec (f (c - 1)))"
      using assms(1-3) by (simp add: limits_are_def)
    then have "fst (ydb_get_s Y db ''^limits'' [dec (c - 1)]) = YDB_OK" by (simp add: got)
    with False read [of "c - 1"] read [of c] assms(2,3) show ?thesis by (simp add: block_bounds_def MAXVALUELEN_def)
  qed
qed

end

section \<open>The claims\<close>

text \<open>Whether a process has incremented the counter of block \<open>c\<close>.\<close>

fun passed :: "doblk_pc \<Rightarrow> int \<Rightarrow> bool" where
  "passed (Look t) c \<longleftrightarrow> c < t"
| "passed (Claim t) c \<longleftrightarrow> c < t"
| "passed (Work t) c \<longleftrightarrow> c \<le> t"
| "passed Quit c \<longleftrightarrow> True"

fun pc_range :: "int \<Rightarrow> doblk_pc \<Rightarrow> bool" where
  "pc_range n (Look t) \<longleftrightarrow> 1 \<le> t \<and> t \<le> n + 1"
| "pc_range n (Claim t) \<longleftrightarrow> 1 \<le> t \<and> t \<le> n"
| "pc_range n (Work t) \<longleftrightarrow> 1 \<le> t \<and> t \<le> n"
| "pc_range n Quit \<longleftrightarrow> True"

definition passers :: "('p \<Rightarrow> doblk_pc) \<Rightarrow> int \<Rightarrow> 'p set" where
  "passers pc c = {p. passed (pc p) c}"

text \<open>The blocks' limits are there, and a counter of how many processes have passed each block.\<close>

definition counters_ok :: "'db ydb \<Rightarrow> int \<Rightarrow> 'db \<Rightarrow> ('p \<Rightarrow> doblk_pc) \<Rightarrow> bool" where
  "counters_ok Y n db pc \<longleftrightarrow> (\<forall>c. node Y db ''^limits'' [dec c] \<noteq> None \<longleftrightarrow> 1 \<le> c \<and> c \<le> n) \<and>
     (\<forall>c. 1 \<le> c \<longrightarrow> c \<le> n \<longrightarrow> node Y db ''^limits'' [dec c, dec 1] =
        (if passers pc c = {} then None else Some (dec (int (card (passers pc c)))))) \<and>
     (\<forall>u v r. node Y db ''^limits'' (u # v # r) \<noteq> None \<longrightarrow> (\<exists>c. 1 \<le> c \<and> c \<le> n \<and> u = dec c))"

definition claims_ok :: "int \<Rightarrow> ('p \<Rightarrow> doblk_pc) \<Rightarrow> int list \<Rightarrow> bool" where
  "claims_ok n pc claimed \<longleftrightarrow> distinct claimed \<and> (\<forall>c. c \<in> set claimed \<longleftrightarrow> 1 \<le> c \<and> c \<le> n \<and> passers pc c \<noteq> {}) \<and>
     (\<forall>p. pc_range n (pc p)) \<and> (\<forall>p q c. pc p = Work c \<longrightarrow> pc q = Work c \<longrightarrow> p = q)"

lemma passers_upd:
  "passers (pc(p := x)) c = (if passed x c then insert p (passers pc c) else passers pc c - {p})"
  by (auto simp: passers_def)

lemma passers_same:
  assumes "passed x c = passed (pc p) c"
  shows "passers (pc(p := x)) c = passers pc c"
  using assms by (auto simp: passers_def)

inductive_cases doblk_step_from: "doblk_step Y (db, pc) new st"

lemma doblk_stepE:
  assumes "doblk_step Y (db, pc) new st"
  obtains (look) p tmp d db' where "new = []" "st = (db', pc(p := if d = 0 then Quit else Claim tmp))"
      "pc p = Look tmp" "data_ok Y ''^limits'' [dec tmp] db = Inr (Go d, db')"
    | (claim) p tmp cnt db' where "new = (if atoi cnt = 1 then [tmp] else [])"
      "st = (db', pc(p := if atoi cnt = 1 then Work tmp else Look (tmp + 1)))"
      "pc p = Claim tmp" "incr_ok Y ''^limits'' [dec tmp, dec 1] None db = Inr (Go cnt, db')"
    | (work) p tmp db' where "new = []" "st = (db', pc)" "pc p = Work tmp"
      "\<And>s. node Y db' ''^limits'' s = node Y db ''^limits'' s"
    | (worked) p tmp where "new = []" "st = (db, pc(p := Look (tmp + 1)))" "pc p = Work tmp"
  apply (rule doblk_step_from [OF assms])
  subgoal by (rule look)
  subgoal by (rule claim)
  subgoal by (rule work)
  subgoal by (rule worked)
  done

context calm_db
begin

text \<open>A step that passes no block keeps the claims.\<close>

lemma claims_same:
  assumes "claims_ok n pc claimed" "counters_ok Y n db pc" "pc_range n x"
    and "\<And>c. 1 \<le> c \<Longrightarrow> c \<le> n \<Longrightarrow> passed x c = passed (pc p) c" "\<And>c. x \<noteq> Work c"
  shows "claims_ok n (pc(p := x)) claimed" "counters_ok Y n db (pc(p := x))"
proof -
  have same: "passers (pc(p := x)) c = passers pc c" if "1 \<le> c" "c \<le> n" for c
    using assms(4) [OF that] by (rule passers_same [of x c pc p])
  show "claims_ok n (pc(p := x)) claimed"
    unfolding claims_ok_def
  proof (intro conjI allI impI)
    show "distinct claimed" using assms(1) unfolding claims_ok_def by blast
  next
    fix c
    show "c \<in> set claimed \<longleftrightarrow> 1 \<le> c \<and> c \<le> n \<and> passers (pc(p := x)) c \<noteq> {}"
      using assms(1) same [of c] unfolding claims_ok_def by auto
  next
    fix q
    show "pc_range n ((pc(p := x)) q)" using assms(1,3) unfolding claims_ok_def by simp
  next
    fix q q' c
    assume "(pc(p := x)) q = Work c" "(pc(p := x)) q' = Work c"
    then show "q = q'" using assms(1,5) unfolding claims_ok_def by (auto split: if_splits)
  qed
  show "counters_ok Y n db (pc(p := x))" using assms(2) same unfolding counters_ok_def by simp
qed

lemma step_keeps_claims:
  fixes pc :: "'p :: finite \<Rightarrow> doblk_pc"
  assumes "doblk_step Y (db, pc) new st" "claims_ok n pc claimed" "counters_ok Y n db pc" "int CARD('p) < 2 ^ 31"
  shows "claims_ok n (snd st) (claimed @ new)" "counters_ok Y n (fst st) (snd st)"
proof -
  have "claims_ok n (snd st) (claimed @ new) \<and> counters_ok Y n (fst st) (snd st)"
    using assms(1)
  proof (cases rule: doblk_stepE)
    case (look p tmp data_value db')
    note pc = look(3) and call = look(4)
    have t: "1 \<le> tmp" "tmp \<le> n + 1" using assms(2) pc unfolding claims_ok_def by (metis pc_range.simps(1))+
    have d: "db' = db" "data_value = (if node Y db ''^limits'' [dec tmp] = None then 0 else 1) +
        (if below Y db ''^limits'' [dec tmp] then 10 else 0)"
      using call by auto
    have nx: "(data_value = 0) \<longleftrightarrow> tmp = n + 1"
    proof (cases "tmp = n + 1")
      case True
      have A: "\<forall>c. node Y db ''^limits'' [dec c] \<noteq> None \<longleftrightarrow> 1 \<le> c \<and> c \<le> n"
        and C: "\<forall>u v r. node Y db ''^limits'' (u # v # r) \<noteq> None \<longrightarrow> (\<exists>c. 1 \<le> c \<and> c \<le> n \<and> u = dec c)"
        using assms(3) unfolding counters_ok_def by blast+
      have "node Y db ''^limits'' [dec tmp] = None" using spec [OF A, of tmp] True by simp
      moreover have "\<not> below Y db ''^limits'' [dec tmp]"
      proof
        assume "below Y db ''^limits'' [dec tmp]"
        then obtain u r where "node Y db ''^limits'' (dec tmp # u # r) \<noteq> None" by (auto simp: below_def)
        then show False using C True by fastforce
      qed
      ultimately show ?thesis using True d by simp
    next
      case False
      then have "node Y db ''^limits'' [dec tmp] \<noteq> None" using assms(3) t unfolding counters_ok_def by auto
      with False d show ?thesis by auto
    qed
    have "claims_ok n (pc(p := if data_value = 0 then Quit else Claim tmp)) claimed \<and>
        counters_ok Y n db (pc(p := if data_value = 0 then Quit else Claim tmp))"
      using nx t pc by (intro conjI claims_same [OF assms(2,3)]) (auto split: if_splits)
    then show ?thesis using look(1,2) d(1) by simp
  next
    case (claim p tmp cnt db')
    have t: "1 \<le> tmp" "tmp \<le> n" using assms(2) claim(3) unfolding claims_ok_def by (metis pc_range.simps(2))+
    let ?k = "card (passers pc tmp)"
    have p: "p \<notin> passers pc tmp" using claim(3) by (simp add: passers_def)
    have kle: "?k < CARD('p)" using p by (intro psubset_card_mono) auto
    have node: "node Y db ''^limits'' [dec tmp, dec 1] = (if passers pc tmp = {} then None else Some (dec (int ?k)))"
      using assms(3) t unfolding counters_ok_def by blast
    have pre: "case node Y db ''^limits'' [dec tmp, dec 1] of None \<Rightarrow> int ?k = 0 | Some v \<Rightarrow> v = dec (int ?k)"
      "\<bar>int ?k\<bar> < 10 ^ 18" "case None of None \<Rightarrow> (1 :: int) = 1 | Some t \<Rightarrow> counts_as t 1" "\<bar>1 :: int\<bar> < 10 ^ 18"
      using kle assms(4) by (auto simp: node)
    have cnt: "cnt = dec (int ?k + 1)" "db' = bumped Y ''^limits'' [dec tmp, dec 1] None db"
      using claim(4) incr_runs(1) [OF pre] by auto
    have i32: "is_int32 (int ?k + 1)" using kle assms(4) by (simp add: is_int32_def)
    then have one: "atoi cnt = 1 \<longleftrightarrow> passers pc tmp = {}" by (simp add: cnt(1) card_eq_0_iff)
    let ?x = "if atoi cnt = 1 then Work tmp else Look (tmp + 1)"
    have pt: "passed ?x tmp" "\<And>c. c \<noteq> tmp \<Longrightarrow> passed ?x c = passed (pc p) c" using claim(3) by auto
    have passers: "passers (pc(p := ?x)) c = (if c = tmp then insert p (passers pc tmp) else passers pc c)" for c
      using pt passers_same [of ?x c pc p] by (auto simp: passers_upd)
    have card: "card (insert p (passers pc tmp)) = ?k + 1" using p by simp
    have "counters_ok Y n db' (pc(p := ?x))"
      using assms(3) t unfolding counters_ok_def passers cnt(2) incr_bumped(2) [OF pre]
      by (auto simp: card simp del: card_insert_disjoint) blast
    moreover have "claims_ok n (pc(p := ?x)) (claimed @ (if atoi cnt = 1 then [tmp] else []))"
      unfolding claims_ok_def passers
    proof (intro conjI allI impI)
      show "distinct (claimed @ (if atoi cnt = 1 then [tmp] else []))"
        using assms(2) one unfolding claims_ok_def by auto
    next
      fix c
      show "c \<in> set (claimed @ (if atoi cnt = 1 then [tmp] else [])) \<longleftrightarrow>
          1 \<le> c \<and> c \<le> n \<and> (if c = tmp then insert p (passers pc tmp) else passers pc c) \<noteq> {}"
        using assms(2) one t unfolding claims_ok_def by auto
    next
      fix q
      show "pc_range n ((pc(p := ?x)) q)" using assms(2) t unfolding claims_ok_def by auto
    next
      fix q q' c
      assume "(pc(p := ?x)) q = Work c" "(pc(p := ?x)) q' = Work c"
      moreover have "q \<in> passers pc c" if "pc q = Work c" for q using that by (simp add: passers_def)
      ultimately show "q = q'" using assms(2) one unfolding claims_ok_def by (auto split: if_splits)
    qed
    ultimately show ?thesis using claim(1,2) by simp
  next
    case (work p tmp db')
    have "counters_ok Y n db' pc" using assms(3) work(4) unfolding counters_ok_def by simp
    then show ?thesis using work(1,2) assms(2) by simp
  next
    case (worked p tmp)
    have "1 \<le> tmp" "tmp \<le> n" using assms(2) worked(3) unfolding claims_ok_def by (metis pc_range.simps(3))+
    then show ?thesis
      using worked claims_same [OF assms(2,3), of "Look (tmp + 1)" p] by auto
  qed
  then show "claims_ok n (snd st) (claimed @ new)" "counters_ok Y n (fst st) (snd st)" by simp_all
qed

lemma run_keeps_claims:
  fixes st :: "'db \<times> ('p :: finite \<Rightarrow> doblk_pc)"
  assumes "doblk_run Y db0 claimed st" "limits_are Y db0 n f" "0 \<le> n" "int CARD('p) < 2 ^ 31"
  shows "claims_ok n (snd st) claimed \<and> counters_ok Y n (fst st) (snd st)"
  using assms(1)
proof (induction rule: doblk_run.induct)
  case start
  have "passers (\<lambda>_ :: 'p. Look 1) c = {}" if "1 \<le> c" for c using that by (auto simp: passers_def)
  then show ?case using assms(2,3) unfolding claims_ok_def counters_ok_def limits_are_def by auto
next
  case (step claimed st new st')
  then show ?case using step_keeps_claims [of "fst st" "snd st" new st' n claimed] assms(4) by simp
qed

end

end
