(* ===== verification/ThreeN1Props.thy ===== *)
theory ThreeN1Props
  imports ThreeN1Steps ThreeN1Blocks
begin

text \<open>
  The properties of v62002/inref/simpleapi_threeen1f.c: numbers spelled as words are read
  back, the blocks partition the range and are worked on by one process each, the table of
  steps and the maximum are right, and what goes wrong between two lines of input.
\<close>

section \<open>The digits\<close>

lemma digitstrings_distinct: "i < 10 \<Longrightarrow> j < 10 \<Longrightarrow> digitstrings ! i = digitstrings ! j \<longleftrightarrow> i = j"
proof -
  have "distinct digitstrings" "length digitstrings = 10" by (simp_all add: digitstrings_def)
  then show "i < 10 \<Longrightarrow> j < 10 \<Longrightarrow> ?thesis" by (simp add: nth_eq_iff_index_eq)
qed

context calm_db
begin

lemma digitsinit_runs: "\<exists>db'. digitsinit Y db = Inr (Go (), db') \<and> has_digits Y db'"
proof -
  have "\<exists>db'. block (concat (map (\<lambda>i. [set_ok Y ''di'' [digitstrings ! i] (dec (int i)),
       set_ok Y ''ds'' [dec (int i)] (digitstrings ! i)]) [0..<n])) db = Inr (Go (), db') \<and>
     (\<forall>i<n. node Y db' ''ds'' [dec (int i)] = Some (digitstrings ! i) \<and>
        node Y db' ''di'' [digitstrings ! i] = Some (dec (int i)))" if "n \<le> 10" for n
    using that
  proof (induction n)
    case (Suc n)
    have "n \<le> 10" using Suc.prems by simp
    from Suc.IH [OF this] obtain d where d: "block (concat (map (\<lambda>i. [set_ok Y ''di'' [digitstrings ! i] (dec (int i)),
        set_ok Y ''ds'' [dec (int i)] (digitstrings ! i)]) [0..<n])) db = Inr (Go (), d)"
      "\<forall>i<n. node Y d ''ds'' [dec (int i)] = Some (digitstrings ! i) \<and>
        node Y d ''di'' [digitstrings ! i] = Some (dec (int i))" by blast
    let ?d = "put Y ''ds'' [dec (int n)] (digitstrings ! n) (put Y ''di'' [digitstrings ! n] (dec (int n)) d)"
    have nodes: "\<forall>i<Suc n. node Y ?d ''ds'' [dec (int i)] = Some (digitstrings ! i) \<and>
        node Y ?d ''di'' [digitstrings ! i] = Some (dec (int i))"
      using d(2) Suc.prems by (auto simp: less_Suc_eq digitstrings_distinct)
    have "block (concat (map (\<lambda>i. [set_ok Y ''di'' [digitstrings ! i] (dec (int i)),
        set_ok Y ''ds'' [dec (int i)] (digitstrings ! i)]) [0..<Suc n])) db =
      block [set_ok Y ''di'' [digitstrings ! n] (dec (int n)), set_ok Y ''ds'' [dec (int n)] (digitstrings ! n)] d"
      by (simp add: block_append d(1) del: set_runs block.simps)
    also have "\<dots> = Inr (Go (), ?d)" by simp
    finally show ?case using nodes by blast
  qed simp
  from this [of 10] show ?thesis by (simp add: digitsinit_def has_digits_def)
qed

text \<open>Spelling fails where the text does not fit into its buffer.\<close>

lemma inttostr_loop_full:
  assumes "has_digits Y db" "\<forall>d \<in> set ds. is_digit d" "256 \<le> length buff + length (spaced ds)" "length buff < 256"
  shows "inttostr_loop Y ds False buff db = Inl AssertFailed"
  using assms
proof (induction ds arbitrary: buff)
  case (Cons d ds)
  have w: "nul_free (word_of d)" "length (word_of d) \<le> 18" using Cons.prems(2) word_of_plain by auto
  have "get_text Y 256 ''ds'' [dec (uc d - 48)] db = Inr (Go (word_of d), db)"
    using digit_word(1) [OF Cons.prems(1)] Cons.prems(2) w by (intro get_text_runs) auto
  with Cons w show ?case
    by (cases "length buff + length (word_of d) + 1 < 256") (auto simp: MAXVALUELEN_def)
qed simp

lemma spelling:
  assumes "has_digits Y db" "0 \<le> n"
  shows "inttostr Y n db = (if length (words n) < 256 then Inr (Go (words n), db) else Inl AssertFailed)"
proof -
  obtain d ds where n: "dec n = d # ds" by (cases "dec n") auto
  have dig: "is_digit d" "\<forall>d \<in> set ds. is_digit d" using dec_digits [OF assms(2)] n by auto
  have len: "length (word_of d) < 256" using word_of_plain(4) [OF dig(1)] by simp
  have "get_text Y 256 ''ds'' [dec (uc d - 48)] db = Inr (Go (word_of d), db)"
    using digit_word(1) [OF assms(1) dig(1)] len by (rule get_text_runs)
  with len dig assms show ?thesis
    using inttostr_loop_full [OF assms(1) dig(2), of "word_of d"] inttostr_loop_runs [OF assms(1) dig(2), of "word_of d"]
    by (auto simp: inttostr_def n words_def word_of_plain MAXVALUELEN_def)
qed

end

text \<open>A database with digits and counters for the witnesses.\<close>

definition fresh_db :: "string \<times> string list \<Rightarrow> string option" where
  "fresh_db = (\<lambda>(g, s).
     if s = [] \<and> g \<in> {''reads'', ''updates'', ''highest''} then Some (dec 0)
     else if g = ''ds'' \<and> s \<noteq> [] \<and> tl s = [] then map_of (zip (path_keys 10) digitstrings) (hd s)
     else if g = ''di'' \<and> s \<noteq> [] \<and> tl s = [] then map_of (zip digitstrings (path_keys 10)) (hd s)
     else None)"

lemma fresh_digits: "has_digits map_ydb fresh_db"
proof -
  have "distinct digitstrings" "length digitstrings = 10" by (simp_all add: digitstrings_def)
  then have "map_of (zip digitstrings (path_keys 10)) (digitstrings ! i) = Some (dec (int i))"
    "map_of (zip (path_keys 10) digitstrings) (dec (int i)) = Some (digitstrings ! i)" if "i < 10" for i
    using map_of_zip_nth [of "path_keys 10" digitstrings i] map_of_zip_nth [of digitstrings "path_keys 10" i] that
    by (simp_all add: path_keys_simps) (simp_all add: path_keys_def)
  then show ?thesis by (simp add: has_digits_def fresh_db_def)
qed

lemma fresh_steps: "steps_ok map_ydb fresh_db 0"
proof -
  have "table_ok map_ydb fresh_db" "result_ok map_ydb fresh_db"
    by (auto simp: table_ok_def result_ok_def known_def fresh_db_def)
  moreover have "counter map_ydb fresh_db ''reads'' 0" "counter map_ydb fresh_db ''updates'' 0"
    by (auto simp: counter_def fresh_db_def)
  ultimately show ?thesis using fresh_digits by (auto simp: steps_ok_def highest_ok_def fresh_db_def)
qed

section \<open>Between two lines of input\<close>

context calm_db
begin

lemma dostep_one_known:
  assumes "steps_ok Y db b \<or> has_digits Y db \<and> table_ok Y db \<and> counter Y db ''reads'' b" "b < 10 ^ 17"
    and "n = 1 \<or> 1 < n \<and> n < 10 ^ 13 \<and> known Y db n k"
  shows "\<exists>db'. dostep_one Y (Suc f) n db = Inr (Go True, db') \<and> only_changed Y {''reads'', ''currpath''} db db' \<and>
     counter Y db' ''reads'' (b + 1)"
proof -
  let ?d = "deleted Y ''currpath'' [] db"
  let ?d1 = "bumped Y ''reads'' [] None ?d"
  have "counter Y ?d ''reads'' b" using assms(1) by (auto simp: steps_ok_def counter_def)
  note c = counter_bump [OF this assms(2)]
  obtain v where v: "incr_ok Y ''reads'' [] None ?d = Inr (Go v, ?d1)" using c(1) by blast
  have ch: "only_changed Y {''reads'', ''currpath''} db ?d1" using c(3) by (auto simp: only_changed_def)
  have dig: "has_digits Y ?d1" using digits_kept [OF ch] assms(1) by (auto simp: steps_ok_def)
  have "path_loop Y (Suc f) n 0 ?d = Inr (Go (Some (n, 0)), ?d1)"
  proof (cases "n = 1")
    case False
    then have n: "1 < n" "n < 10 ^ 13" "known Y ?d1 n k" using assms(3) known_kept [OF ch] by auto
    have "inttostr Y n ?d1 = Inr (Go (words n), ?d1)" using inttostr_runs [OF dig] n by simp
    with n(3) False show ?thesis by (simp add: v known_def)
  qed (simp add: v)
  then show ?thesis using ch c(2) by (intro exI [of _ ?d1]) (simp add: dostep_one_def)
qed

lemma dostep_loop_known:
  assumes "has_digits Y db" "table_ok Y db" "counter Y db ''reads'' b" "b + int (length ns) < 10 ^ 17"
    and "\<forall>n \<in> set ns. n = 1 \<or> 1 < n \<and> n < 10 ^ 13 \<and> (\<exists>k. known Y db n k)"
  shows "\<exists>db'. dostep_loop Y (Suc f) ns db = Inr (Go True, db') \<and> only_changed Y {''reads'', ''currpath''} db db'"
  using assms
proof (induction ns arbitrary: db b)
  case (Cons n ns)
  obtain k where k: "n = 1 \<or> 1 < n \<and> n < 10 ^ 13 \<and> known Y db n k" using Cons.prems(5) by auto
  have b: "b < 10 ^ 17" using Cons.prems(4) by simp
  have "steps_ok Y db b \<or> has_digits Y db \<and> table_ok Y db \<and> counter Y db ''reads'' b" using Cons.prems by simp
  from dostep_one_known [OF this b k, of f] obtain d where d: "dostep_one Y (Suc f) n db = Inr (Go True, d)"
    "only_changed Y {''reads'', ''currpath''} db d" "counter Y d ''reads'' (b + 1)" by blast
  have "has_digits Y d" "table_ok Y d" "known Y d = known Y db"
    using digits_kept [OF d(2)] table_kept [OF d(2)] known_kept [OF d(2)] Cons.prems by simp_all
  with Cons.IH [OF this(1,2) d(3)] Cons.prems obtain db' where
    "dostep_loop Y (Suc f) ns d = Inr (Go True, db')" "only_changed Y {''reads'', ''currpath''} d db'" by auto
  then show ?case using d(1,2) by (intro exI [of _ db']) (simp add: only_changed_def)
qed auto

lemma dbinit_runs:
  "\<exists>db'. dbinit Y db = Inr (Go (), db') \<and> node Y db' ''^result'' [] = Some (dec 0) \<and>
     (\<forall>g s. s \<noteq> [] \<or> take 1 g \<noteq> ''^'' \<longrightarrow> node Y db' g s = node Y db g s)"
  by (auto simp: dbinit_def)

end

section \<open>Properties\<close>

text \<open>
  C18: after \<open>digitsinit\<close>, a number below ten to the thirteenth that \<open>inttostr\<close> has spelled
  is read back by \<open>strtoint\<close> as it was.
\<close>

theorem words_roundtrip:
  assumes "ydb_good Y" "0 \<le> n" "n < 10 ^ 13"
  shows "\<exists>db'. digitsinit Y db = Inr (Go (), db') \<and> andThen (inttostr Y n) (strtoint Y) db' = Inr (Go n, db')"
proof -
  have Y: "calm_db Y" using assms(1) by (rule calm_db.intro)
  obtain db' where "digitsinit Y db = Inr (Go (), db')" "has_digits Y db'"
    using calm_db.digitsinit_runs [OF Y] by blast
  then show ?thesis
    using calm_db.inttostr_runs [OF Y _ assms(2,3)] calm_db.strtoint_runs [OF Y _ assms(2,3)] by auto
qed

theorem words_roundtrip_witness:
  "\<exists>db'. digitsinit map_ydb (\<lambda>_. None) = Inr (Go (), db') \<and>
     andThen (inttostr map_ydb 9780) (strtoint map_ydb) db' = Inr (Go 9780, db')"
  using words_roundtrip [of map_ydb 9780 "\<lambda>_. None"] by simp

text \<open>
  \<open>inttostr\<close> spells a number exactly when the text is shorter than its buffer of 256
  bytes; a longer one fails an assertion, and nothing is written out of bounds.
\<close>

theorem spelling_bounded:
  assumes "ydb_good Y" "has_digits Y db" "0 \<le> n"
  shows "inttostr Y n db = (if length (words n) < 256 then Inr (Go (words n), db) else Inl AssertFailed)"
  using calm_db.spelling [OF calm_db.intro [OF assms(1)] assms(2,3)] .

theorem spelling_bounded_witness: "inttostr map_ydb 99999999999999 fresh_db = Inl AssertFailed"
proof -
  have "dec 99999999999999 = ''99999999999999''"
    by (simp add: dec_def dec_nat.simps digit_char_def char_of_def bit_Suc_0_iff)
  then have "\<not> length (words 99999999999999) < 256"
    by (simp add: words_def word_of_def digitstrings_def uc_def)
  then show ?thesis using spelling_bounded [of map_ydb fresh_db 99999999999999] fresh_digits by simp
qed

text \<open>
  C15: the blocks the parent makes of a range partition it: every number of the range is in
  exactly one of the blocks whose bounds the processes read.
\<close>

theorem blocks_partition:
  assumes "ydb_good Y" "1 \<le> blk" "i \<le> j" "is_int32 (i - 1)" "is_int32 (j + blk)" "nat (j - i + 1) < fuel"
  shows "\<exists>db'. define_limits Y fuel i j blk db = Inr (Go True, db') \<and>
    (\<forall>m \<in> {i..j}. \<exists>!c. node Y db' ''^limits'' [dec c] \<noteq> None \<and>
       (\<exists>first final. block_bounds Y i c db' = Inr (Go (first, final), db') \<and> first \<le> m \<and> m \<le> final))"
proof -
  have Y: "calm_db Y" using assms(1) by (rule calm_db.intro)
  let ?n = "blocks blk (i - 1) j" and ?f = "limit blk (i - 1) j"
  have ij: "i - 1 \<le> j" using assms(3) by simp
  obtain db' where db': "define_limits Y fuel i j blk db = Inr (Go True, db')" "limits_are Y db' ?n ?f"
    using calm_db.define_limits_runs [OF Y assms(2) ij assms(4-6)] by blast
  have here: "node Y db' ''^limits'' [dec c] \<noteq> None \<longleftrightarrow> 1 \<le> c \<and> c \<le> ?n" for c
    using db'(2) by (simp add: limits_are_def)
  have f32: "is_int32 (?f c)" if "1 \<le> c" for c
  proof -
    define p where "p = c * blk"
    have "1 * blk \<le> c * blk" using that assms(2) by (intro mult_right_mono) auto
    then have "1 \<le> p" using assms(2) unfolding p_def by linarith
    then show ?thesis using assms(2-5) by (auto simp: limit_def is_int32_def min_def p_def [symmetric])
  qed
  have bounds: "block_bounds Y i c db' = Inr (Go (i + (c - 1) * blk, ?f c), db')" if "1 \<le> c" "c \<le> ?n" for c
  proof -
    have "(if c = 1 then i else ?f (c - 1) + 1) = i + (c - 1) * blk"
      using limit_inner(1) [OF assms(2), of "c - 1" "i - 1" j] that by auto
    then show ?thesis using calm_db.block_bounds_runs [OF Y db'(2) that f32] by simp
  qed
  have "\<exists>!c. (1 \<le> c \<and> c \<le> ?n) \<and> (i + (c - 1) * blk \<le> m \<and> m \<le> ?f c)" if m: "m \<in> {i..j}" for m
  proof (rule ex1I)
    let ?q = "(m - i) div blk"
    have q: "?q * blk \<le> m - i" "m - i < (?q + 1) * blk"
      using assms(2) div_mult_mod_eq [of "m - i" blk] pos_mod_sign [of blk "m - i"] pos_mod_bound [of blk "m - i"]
      unfolding distrib_right by linarith+
    have "0 \<le> ?q" using m assms(2) by (simp add: pos_imp_zdiv_nonneg_iff)
    moreover have "?q < ?n"
    proof (rule ccontr)
      assume "\<not> ?q < ?n"
      then have "?n * blk \<le> ?q * blk" using assms(2) by (intro mult_right_mono) auto
      moreover have "j \<le> i - 1 + ?n * blk" using limit_last [OF assms(2) ij] by (simp add: limit_def min_def split: if_splits)
      ultimately show False using q(1) m by simp
    qed
    ultimately show "(1 \<le> ?q + 1 \<and> ?q + 1 \<le> ?n) \<and> (i + (?q + 1 - 1) * blk \<le> m \<and> m \<le> ?f (?q + 1))"
      using q m by (simp add: limit_def)
  next
    fix c
    assume c: "(1 \<le> c \<and> c \<le> ?n) \<and> (i + (c - 1) * blk \<le> m \<and> m \<le> ?f c)"
    then have "(c - 1) * blk \<le> m - i" "m - i < (c - 1 + 1) * blk" by (auto simp: limit_def)
    then have "(m - i) div blk = c - 1" using assms(2) by (intro int_div_pos_eq [of _ _ _ "m - i - (c - 1) * blk"]) (auto simp: algebra_simps)
    then show "c = (m - i) div blk + 1" by simp
  qed
  then have "\<forall>m \<in> {i..j}. \<exists>!c. node Y db' ''^limits'' [dec c] \<noteq> None \<and>
       (\<exists>first final. block_bounds Y i c db' = Inr (Go (first, final), db') \<and> first \<le> m \<and> m \<le> final)"
    unfolding here using bounds by (auto cong: conj_cong)
  with db'(1) show ?thesis by blast
qed

theorem blocks_partition_witness:
  "\<exists>db'. define_limits map_ydb 12 1 10 3 (\<lambda>_. None) = Inr (Go True, db') \<and>
    (\<exists>!c. node map_ydb db' ''^limits'' [dec c] \<noteq> None \<and>
       (\<exists>first final. block_bounds map_ydb 1 c db' = Inr (Go (first, final), db') \<and> first \<le> 7 \<and> 7 \<le> final))"
  using blocks_partition [of map_ydb 3 1 10 12 "\<lambda>_. None"] by (auto simp: is_int32_def)

text \<open>
  C16: however the processes interleave, no block is claimed twice, no two processes work on
  one block, and when a process finds nothing left to do every block has been claimed.
\<close>

theorem each_block_once:
  fixes pc :: "'p :: finite \<Rightarrow> doblk_pc"
  assumes "ydb_good Y" "limits_are Y db0 n f" "0 \<le> n" "doblk_run Y db0 claimed (db, pc)" "int CARD('p) < 2 ^ 31"
  shows "distinct claimed \<and> set claimed \<subseteq> {1..n} \<and> (\<forall>p q c. pc p = Work c \<longrightarrow> pc q = Work c \<longrightarrow> p = q) \<and>
    ((\<exists>p. pc p = Quit) \<longrightarrow> set claimed = {1..n})"
proof -
  have ok: "claims_ok n pc claimed"
    using calm_db.run_keeps_claims [OF calm_db.intro [OF assms(1)] assms(4,2,3,5)] by simp
  moreover have "set claimed = {1..n}" if "pc p = Quit" for p
  proof -
    have "p \<in> passers pc c" for c using that by (simp add: passers_def)
    then have "passers pc c \<noteq> {}" for c by blast
    then show ?thesis using ok unfolding claims_ok_def by auto
  qed
  ultimately show ?thesis unfolding claims_ok_def by auto
qed

definition one_block :: "string \<times> string list \<Rightarrow> string option" where
  "one_block = (\<lambda>(g, s). if g = ''^limits'' \<and> s = [dec 1] then Some (dec 5) else None)"

theorem each_block_once_witness:
  "\<exists>db pc. doblk_run map_ydb one_block [1] (db, pc :: bool \<Rightarrow> doblk_pc) \<and> pc True = Work 1 \<and> pc False \<noteq> Work 1"
proof -
  let ?pc = "(\<lambda>_ :: bool. Look 1)(True := Claim 1)"
  have "doblk_step map_ydb (one_block, \<lambda>_ :: bool. Look 1) [] (one_block, (\<lambda>_. Look 1)(True := if (1 :: int) = 0 then Quit else Claim 1))"
    by (rule doblk_step.look) (simp_all add: map.data_runs below_def one_block_def)
  then have one: "doblk_run map_ydb one_block [] (one_block, ?pc)"
    using doblk_run.step [OF doblk_run.start] by fastforce
  let ?db = "bumped map_ydb ''^limits'' [dec 1, dec 1] None one_block"
  have "incr_ok map_ydb ''^limits'' [dec 1, dec 1] None one_block = Inr (Go (dec (0 + 1)), ?db)"
    by (rule map.incr_runs) (simp_all add: one_block_def)
  then have "doblk_step map_ydb (one_block, ?pc) (if atoi (dec (0 + 1)) = 1 then [1] else [])
      (?db, ?pc(True := if atoi (dec (0 + 1)) = 1 then Work 1 else Look (1 + 1)))"
    by (intro doblk_step.claim) simp_all
  then have two: "doblk_run map_ydb one_block [1] (?db, ?pc(True := Work 1))"
    using doblk_run.step [OF one] by (simp add: atoi_dec is_int32_def)
  have "limits_are map_ydb one_block 1 (\<lambda>_. 5)" by (auto simp: limits_are_def one_block_def)
  then have "(?pc(True := Work 1)) p = Work 1 \<longrightarrow> (?pc(True := Work 1)) q = Work 1 \<longrightarrow> p = q" for p q
    using each_block_once [OF map_ydb_good _ _ two, of 1 "\<lambda>_. 5"] by simp
  then show ?thesis using two by (intro exI [of _ ?db] exI [of _ "?pc(True := Work 1)"]) auto
qed

text \<open>
  C17: \<open>dostep\<close> returns, and every number of its range that reaches 1 through numbers below
  ten to the thirteenth has its number of steps in the table; the table holds right numbers
  only, and the result is their maximum.
\<close>

theorem dostep_correct:
  assumes "ydb_good Y" "steps_ok Y db b" "\<forall>n \<in> {first..final}. \<exists>k. path k n \<and> k \<le> kmax" "kmax < fuel"
    and "int kmax < 2 ^ 31" "0 \<le> b" "b + int (nat (final - first + 1)) * (2 * int kmax + 1) < 10 ^ 17"
  shows "\<exists>db' r. dostep Y fuel first final db = Inr (Go True, db') \<and>
    (\<forall>n \<in> {first..final}. 1 < n \<longrightarrow> (\<exists>k \<le> r. path k n \<and> known Y db' n k)) \<and>
    (\<forall>n k. 0 \<le> n \<longrightarrow> known Y db' n k \<longrightarrow> path k n \<and> k \<le> r) \<and>
    (r = 0 \<or> (\<exists>n. known Y db' n r) \<and> node Y db' ''^result'' [] = Some (dec (int r)))"
proof -
  obtain db' where db': "dostep_loop Y fuel [first..final] db = Inr (Go True, db')"
    "steps_ok Y db' (b + int (length [first..final]) * (2 * int kmax + 1))"
    "\<forall>n \<in> {first..final}. 1 < n \<longrightarrow> (\<exists>k. path k n \<and> known Y db' n k)"
    using calm_db.dostep_loop_runs [OF calm_db.intro [OF assms(1)] assms(2), of "[first..final]" kmax fuel] assms(3-7)
    by auto
  then obtain r where r: "node Y db' ''^result'' [] = Some (dec (int r)) \<or> node Y db' ''^result'' [] = None \<and> r = 0"
    "\<forall>n k. 0 \<le> n \<longrightarrow> known Y db' n k \<longrightarrow> k \<le> r" "r = 0 \<or> (\<exists>n. 0 \<le> n \<and> known Y db' n r)"
    unfolding steps_ok_def result_ok_def by blast
  have "table_ok Y db'" using db'(2) by (simp add: steps_ok_def)
  then have right: "path k n" if "0 \<le> n" "known Y db' n k" for n k
    using known_right [OF \<open>table_ok Y db'\<close> that(2,1)] by simp
  show ?thesis
  proof (intro exI [of _ db'] exI [of _ r] conjI)
    show "\<forall>n \<in> {first..final}. 1 < n \<longrightarrow> (\<exists>k \<le> r. path k n \<and> known Y db' n k)"
      using db'(3) r(2) by (metis less_imp_le order_trans zero_le_one)
  qed (use db'(1) r right in \<open>auto simp: dostep_def\<close>)
qed

theorem dostep_correct_witness:
  "\<exists>db' r. dostep map_ydb 10 1 3 fresh_db = Inr (Go True, db') \<and> (\<exists>k \<le> r. path k 3 \<and> known map_ydb db' 3 k)"
proof -
  have "\<exists>k. path k n \<and> k \<le> 7" if "n \<in> {1..3}" for n
  proof -
    have "path 0 1" "path 1 2" "path 7 3" by (simp_all add: cstep_def numeral_nat)
    moreover have "n = 1 \<or> n = 2 \<or> n = 3" using that by auto
    moreover have "(0::nat) \<le> 7" "(1::nat) \<le> 7" by simp_all
    ultimately show ?thesis by blast
  qed
  then have "\<forall>n \<in> {1..3}. \<exists>k. path k n \<and> k \<le> 7" by blast
  from dostep_correct [OF map_ydb_good fresh_steps this, of 10] obtain db' r where
    "dostep map_ydb 10 1 3 fresh_db = Inr (Go True, db')"
    "\<forall>n \<in> {1..3}. 1 < n \<longrightarrow> (\<exists>k \<le> r. path k n \<and> known map_ydb db' n k)" by (simp del: path.simps) blast
  then show ?thesis by (intro exI [of _ db'] exI [of _ r]) auto
qed

text \<open>
  \<open>dbinit\<close>, which is to clear the database between two lines of input, sets ^step itself
  to 0 but keeps the table below it: the same range asked for again finds all its numbers
  known and reports a maximum of 0 steps.
\<close>

theorem second_line_result_lost:
  assumes "ydb_good Y" "steps_ok Y db b" "\<forall>n \<in> {first..final}. \<exists>k. path k n \<and> k \<le> kmax" "kmax < fuel"
    and "int kmax < 2 ^ 31" "0 \<le> b" "b + int (nat (final - first + 1)) * (2 * int kmax + 2) < 10 ^ 17"
  shows "\<exists>db1 db2 db3. dostep Y fuel first final db = Inr (Go True, db1) \<and> dbinit Y db1 = Inr (Go (), db2) \<and>
    dostep Y fuel first final db2 = Inr (Go True, db3) \<and> node Y db3 ''^result'' [] = Some (dec 0)"
proof -
  have Y: "calm_db Y" using assms(1) by (rule calm_db.intro)
  let ?ns = "[first..final]"
  let ?b = "b + int (length ?ns) * (2 * int kmax + 1)"
  have small: "?b + int (length ?ns) < 10 ^ 17" using assms(7) by (simp add: algebra_simps)
  have less: "?b < 10 ^ 17" using small by linarith
  have all: "\<forall>n \<in> set ?ns. \<exists>k. path k n \<and> k \<le> kmax" using assms(3) by simp
  obtain db1 where db1: "dostep_loop Y fuel ?ns db = Inr (Go True, db1)" "steps_ok Y db1 ?b"
    "\<forall>n \<in> set ?ns. 1 < n \<longrightarrow> (\<exists>k. path k n \<and> known Y db1 n k)"
    using calm_db.dostep_loop_runs [OF Y assms(2) all assms(4-6) less] by blast
  obtain db2 where db2: "dbinit Y db1 = Inr (Go (), db2)" "node Y db2 ''^result'' [] = Some (dec 0)"
    "\<forall>g s. s \<noteq> [] \<or> take 1 g \<noteq> ''^'' \<longrightarrow> node Y db2 g s = node Y db1 g s"
    using calm_db.dbinit_runs [OF Y] by blast
  obtain f where f: "fuel = Suc f" using assms(4) by (cases fuel) auto
  have "has_digits Y db2" "table_ok Y db2" "counter Y db2 ''reads'' ?b" "known Y db2 = known Y db1"
    using db1(2) db2(3) by (simp_all add: steps_ok_def has_digits_def table_ok_def counter_def known_def fun_eq_iff)
  moreover have "n = 1 \<or> 1 < n \<and> n < 10 ^ 13 \<and> (\<exists>k. known Y db1 n k)" if n: "n \<in> set ?ns" for n
  proof -
    obtain k where "path k n" using all n by blast
    then have "1 \<le> n" "n < 10 ^ 13" using path_range by auto
    moreover have "1 < n \<longrightarrow> (\<exists>k. known Y db1 n k)" using db1(3) n by blast
    ultimately show ?thesis by (cases "n = 1") auto
  qed
  ultimately obtain db3 where "dostep_loop Y fuel ?ns db2 = Inr (Go True, db3)" "only_changed Y {''reads'', ''currpath''} db2 db3"
    using calm_db.dostep_loop_known [OF Y, of db2 ?b ?ns f] small unfolding f by metis
  then show ?thesis using db1(1) db2(1,2) by (auto simp: dostep_def only_changed_def)
qed

theorem second_line_result_lost_witness:
  "\<exists>db1 db2 db3. dostep map_ydb 10 1 2 fresh_db = Inr (Go True, db1) \<and> dbinit map_ydb db1 = Inr (Go (), db2) \<and>
    dostep map_ydb 10 1 2 db2 = Inr (Go True, db3) \<and> node map_ydb db3 ''^result'' [] = Some (dec 0)"
proof -
  have "\<exists>k. path k n \<and> k \<le> 1" if "n \<in> {1..2}" for n
  proof -
    have "path 0 1" "path 1 2" by (simp_all add: cstep_def)
    moreover have "n = 1 \<or> n = 2" using that by auto
    ultimately show ?thesis by (metis le_refl zero_le_one)
  qed
  then show ?thesis
    by (intro second_line_result_lost [of map_ydb fresh_db 0 1 2 1 10]) (use fresh_steps in auto)
qed

text \<open>
  \<open>tp_gvstatsincr\<close> passes the names of the local counters as increments instead of their
  values: it adds nothing to ^reads and ^updates, whatever the process has counted.
\<close>

theorem statistics_not_added:
  assumes "ydb_good Y" "node Y db ''^reads'' [] = Some (dec a)" "node Y db ''^updates'' [] = Some (dec b)"
    and "\<bar>a\<bar> < 10 ^ 18" "\<bar>b\<bar> < 10 ^ 18" "node Y db ''^highest'' [] = None"
    and "node Y db ''highest'' [] = Some h" "length h < 256"
  shows "\<exists>db'. as_function (tp_gvstatsincr Y) db = Inr (YDB_OK, db') \<and>
    node Y db' ''^reads'' [] = Some (dec a) \<and> node Y db' ''^updates'' [] = Some (dec b)"
proof -
  have Y: "calm_db Y" using assms(1) by (rule calm_db.intro)
  have zero: "counts_as ''reads'' 0" "counts_as ''updates'' 0" by (simp_all add: counts_as_def uc_def)
  let ?d1 = "bumped Y ''^reads'' [] (Some ''reads'') db"
  let ?d2 = "bumped Y ''^updates'' [] (Some ''updates'') ?d1"
  note b1 = calm_db.incr_bumped(2) [OF Y, of a db "''^reads''" "[]" 0 "Some ''reads''"]
    and r1 = calm_db.incr_runs(2) [OF Y, of a db "''^reads''" "[]" 0 "Some ''reads''"]
  have d1: "node Y ?d1 g s = node Y db g s" for g s using b1 assms(2,4) zero by simp
  note b2 = calm_db.incr_bumped(2) [OF Y, of b ?d1 "''^updates''" "[]" 0 "Some ''updates''"]
    and r2 = calm_db.incr_runs(2) [OF Y, of b ?d1 "''^updates''" "[]" 0 "Some ''updates''"]
  have d2: "node Y ?d2 g s = node Y db g s" for g s using b2 assms(3,5) zero by (simp add: d1)
  have run: "incr_tp Y ''^reads'' [] (Some ''reads'') db = Inr (Go (dec a), ?d1)"
    "incr_tp Y ''^updates'' [] (Some ''updates'') ?d1 = Inr (Go (dec b), ?d2)"
    using r1 r2 assms(2-5) zero by (simp_all add: d1)
  have get: "get_int_or_0_tp Y 256 ''^highest'' [] ?d2 = Inr (Go 0, ?d2)" "get_text Y 256 ''highest'' [] ?d2 = Inr (Go h, ?d2)"
    using assms(6-8) calm_db.get_or_0_runs(2) [OF Y] calm_db.get_text_runs(1) [OF Y] by (simp_all add: d2)
  show ?thesis
  proof (cases "0 < atoi h")
    case True
    then show ?thesis
      using assms(2,3) calm_db.set_runs [OF Y] calm_db.node_put [OF Y]
      by (intro exI [of _ "put Y ''^highest'' [] h ?d2"])
         (simp add: as_function_def tp_gvstatsincr_def MAXVALUELEN_def run get d2)
  next
    case False
    then show ?thesis
      using assms(2,3)
      by (intro exI [of _ ?d2]) (simp add: as_function_def tp_gvstatsincr_def MAXVALUELEN_def run get d2)
  qed
qed

theorem statistics_not_added_witness:
  "\<exists>db'. as_function (tp_gvstatsincr map_ydb) (fresh_db((''^reads'', []) := Some (dec 5), (''^updates'', []) := Some (dec 6))) = Inr (YDB_OK, db') \<and>
     node map_ydb db' ''^reads'' [] = Some (dec 5)"
  using statistics_not_added [of map_ydb "fresh_db((''^reads'', []) := Some (dec 5), (''^updates'', []) := Some (dec 6))" 5 6 "dec 0"]
  by (auto simp: fresh_db_def dec_def dec_nat.simps)

end
