(* ===== verification/ThreeN1Round.thy ===== *)
theory ThreeN1Round
  imports ThreeN1Blocks
begin

text \<open>
  One line of input in v62002/inref/simpleapi_threeen1f.c: how the parent in \<open>main\<close> starts
  its children, waits for them and reports, and how each child in \<open>doblk\<close> announces itself,
  works and leaves. They are kept together by ^count and the locks l1 and l2.
\<close>

section \<open>Input and output\<close>

text \<open>What is printed of a line before it is worked on.\<close>

definition heading :: "int \<Rightarrow> int \<Rightarrow> int \<Rightarrow> int \<Rightarrow> int \<Rightarrow> string" where
  "heading i j k newk blk =
     dec i @ '' '' @ dec j @ '' ('' @ dec k @ ''->'' @ dec newk @ '')'' @
     (let tmp = c_div (int32 (j - i + newk)) newk
      in if blk \<noteq> 0 \<and> blk \<le> tmp then '' '' @ dec blk else '' ('' @ dec blk @ ''->'' @ dec tmp @ '')'')"

text \<open>The limits of the blocks and the counter of the children, before the first is started.\<close>

definition prepare :: "'db ydb \<Rightarrow> nat \<Rightarrow> int \<Rightarrow> int \<Rightarrow> int \<Rightarrow> ('db, bool) act" where
  "prepare Y fuel i j blk =
     andThen (define_limits Y fuel i j blk) (\<lambda>ok. andThen (set_ok Y ''^count'' [] (dec 0)) (\<lambda>_. ret ok))"

text \<open>The results of a line; without a duration there are no rates.\<close>

definition report_round :: "'db ydb \<Rightarrow> int \<Rightarrow> ('db, string) act" where
  "report_round Y duration =
     andThen (get_text Y MAXVALUELEN ''^result'' []) (\<lambda>steps.
     andThen (get_text Y MAXVALUELEN ''^highest'' []) (\<lambda>highest.
     andThen (get_text Y MAXVALUELEN ''^updates'' []) (\<lambda>updates.
     andThen (get_text Y MAXVALUELEN ''^reads'' []) (\<lambda>reads.
       ret ('' '' @ steps @ '' '' @ highest @ '' '' @ dec duration @ '' '' @ updates @ '' '' @ reads @
         (if duration \<noteq> 0
          then '' '' @ dec (c_div (atoi updates) duration) @ '' '' @ dec (c_div (atoi reads) duration)
          else []))))))"

section \<open>Locks\<close>

text \<open>
  The lock manager is YottaDB's. A process is \<open>None\<close>, the parent, or \<open>Some p\<close>, a child; a lock
  is a name with subscripts, and how often a process has taken it counts. A lock that is not
  granted is waited for, and the wait may time out.
\<close>

type_synonym lock_name = "string \<times> string list"

record ('l, 'p) lock_table =
  lock_take :: "'l \<Rightarrow> 'p option \<Rightarrow> lock_name \<Rightarrow> 'l option"
  lock_release :: "'l \<Rightarrow> 'p option \<Rightarrow> lock_name \<Rightarrow> 'l"
  lock_count :: "'l \<Rightarrow> 'p option \<Rightarrow> lock_name \<Rightarrow> nat"

text \<open>A lock stands in the way of another process's if one is an ancestor of the other.\<close>

definition overlaps :: "lock_name \<Rightarrow> lock_name \<Rightarrow> bool" where
  "overlaps m n \<longleftrightarrow> fst m = fst n \<and> take (min (length (snd m)) (length (snd n))) (snd m) =
     take (min (length (snd m)) (length (snd n))) (snd n)"

definition lock_law :: "('l, 'p) lock_table \<Rightarrow> bool" where
  "lock_law L \<longleftrightarrow> (\<forall>l q m.
     (case lock_take L l q m of
        None \<Rightarrow> \<exists>q' m'. q' \<noteq> q \<and> overlaps m m' \<and> 0 < lock_count L l q' m'
      | Some l' \<Rightarrow> lock_count L l' = (lock_count L l)(q := (lock_count L l q)(m := lock_count L l q m + 1)) \<and>
          (\<forall>q' m'. q' \<noteq> q \<longrightarrow> overlaps m m' \<longrightarrow> lock_count L l q' m' = 0)) \<and>
     lock_count L (lock_release L l q m) = (lock_count L l)(q := (lock_count L l q)(m := lock_count L l q m - 1)))"

section \<open>The parent and its children\<close>

text \<open>
  The parent has the children \<open>ps\<close> still to start (\<open>Fork ps\<close>), has counted one it is about to
  fork (\<open>Spawn\<close>), has seen ^count at 0 (\<open>Release\<close>), waits for l2 (\<open>Finish\<close>), has it or has not got
  it in an hour (\<open>Report\<close>, \<open>GaveUp\<close>), waits for the ends of the processes (\<open>Reap\<close>) or goes on with
  the next line.
\<close>

datatype 'p parent_pc = Fork "'p list" | Spawn 'p "'p list" | Release | Finish | Report | GaveUp | Reap | NextLine

text \<open>
  A child takes l2(pid), subtracts itself from ^count, takes l1(pid), works on blocks, adds up
  the statistics and gives the locks back; \<open>Failed\<close> is the end by an assertion.
\<close>

datatype child_pc = Unborn | Starting | Uncount | Lock1 | Working doblk_pc | Unlock1 | Unlock2 | Exited | Failed

record ('db, 'l, 'p) threeen1_round =
  r_db :: 'db
  r_locks :: 'l
  r_parent :: "'p parent_pc"
  r_child :: "'p \<Rightarrow> child_pc"

definition l1 :: "string list \<Rightarrow> lock_name" where "l1 s = (''l1'', s)"
definition l2 :: "string list \<Rightarrow> lock_name" where "l2 s = (''l2'', s)"

inductive parent_step ::
    "'db ydb \<Rightarrow> ('l, 'p) lock_table \<Rightarrow> ('db, 'l, 'p) threeen1_round \<Rightarrow> ('db, 'l, 'p) threeen1_round \<Rightarrow> bool" for Y L where
  counted: "r_parent r = Fork (p # ps) \<Longrightarrow> incr_ok Y ''^count'' [] None (r_db r) = Inr (Go v, db') \<Longrightarrow>
     parent_step Y L r (r\<lparr>r_db := db', r_parent := Spawn p ps\<rparr>)"
| forked: "r_parent r = Spawn p ps \<Longrightarrow>
     parent_step Y L r (r\<lparr>r_parent := Fork ps, r_child := (r_child r)(p := Starting)\<rparr>)"
| polled: "r_parent r = Fork [] \<Longrightarrow> get_int Y MAXVALUELEN ''^count'' [] (r_db r) = Inr (Go c, db') \<Longrightarrow>
     parent_step Y L r (r\<lparr>r_db := db', r_parent := if c = 0 then Release else Fork []\<rparr>)"
| released: "r_parent r = Release \<Longrightarrow>
     parent_step Y L r (r\<lparr>r_locks := lock_release L (r_locks r) None (l1 []), r_parent := Finish\<rparr>)"
| finished: "r_parent r = Finish \<Longrightarrow> lock_take L (r_locks r) None (l2 []) = Some l' \<Longrightarrow>
     parent_step Y L r (r\<lparr>r_locks := l', r_parent := Report\<rparr>)"
| timed_out: "r_parent r = Finish \<Longrightarrow> lock_take L (r_locks r) None (l2 []) = None \<Longrightarrow>
     parent_step Y L r (r\<lparr>r_parent := GaveUp\<rparr>)"
| reported: "r_parent r = Report \<Longrightarrow> report_round Y duration (r_db r) = Inr (Go printed, db') \<Longrightarrow>
     parent_step Y L r (r\<lparr>r_db := db', r_locks := lock_release L (r_locks r) None (l2 []), r_parent := Reap\<rparr>)"
| gave_up: "r_parent r = GaveUp \<Longrightarrow>
     parent_step Y L r (r\<lparr>r_locks := lock_release L (r_locks r) None (l2 []), r_parent := Reap\<rparr>)"
| reaped: "r_parent r = Reap \<Longrightarrow> (\<And>p. r_child r p \<in> {Exited, Failed}) \<Longrightarrow> parent_step Y L r (r\<lparr>r_parent := NextLine\<rparr>)"

text \<open>
  A child has the globals of the database and local variables of its own. While it works on a
  block it leaves ^limits and ^count alone. A lock that is not granted fails an assertion, which ends the child, and its
  locks are free. The assertions in the rest of \<open>doblk\<close>, in \<open>dostep\<close> and in \<open>inttostr\<close> are about calls that do not fail
  in a database for which \<open>ydb_good\<close> holds, and about numbers that fit their buffers, so there is no step from
  \<open>Working\<close>, \<open>Unlock1\<close> and \<open>Unlock2\<close> to \<open>Failed\<close>: the model is one of rounds in which they hold.
\<close>

definition same_globals :: "'db ydb \<Rightarrow> 'db \<Rightarrow> 'db \<Rightarrow> bool" where
  "same_globals Y view db \<longleftrightarrow> (\<forall>g s. take 1 g = ''^'' \<longrightarrow> node Y view g s = node Y db g s)"

inductive child_step ::
    "'db ydb \<Rightarrow> ('l, 'p) lock_table \<Rightarrow> ('p \<Rightarrow> string) \<Rightarrow> ('db, 'l, 'p) threeen1_round \<Rightarrow> int list \<Rightarrow>
       ('db, 'l, 'p) threeen1_round \<Rightarrow> bool" for Y L pid where
  locked2: "r_child r p = Starting \<Longrightarrow> lock_take L (r_locks r) (Some p) (l2 [pid p]) = Some l' \<Longrightarrow>
     child_step Y L pid r [] (r\<lparr>r_locks := l', r_child := (r_child r)(p := Uncount)\<rparr>)"
| failed2: "r_child r p = Starting \<Longrightarrow> lock_take L (r_locks r) (Some p) (l2 [pid p]) = None \<Longrightarrow>
     child_step Y L pid r [] (r\<lparr>r_child := (r_child r)(p := Failed)\<rparr>)"
| uncounted: "r_child r p = Uncount \<Longrightarrow> incr_ok Y ''^count'' [] (Some (dec (-1))) (r_db r) = Inr (Go v, db') \<Longrightarrow>
     child_step Y L pid r [] (r\<lparr>r_db := db', r_child := (r_child r)(p := Lock1)\<rparr>)"
| locked1: "r_child r p = Lock1 \<Longrightarrow> lock_take L (r_locks r) (Some p) (l1 [pid p]) = Some l' \<Longrightarrow>
     child_step Y L pid r [] (r\<lparr>r_locks := l', r_child := (r_child r)(p := Working (Look 1))\<rparr>)"
| failed1: "r_child r p = Lock1 \<Longrightarrow> lock_take L (r_locks r) (Some p) (l1 [pid p]) = None \<Longrightarrow>
     child_step Y L pid r []
       (r\<lparr>r_locks := lock_release L (r_locks r) (Some p) (l2 [pid p]), r_child := (r_child r)(p := Failed)\<rparr>)"
| worked: "r_child r p = Working x \<Longrightarrow> doblk_step Y (r_db r, \<lambda>_ :: unit. x) new (db', pc) \<Longrightarrow>
     (\<And>s. node Y db' ''^count'' s = node Y (r_db r) ''^count'' s) \<Longrightarrow>
     child_step Y L pid r new (r\<lparr>r_db := db', r_child := (r_child r)(p := Working (pc ()))\<rparr>)"
| added: "r_child r p = Working Quit \<Longrightarrow> same_globals Y view (r_db r) \<Longrightarrow>
     as_function (tp_gvstatsincr Y) view = Inr (YDB_OK, db') \<Longrightarrow>
     child_step Y L pid r [] (r\<lparr>r_db := db', r_child := (r_child r)(p := Unlock1)\<rparr>)"
| unlocked1: "r_child r p = Unlock1 \<Longrightarrow>
     child_step Y L pid r []
       (r\<lparr>r_locks := lock_release L (r_locks r) (Some p) (l1 [pid p]), r_child := (r_child r)(p := Unlock2)\<rparr>)"
| unlocked2: "r_child r p = Unlock2 \<Longrightarrow>
     child_step Y L pid r []
       (r\<lparr>r_locks := lock_release L (r_locks r) (Some p) (l2 [pid p]), r_child := (r_child r)(p := Exited)\<rparr>)"

text \<open>
  The round begins when the parent holds l1; the blocks are listed as they are claimed. A claimed block
  is worked to its end because no assertion fails while a child works.
\<close>

inductive round_run ::
    "'db ydb \<Rightarrow> ('l, 'p) lock_table \<Rightarrow> ('p \<Rightarrow> string) \<Rightarrow> ('db, 'l, 'p) threeen1_round \<Rightarrow> int list \<Rightarrow>
       ('db, 'l, 'p) threeen1_round \<Rightarrow> bool" for Y L pid r0 where
  start: "round_run Y L pid r0 [] r0"
| parent: "round_run Y L pid r0 claimed r \<Longrightarrow> parent_step Y L r r' \<Longrightarrow> round_run Y L pid r0 claimed r'"
| child: "round_run Y L pid r0 claimed r \<Longrightarrow> child_step Y L pid r new r' \<Longrightarrow> round_run Y L pid r0 (claimed @ new) r'"

text \<open>
  The start: ^limits and ^count are as \<open>prepare\<close> leaves them, the parent holds l1 and nobody
  else a lock, and all the children are still to start.
\<close>

definition round_start ::
    "'db ydb \<Rightarrow> ('l, 'p) lock_table \<Rightarrow> int \<Rightarrow> (int \<Rightarrow> int) \<Rightarrow> ('db, 'l, 'p) threeen1_round \<Rightarrow> bool" where
  "round_start Y L n f r \<longleftrightarrow> limits_are Y (r_db r) n f \<and> node Y (r_db r) ''^count'' [] = Some (dec 0) \<and>
     (\<forall>q m. lock_count L (r_locks r) q m = (if q = None \<and> m = l1 [] then 1 else 0)) \<and>
     (\<exists>ps. r_parent r = Fork ps \<and> distinct ps \<and> set ps = UNIV) \<and> (\<forall>p. r_child r p = Unborn)"

end
