(* ===== verification/ThreeN1RoundProps.thy ===== *)
theory ThreeN1RoundProps
  imports ThreeN1Round
begin

text \<open>
  What keeps the processes of v62002/inref/simpleapi_threeen1f.c together: the invariant of a
  round, and what it says when the parent reports. The locale \<open>locked_db\<close> adds the lock manager to
  the database; it is interpreted on a list of the locks held.
\<close>

section \<open>The invariant\<close>

text \<open>How far a child is among the blocks, which locks it holds, whether it is still in ^count.\<close>

fun block_pc :: "child_pc \<Rightarrow> doblk_pc" where
  "block_pc (Working x) = x"
| "block_pc Unlock1 = Quit"
| "block_pc Unlock2 = Quit"
| "block_pc Exited = Quit"
| "block_pc c = Look 1"

fun holds1 :: "child_pc \<Rightarrow> bool" where
  "holds1 (Working x) \<longleftrightarrow> True"
| "holds1 Unlock1 \<longleftrightarrow> True"
| "holds1 c \<longleftrightarrow> False"

definition holds2 :: "child_pc \<Rightarrow> bool" where
  "holds2 c \<longleftrightarrow> holds1 c \<or> c \<in> {Uncount, Lock1, Unlock2}"

definition still_counted :: "child_pc \<Rightarrow> bool" where
  "still_counted c \<longleftrightarrow> c \<in> {Starting, Uncount}"

definition past_lock1 :: "child_pc \<Rightarrow> bool" where
  "past_lock1 c \<longleftrightarrow> holds1 c \<or> c \<in> {Unlock2, Exited}"

fun still_to_start :: "'p parent_pc \<Rightarrow> 'p list" where
  "still_to_start (Fork ps) = ps"
| "still_to_start (Spawn p ps) = p # ps"
| "still_to_start q = []"

fun spawning :: "'p parent_pc \<Rightarrow> nat" where
  "spawning (Spawn p ps) = 1"
| "spawning q = 0"

fun starting_up :: "'p parent_pc \<Rightarrow> bool" where
  "starting_up (Fork ps) \<longleftrightarrow> True"
| "starting_up (Spawn p ps) \<longleftrightarrow> True"
| "starting_up q \<longleftrightarrow> False"

text \<open>The number of processes in ^count.\<close>

definition count_of :: "'p parent_pc \<Rightarrow> ('p \<Rightarrow> child_pc) \<Rightarrow> nat" where
  "count_of q ch = card {p. still_counted (ch p)} + spawning q"

definition count_ok :: "'db ydb \<Rightarrow> 'db \<Rightarrow> 'p parent_pc \<Rightarrow> ('p \<Rightarrow> child_pc) \<Rightarrow> bool" where
  "count_ok Y db q ch \<longleftrightarrow> node Y db ''^count'' [] = Some (dec (int (count_of q ch)))"

fun takes :: "('p \<Rightarrow> string) \<Rightarrow> 'p parent_pc \<Rightarrow> ('p \<Rightarrow> child_pc) \<Rightarrow> 'p option \<Rightarrow> lock_name \<Rightarrow> bool" where
  "takes pid q ch None m \<longleftrightarrow> m = l1 [] \<and> (starting_up q \<or> q = Release) \<or> m = l2 [] \<and> q = Report"
| "takes pid q ch (Some p) m \<longleftrightarrow> m = l1 [pid p] \<and> holds1 (ch p) \<or> m = l2 [pid p] \<and> holds2 (ch p)"

definition locks_ok :: "('l, 'p) lock_table \<Rightarrow> ('p \<Rightarrow> string) \<Rightarrow> 'l \<Rightarrow> 'p parent_pc \<Rightarrow> ('p \<Rightarrow> child_pc) \<Rightarrow> bool" where
  "locks_ok L pid l q ch \<longleftrightarrow> (\<forall>z m. lock_count L l z m = (if takes pid q ch z m then 1 else 0))"

text \<open>Where the processes may be at the same time.\<close>

definition phases_ok :: "'p parent_pc \<Rightarrow> ('p \<Rightarrow> child_pc) \<Rightarrow> bool" where
  "phases_ok q ch \<longleftrightarrow> distinct (still_to_start q) \<and> (\<forall>p. ch p = Unborn \<longleftrightarrow> p \<in> set (still_to_start q)) \<and>
     (\<not> starting_up q \<longrightarrow> (\<forall>p. \<not> still_counted (ch p))) \<and>
     (starting_up q \<or> q = Release \<longrightarrow> (\<forall>p. \<not> past_lock1 (ch p))) \<and>
     (q = Report \<longrightarrow> (\<forall>p. ch p \<in> {Exited, Failed}))"

definition round_ok ::
    "'db ydb \<Rightarrow> ('l, 'p) lock_table \<Rightarrow> ('p \<Rightarrow> string) \<Rightarrow> int \<Rightarrow> int list \<Rightarrow> ('db, 'l, 'p) threeen1_round \<Rightarrow> bool" where
  "round_ok Y L pid n claimed r \<longleftrightarrow>
     claims_ok n (block_pc \<circ> r_child r) claimed \<and> counters_ok Y n (r_db r) (block_pc \<circ> r_child r) \<and>
     count_ok Y (r_db r) (r_parent r) (r_child r) \<and> locks_ok L pid (r_locks r) (r_parent r) (r_child r) \<and>
     phases_ok (r_parent r) (r_child r)"

section \<open>Locks\<close>

lemma overlaps_names [simp]:
  "overlaps (l1 s) (l2 t) \<longleftrightarrow> False" "overlaps (l2 s) (l1 t) \<longleftrightarrow> False"
  "overlaps (l1 [a]) (l1 [b]) \<longleftrightarrow> a = b" "overlaps (l2 [a]) (l2 [b]) \<longleftrightarrow> a = b"
  "overlaps (l1 s) (l1 [])" "overlaps (l1 []) (l1 s)" "overlaps (l2 s) (l2 [])" "overlaps (l2 []) (l2 s)"
  by (simp_all add: overlaps_def l1_def l2_def)

lemma lock_names [simp]: "l1 s \<noteq> l2 t" "l2 s \<noteq> l1 t" "l1 s = l1 t \<longleftrightarrow> s = t" "l2 s = l2 t \<longleftrightarrow> s = t"
  by (simp_all add: l1_def l2_def)

locale locked_db = calm_db Y for Y :: "'db ydb" +
  fixes L :: "('l, 'p :: finite) lock_table" and pid :: "'p \<Rightarrow> string"
  assumes locks: "lock_law L" and pids: "inj pid" and few: "int CARD('p) < 2 ^ 31 - 1"
begin

lemma locks_at:
  "(case lock_take L l q m of
      None \<Rightarrow> \<exists>q' m'. q' \<noteq> q \<and> overlaps m m' \<and> 0 < lock_count L l q' m'
    | Some l' \<Rightarrow> lock_count L l' = (lock_count L l)(q := (lock_count L l q)(m := lock_count L l q m + 1)) \<and>
        (\<forall>q' m'. q' \<noteq> q \<longrightarrow> overlaps m m' \<longrightarrow> lock_count L l q' m' = 0)) \<and>
   lock_count L (lock_release L l q m) = (lock_count L l)(q := (lock_count L l q)(m := lock_count L l q m - 1))"
  using locks unfolding lock_law_def by blast

lemma taken:
  assumes "lock_take L l q m = Some l'"
  shows "lock_count L l' = (lock_count L l)(q := (lock_count L l q)(m := lock_count L l q m + 1))"
    "q' \<noteq> q \<Longrightarrow> overlaps m m' \<Longrightarrow> lock_count L l q' m' = 0"
  using locks_at [of q m l] unfolding assms option.case by blast+

lemma not_taken:
  assumes "lock_take L l q m = None"
  obtains q' m' where "q' \<noteq> q" "overlaps m m'" "0 < lock_count L l q' m'"
  using locks_at [of q m l] assms by auto

lemma release_count:
  "lock_count L (lock_release L l q m) = (lock_count L l)(q := (lock_count L l q)(m := lock_count L l q m - 1))"
  using locks_at [of q m l] by simp

text \<open>A lock that is granted is nobody else's, and the locks are again as they should be.\<close>

lemma take_keeps:
  assumes "lock_take L l z m = Some l'" "locks_ok L pid l q ch" "\<not> takes pid q ch z m"
    and "\<And>z' m'. takes pid q' ch' z' m' \<longleftrightarrow> takes pid q ch z' m' \<or> z' = z \<and> m' = m"
  shows "locks_ok L pid l' q' ch'"
  using assms(2,3) unfolding locks_ok_def assms(4) taken(1) [OF assms(1)] by (simp del: split_paired_All)

lemma take_alone:
  assumes "lock_take L l z m = Some l'" "locks_ok L pid l q ch" "z' \<noteq> z" "overlaps m m'"
  shows "\<not> takes pid q ch z' m'"
  using assms(2) taken(2) [OF assms(1,3,4)] unfolding locks_ok_def by (metis zero_neq_one)

lemma release_keeps:
  assumes "locks_ok L pid l q ch"
    and "\<And>z' m'. takes pid q' ch' z' m' \<longleftrightarrow> takes pid q ch z' m' \<and> \<not> (z' = z \<and> m' = m)"
  shows "locks_ok L pid (lock_release L l z m) q' ch'"
  using assms(1) unfolding locks_ok_def assms(2) release_count by (simp del: split_paired_All)

lemma same_locks:
  assumes "locks_ok L pid l q ch" "\<And>z m. takes pid q' ch' z m \<longleftrightarrow> takes pid q ch z m"
  shows "locks_ok L pid l q' ch'"
  using assms unfolding locks_ok_def by simp

end

section \<open>Steps of a child\<close>

text \<open>A step on a block, seen alone, is a step among all processes.\<close>

lemma doblk_step_lift:
  assumes "doblk_step Y (db, \<lambda>_ :: unit. x) new (db', pc)" "pcs p = x"
  shows "doblk_step Y (db, pcs) new (db', pcs(p := pc ()))"
  using assms(1)
proof (cases rule: doblk_stepE)
  case (look u tmp d db'')
  then show ?thesis using assms(2) doblk_step.look [of pcs p tmp Y db d db''] by auto
next
  case (claim u tmp cnt db'')
  then show ?thesis using assms(2) doblk_step.claim [of pcs p tmp Y db cnt db''] by auto
next
  case (work u tmp db'')
  then show ?thesis using assms(2) doblk_step.work [of pcs p tmp Y db'' db] by (simp add: fun_upd_idem)
next
  case (worked u tmp)
  then show ?thesis using assms(2) doblk_step.worked [of pcs p tmp Y db] by auto
qed

lemma counters_same:
  assumes "counters_ok Y n db pc" "\<And>s. node Y db' ''^limits'' s = node Y db ''^limits'' s"
  shows "counters_ok Y n db' pc"
  using assms unfolding counters_ok_def by simp

lemma block_pc_child: "block_pc \<circ> ch(p := x) = (block_pc \<circ> ch)(p := block_pc x)"
  by (rule fun_upd_comp)

lemma block_pc_same: "block_pc x = block_pc (ch p) \<Longrightarrow> block_pc \<circ> ch(p := x) = block_pc \<circ> ch"
  by (auto simp: fun_eq_iff)

lemma count_of_child:
  fixes ch :: "'p :: finite \<Rightarrow> child_pc"
  shows "still_counted x = still_counted (ch p) \<Longrightarrow> count_of q (ch(p := x)) = count_of q ch"
    and "still_counted (ch p) \<Longrightarrow> \<not> still_counted x \<Longrightarrow> count_of q (ch(p := x)) + 1 = count_of q ch"
    and "\<not> still_counted (ch p) \<Longrightarrow> still_counted x \<Longrightarrow> count_of q (ch(p := x)) = count_of q ch + 1"
proof -
  let ?S = "{p. still_counted (ch p)}"
  have upd: "{p'. still_counted ((ch(p := x)) p')} = (if still_counted x then insert p ?S else ?S - {p})" by auto
  show "still_counted x = still_counted (ch p) \<Longrightarrow> count_of q (ch(p := x)) = count_of q ch"
    unfolding count_of_def upd by (auto simp: insert_absorb)
  show "still_counted (ch p) \<Longrightarrow> \<not> still_counted x \<Longrightarrow> count_of q (ch(p := x)) + 1 = count_of q ch"
    unfolding count_of_def upd using card_Suc_Diff1 [of ?S p] by simp
  show "\<not> still_counted (ch p) \<Longrightarrow> still_counted x \<Longrightarrow> count_of q (ch(p := x)) = count_of q ch + 1"
    unfolding count_of_def upd by simp
qed

lemma count_of_le: "count_of q (ch :: 'p :: finite \<Rightarrow> child_pc) \<le> CARD('p) + 1"
proof -
  have "card {p. still_counted (ch p)} \<le> CARD('p)" by (intro card_mono) auto
  moreover have "spawning q \<le> 1" by (cases q) auto
  ultimately show ?thesis unfolding count_of_def by linarith
qed

lemma phases_child:
  assumes "phases_ok q ch" "ch p \<notin> {Unborn, Exited, Failed}" "x \<noteq> Unborn"
    and "still_counted x \<Longrightarrow> still_counted (ch p)" "past_lock1 x \<Longrightarrow> past_lock1 (ch p) \<or> \<not> (starting_up q \<or> q = Release)"
  shows "phases_ok q (ch(p := x))"
  using assms unfolding phases_ok_def by auto

lemma phases_report: "phases_ok q ch \<Longrightarrow> q = Report \<Longrightarrow> ch p \<in> {Exited, Failed}"
  unfolding phases_ok_def by blast

lemma gvstats_keeps: "calm_db Y \<Longrightarrow> keeps Y ({''^reads'', ''^updates'', ''^highest''} \<times> {[]}) (tp_gvstatsincr Y)"
  unfolding tp_gvstatsincr_def onlyIf_def
  by (intro keeps_then keeps_get calm_db.keeps_write) (auto intro!: keeps_then keeps_block keeps_pure calm_db.keeps_write)

context locked_db
begin

lemma count_runs:
  assumes "count_ok Y db (q :: 'p parent_pc) ch"
  shows "get_int Y MAXVALUELEN ''^count'' [] db = Inr (Go (int (count_of q ch)), db)"
    and "incr_ok Y ''^count'' [] None db = Inr (Go (dec (int (count_of q ch) + 1)), bumped Y ''^count'' [] None db)"
    and "node Y (bumped Y ''^count'' [] None db) g s =
      (if g = ''^count'' \<and> s = [] then Some (dec (int (count_of q ch) + 1)) else node Y db g s)"
    and "incr_ok Y ''^count'' [] (Some (dec (-1))) db =
      Inr (Go (dec (int (count_of q ch) + -1)), bumped Y ''^count'' [] (Some (dec (-1))) db)"
    and "node Y (bumped Y ''^count'' [] (Some (dec (-1))) db) g s =
      (if g = ''^count'' \<and> s = [] then Some (dec (int (count_of q ch) + -1)) else node Y db g s)"
proof -
  let ?c = "int (count_of q ch)"
  have node: "node Y db ''^count'' [] = Some (dec ?c)" using assms by (simp add: count_ok_def)
  have small: "is_int32 ?c" "\<bar>?c\<bar> < 10 ^ 18"
    using few count_of_le [of q ch] by (auto simp: is_int32_def)
  have "length (dec ?c) < MAXVALUELEN" using length_dec [OF small(1)] by (simp add: MAXVALUELEN_def)
  then show "get_int Y MAXVALUELEN ''^count'' [] db = Inr (Go ?c, db)"
    using get_text_runs(2) [OF node] small(1) by simp
  have pre: "case node Y db ''^count'' [] of None \<Rightarrow> ?c = 0 | Some v \<Rightarrow> v = dec ?c" by (simp add: node)
  have up: "case None of None \<Rightarrow> (1 :: int) = 1 | Some t \<Rightarrow> counts_as t 1" "\<bar>1 :: int\<bar> < 10 ^ 18"
    and down: "case Some (dec (-1)) of None \<Rightarrow> (-1 :: int) = 1 | Some t \<Rightarrow> counts_as t (-1)" "\<bar>-1 :: int\<bar> < 10 ^ 18"
    by (simp_all add: counts_as_def)
  show "incr_ok Y ''^count'' [] None db = Inr (Go (dec (?c + 1)), bumped Y ''^count'' [] None db)"
    by (rule incr_runs(1) [OF pre small(2) up])
  show "node Y (bumped Y ''^count'' [] None db) g s =
      (if g = ''^count'' \<and> s = [] then Some (dec (?c + 1)) else node Y db g s)"
    by (rule incr_bumped(2) [OF pre small(2) up])
  show "incr_ok Y ''^count'' [] (Some (dec (-1))) db = Inr (Go (dec (?c + -1)), bumped Y ''^count'' [] (Some (dec (-1))) db)"
    by (rule incr_runs(1) [OF pre small(2) down])
  show "node Y (bumped Y ''^count'' [] (Some (dec (-1))) db) g s =
      (if g = ''^count'' \<and> s = [] then Some (dec (?c + -1)) else node Y db g s)"
    by (rule incr_bumped(2) [OF pre small(2) down])
qed

text \<open>A child that goes on with the same blocks and the same database.\<close>

lemma child_moves:
  assumes "round_ok Y L pid n claimed r" "block_pc x = block_pc (r_child r p)" "still_counted x = still_counted (r_child r p)"
    and "r_child r p \<notin> {Unborn, Exited, Failed}" "x \<noteq> Unborn"
    and "past_lock1 x \<Longrightarrow> past_lock1 (r_child r p) \<or> \<not> (starting_up (r_parent r) \<or> r_parent r = Release)"
    and "locks_ok L pid l (r_parent r) ((r_child r)(p := x))"
    and "\<And>s. node Y db ''^limits'' s = node Y (r_db r) ''^limits'' s" "node Y db ''^count'' [] = node Y (r_db r) ''^count'' []"
  shows "round_ok Y L pid n claimed (r\<lparr>r_db := db, r_locks := l, r_child := (r_child r)(p := x)\<rparr>)"
proof -
  have ok: "claims_ok n (block_pc \<circ> r_child r) claimed" "counters_ok Y n (r_db r) (block_pc \<circ> r_child r)"
    "count_ok Y (r_db r) (r_parent r) (r_child r)" "phases_ok (r_parent r) (r_child r)"
    using assms(1) by (simp_all add: round_ok_def)
  have "phases_ok (r_parent r) ((r_child r)(p := x))"
    using assms(3) by (intro phases_child ok(4) assms(4,5,6)) simp
  moreover have "counters_ok Y n db (block_pc \<circ> r_child r)" by (rule counters_same [OF ok(2) assms(8)])
  ultimately show ?thesis
    using ok(1,3) assms(7,9) unfolding round_ok_def count_ok_def
    by (simp add: block_pc_same [of x "r_child r" p, OF assms(2)] count_of_child(1) [of x "r_child r" p, OF assms(3)])
qed

lemma holders:
  assumes "round_ok Y L pid n claimed r" "lock_take L (r_locks r) z m = Some l'" "z' \<noteq> z" "overlaps m m'"
  shows "\<not> takes pid (r_parent r) (r_child r) z' m'"
  using take_alone [OF assms(2) _ assms(3,4)] assms(1) by (simp add: round_ok_def)

lemma child_takes:
  assumes "round_ok Y L pid n claimed r" "lock_take L (r_locks r) (Some p) m = Some l'"
    and "m = l1 [pid p] \<and> holds1 x \<and> \<not> holds1 (r_child r p) \<and> holds2 x = holds2 (r_child r p) \<or>
      m = l2 [pid p] \<and> holds2 x \<and> \<not> holds2 (r_child r p) \<and> holds1 x = holds1 (r_child r p)"
  shows "locks_ok L pid l' (r_parent r) ((r_child r)(p := x))"
proof (rule take_keeps [OF assms(2)])
  show "locks_ok L pid (r_locks r) (r_parent r) (r_child r)" using assms(1) by (simp add: round_ok_def)
  show "\<not> takes pid (r_parent r) (r_child r) (Some p) m" using assms(3) by auto
  show "takes pid (r_parent r) ((r_child r)(p := x)) z' m' \<longleftrightarrow>
      takes pid (r_parent r) (r_child r) z' m' \<or> z' = Some p \<and> m' = m" for z' m'
    using assms(3) by (cases z') auto
qed

lemma child_releases:
  assumes "round_ok Y L pid n claimed r"
    and "m = l1 [pid p] \<and> \<not> holds1 x \<and> holds2 x = holds2 (r_child r p) \<or>
      m = l2 [pid p] \<and> \<not> holds2 x \<and> holds1 x = holds1 (r_child r p)"
  shows "locks_ok L pid (lock_release L (r_locks r) (Some p) m) (r_parent r) ((r_child r)(p := x))"
proof (rule release_keeps)
  show "locks_ok L pid (r_locks r) (r_parent r) (r_child r)" using assms(1) by (simp add: round_ok_def)
  show "takes pid (r_parent r) ((r_child r)(p := x)) z' m' \<longleftrightarrow>
      takes pid (r_parent r) (r_child r) z' m' \<and> \<not> (z' = Some p \<and> m' = m)" for z' m'
    using assms(2) by (cases z') auto
qed

lemma child_keeps_locks:
  assumes "round_ok Y L pid n claimed r" "holds1 x = holds1 (r_child r p)" "holds2 x = holds2 (r_child r p)"
  shows "locks_ok L pid (r_locks r) (r_parent r) ((r_child r)(p := x))"
proof (rule same_locks)
  show "locks_ok L pid (r_locks r) (r_parent r) (r_child r)" using assms(1) by (simp add: round_ok_def)
  show "takes pid (r_parent r) ((r_child r)(p := x)) z m \<longleftrightarrow> takes pid (r_parent r) (r_child r) z m" for z m
    using assms(2,3) by (cases z) auto
qed

text \<open>A child always gets its l2: the parent asks for l2 only when no child is without it.\<close>

lemma lock2_granted:
  assumes "round_ok Y L pid n claimed r" "r_child r p = Starting"
  shows "lock_take L (r_locks r) (Some p) (l2 [pid p]) \<noteq> None"
proof
  assume "lock_take L (r_locks r) (Some p) (l2 [pid p]) = None"
  then obtain z m where z: "z \<noteq> Some p" "overlaps (l2 [pid p]) m" "0 < lock_count L (r_locks r) z m"
    by (rule not_taken)
  then have "takes pid (r_parent r) (r_child r) z m"
    using assms(1) unfolding round_ok_def locks_ok_def by (metis less_irrefl)
  moreover have "r_parent r \<noteq> Report"
    using phases_report [of "r_parent r" "r_child r" p] assms by (auto simp: round_ok_def)
  ultimately show False using z(1,2) pids by (cases z) (auto dest: injD)
qed

lemma child_keeps:
  assumes "child_step Y L pid r new r'" "round_ok Y L pid n claimed r"
  shows "round_ok Y L pid n (claimed @ new) r'"
  using assms(1)
proof cases
  case (locked2 p l')
  then show ?thesis
    using child_moves [OF assms(2), of Uncount p l' "r_db r"] child_takes [OF assms(2) locked2(4), of Uncount]
    by (simp add: still_counted_def past_lock1_def holds2_def)
next
  case (failed2 p)
  then show ?thesis using lock2_granted [OF assms(2)] by blast
next
  case (uncounted p v db')
  have ok: "count_ok Y (r_db r) (r_parent r) (r_child r)" using assms(2) by (simp add: round_ok_def)
  let ?ch = "(r_child r)(p := Lock1)"
  have "count_of (r_parent r) ?ch + 1 = count_of (r_parent r) (r_child r)"
    using uncounted(3) by (intro count_of_child) (simp_all add: still_counted_def)
  then have "int (count_of (r_parent r) (r_child r)) + -1 = int (count_of (r_parent r) ?ch)" by linarith
  then have db': "node Y db' g s = (if g = ''^count'' \<and> s = [] then Some (dec (int (count_of (r_parent r) ?ch)))
      else node Y (r_db r) g s)" for g s
    using uncounted(4) count_runs(4,5) [OF ok] by auto
  have "phases_ok (r_parent r) ?ch"
    using uncounted(3) assms(2) unfolding round_ok_def
    by (intro phases_child) (auto simp: still_counted_def past_lock1_def)
  moreover have "counters_ok Y n db' (block_pc \<circ> r_child r)"
    by (rule counters_same [of Y n "r_db r"]) (use assms(2) in \<open>simp_all add: round_ok_def db'\<close>)
  moreover have "locks_ok L pid (r_locks r) (r_parent r) ?ch"
    using uncounted(3) by (intro child_keeps_locks [OF assms(2)]) (simp_all add: holds2_def)
  ultimately show ?thesis
    using assms(2) uncounted(1,2,3) unfolding round_ok_def count_ok_def
    by (simp add: db' block_pc_same [of Lock1 "r_child r" p])
next
  case (locked1 p l')
  have "\<not> takes pid (r_parent r) (r_child r) None (l1 [])"
    by (rule holders [OF assms(2) locked1(4)]) simp_all
  then have "\<not> (starting_up (r_parent r) \<or> r_parent r = Release)" by simp
  moreover have "locks_ok L pid l' (r_parent r) ((r_child r)(p := Working (Look 1)))"
    using locked1(3) by (intro child_takes [OF assms(2) locked1(4)]) (simp add: holds2_def)
  ultimately have "round_ok Y L pid n claimed
      (r\<lparr>r_db := r_db r, r_locks := l', r_child := (r_child r)(p := Working (Look 1))\<rparr>)"
    using locked1(3) by (intro child_moves [OF assms(2)]) (simp_all add: still_counted_def)
  then show ?thesis using locked1(1,2) by simp
next
  case (failed1 p)
  then show ?thesis
    using child_moves [OF assms(2), of Failed p _ "r_db r"] child_releases [OF assms(2), of _ p Failed]
    by (simp add: still_counted_def past_lock1_def holds2_def)
next
  case (worked p x db' pc)
  let ?pc = "block_pc \<circ> r_child r" and ?x = "Working (pc ())"
  have "doblk_step Y (r_db r, ?pc) new (db', ?pc(p := pc ()))"
    using worked(2) by (intro doblk_step_lift [OF worked(3)]) simp
  from step_keeps_claims [OF this, of n claimed]
  have claims: "claims_ok n (block_pc \<circ> (r_child r)(p := ?x)) (claimed @ new)"
    "counters_ok Y n db' (block_pc \<circ> (r_child r)(p := ?x))"
    using assms(2) few unfolding block_pc_child round_ok_def by simp_all
  have "phases_ok (r_parent r) ((r_child r)(p := ?x))"
    using worked(2) assms(2) unfolding round_ok_def
    by (intro phases_child) (auto simp: still_counted_def past_lock1_def)
  moreover have "locks_ok L pid (r_locks r) (r_parent r) ((r_child r)(p := ?x))"
    using worked(2) by (intro child_keeps_locks [OF assms(2)]) (simp_all add: holds2_def)
  moreover have "count_of (r_parent r) ((r_child r)(p := ?x)) = count_of (r_parent r) (r_child r)"
    using worked(2) by (intro count_of_child) (simp add: still_counted_def)
  ultimately show ?thesis
    using claims assms(2) worked(1,4) unfolding round_ok_def count_ok_def by simp
next
  case (added p view db')
  have keeps: "keeps Y ({''^reads'', ''^updates'', ''^highest''} \<times> {[]}) (tp_gvstatsincr Y)"
    by (rule gvstats_keeps) (rule calm_db_axioms)
  obtain q where run: "tp_gvstatsincr Y view = Inr (q, db')"
    using added(5) unfolding as_function_def by (cases "tp_gvstatsincr Y view" rule: returned.cases) auto
  have "node Y db' g s = node Y view g s" if "g \<in> {''^limits'', ''^count''}" for g s
    using keepsD [OF keeps run, of g s] that by auto
  then have same: "node Y db' g s = node Y (r_db r) g s" if "g \<in> {''^limits'', ''^count''}" for g s
    using added(4) that by (auto simp: same_globals_def)
  have "locks_ok L pid (r_locks r) (r_parent r) ((r_child r)(p := Unlock1))"
    using added(3) by (intro child_keeps_locks [OF assms(2)]) (simp_all add: holds2_def)
  then show ?thesis
    using added child_moves [OF assms(2), of Unlock1 p "r_locks r" db'] same
    by (simp add: still_counted_def past_lock1_def)
next
  case (unlocked1 p)
  then show ?thesis
    using child_moves [OF assms(2), of Unlock2 p _ "r_db r"] child_releases [OF assms(2), of _ p Unlock2]
    by (simp add: still_counted_def past_lock1_def holds2_def)
next
  case (unlocked2 p)
  then show ?thesis
    using child_moves [OF assms(2), of Exited p _ "r_db r"] child_releases [OF assms(2), of _ p Exited]
    by (simp add: still_counted_def past_lock1_def holds2_def)
qed

end

section \<open>Steps of the parent\<close>

lemma report_round_keeps: "keeps Y {} (report_round Y duration)"
  unfolding report_round_def by (intro keeps_then keeps_get keeps_pure)

lemma nobody_counted: "count_of q (ch :: 'p :: finite \<Rightarrow> child_pc) = 0 \<Longrightarrow> \<not> still_counted (ch p)"
  unfolding count_of_def by auto

context locked_db
begin

text \<open>The parent goes on with the same children and what they see of the database.\<close>

lemma parent_moves:
  assumes "round_ok Y L pid n claimed r"
    and "\<And>g s. g \<in> {''^limits'', ''^count''} \<Longrightarrow> node Y db g s = node Y (r_db r) g s"
    and "spawning q = spawning (r_parent r)" "locks_ok L pid l q (r_child r)" "phases_ok q (r_child r)"
  shows "round_ok Y L pid n claimed (r\<lparr>r_db := db, r_locks := l, r_parent := q\<rparr>)"
proof -
  have "counters_ok Y n db (block_pc \<circ> r_child r)"
    by (rule counters_same [of Y n "r_db r"]) (use assms(1,2) in \<open>simp_all add: round_ok_def\<close>)
  then show ?thesis
    using assms unfolding round_ok_def count_ok_def count_of_def by simp
qed

lemma parent_keeps_locks:
  assumes "round_ok Y L pid n claimed r" "takes pid q (r_child r) None = takes pid (r_parent r) (r_child r) None"
  shows "locks_ok L pid (r_locks r) q (r_child r)"
proof (rule same_locks)
  show "locks_ok L pid (r_locks r) (r_parent r) (r_child r)" using assms(1) by (simp add: round_ok_def)
  show "takes pid q (r_child r) z m \<longleftrightarrow> takes pid (r_parent r) (r_child r) z m" for z m
    using assms(2) by (cases z) auto
qed

lemma parent_releases:
  assumes "round_ok Y L pid n claimed r" "\<not> starting_up (r_parent r)" "\<not> starting_up q" "q \<notin> {Release, Report}"
    and "r_parent r = Release \<and> m = l1 [] \<or> r_parent r \<noteq> Release \<and> m = l2 []"
  shows "locks_ok L pid (lock_release L (r_locks r) None m) q (r_child r)"
proof (rule release_keeps)
  show "locks_ok L pid (r_locks r) (r_parent r) (r_child r)" using assms(1) by (simp add: round_ok_def)
  show "takes pid q (r_child r) z' m' \<longleftrightarrow> takes pid (r_parent r) (r_child r) z' m' \<and> \<not> (z' = None \<and> m' = m)" for z' m'
    using assms(2-5) by (cases z') auto
qed

lemma parent_keeps:
  assumes "parent_step Y L r r'" "round_ok Y L pid n claimed r"
  shows "round_ok Y L pid n claimed r'"
proof -
  have ok: "claims_ok n (block_pc \<circ> r_child r) claimed" "counters_ok Y n (r_db r) (block_pc \<circ> r_child r)"
    "count_ok Y (r_db r) (r_parent r) (r_child r)" "locks_ok L pid (r_locks r) (r_parent r) (r_child r)"
    and phases: "phases_ok (r_parent r) (r_child r)"
    using assms(2) by (simp_all add: round_ok_def)
  show ?thesis
    using assms(1)
  proof cases
    case (counted p ps v db')
    have db': "node Y db' g s = (if g = ''^count'' \<and> s = [] then Some (dec (int (count_of (r_parent r) (r_child r)) + 1))
        else node Y (r_db r) g s)" for g s
      using counted(3) count_runs(2,3) [OF ok(3)] by auto
    have "counters_ok Y n db' (block_pc \<circ> r_child r)"
      by (rule counters_same [OF ok(2)]) (simp add: db')
    moreover have "count_of (Spawn p ps) (r_child r) = count_of (r_parent r) (r_child r) + 1"
      using counted(2) by (simp add: count_of_def)
    moreover have "locks_ok L pid (r_locks r) (Spawn p ps) (r_child r)"
      using counted(2) by (intro parent_keeps_locks [OF assms(2)]) (simp add: fun_eq_iff)
    moreover have "phases_ok (Spawn p ps) (r_child r)"
      using phases counted(2) unfolding phases_ok_def by simp
    ultimately show ?thesis
      using ok(1) counted(1) unfolding round_ok_def count_ok_def by (simp add: db' add.commute)
  next
    case (forked p ps)
    have p: "r_child r p = Unborn" using phases forked(2) by (simp add: phases_ok_def)
    have "count_of (Spawn p ps) ((r_child r)(p := Starting)) = count_of (Spawn p ps) (r_child r) + 1"
      using p by (intro count_of_child) (simp_all add: still_counted_def)
    then have "count_of (Fork ps) ((r_child r)(p := Starting)) = count_of (r_parent r) (r_child r)"
      using forked(2) by (simp add: count_of_def)
    moreover have "locks_ok L pid (r_locks r) (Fork ps) ((r_child r)(p := Starting))"
    proof (rule same_locks [OF ok(4)])
      show "takes pid (Fork ps) ((r_child r)(p := Starting)) z m \<longleftrightarrow> takes pid (r_parent r) (r_child r) z m" for z m
        using forked(2) p by (cases z) (auto simp: holds2_def)
    qed
    moreover have "phases_ok (Fork ps) ((r_child r)(p := Starting))"
      using phases forked(2) unfolding phases_ok_def by (auto simp: past_lock1_def)
    ultimately show ?thesis
      using ok(1-3) forked(1) p unfolding round_ok_def count_ok_def
      by (simp add: block_pc_same [of Starting "r_child r" p])
  next
    case (polled c db')
    let ?q = "if c = 0 then Release else Fork []"
    have c: "c = int (count_of (r_parent r) (r_child r))" "db' = r_db r"
      using polled(3) count_runs(1) [OF ok(3)] by auto
    have "\<not> still_counted (r_child r p)" if "c = 0" for p
      using nobody_counted [of "r_parent r" "r_child r" p] c(1) that by simp
    then have "phases_ok ?q (r_child r)"
      using phases polled(2) unfolding phases_ok_def by auto
    moreover have "locks_ok L pid (r_locks r) ?q (r_child r)"
      using polled(2) by (intro parent_keeps_locks [OF assms(2)]) (simp add: fun_eq_iff)
    ultimately have "round_ok Y L pid n claimed (r\<lparr>r_db := r_db r, r_locks := r_locks r, r_parent := ?q\<rparr>)"
      using polled(2) by (intro parent_moves [OF assms(2)]) simp_all
    then show ?thesis using polled(1) c(2) by simp
  next
    case released
    have "phases_ok Finish (r_child r)" using phases released(2) unfolding phases_ok_def by simp
    then have "round_ok Y L pid n claimed
        (r\<lparr>r_db := r_db r, r_locks := lock_release L (r_locks r) None (l1 []), r_parent := Finish\<rparr>)"
      using released(2) by (intro parent_moves [OF assms(2)] parent_releases [OF assms(2)]) simp_all
    then show ?thesis using released(1) by simp
  next
    case (finished l')
    have "r_child r p \<in> {Exited, Failed}" for p
    proof -
      have "\<not> takes pid (r_parent r) (r_child r) (Some p) (l2 [pid p])"
        by (rule holders [OF assms(2) finished(3)]) simp_all
      moreover have "r_child r p \<noteq> Unborn" "\<not> still_counted (r_child r p)"
        using phases finished(2) unfolding phases_ok_def by simp_all
      ultimately show ?thesis by (cases "r_child r p") (auto simp: holds2_def still_counted_def)
    qed
    then have "phases_ok Report (r_child r)" using phases finished(2) unfolding phases_ok_def by simp
    moreover have "locks_ok L pid l' Report (r_child r)"
    proof (rule take_keeps [OF finished(3) ok(4)])
      show "takes pid Report (r_child r) z' m' \<longleftrightarrow> takes pid (r_parent r) (r_child r) z' m' \<or> z' = None \<and> m' = l2 []" for z' m'
        using finished(2) by (cases z') auto
    qed (use finished(2) in simp)
    ultimately have "round_ok Y L pid n claimed (r\<lparr>r_db := r_db r, r_locks := l', r_parent := Report\<rparr>)"
      using finished(2) by (intro parent_moves [OF assms(2)]) simp_all
    then show ?thesis using finished(1) by simp
  next
    case timed_out
    have "phases_ok GaveUp (r_child r)" using phases timed_out(2) unfolding phases_ok_def by simp
    moreover have "locks_ok L pid (r_locks r) GaveUp (r_child r)"
      using timed_out(2) by (intro parent_keeps_locks [OF assms(2)]) (simp add: fun_eq_iff)
    ultimately have "round_ok Y L pid n claimed (r\<lparr>r_db := r_db r, r_locks := r_locks r, r_parent := GaveUp\<rparr>)"
      using timed_out(2) by (intro parent_moves [OF assms(2)]) simp_all
    then show ?thesis using timed_out(1) by simp
  next
    case (reported duration printed db')
    have "phases_ok Reap (r_child r)" using phases reported(2) unfolding phases_ok_def by simp
    moreover have "node Y db' g s = node Y (r_db r) g s" for g s
      by (rule keepsD [OF report_round_keeps reported(3)]) simp
    ultimately show ?thesis
      unfolding reported(1) using reported(2)
      by (intro parent_moves [OF assms(2)] parent_releases [OF assms(2)]) simp_all
  next
    case gave_up
    have "phases_ok Reap (r_child r)" using phases gave_up(2) unfolding phases_ok_def by simp
    then have "round_ok Y L pid n claimed
        (r\<lparr>r_db := r_db r, r_locks := lock_release L (r_locks r) None (l2 []), r_parent := Reap\<rparr>)"
      using gave_up(2) by (intro parent_moves [OF assms(2)] parent_releases [OF assms(2)]) simp_all
    then show ?thesis using gave_up(1) by simp
  next
    case reaped
    have "phases_ok NextLine (r_child r)" using phases reaped(2) unfolding phases_ok_def by simp
    moreover have "locks_ok L pid (r_locks r) NextLine (r_child r)"
      using reaped(2) by (intro parent_keeps_locks [OF assms(2)]) (simp add: fun_eq_iff)
    ultimately have "round_ok Y L pid n claimed (r\<lparr>r_db := r_db r, r_locks := r_locks r, r_parent := NextLine\<rparr>)"
      using reaped(2) by (intro parent_moves [OF assms(2)]) simp_all
    then show ?thesis using reaped(1) by simp
  qed
qed

text \<open>What \<open>prepare\<close> leaves is what the round starts on.\<close>

lemma prepare_runs:
  assumes "1 \<le> blk" "i - 1 \<le> j" "is_int32 (i - 1)" "is_int32 (j + blk)" "nat (j - i + 1) < fuel"
  shows "\<exists>db'. prepare Y fuel i j blk db = Inr (Go True, db') \<and> node Y db' ''^count'' [] = Some (dec 0) \<and>
     limits_are Y db' (blocks blk (i - 1) j) (limit blk (i - 1) j)"
proof -
  from define_limits_runs [OF assms] obtain db' where
    "define_limits Y fuel i j blk db = Inr (Go True, db')" "limits_are Y db' (blocks blk (i - 1) j) (limit blk (i - 1) j)"
    by blast
  then show ?thesis
    by (intro exI [of _ "put Y ''^count'' [] (dec 0) db'"]) (auto simp: prepare_def limits_are_def)
qed

lemma start_ok:
  assumes "round_start Y L n f r" "0 \<le> n"
  shows "round_ok Y L pid n [] r"
proof -
  obtain ps where ps: "r_parent r = Fork ps" "distinct ps" "set ps = UNIV" "\<And>p. r_child r p = Unborn"
    and start: "\<And>q m. lock_count L (r_locks r) q m = (if q = None \<and> m = l1 [] then 1 else 0)"
    using assms(1) unfolding round_start_def by blast
  have pcs: "block_pc \<circ> r_child r = (\<lambda>_. Look 1)" by (simp add: fun_eq_iff ps(4))
  have "passers (\<lambda>_ :: 'p. Look 1) c = {}" if "1 \<le> c" for c using that by (auto simp: passers_def)
  then have "claims_ok n (block_pc \<circ> r_child r) [] \<and> counters_ok Y n (r_db r) (block_pc \<circ> r_child r)"
    using assms unfolding pcs claims_ok_def counters_ok_def limits_are_def round_start_def by auto
  moreover have "locks_ok L pid (r_locks r) (r_parent r) (r_child r)"
    unfolding locks_ok_def
  proof (intro allI)
    fix z m
    show "lock_count L (r_locks r) z m = (if takes pid (r_parent r) (r_child r) z m then 1 else 0)"
      using start [of z m] ps(1,4) by (cases z) (simp_all add: holds2_def)
  qed
  ultimately show ?thesis
    using assms(1) ps unfolding round_ok_def round_start_def count_ok_def phases_ok_def count_of_def
    by (simp add: still_counted_def past_lock1_def)
qed

lemma run_keeps:
  assumes "round_run Y L pid r0 claimed r" "round_start Y L n f r0" "0 \<le> n"
  shows "round_ok Y L pid n claimed r"
  using assms(1)
proof (induction rule: round_run.induct)
  case start
  then show ?case by (rule start_ok [OF assms(2,3)])
next
  case (parent claimed r r')
  then show ?case by (blast intro: parent_keeps)
next
  case (child claimed r new r')
  then show ?case by (blast intro: child_keeps)
qed

end

section \<open>A lock manager\<close>

text \<open>The locks held, one entry each time a lock is taken.\<close>

definition list_locks :: "(('p option \<times> lock_name) list, 'p) lock_table" where
  "list_locks =
     \<lparr>lock_take = (\<lambda>l q m. if list_ex (\<lambda>(q', m'). q' \<noteq> q \<and> overlaps m m') l then None else Some ((q, m) # l)),
      lock_release = (\<lambda>l q m. remove1 (q, m) l),
      lock_count = (\<lambda>l q m. count_list l (q, m))\<rparr>"

lemma count_list_remove1: "count_list (remove1 x l) y = (if y = x then count_list l y - 1 else count_list l y)"
proof (induction l)
  case (Cons a l)
  show ?case
  proof (cases "x = a")
    case False
    then show ?thesis using Cons by auto
  qed auto
qed simp

lemma list_locks_law: "lock_law list_locks"
  unfolding lock_law_def
proof (intro allI conjI)
  fix l :: "('a option \<times> lock_name) list" and q m
  have held: "(q', m') \<in> set l \<longleftrightarrow> 0 < count_list l (q', m')" for q' m'
    using count_notin [of "(q', m')" l] count_list_0_iff [of l "(q', m')"] by auto
  show "case lock_take list_locks l q m of
      None \<Rightarrow> \<exists>q' m'. q' \<noteq> q \<and> overlaps m m' \<and> 0 < lock_count list_locks l q' m'
    | Some l' \<Rightarrow> lock_count list_locks l' =
          (lock_count list_locks l)(q := (lock_count list_locks l q)(m := lock_count list_locks l q m + 1)) \<and>
        (\<forall>q' m'. q' \<noteq> q \<longrightarrow> overlaps m m' \<longrightarrow> lock_count list_locks l q' m' = 0)"
  proof (cases "list_ex (\<lambda>(q', m'). q' \<noteq> q \<and> overlaps m m') l")
    case True
    then obtain q' m' where "(q', m') \<in> set l" "q' \<noteq> q" "overlaps m m'" by (auto simp: list_ex_iff)
    then have "\<exists>q' m'. q' \<noteq> q \<and> overlaps m m' \<and> 0 < count_list l (q', m')" using held by blast
    then show ?thesis using True unfolding list_locks_def by simp
  next
    case False
    then have "\<forall>q' m'. q' \<noteq> q \<longrightarrow> overlaps m m' \<longrightarrow> count_list l (q', m') = 0"
      using held by (fastforce simp: list_ex_iff)
    moreover have "(\<lambda>q' m'. count_list ((q, m) # l) (q', m')) =
        (\<lambda>q' m'. count_list l (q', m'))(q := (\<lambda>m'. count_list l (q, m'))(m := count_list l (q, m) + 1))"
      by (intro ext) auto
    ultimately show ?thesis using False unfolding list_locks_def by simp
  qed
  show "lock_count list_locks (lock_release list_locks l q m) =
      (lock_count list_locks l)(q := (lock_count list_locks l q)(m := lock_count list_locks l q m - 1))"
    by (intro ext) (auto simp: list_locks_def count_list_remove1)
qed

definition two_pids :: "bool \<Rightarrow> string" where
  "two_pids b = (if b then ''42'' else ''43'')"

interpretation locked_map: locked_db map_ydb list_locks two_pids
  by unfold_locales (simp_all add: list_locks_law inj_def two_pids_def)

section \<open>The round\<close>

text \<open>
  C19: the parent reports only after the children have done all the work. When it has l2, every
  child has either given its locks back after the last block or ended at the assertion that it
  got l1; no block was worked on by two of them, and if any child has come to its end, every block
  of the range was worked on.
\<close>

theorem round_reported:
  fixes pid :: "'p :: finite \<Rightarrow> string"
  assumes "ydb_good Y" "lock_law L" "inj pid" "int CARD('p) < 2 ^ 31 - 1"
    and "round_start Y L n f r0" "0 \<le> n" "round_run Y L pid r0 claimed r" "r_parent r = Report"
  shows "(\<forall>p. r_child r p \<in> {Exited, Failed}) \<and> distinct claimed \<and>
    ((\<exists>p. r_child r p = Exited) \<longrightarrow> set claimed = {1..n})"
proof -
  have "locked_db Y L pid" by unfold_locales (rule assms(1-4))+
  then have ok: "round_ok Y L pid n claimed r" by (rule locked_db.run_keeps [OF _ assms(7,5,6)])
  then have "passers (block_pc \<circ> r_child r) c \<noteq> {}" if "r_child r p = Exited" for p c
    using that by (auto simp: passers_def intro!: exI [of _ p])
  then show ?thesis
    using ok assms(8) unfolding round_ok_def claims_ok_def phases_ok_def by fastforce
qed

text \<open>
  C20: no child works on a block before all of them have started: ^count counts exactly those that
  are not there yet, and while any child has l1 it is 0 and the parent has released l1.
\<close>

theorem work_after_count:
  fixes pid :: "'p :: finite \<Rightarrow> string"
  assumes "ydb_good Y" "lock_law L" "inj pid" "int CARD('p) < 2 ^ 31 - 1"
    and "round_start Y L n f r0" "0 \<le> n" "round_run Y L pid r0 claimed r" "r_child r p = Working x"
  shows "node Y (r_db r) ''^count'' [] = Some (dec 0) \<and> (\<forall>q. r_child r q \<notin> {Unborn, Starting, Uncount}) \<and>
    lock_count L (r_locks r) None (l1 []) = 0"
proof -
  have "locked_db Y L pid" by unfold_locales (rule assms(1-4))+
  then have ok: "round_ok Y L pid n claimed r" by (rule locked_db.run_keeps [OF _ assms(7,5,6)])
  have "past_lock1 (r_child r p)" using assms(8) by (simp add: past_lock1_def)
  then have late: "\<not> starting_up (r_parent r)" "r_parent r \<noteq> Release" and nobody: "\<And>p. \<not> still_counted (r_child r p)"
    using ok unfolding round_ok_def phases_ok_def by blast+
  have none: "spawning (r_parent r) = 0" "still_to_start (r_parent r) = []" using late(1) by (cases "r_parent r"; simp)+
  have "\<not> takes pid (r_parent r) (r_child r) None (l1 [])" using late by simp
  then have "lock_count L (r_locks r) None (l1 []) = 0" using ok unfolding round_ok_def locks_ok_def by metis
  moreover have "node Y (r_db r) ''^count'' [] = Some (dec 0)"
    using ok none nobody unfolding round_ok_def count_ok_def count_of_def by simp
  moreover have "r_child r q \<notin> {Unborn, Starting, Uncount}" for q
    using ok none nobody [of q] unfolding round_ok_def phases_ok_def by (simp add: still_counted_def)
  ultimately show ?thesis by blast
qed

section \<open>A round\<close>

text \<open>A round with one child and one block, step by step.\<close>

type_synonym map_db = "string \<times> string list \<Rightarrow> string option"

definition at_point ::
    "map_db \<Rightarrow> (unit option \<times> lock_name) list \<Rightarrow> unit parent_pc \<Rightarrow> child_pc \<Rightarrow>
       (map_db, (unit option \<times> lock_name) list, unit) threeen1_round" where
  "at_point d l q c = \<lparr>r_db = d, r_locks = l, r_parent = q, r_child = (\<lambda>_. c)\<rparr>"

lemma at_point_simps [simp]:
  "r_db (at_point d l q c) = d" "r_locks (at_point d l q c) = l" "r_parent (at_point d l q c) = q"
  "r_child (at_point d l q c) = (\<lambda>_. c)" "(at_point d l q c)\<lparr>r_db := d'\<rparr> = at_point d' l q c"
  "(at_point d l q c)\<lparr>r_locks := l'\<rparr> = at_point d l' q c" "(at_point d l q c)\<lparr>r_parent := q'\<rparr> = at_point d l q' c"
  "(at_point d l q c)\<lparr>r_child := ch\<rparr> = at_point d l q (ch ())"
  by (simp_all add: at_point_def fun_eq_iff)

lemma map_incr:
  "db (g, s) = None \<Longrightarrow> incr_ok map_ydb g s None db = Inr (Go (dec 1), db((g, s) := Some (dec 1)))"
  "db (g, s) = Some (dec 1) \<Longrightarrow> incr_ok map_ydb g s (Some (dec (-1))) db = Inr (Go (dec 0), db((g, s) := Some (dec 0)))"
  "db (g, s) = Some (dec 0) \<Longrightarrow> incr_ok map_ydb g s None db = Inr (Go (dec 1), db((g, s) := Some (dec 1)))"
  by (simp_all add: incr_ok_def map_ydb_def asserted_def YDB_OK_def strtol10_dec)

definition one_round_db :: "int \<Rightarrow> map_db" where
  "one_round_db c =
     (\<lambda>(g, s). if g = ''^limits'' \<and> s = [dec 1] then Some (dec 5) else if g = ''^count'' \<and> s = [] then Some (dec c) else None)"

lemma one_round_start: "round_start map_ydb list_locks 1 (\<lambda>_. 5) (at_point (one_round_db 0) [(None, l1 [])] (Fork [()]) Unborn)"
  by (auto simp: round_start_def one_round_db_def limits_are_def list_locks_def)

text \<open>The rules at such points.\<close>

lemma unit_upd: "(\<lambda>_ :: unit. c)(() := c') = (\<lambda>_. c')"
  by (simp add: fun_eq_iff)

lemma parent_at:
  "incr_ok map_ydb ''^count'' [] None d = Inr (Go v, d') \<Longrightarrow>
     parent_step map_ydb list_locks (at_point d l (Fork [()]) c) (at_point d' l (Spawn () []) c)"
  "parent_step map_ydb list_locks (at_point d l (Spawn () []) c) (at_point d l (Fork []) Starting)"
  "get_int map_ydb MAXVALUELEN ''^count'' [] d = Inr (Go 0, d) \<Longrightarrow>
     parent_step map_ydb list_locks (at_point d l (Fork []) c) (at_point d l Release c)"
  "parent_step map_ydb list_locks (at_point d l Release c) (at_point d (remove1 (None, l1 []) l) Finish c)"
  "parent_step map_ydb list_locks (at_point d [] Finish c) (at_point d [(None, l2 [])] Report c)"
  using parent_step.counted [of "at_point d l (Fork [()]) c" "()" "[]" map_ydb v d' list_locks]
    parent_step.forked [of "at_point d l (Spawn () []) c" "()" "[]" map_ydb list_locks]
    parent_step.polled [of "at_point d l (Fork []) c" map_ydb 0 d list_locks]
    parent_step.released [of "at_point d l Release c" map_ydb list_locks]
    parent_step.finished [of "at_point d [] Finish c" list_locks "[(None, l2 [])]" map_ydb]
  by (simp_all add: unit_upd) (simp_all add: list_locks_def)

lemma child_at:
  "list_ex (\<lambda>(z, m). z \<noteq> Some () \<and> overlaps (l2 [s]) m) l = False \<Longrightarrow>
     child_step map_ydb list_locks (\<lambda>_. s) (at_point d l q Starting) [] (at_point d ((Some (), l2 [s]) # l) q Uncount)"
  "incr_ok map_ydb ''^count'' [] (Some (dec (-1))) d = Inr (Go v, d') \<Longrightarrow>
     child_step map_ydb list_locks (\<lambda>_. s) (at_point d l q Uncount) [] (at_point d' l q Lock1)"
  "list_ex (\<lambda>(z, m). z \<noteq> Some () \<and> overlaps (l1 [s]) m) l = False \<Longrightarrow>
     child_step map_ydb list_locks (\<lambda>_. s) (at_point d l q Lock1) []
       (at_point d ((Some (), l1 [s]) # l) q (Working (Look 1)))"
  "doblk_step map_ydb (d, \<lambda>_ :: unit. x) new (d', \<lambda>_. x') \<Longrightarrow> (\<And>t. d' (''^count'', t) = d (''^count'', t)) \<Longrightarrow>
     child_step map_ydb list_locks (\<lambda>_. s) (at_point d l q (Working x)) new (at_point d' l q (Working x'))"
  "same_globals map_ydb view d \<Longrightarrow> as_function (tp_gvstatsincr map_ydb) view = Inr (YDB_OK, d') \<Longrightarrow>
     child_step map_ydb list_locks (\<lambda>_. s) (at_point d l q (Working Quit)) [] (at_point d' l q Unlock1)"
  "child_step map_ydb list_locks (\<lambda>_. s) (at_point d l q Unlock1) [] (at_point d (remove1 (Some (), l1 [s]) l) q Unlock2)"
  "child_step map_ydb list_locks (\<lambda>_. s) (at_point d l q Unlock2) [] (at_point d (remove1 (Some (), l2 [s]) l) q Exited)"
  using child_step.locked2 [of "at_point d l q Starting" "()" list_locks "\<lambda>_. s" "(Some (), l2 [s]) # l" map_ydb]
    child_step.uncounted [of "at_point d l q Uncount" "()" map_ydb v d' list_locks "\<lambda>_. s"]
    child_step.locked1 [of "at_point d l q Lock1" "()" list_locks "\<lambda>_. s" "(Some (), l1 [s]) # l" map_ydb]
    child_step.worked [of "at_point d l q (Working x)" "()" x map_ydb new d' "\<lambda>_. x'" list_locks "\<lambda>_. s"]
    child_step.added [of "at_point d l q (Working Quit)" "()" map_ydb view d' list_locks "\<lambda>_. s"]
    child_step.unlocked1 [of "at_point d l q Unlock1" "()" map_ydb list_locks "\<lambda>_. s"]
    child_step.unlocked2 [of "at_point d l q Unlock2" "()" map_ydb list_locks "\<lambda>_. s"]
  by (simp_all add: unit_upd) (simp_all add: list_locks_def)

lemma block_at:
  "data_ok map_ydb ''^limits'' [dec t] d = Inr (Go v, d) \<Longrightarrow>
     doblk_step map_ydb (d, \<lambda>_ :: unit. Look t) [] (d, \<lambda>_. if v = 0 then Quit else Claim t)"
  "incr_ok map_ydb ''^limits'' [dec t, dec 1] None d = Inr (Go (dec 1), d') \<Longrightarrow>
     doblk_step map_ydb (d, \<lambda>_ :: unit. Claim t) [t] (d', \<lambda>_. Work t)"
  "doblk_step map_ydb (d, \<lambda>_ :: unit. Work t) [] (d, \<lambda>_. Look (t + 1))"
  using doblk_step.look [of "\<lambda>_ :: unit. Look t" "()" t map_ydb d v d]
    doblk_step.claim [of "\<lambda>_ :: unit. Claim t" "()" t map_ydb d "dec 1" d']
    doblk_step.worked [of "\<lambda>_ :: unit. Work t" "()" t map_ydb d]
  by (simp_all only: unit_upd) (simp_all add: is_int32_def)

lemma map_incr_tp:
  "counts_as t 0 \<Longrightarrow> db (g, s) = None \<Longrightarrow>
     incr_tp map_ydb g s (Some t) db = Inr (Go (dec 0), db((g, s) := Some (dec 0)))"
  by (simp add: incr_tp_def map_ydb_def asserted_tp_def YDB_OK_def strtol10_counts)

lemma added_up:
  assumes "d (''^reads'', []) = None" "d (''^updates'', []) = None"
    "d (''^highest'', []) = None"
  shows "\<exists>view d'. same_globals map_ydb view d \<and> as_function (tp_gvstatsincr map_ydb) view = Inr (YDB_OK, d')"
proof -
  let ?view = "d((''highest'', []) := Some (dec 0))"
  let ?read = "?view((''^reads'', []) := Some (dec 0))"
  let ?sums = "?read((''^updates'', []) := Some (dec 0))"
  have "incr_tp map_ydb ''^reads'' [] (Some ''reads'') ?view = Inr (Go (dec 0), ?read)"
    "incr_tp map_ydb ''^updates'' [] (Some ''updates'') ?read = Inr (Go (dec 0), ?sums)"
    using assms(1,2) by (intro map_incr_tp; simp add: counts_as_def uc_def)+
  moreover have "get_int_or_0_tp map_ydb MAXVALUELEN ''^highest'' [] ?sums = Inr (Go 0, ?sums)"
    using assms(3) by (intro map.get_or_0_runs(2)) simp_all
  moreover have "get_text map_ydb MAXVALUELEN ''highest'' [] ?sums = Inr (Go (dec 0), ?sums)"
    using length_dec [of 0] by (intro map.get_text_runs(1)) (simp_all add: MAXVALUELEN_def is_int32_def)
  ultimately have "as_function (tp_gvstatsincr map_ydb) ?view = Inr (YDB_OK, ?sums)"
    by (simp add: tp_gvstatsincr_def as_function_def is_int32_def)
  moreover have "same_globals map_ydb ?view d" by (simp add: same_globals_def)
  ultimately show ?thesis by blast
qed

abbreviation one_run :: "int list \<Rightarrow> (map_db, (unit option \<times> lock_name) list, unit) threeen1_round \<Rightarrow> bool" where
  "one_run \<equiv> round_run map_ydb list_locks (\<lambda>_. ''42'') (at_point (one_round_db 0) [(None, l1 [])] (Fork [()]) Unborn)"

definition one_working :: map_db where
  "one_working = (one_round_db 0)((''^count'', []) := Some (dec 1), (''^count'', []) := Some (dec 0))"

lemma one_round_works:
  "one_run [] (at_point one_working [(Some (), l1 [''42'']), (Some (), l2 [''42''])] Finish (Working (Look 1)))"
proof -
  let ?has_l = "(Some (), l2 [''42''])" and ?parent = "(None, l1 [])"
  let ?before = "(one_round_db 0)((''^count'', []) := Some (dec 1))"
  note go = round_run.parent and on = round_run.child [where new = "[]", simplified]
  have "one_run [] (at_point ?before [?parent] (Spawn () []) Unborn)"
    by (rule go [OF round_run.start parent_at(1)], rule map_incr) (simp add: one_round_db_def)
  note r = on [OF go [OF this parent_at(2)] child_at(1)]
  have "one_run [] (at_point ?before [?has_l, ?parent] (Fork []) Uncount)" by (rule r) simp
  note r = on [OF this child_at(2)]
  have "one_run [] (at_point one_working [?has_l, ?parent] (Fork []) Lock1)" unfolding one_working_def by (rule r, rule map_incr) simp
  note r = go [OF this parent_at(3)]
  have "one_run [] (at_point one_working [?has_l, ?parent] Release Lock1)"
    using map.get_text_runs(2) [of one_working "''^count''" "[]" "dec 0" MAXVALUELEN] length_dec [of 0]
    by (intro r) (simp add: MAXVALUELEN_def is_int32_def one_working_def)
  note r = go [OF this parent_at(4)]
  have "one_run [] (at_point one_working [?has_l] Finish Lock1)" using r by simp
  note r = on [OF this child_at(3)]
  show ?thesis by (rule r) simp
qed

lemma one_round_run: "\<exists>d. one_run [1] (at_point d [(None, l2 [])] Report Exited)"
proof -
  let ?has_l = "(Some (), l2 [''42''])" and ?has_k = "(Some (), l1 [''42''])"
  let ?final = "one_working((''^limits'', [dec 1, dec 1]) := Some (dec 1))"
  note go = round_run.parent and on = round_run.child [where new = "[]", simplified]
  note r = on [OF one_round_works child_at(4) [OF block_at(1) [of _ _ 1]]]
  have "one_run [] (at_point one_working [?has_k, ?has_l] Finish (Working (Claim 1)))"
    using r by (simp add: map.data_runs below_def one_working_def one_round_db_def)
  note r = round_run.child [OF this child_at(4) [OF block_at(2)]]
  have "one_run ([] @ [1]) (at_point ?final [?has_k, ?has_l] Finish (Working (Work 1)))"
    by (rule r, rule map_incr) (simp_all add: one_working_def one_round_db_def)
  note r = on [OF this child_at(4) [OF block_at(3)]]
  have "one_run ([] @ [1]) (at_point ?final [?has_k, ?has_l] Finish (Working (Look 2)))" using r by simp
  note r = on [OF this child_at(4) [OF block_at(1) [of _ _ 0]]]
  have "one_run ([] @ [1]) (at_point ?final [?has_k, ?has_l] Finish (Working Quit))"
    using r by (simp add: map.data_runs below_def one_working_def one_round_db_def)
  note r = on [OF this child_at(5)]
  have "\<exists>view d'. same_globals map_ydb view ?final \<and> as_function (tp_gvstatsincr map_ydb) view = Inr (YDB_OK, d')"
    by (rule added_up) (simp_all add: one_working_def one_round_db_def)
  with r obtain d' where "one_run ([] @ [1]) (at_point d' [?has_k, ?has_l] Finish Unlock1)" by blast
  note r = on [OF on [OF this child_at(6)] child_at(7)]
  have "one_run ([] @ [1]) (at_point d' [] Finish Exited)" using r by simp
  then show ?thesis using go [OF _ parent_at(5)] by fastforce
qed

lemma round_reported_witness:
  "\<exists>d. one_run [1] (at_point d [(None, l2 [])] Report Exited) \<and> set [1] = {1 .. 1 :: int}"
proof -
  obtain d where run: "one_run [1] (at_point d [(None, l2 [])] Report Exited)" using one_round_run by blast
  have "(\<exists>p. r_child (at_point d [(None, l2 [])] Report Exited) p = Exited) \<longrightarrow> set [1] = {1 .. 1 :: int}"
    using round_reported [OF map_ydb_good list_locks_law _ _ one_round_start _ run] by (simp add: inj_def)
  then show ?thesis using run by auto
qed

lemma work_after_count_witness:
  "one_run [] (at_point one_working [(Some (), l1 [''42'']), (Some (), l2 [''42''])] Finish (Working (Look 1))) \<and>
   one_working (''^count'', []) = Some (dec 0)"
  using work_after_count [OF map_ydb_good list_locks_law _ _ one_round_start _ one_round_works, of "()" "Look 1"] one_round_works
  by (simp add: inj_def)

end
