(* ===== verification/Imptp.thy ===== *)
theory Imptp
  imports YdbProg
begin

unbundle bit_operations_syntax

text \<open>
  com/simpleapi_imptp.c: a parent writes the settings of the test system to ^%imptp and
  starts jobs, and each job fills the database at indices that are powers of a primitive
  root, so that no two updates of any jobs hit one index. Small parts are M routines called
  in (\<open>ydb_cip\<close>); the environment, the random numbers drawn and the process numbers are
  arguments. Messages, the redirection of the output and \<open>ydb_child_init\<close>, which is a
  no-op, are left out.
\<close>

section \<open>The parent\<close>

definition imptp_MAXVALUELEN :: nat where "imptp_MAXVALUELEN = 256"

definition BIGMAXVALUELEN :: nat where "BIGMAXVALUELEN = imptp_MAXVALUELEN * 6"

definition imptp_MAXCHILDREN :: int where "imptp_MAXCHILDREN = 32"

text \<open>The value of an environment variable, as \<open>getenv\<close> finds it, read as an integer.\<close>

definition env_int :: "(string \<Rightarrow> string option) \<Rightarrow> string \<Rightarrow> int" where
  "env_int env name = (case env name of None \<Rightarrow> 0 | Some v \<Rightarrow> atoi v)"

definition jobcnt_of :: "(string \<Rightarrow> string option) \<Rightarrow> int" where
  "jobcnt_of env = (let jobcnt = env_int env ''gtm_test_jobcnt'' in if jobcnt = 0 then 5 else jobcnt)"

text \<open>The simple API has no ZTP transactions.\<close>

definition read_istp :: "(string \<Rightarrow> string option) \<Rightarrow> ('db, int) act" where
  "read_istp env =
     (if env ''gtm_test_tp'' = Some ''NON_TP'' then ret 0
      else if env ''gtm_test_dbfill'' = Some ''IMPZTP'' then fault AssertFailed
      else ret 1)"

text \<open>A node that is set only where it has no data.\<close>

definition set_new :: "'db ydb \<Rightarrow> string \<Rightarrow> string list \<Rightarrow> string \<Rightarrow> ('db, unit) act" where
  "set_new Y g s v = andThen (data_ok Y g s) (\<lambda>data_value. onlyIf (data_value = 0) [set_ok Y g s v])"

text \<open>The settings of the test system; \<open>rnoiso\<close> and \<open>rdup\<close> are what \<open>drand48\<close> gives, 0 or 1.\<close>

definition tpnoiso_of :: "(string \<Rightarrow> string option) \<Rightarrow> int \<Rightarrow> int \<Rightarrow> int" where
  "tpnoiso_of env istp rnoiso =
     (if istp = 1 \<and> (env ''gtm_test_noisolation'' = Some ''TPNOISO'' \<or> rnoiso \<noteq> 0) then 1 else 0)"

definition test_settings ::
    "'db ydb \<Rightarrow> (string \<Rightarrow> string option) \<Rightarrow> int \<Rightarrow> int \<Rightarrow> int \<Rightarrow> int \<Rightarrow> ('db, unit) act" where
  "test_settings Y env rnoiso rdup fillid istp =
     (let jobid = env_int env ''gtm_test_jobid'' in
      block
       [set_ok Y ''istp'' [] (dec istp),
        set_ok Y ''^%imptp'' [dec fillid, ''istp''] (dec istp),
        set_ok Y ''^%imptp'' [dec fillid, ''tptype'']
          (if env ''gtm_test_tptype'' = Some ''ONLINE'' then ''ONLINE'' else ''BATCH''),
        set_new Y ''^%imptp'' [dec fillid, ''tpnoiso''] (dec (tpnoiso_of env istp rnoiso)),
        set_new Y ''^%imptp'' [dec fillid, ''dupset''] (dec rdup),
        set_ok Y ''^%imptp'' [dec fillid, ''crash''] (dec (env_int env ''gtm_test_crash'')),
        set_ok Y ''^%imptp'' [dec fillid, ''gtcm''] (dec (env_int env ''gtm_test_is_gtcm'')),
        set_ok Y ''^%imptp'' [dec fillid, ''skipreg''] (dec (env_int env ''gtm_test_repl_norepl'')),
        set_ok Y ''jobid'' [] (dec jobid),
        set_ok Y ''^%imptp'' [''fillid'', dec jobid] (dec fillid),
        cip_ok Y ''getdatinfo'',
        set_ok Y ''^%imptp'' [dec fillid, ''gtm_test_spannode''] (dec (env_int env ''gtm_test_spannode'')),
        set_ok Y ''^%imptp'' [dec fillid, ''trigger''] (dec 0)])"

text \<open>A number of jobs that is not that of an earlier run makes \<open>main\<close> return -1.\<close>

definition check_totaljob :: "'db ydb \<Rightarrow> int \<Rightarrow> int \<Rightarrow> ('db, unit) act" where
  "check_totaljob Y fillid jobcnt =
     andThen (data_ok Y ''^%imptp'' [dec fillid, ''totaljob'']) (\<lambda>data_value.
       if data_value = 0 then set_ok Y ''^%imptp'' [dec fillid, ''totaljob''] (dec jobcnt)
       else
         andThen (get_int Y BIGMAXVALUELEN ''^%imptp'' [dec fillid, ''totaljob'']) (\<lambda>totaljob.
           if totaljob \<noteq> jobcnt then stop (-1) else ret ()))"

definition fill_settings :: "'db ydb \<Rightarrow> int \<Rightarrow> ('db, unit) act" where
  "fill_settings Y fillid = block
     ([set_ok Y ''^%imptp'' [dec fillid, ''prime''] (dec 50000017),
       set_ok Y ''^%imptp'' [dec fillid, ''root''] (dec 5),
       set_ok Y ''^endloop'' [dec fillid] (dec 0),
       set_new Y ''^cntloop'' [dec fillid] (dec 0),
       set_new Y ''^cntseq'' [dec fillid] (dec 0),
       set_ok Y ''^%imptp'' [dec fillid, ''jsyncnt''] (dec 0)] @
      List.map (\<lambda>c. set_ok Y ''^%sprgdeExcludeGbllist'' [c # ''ndxarr''] []) ''abcdefgh'')"

definition jobwait_settings :: "'db ydb \<Rightarrow> int \<Rightarrow> int \<Rightarrow> ('db, unit) act" where
  "jobwait_settings Y jobid jobcnt = block
     [set_ok Y ''^%jobwait'' [dec jobid, ''njobs''] (dec jobcnt),
      set_ok Y ''^%jobwait'' [dec jobid, ''jmaxwait''] (dec 7200),
      set_ok Y ''^%jobwait'' [dec jobid, ''jdefwait''] (dec 7200),
      set_ok Y ''^%jobwait'' [dec jobid, ''jprint''] (dec 0),
      set_ok Y ''^%jobwait'' [dec jobid, ''jroutine''] ''impjob_imptp'',
      set_ok Y ''^%jobwait'' [dec jobid, ''jmjoname''] ''impjob_imptp'',
      set_ok Y ''^%jobwait'' [dec jobid, ''jnoerrchk''] (dec 0)]"

text \<open>The parent's side of the \<open>fork\<close> of a child that gets the process number \<open>pid\<close>.\<close>

definition fork_child :: "'db ydb \<Rightarrow> int \<Rightarrow> (int \<Rightarrow> int) \<Rightarrow> int \<Rightarrow> ('db, unit) act" where
  "fork_child Y jobid pid child =
     (if imptp_MAXCHILDREN < child then fault OutOfBounds
      else block
       [check (0 \<le> pid child),
        set_ok Y ''^%jobwait'' [dec jobid, dec child] (dec (pid child)),
        set_ok Y ''jobindex'' [dec child] (dec (pid child))])"

text \<open>
  The loops that wait for the jobs; \<open>others n\<close> is what they do while the parent sleeps.
  False when \<open>fuel\<close> does not last.
\<close>

fun wait_first_update :: "'db ydb \<Rightarrow> (nat \<Rightarrow> 'db \<Rightarrow> 'db) \<Rightarrow> nat \<Rightarrow> int \<Rightarrow> ('db, bool) act" where
  "wait_first_update Y others 0 fillid = ret False"
| "wait_first_update Y others (Suc fuel) fillid =
     andThen (get_int Y BIGMAXVALUELEN ''^cntloop'' [dec fillid]) (\<lambda>cntloop.
       if cntloop \<noteq> 0 then ret True else (\<lambda>db. wait_first_update Y others fuel fillid (others fuel db)))"

fun wait_all_started :: "'db ydb \<Rightarrow> (nat \<Rightarrow> 'db \<Rightarrow> 'db) \<Rightarrow> nat \<Rightarrow> int \<Rightarrow> ('db, bool) act" where
  "wait_all_started Y others 0 fillid = ret False"
| "wait_all_started Y others (Suc fuel) fillid =
     andThen (get_int Y BIGMAXVALUELEN ''^%imptp'' [dec fillid, ''jsyncnt'']) (\<lambda>jsyncnt.
     andThen (get_int Y imptp_MAXVALUELEN ''^%imptp'' [dec fillid, ''totaljob'']) (\<lambda>totaljob.
       if jsyncnt = totaljob then ret True else (\<lambda>db. wait_all_started Y others fuel fillid (others fuel db))))"

text \<open>\<open>main\<close> up to the forks, and all of it.\<close>

definition imptp_setup :: "'db ydb \<Rightarrow> (string \<Rightarrow> string option) \<Rightarrow> int \<Rightarrow> int \<Rightarrow> ('db, unit) act" where
  "imptp_setup Y env rnoiso rdup =
     (let jobcnt = jobcnt_of env; fillid = env_int env ''gtm_test_dbfillid'' in
      andThen (set_ok Y ''jobcnt'' [] (dec jobcnt)) (\<lambda>_.
      andThen (get_text Y BIGMAXVALUELEN ''$zroutines'' []) (\<lambda>_.
      andThen (set_ok Y ''fillid'' [] (dec fillid)) (\<lambda>_.
      andThen (read_istp env) (\<lambda>istp.
      block
       [test_settings Y env rnoiso rdup fillid istp,
        check_totaljob Y fillid jobcnt,
        fill_settings Y fillid,
        jobwait_settings Y (env_int env ''gtm_test_jobid'') jobcnt])))))"

definition imptp_main ::
    "'db ydb \<Rightarrow> (string \<Rightarrow> string option) \<Rightarrow> int \<Rightarrow> int \<Rightarrow> (int \<Rightarrow> int) \<Rightarrow> (nat \<Rightarrow> 'db \<Rightarrow> 'db) \<Rightarrow> nat \<Rightarrow> ('db, bool) act" where
  "imptp_main Y env rnoiso rdup pid others fuel =
     (let fillid = env_int env ''gtm_test_dbfillid'' in
      andThen (imptp_setup Y env rnoiso rdup) (\<lambda>_.
      andThen (block (List.map (fork_child Y (env_int env ''gtm_test_jobid'') pid) [1..jobcnt_of env])) (\<lambda>_.
      andThen (block [cip_ok Y ''writecrashfileifneeded'', cip_ok Y ''writejobinfofileifneeded'']) (\<lambda>_.
      andThen (wait_first_update Y others fuel fillid) (\<lambda>first.
        if \<not> first then ret False
        else andThen (wait_all_started Y others fuel fillid) (\<lambda>started.
             if \<not> started then ret False
             else andThen (check (env ''gtm_test_onlinerollback'' \<noteq> Some ''TRUE'')) (\<lambda>_. ret True)))))))"

section \<open>The settings of a job\<close>

record job =
  j_no :: int
  j_fillid :: int
  j_jobcnt :: int
  j_prime :: int
  j_root :: int
  j_top :: int
  j_istp :: int
  j_tptype :: string
  j_tpnoiso :: int
  j_dupset :: int
  j_skipreg :: int
  j_crash :: int
  j_gtcm :: int
  j_keysize :: int
  j_recsize :: int
  j_span :: int
  j_trigger :: int
  j_ztr :: bool
  j_dztrig :: bool

definition pct_int :: "'db ydb \<Rightarrow> int \<Rightarrow> string \<Rightarrow> ('db, int) act" where
  "pct_int Y fillid name = get_int Y BIGMAXVALUELEN ''^%imptp'' [dec fillid, name]"

text \<open>The type of transactions is copied to a small buffer and ended with a NUL there.\<close>

definition read_tptype :: "'db ydb \<Rightarrow> int \<Rightarrow> ('db, string) act" where
  "read_tptype Y fillid =
     andThen (get_ok Y BIGMAXVALUELEN ''^%imptp'' [dec fillid, ''tptype'']) (\<lambda>v.
     andThen (set_ok Y ''tptype'' [] v) (\<lambda>_. nul_ended imptp_MAXVALUELEN v))"

text \<open>\<open>top\<close> is how often a job may go round without coming back to the first index.\<close>

definition read_top :: "'db ydb \<Rightarrow> int \<Rightarrow> int \<Rightarrow> int \<Rightarrow> ('db, int) act" where
  "read_top Y fillid prime jobcnt =
     andThen (get_int_or_0 Y BIGMAXVALUELEN ''^%imptp'' [dec fillid, ''top'']) (\<lambda>top.
       if top \<noteq> 0 then ret top else if jobcnt = 0 then fault DivByZero else ret (c_div prime jobcnt))"

definition read_job :: "'db ydb \<Rightarrow> int \<Rightarrow> int \<Rightarrow> ('db, job) act" where
  "read_job Y childnum jobid =
     andThen (set_ok Y ''jobno'' [] (dec childnum)) (\<lambda>_.
     andThen (get_int Y BIGMAXVALUELEN ''^%imptp'' [''fillid'', dec jobid]) (\<lambda>fillid.
     andThen (pct_int Y fillid ''totaljob'') (\<lambda>jobcnt.
     andThen (pct_int Y fillid ''prime'') (\<lambda>prime.
     andThen (pct_int Y fillid ''root'') (\<lambda>root.
     andThen (read_top Y fillid prime jobcnt) (\<lambda>top.
     andThen (pct_int Y fillid ''istp'') (\<lambda>istp.
     andThen (read_tptype Y fillid) (\<lambda>tptype.
     andThen (pct_int Y fillid ''tpnoiso'') (\<lambda>tpnoiso.
     andThen (pct_int Y fillid ''dupset'') (\<lambda>dupset.
     andThen (pct_int Y fillid ''skipreg'') (\<lambda>skipreg.
     andThen (pct_int Y fillid ''crash'') (\<lambda>crash.
     andThen (set_ok Y ''crash'' [] (dec crash)) (\<lambda>_.
     andThen (pct_int Y fillid ''gtcm'') (\<lambda>gtcm.
     andThen (set_ok Y ''orlbkintp'' [] (dec 0)) (\<lambda>_.
     andThen (pct_int Y fillid ''key_size'') (\<lambda>keysize.
     andThen (set_ok Y ''keysize'' [] (dec keysize)) (\<lambda>_.
     andThen (pct_int Y fillid ''record_size'') (\<lambda>recsize.
     andThen (set_ok Y ''recsize'' [] (dec recsize)) (\<lambda>_.
     andThen (pct_int Y fillid ''gtm_test_spannode'') (\<lambda>span.
     andThen (set_ok Y ''span'' [] (dec span)) (\<lambda>_.
     andThen (pct_int Y fillid ''trigger'') (\<lambda>trigger.
     andThen (set_ok Y ''trigger'' [] (dec trigger)) (\<lambda>_.
     let ztr = trigger \<noteq> 0 \<and> 1 < c_mod trigger 10; dztrig = trigger \<noteq> 0 \<and> 10 < trigger in
     andThen (block
       [set_ok Y ''ztrcmd'' [] ''ztrigger ^lasti(fillid,jobno,loop)'',
        onlyIf (trigger \<noteq> 0)
         [set_ok Y ''trigname'' [] ''triggernameforinsertsanddels'',
          set_ok Y ''fulltrig'' []
            ''^unusedbyothersdummytrigger -commands=S -xecute=\"do ^nothing\" -name=triggernameforinsertsanddels''],
        set_ok Y ''dztrig'' [] (dec (if dztrig then 1 else 0))]) (\<lambda>_.
     ret \<lparr>j_no = childnum, j_fillid = fillid, j_jobcnt = jobcnt, j_prime = prime, j_root = root, j_top = top,
          j_istp = istp, j_tptype = tptype, j_tpnoiso = tpnoiso, j_dupset = dupset, j_skipreg = skipreg,
          j_crash = crash, j_gtcm = gtcm, j_keysize = keysize, j_recsize = recsize, j_span = span,
          j_trigger = trigger, j_ztr = ztr, j_dztrig = dztrig\<rparr>))))))))))))))))))))))))"

section \<open>Where a job starts\<close>

definition lfence_of :: "job \<Rightarrow> int" where
  "lfence_of j = (if j_gtcm j \<noteq> 0 then 0 else if j_istp j = 0 \<and> j_crash j \<noteq> 0 then 1 else j_istp j)"

text \<open>
  \<open>nroot\<close> is computed with int; a product of indices is one of unsigned long long, to which
  the int operands of \<open>*\<close> and \<open>%\<close> are converted.
\<close>

fun nroot_loop :: "nat \<Rightarrow> int \<Rightarrow> int \<Rightarrow> int \<Rightarrow> int" where
  "nroot_loop 0 nroot root prime = nroot"
| "nroot_loop (Suc n) nroot root prime = nroot_loop n (c_mod (int32 (nroot * root)) prime) root prime"

definition mulmod :: "int \<Rightarrow> int \<Rightarrow> int \<Rightarrow> int" where
  "mulmod I root prime = int32 ((I * root) mod 2 ^ 64 mod (prime mod 2 ^ 64))"

fun index_loop :: "nat \<Rightarrow> int \<Rightarrow> int \<Rightarrow> int \<Rightarrow> int" where
  "index_loop 0 I root prime = I"
| "index_loop (Suc n) I root prime = index_loop n (mulmod I root prime) root prime"

text \<open>\<open>I\<close> for a job that has done \<open>lasti\<close> rounds.\<close>

definition start_index :: "job \<Rightarrow> int \<Rightarrow> int \<Rightarrow> int" where
  "start_index j nroot lasti =
     index_loop (nat lasti) (index_loop (nat (j_no j - 1)) 1 (j_root j) (j_prime j)) nroot (j_prime j)"

text \<open>There is at least one job, so \<open>nroot\<close> is divided by \<open>prime\<close> at least once.\<close>

definition job_start :: "'db ydb \<Rightarrow> job \<Rightarrow> ('db, int \<times> int) act" where
  "job_start Y j =
     andThen (block
       [lock_ok Y ''^%imptp'' [dec (j_fillid j), ''jsyncnt''],
        andThen (incr_ok Y ''^%imptp'' [dec (j_fillid j), ''jsyncnt''] None) (\<lambda>_. ret ()),
        unlock_ok Y ''^%imptp'' [dec (j_fillid j), ''jsyncnt''],
        set_ok Y ''lfence'' [] (dec (lfence_of j)),
        onlyIf (j_tpnoiso j \<noteq> 0) [cip_ok Y ''tpnoiso''],
        onlyIf (j_dupset j \<noteq> 0) [cip_ok Y ''dupsetnoop'']]) (\<lambda>_.
     if j_prime j = 0 then fault DivByZero
     else
       andThen (get_int_or_0 Y BIGMAXVALUELEN ''^lasti'' [dec (j_fillid j), dec (j_no j)]) (\<lambda>lasti.
         ret (nroot_loop (nat (j_jobcnt j)) 1 (j_root j) (j_prime j), lasti)))"

section \<open>One round of a job\<close>

text \<open>The strings the M routine \<open>helper1\<close> makes of \<open>I\<close> and \<open>loop\<close>, in buffers of their own.\<close>

record strs =
  s_subsMAX :: string
  s_val :: string
  s_valALT :: string
  s_valMAX :: string
  s_subs :: string
  s_I :: string

definition read_strs :: "'db ydb \<Rightarrow> ('db, strs) act" where
  "read_strs Y =
     andThen (get_ok Y BIGMAXVALUELEN ''subsMAX'' []) (\<lambda>subsMAX.
     andThen (andThen (get_ok Y BIGMAXVALUELEN ''val'' []) (into_buffer imptp_MAXVALUELEN)) (\<lambda>val.
     andThen (andThen (get_ok Y BIGMAXVALUELEN ''valALT'' []) (into_buffer imptp_MAXVALUELEN)) (\<lambda>valALT.
     andThen (get_ok Y BIGMAXVALUELEN ''valMAX'' []) (\<lambda>valMAX.
     andThen (andThen (get_ok Y BIGMAXVALUELEN ''subs'' []) (into_buffer imptp_MAXVALUELEN)) (\<lambda>subs.
     andThen (andThen (get_ok Y BIGMAXVALUELEN ''I'' []) (into_buffer imptp_MAXVALUELEN)) (\<lambda>i.
       ret \<lparr>s_subsMAX = subsMAX, s_val = val, s_valALT = valALT, s_valMAX = valMAX, s_subs = subs, s_I = i\<rparr>))))))"

text \<open>What a transaction that may be killed does with the random number it has drawn.\<close>

definition crash_delay :: "'db ydb \<Rightarrow> int \<Rightarrow> int \<Rightarrow> ('db, unit) act" where
  "crash_delay Y jobno rndm =
     andThen (get_text Y BIGMAXVALUELEN ''$trestart'' []) (\<lambda>v.
     block
      [onlyIf (2 < atoi v \<and> rndm = 1) [cip_tp Y ''noop''],
       onlyIf (atoi v \<noteq> 0) [set_tp Y ''^zdummy'' [v] (dec jobno)]])"

definition tpfn_stage1 :: "'db ydb \<Rightarrow> job \<Rightarrow> strs \<Rightarrow> int \<Rightarrow> int \<Rightarrow> ('db, unit) act" where
  "tpfn_stage1 Y j b loop rndm =
     (let f = dec (j_fillid j) in
      block
       [set_tp Y ''^arandom'' [f, s_subsMAX b] (s_val b),
        onlyIf (j_istp j AND j_crash j \<noteq> 0) [crash_delay Y (j_no j) rndm],
        set_tp Y ''^brandomv'' [f, s_subsMAX b] (s_valALT b),
        onlyIf (j_trigger j = 0) [set_tp Y ''^crandomva'' [f, s_subsMAX b] (s_valALT b)],
        set_tp Y ''^drandomvariable'' [f, s_subs b] (s_valALT b),
        onlyIf (j_trigger j = 0)
         [set_tp Y ''^erandomvariableimptp'' [f, s_subs b] (s_valALT b),
          set_tp Y ''^frandomvariableinimptp'' [f, s_subs b] (s_valALT b)],
        set_tp Y ''^grandomvariableinimptpfill'' [f, s_subs b] (s_val b),
        (if j_trigger j = 0 then block
          [set_tp Y ''^hrandomvariableinimptpfilling'' [f, s_subs b] (s_val b),
           set_tp Y ''^irandomvariableinimptpfillprgrm'' [f, s_subs b] (s_val b)]
         else cip_tp Y ''ztwormstr''),
        set_tp Y ''^jrandomvariableinimptpfillprogr'' [f, s_I b] (s_val b),
        onlyIf (j_trigger j = 0)
         [set_tp Y ''^jrandomvariableinimptpfillprogr'' [f, s_I b, s_I b] (s_val b),
          set_tp Y ''^jrandomvariableinimptpfillprogr'' [f, s_I b, s_I b, s_subs b] (s_val b)],
        onlyIf (j_istp j \<noteq> 0)
         [onlyIf (j_ztr j) [cip_tp Y ''ztrcmd''],
          set_tp Y ''^lasti'' [f, dec (j_no j)] (dec loop)]])"

text \<open>The last two sets of stage 3 look for a restart only.\<close>

definition set_restart :: "'db ydb \<Rightarrow> string \<Rightarrow> string list \<Rightarrow> string \<Rightarrow> ('db, unit) act" where
  "set_restart Y g s v db =
     (let (status, db') = ydb_set_s Y db g s v in if status = YDB_TP_RESTART Y then stop status db' else ret () db')"

text \<open>The suffix a trigger has put behind the value of ^fntp is cut off.\<close>

definition cut_suffix :: "'db ydb \<Rightarrow> job \<Rightarrow> strs \<Rightarrow> ('db, unit) act" where
  "cut_suffix Y j b =
     andThen (get_tp Y BIGMAXVALUELEN ''^fntp'' [dec (j_fillid j), s_subs b]) (\<lambda>v.
       if 6 \<le> length v then set_tp Y ''^fntp'' [dec (j_fillid j), s_subs b] (take (length v - 6) v)
       else andThen (check (j_istp j \<noteq> 0)) (\<lambda>_. stop (YDB_TP_RESTART Y)))"

definition tpfn_stage3 :: "'db ydb \<Rightarrow> job \<Rightarrow> strs \<Rightarrow> ('db, unit) act" where
  "tpfn_stage3 Y j b =
     (let f = dec (j_fillid j) in
      block
       [onlyIf (j_dztrig j) [cip_tp Y ''imptpdztrig''],
        set_tp Y ''^entp'' [f, s_subs b] (s_val b),
        (if j_trigger j = 0 then set_tp Y ''^fntp'' [f, s_subs b] (s_val b) else cut_suffix Y j b),
        set_tp Y ''^gntp'' [f, s_subsMAX b] (s_valMAX b),
        onlyIf (j_trigger j = 0)
         [set_tp Y ''^hntp'' [f, s_subsMAX b] (s_valMAX b),
          set_restart Y ''^intp'' [f, s_subsMAX b] (s_valMAX b),
          set_restart Y ''^bntp'' [f, s_subsMAX b] (s_valMAX b)]])"

text \<open>A stage is a transaction or a plain call.\<close>

definition run_stage :: "'db ydb \<Rightarrow> job \<Rightarrow> ('db, unit) act \<Rightarrow> ('db, unit) act" where
  "run_stage Y j f = (if j_istp j \<noteq> 0 then call_ok (ydb_tp_s Y (as_function f)) else call_ok (as_function f))"

text \<open>A round, with the random number its first stage draws; False when the loop is to end after it.\<close>

definition job_round :: "'db ydb \<Rightarrow> job \<Rightarrow> int \<Rightarrow> int \<Rightarrow> int \<Rightarrow> ('db, bool) act" where
  "job_round Y j rndm I loop =
     (let f = dec (j_fillid j) in
      andThen (block [set_ok Y ''I'' [] (dec I), set_ok Y ''loop'' [] (dec loop), cip_ok Y ''helper1'']) (\<lambda>_.
      andThen (read_strs Y) (\<lambda>b.
      andThen (block
        [run_stage Y j (tpfn_stage1 Y j b loop rndm),
         cip_ok Y ''helper2'',
         set_ok Y ''^antp'' [f, s_subs b] (s_val b),
         onlyIf (j_trigger j = 0)
          [set_ok Y ''^bntp'' [f, s_subs b] (s_val b), set_ok Y ''^cntp'' [f, s_subs b] (s_val b)],
         set_ok Y ''^dntp'' [f, s_subs b] (s_valALT b),
         run_stage Y j (tpfn_stage3 Y j b),
         cip_ok Y ''helper3'']) (\<lambda>_.
      andThen (get_int_or_0 Y BIGMAXVALUELEN ''^endloop'' [f]) (\<lambda>endloop. ret (endloop = 0))))))"

fun job_loop :: "'db ydb \<Rightarrow> job \<Rightarrow> int \<Rightarrow> (int \<Rightarrow> int) \<Rightarrow> int \<Rightarrow> int list \<Rightarrow> ('db, unit) act" where
  "job_loop Y j nroot rndm I [] = ret ()"
| "job_loop Y j nroot rndm I (loop # loops) =
     andThen (job_round Y j (rndm loop) I loop) (\<lambda>go_on.
       if go_on then job_loop Y j nroot rndm (mulmod I nroot (j_prime j)) loops else ret ())"

section \<open>A job\<close>

text \<open>
  \<open>impjob\<close>, once its output has been redirected; \<open>choice\<close> is the random number below 20 that
  makes a job the M routine's. The third disjunct of the assertion is not bound to the subtest.
\<close>

definition job_in_m :: "'db ydb \<Rightarrow> bool \<Rightarrow> ('db, unit) act" where
  "job_in_m Y is_gtm8086 db =
     (let (status, db') = ydb_cip Y db ''impjob'' in
      check (status = YDB_OK \<or> is_gtm8086 \<and> status = YDB_ERR_JNLEXTEND Y \<or> status = YDB_ERR_JNLSWITCHFAIL Y) db')"

definition impjob ::
    "'db ydb \<Rightarrow> (string \<Rightarrow> string option) \<Rightarrow> int \<Rightarrow> (int \<Rightarrow> int) \<Rightarrow> int \<Rightarrow> ('db, unit) act" where
  "impjob Y env choice rndm childnum =
     andThen (set_ok Y ''jobindex'' [] (dec childnum)) (\<lambda>_.
     case env ''test_subtest_name'' of None \<Rightarrow> fault NullDeref
     | Some subtest \<Rightarrow>
         if choice = 0 \<or> subtest = ''gtm8086'' then job_in_m Y (subtest = ''gtm8086'')
         else
           andThen (get_text Y BIGMAXVALUELEN ''$zroutines'' []) (\<lambda>_.
           andThen (read_job Y childnum (env_int env ''gtm_test_jobid'')) (\<lambda>j.
           andThen (job_start Y j) (\<lambda>(nroot, lasti).
             job_loop Y j nroot rndm (start_index j nroot lasti) [lasti + 1..j_top j]))))"

end
