(* ===== verification/ImptpIndex.thy ===== *)
theory ImptpIndex
  imports Imptp
begin

text \<open>
  The indices of com/simpleapi_imptp.c: 5 is a primitive root modulo 50000017, and so no
  index is used twice before \<open>top\<close> rounds of all jobs are done.
\<close>

section \<open>A primitive root\<close>

definition p0 :: nat where "p0 = 50000017"

text \<open>Powers by repeated squaring, to evaluate.\<close>

fun powmod :: "nat \<Rightarrow> nat \<Rightarrow> nat \<Rightarrow> nat" where
  "powmod x n m =
     (if n = 0 then 1 mod m
      else if n mod 2 = 0 then powmod (x * x mod m) (n div 2) m
      else x * powmod (x * x mod m) (n div 2) m mod m)"

declare powmod.simps [simp del]

lemma powmod_power: "powmod x n m = x ^ n mod m"
proof (induction x n m rule: powmod.induct)
  case (1 x n m)
  have sq: "(x * x mod m) ^ k mod m = x ^ (2 * k) mod m" for k
    by (simp add: power_mod power_mult power2_eq_square)
  consider "n = 0" | "n \<noteq> 0" "n mod 2 = 0" | "n \<noteq> 0" "n mod 2 \<noteq> 0" by blast
  then show ?case
  proof cases
    case 2
    then have "2 * (n div 2) = n" by presburger
    with 2 1(1) sq [of "n div 2"] show ?thesis by (subst powmod.simps) simp
  next
    case 3
    then have n: "n = Suc (2 * (n div 2))" by presburger
    have "powmod x n m = x * (x ^ (2 * (n div 2)) mod m) mod m"
      using 3 1(2) sq [of "n div 2"] by (subst powmod.simps) simp
    also have "\<dots> = x ^ Suc (2 * (n div 2)) mod m" by (simp add: mod_mult_right_eq)
    finally show ?thesis using n by simp
  qed (simp add: powmod.simps)
qed

lemma five_powers: "5 ^ 50000016 mod p0 = 1"
  unfolding powmod_power [symmetric] p0_def by (simp add: powmod.simps)

lemma five_quotients:
  assumes "q \<in> {2, 3, 11, 281, 337}"
  shows "5 ^ (50000016 div q) mod p0 \<noteq> 1"
proof -
  have "powmod 5 (50000016 div q) 50000017 \<noteq> 1" using assms by (elim insertE emptyE) (simp_all add: powmod.simps)
  then show ?thesis unfolding powmod_power p0_def .
qed

text \<open>The exponents of 1 are closed under common divisors, and all are multiples of p - 1.\<close>

lemma power_one_gcd:
  fixes x m :: nat
  assumes "x ^ a mod m = 1" "x ^ b mod m = 1" "a \<noteq> 0"
  shows "x ^ gcd a b mod m = 1"
proof -
  obtain u v where uv: "a * u = b * v + gcd a b" using bezout_nat [OF assms(3), of b] by blast
  have one: "x ^ (c * k) mod m = 1" if "x ^ c mod m = 1" for c k
  proof -
    have m1: "1 mod m = 1" using that by (metis mod_mod_trivial)
    have "x ^ (c * k) mod m = (x ^ c mod m) ^ k mod m" by (simp add: power_mult power_mod)
    then show ?thesis using that m1 by simp
  qed
  have "1 = x ^ (b * v + gcd a b) mod m" using one [OF assms(1), of u] uv by simp
  also have "\<dots> = (x ^ (b * v) mod m) * x ^ gcd a b mod m" by (simp add: power_add mod_mult_left_eq)
  also have "\<dots> = x ^ gcd a b mod m" using one [OF assms(2), of v] by simp
  finally show ?thesis by simp
qed

text \<open>Trial division, to evaluate.\<close>

fun no_divisor :: "nat \<Rightarrow> nat \<Rightarrow> bool" where
  "no_divisor q n = (if n < 2 then True else if q mod n = 0 then False else no_divisor q (n - 1))"

declare no_divisor.simps [simp del]

lemma no_divisor_le: "no_divisor q n \<Longrightarrow> d dvd q \<Longrightarrow> d \<le> n \<Longrightarrow> d \<le> 1"
proof (induction q n rule: no_divisor.induct)
  case (1 q n)
  show ?case
  proof (cases "n < 2 \<or> d = n")
    case True
    then show ?thesis using 1(2-4) by (subst (asm) no_divisor.simps) (auto split: if_splits)
  next
    case False
    then have "no_divisor q (n - 1)" "q mod n \<noteq> 0" using 1(2) by (subst (asm) no_divisor.simps, simp split: if_splits)+
    moreover have "d \<le> n - 1" using False 1(4) by linarith
    ultimately show ?thesis using 1(1,3) False by simp
  qed
qed

lemma prime_coprime:
  assumes "no_divisor q (q - 1)" "\<not> q dvd k" "1 < q"
  shows "coprime k q"
proof -
  have "gcd k q \<le> q" using assms(3) by (simp add: gcd_le2_nat)
  moreover have "gcd k q \<noteq> q" using assms(2) by (metis gcd_dvd1)
  ultimately have "gcd k q \<le> 1" using no_divisor_le [OF assms(1), of "gcd k q"] by simp
  then show ?thesis using assms(3) by (simp add: coprime_iff_gcd_eq_1 le_Suc_eq)
qed

lemma primes:
  "no_divisor 2 1" "no_divisor 3 2" "no_divisor 11 10" "no_divisor 281 280" "no_divisor 337 336"
  by (simp_all add: no_divisor.simps)

lemma cofactor_prime:
  assumes "k dvd 50000016" "k \<noteq> (1 :: nat)"
  shows "\<exists>q \<in> {2, 3, 11, 281, 337}. q dvd k"
proof (rule ccontr)
  assume "\<not> ?thesis"
  then have "coprime k 2" "coprime k 3" "coprime k 11" "coprime k 281" "coprime k 337"
    using prime_coprime [of 2 k] prime_coprime [of 3 k] prime_coprime [of 11 k] prime_coprime [of 281 k]
      prime_coprime [of 337 k] primes by simp_all
  then have "coprime k (2 ^ 4 * 3 * 11 * 281 * 337)" by (simp only: coprime_mult_right_iff coprime_power_right_iff) simp
  then have "coprime k 50000016" by simp
  then show False using assms by (simp add: coprime_absorb_left)
qed

lemma order_multiple:
  fixes x m N d :: nat
  assumes "x ^ N mod m = 1" "0 < N" "x ^ d mod m = 1"
    and "\<And>q. q \<in> Q \<Longrightarrow> x ^ (N div q) mod m \<noteq> 1" "\<And>k. k dvd N \<Longrightarrow> k \<noteq> 1 \<Longrightarrow> \<exists>q \<in> Q. q dvd k"
  shows "N dvd d"
proof (rule ccontr)
  assume no: "\<not> N dvd d"
  let ?g = "gcd N d"
  have g: "x ^ ?g mod m = 1" using power_one_gcd [OF assms(1,3)] assms(2) by simp
  obtain k where k: "N = ?g * k" by (meson dvdE gcd_dvd1)
  have "k \<noteq> 1"
  proof
    assume "k = 1"
    then have "?g = N" using k by simp
    then show False using no gcd_dvd2 [of N d] by simp
  qed
  moreover have "k dvd N" using k by (metis dvd_triv_right)
  ultimately obtain q where q: "q \<in> Q" "q dvd k" using assms(5) by blast
  then obtain r where r: "k = q * r" by blast
  then have "q \<noteq> 0" using k assms(2) by (metis mult_0 mult_0_right less_irrefl)
  moreover have "N = q * (?g * r)" using k r by (simp only: mult.left_commute)
  ultimately have e: "N div q = ?g * r" by (metis nonzero_mult_div_cancel_left)
  have "x ^ (?g * r) mod m = (x ^ ?g mod m) ^ r mod m" by (simp add: power_mult power_mod)
  also have "\<dots> = 1" using g assms(1) by (metis mod_mod_trivial power_one)
  finally show False using assms(4) [OF q(1)] e by simp
qed

lemma powers_distinct:
  fixes x m N a b :: nat
  assumes "x ^ N mod m = 1" "\<And>d. x ^ d mod m = 1 \<Longrightarrow> N dvd d"
    and "x ^ a mod m = x ^ b mod m" "a \<le> b" "b < N"
  shows "a = b"
proof -
  have "x ^ (b + (N - a)) mod m = (x ^ b mod m) * x ^ (N - a) mod m" by (simp add: power_add mod_mult_left_eq)
  also have "\<dots> = (x ^ a mod m) * x ^ (N - a) mod m" using assms(3) by simp
  also have "\<dots> = x ^ (a + (N - a)) mod m" by (simp add: power_add mod_mult_left_eq)
  also have "\<dots> = 1" using assms(1,4,5) by simp
  finally have "N dvd b + (N - a)" using assms(2) by blast
  moreover have "b + (N - a) = N + (b - a)" using assms(4,5) by simp
  ultimately have "N dvd b - a" by (simp add: dvd_add_right_iff)
  then show ?thesis using assms(4,5) nat_dvd_not_less [of "b - a" N] by (cases "a = b") auto
qed

lemma order_of_five: "5 ^ d mod p0 = 1 \<Longrightarrow> 50000016 dvd d"
  by (rule order_multiple [OF five_powers zero_less_numeral _ five_quotients cofactor_prime])

lemma five_powers_distinct: "5 ^ a mod p0 = 5 ^ b mod p0 \<Longrightarrow> a \<le> b \<Longrightarrow> b < 50000016 \<Longrightarrow> a = b"
  by (rule powers_distinct [OF five_powers order_of_five])


section \<open>The indices of the jobs\<close>

text \<open>The index of a job in a round, as a power of the root.\<close>

definition pow5 :: "nat \<Rightarrow> int" where
  "pow5 n = int (5 ^ n mod p0)"

definition job_index :: "int \<Rightarrow> int \<Rightarrow> int \<Rightarrow> int" where
  "job_index jobcnt jobno loop = pow5 (nat (jobno - 1 + (loop - 1) * jobcnt))"

lemma pow5_range: "0 \<le> pow5 n" "pow5 n < 50000017"
  by (simp_all add: pow5_def p0_def)

lemma pow5_small: "pow5 0 = 1" "pow5 1 = 5"
  by (simp_all add: pow5_def p0_def)

lemma pow5_mult: "pow5 a * pow5 b mod 50000017 = pow5 (a + b)"
proof -
  have "5 ^ a mod p0 * (5 ^ b mod p0) mod p0 = 5 ^ (a + b) mod p0" by (simp add: power_add mod_mult_eq)
  then have "int (5 ^ a mod p0 * (5 ^ b mod p0) mod p0) = int (5 ^ (a + b) mod p0)" by (rule arg_cong)
  then show ?thesis unfolding pow5_def of_nat_mod of_nat_mult by (simp add: p0_def)
qed

lemma pow5_pos: "1 \<le> pow5 n"
proof (rule ccontr)
  assume "\<not> ?thesis"
  then have 0: "pow5 n = 0" using pow5_range(1) [of n] by simp
  have "pow5 n * pow5 k mod 50000017 = 0" for k using 0 by simp
  then have z: "pow5 (n + k) = 0" for k unfolding pow5_mult .
  let ?m = "50000016 * n"
  have "pow5 (50000016 * k) = 1" for k
  proof (induction k)
    case (Suc k)
    have "pow5 50000016 = 1" using five_powers by (simp only: pow5_def of_nat_1)
    then have "pow5 (50000016 + 50000016 * k) = 1" using pow5_mult [of 50000016 "50000016 * k"] Suc by simp
    then show ?case by (simp only: mult_Suc_right)
  qed (simp add: pow5_small)
  moreover have "?m = n + 50000015 * n" by simp
  ultimately show False using z [of "50000015 * n"] by (metis zero_neq_one)
qed

lemma pow5_distinct: "pow5 a = pow5 b \<Longrightarrow> a < 50000016 \<Longrightarrow> b < 50000016 \<Longrightarrow> a = b"
  unfolding pow5_def of_nat_eq_iff
  using five_powers_distinct [of a b] five_powers_distinct [of b a] by (cases "a \<le> b") fastforce+

lemma mulmod_pow5: "mulmod (pow5 a) (pow5 b) 50000017 = pow5 (a + b)"
proof -
  have "pow5 a * pow5 b \<le> 50000017 * 50000017"
    using pow5_range [of a] pow5_range [of b] by (intro mult_mono) auto
  then have "pow5 a * pow5 b mod 2 ^ 64 = pow5 a * pow5 b" using pow5_range by simp
  moreover have "is_int32 (pow5 (a + b))" using pow5_range [of "a + b"] by (simp add: is_int32_def)
  ultimately show ?thesis by (simp add: mulmod_def pow5_mult int32_id)
qed

lemma index_loop_pow5: "index_loop n (pow5 a) (pow5 b) 50000017 = pow5 (a + n * b)"
  by (induction n arbitrary: a) (simp_all add: mulmod_pow5 add.assoc)

text \<open>No overflow: the product of an \<open>nroot\<close> and the root fits an int.\<close>

lemma nroot_loop_pow5: "nroot_loop n (pow5 a) 5 50000017 = pow5 (a + n)"
proof (induction n arbitrary: a)
  case (Suc n)
  have "is_int32 (pow5 a * 5)" using pow5_range [of a] by (simp add: is_int32_def)
  then have "c_mod (int32 (pow5 a * 5)) 50000017 = pow5 (Suc a)"
    using pow5_range [of a] pow5_mult [of a 1] pow5_small(2) by (simp add: int32_id c_mod_pos)
  then show ?case using Suc [of "Suc a"] by simp
qed simp

lemma start_index_pow5:
  assumes "j_prime j = 50000017" "j_root j = 5" "1 \<le> j_no j" "1 \<le> j_jobcnt j" "0 \<le> lasti"
  shows "start_index j (nroot_loop (nat (j_jobcnt j)) 1 5 50000017) lasti = job_index (j_jobcnt j) (j_no j) (lasti + 1)"
proof -
  have "nroot_loop (nat (j_jobcnt j)) 1 5 50000017 = pow5 (nat (j_jobcnt j))"
    using nroot_loop_pow5 [of _ 0] pow5_small(1) by simp
  moreover have "index_loop (nat (j_no j - 1)) 1 5 50000017 = pow5 (nat (j_no j - 1))"
    using index_loop_pow5 [of _ 0 1] pow5_small by simp
  moreover have "nat (j_no j - 1) + nat lasti * nat (j_jobcnt j) = nat (j_no j - 1 + lasti * j_jobcnt j)"
    using assms by (simp add: nat_add_distrib nat_mult_distrib)
  ultimately show ?thesis
    using assms by (simp add: start_index_def job_index_def index_loop_pow5)
qed

lemma next_index:
  assumes "1 \<le> jobno" "1 \<le> jobcnt" "1 \<le> loop"
  shows "mulmod (job_index jobcnt jobno loop) (nroot_loop (nat jobcnt) 1 5 50000017) 50000017 =
    job_index jobcnt jobno (loop + 1)"
proof -
  have "nroot_loop (nat jobcnt) 1 5 50000017 = pow5 (nat jobcnt)"
    using nroot_loop_pow5 [of _ 0] pow5_small(1) by simp
  moreover have "nat (jobno - 1 + (loop - 1) * jobcnt) + nat jobcnt = nat (jobno - 1 + loop * jobcnt)"
    using assms by (simp add: nat_add_distrib [symmetric] left_diff_distrib)
  ultimately show ?thesis by (simp add: job_index_def mulmod_pow5)
qed

lemma exponent_distinct:
  assumes "a - 1 + (l - 1) * n = b - 1 + (m - 1) * n" "a \<in> {1..n}" "b \<in> {1..n}"
  shows "a = b \<and> l = (m :: int)"
proof -
  have "(a - 1 + (l - 1) * n) mod n = a - 1" "(b - 1 + (m - 1) * n) mod n = b - 1"
    using assms(2,3) by (simp_all add: mod_pos_pos_trivial)
  then have "a = b" using assms(1) by simp
  then show ?thesis using assms by simp
qed

lemma exponent_bound:
  assumes "a \<in> {1..n}" "l \<in> {1..t}" "n * t < 50000017"
  shows "0 \<le> a - 1 + (l - 1) * n" "a - 1 + (l - 1) * n < (50000016 :: int)"
proof -
  have "(l - 1) * n \<le> (t - 1) * n" using assms(1,2) by (intro mult_right_mono) auto
  moreover have "(t - 1) * n = n * t - n" by (simp add: algebra_simps)
  ultimately show "a - 1 + (l - 1) * n < 50000016" using assms(1,3) unfolding atLeastAtMost_iff by linarith
  have "0 \<le> (l - 1) * n" using assms(1,2) by simp
  then show "0 \<le> a - 1 + (l - 1) * n" using assms(1) by simp
qed

lemma job_index_distinct:
  assumes "job_index n a l = job_index n b m" "a \<in> {1..n}" "b \<in> {1..n}" "l \<in> {1..t}" "m \<in> {1..t}" "n * t < 50000017"
  shows "a = b \<and> l = m"
proof -
  have "nat (a - 1 + (l - 1) * n) = nat (b - 1 + (m - 1) * n)"
    using assms(1) exponent_bound [OF assms(2,4,6)] exponent_bound [OF assms(3,5,6)]
    unfolding job_index_def by (intro pow5_distinct) auto
  then have "a - 1 + (l - 1) * n = b - 1 + (m - 1) * n"
    using exponent_bound(1) [OF assms(2,4,6)] exponent_bound(1) [OF assms(3,5,6)] by simp
  then show ?thesis using exponent_distinct assms(2,3) by blast
qed

lemma job_index_range: "1 \<le> job_index n a l" "job_index n a l < 50000017"
  using pow5_pos pow5_range by (simp_all add: job_index_def)

text \<open>The prime has no divisor among the numbers of jobs, so the rounds of all jobs are fewer.\<close>

lemma rounds_bound:
  assumes "2 \<le> n" "n \<le> imptp_MAXCHILDREN"
  shows "n * c_div 50000017 n < 50000017"
proof -
  have "no_divisor 50000017 32" by (simp add: no_divisor.simps)
  then have "\<not> nat n dvd 50000017"
    using no_divisor_le [of 50000017 32 "nat n"] assms by (auto simp: imptp_MAXCHILDREN_def nat_le_iff le_nat_iff)
  then have "\<not> n dvd 50000017" using assms(1) nat_dvd_iff [of n 50000017] by simp
  then have "50000017 mod n \<noteq> 0" by (simp add: dvd_eq_mod_eq_0)
  then have "0 < 50000017 mod n" using pos_mod_sign [of n 50000017] assms(1) by linarith
  then show ?thesis using assms(1) minus_mod_eq_mult_div [of 50000017 n] by (simp add: c_div_pos)
qed

end
