(* ===== verification/ImptpRun.thy ===== *)
theory ImptpRun
  imports ImptpIndex
begin

text \<open>
  Runs of com/simpleapi_imptp.c: the interface to the M routines that are called in, what one
  round of a job leaves in the database, and the settings a job reads after the parent.
\<close>

section \<open>The M routines\<close>

text \<open>
  \<open>getdatinfo\<close> adds the key and record size to the settings; \<open>helper1\<close> makes strings of
  \<open>I\<close> and \<open>loop\<close> (\<open>ustr\<close> is \<open>ugenstr\<close>, which is one-to-one and begins with no blank) and pads them with
  blanks; \<open>helper2\<close> and \<open>helper3\<close> (com/imptpxc.m) leave alone what \<open>stays\<close> says: of the
  variables of stage 1 they set and kill nodes of three subscripts only, those of stage 3 but
  ^bntp they do not touch, and of ^jrandomvariableinimptpfillprogr they delete nodes of two and three subscripts.
\<close>

definition two_level :: "string set" where
  "two_level = {''^arandom'', ''^brandomv'', ''^crandomva'', ''^drandomvariable'', ''^erandomvariableimptp'', ''^frandomvariableinimptp'',
     ''^grandomvariableinimptpfill'', ''^hrandomvariableinimptpfilling'', ''^irandomvariableinimptpfillprgrm''}"

definition stays :: "string \<Rightarrow> string list \<Rightarrow> bool" where
  "stays g s \<longleftrightarrow> g \<in> {''^lasti'', ''^endloop'', ''$trestart'', ''^entp'', ''^fntp'', ''^gntp'', ''^hntp'', ''^intp''} \<or>
     g \<in> two_level \<and> length s = 2 \<or> g = ''^jrandomvariableinimptpfillprogr'' \<and> length s = 4"

text \<open>The strings of a round with index \<open>i\<close>.\<close>

definition blanks :: "nat \<Rightarrow> string" where "blanks n = replicate n (CHR 0x20)"

definition strs_for :: "(int \<Rightarrow> string) \<Rightarrow> int \<Rightarrow> int \<Rightarrow> strs \<Rightarrow> bool" where
  "strs_for ustr i loop b \<longleftrightarrow> s_subs b = ustr i \<and> s_val b = ustr loop \<and> s_I b = dec i \<and>
     (\<exists>n. s_subsMAX b = blanks n @ ustr i) \<and> (\<exists>n. s_valMAX b = blanks n @ ustr loop) \<and> s_valALT b \<in> {s_val b, s_valMAX b} \<and>
     length (s_subsMAX b) \<le> BIGMAXVALUELEN \<and> length (s_valMAX b) \<le> BIGMAXVALUELEN \<and> length (s_valALT b) \<le> imptp_MAXVALUELEN"

text \<open>What a round leaves in the database.\<close>

definition left_by :: "string \<Rightarrow> strs \<Rightarrow> (string \<times> string list \<times> string) list" where
  "left_by f b =
     [(''^arandom'', [f, s_subsMAX b], s_val b), (''^brandomv'', [f, s_subsMAX b], s_valALT b), (''^crandomva'', [f, s_subsMAX b], s_valALT b),
      (''^drandomvariable'', [f, s_subs b], s_valALT b), (''^erandomvariableimptp'', [f, s_subs b], s_valALT b),
      (''^frandomvariableinimptp'', [f, s_subs b], s_valALT b), (''^grandomvariableinimptpfill'', [f, s_subs b], s_val b),
      (''^hrandomvariableinimptpfilling'', [f, s_subs b], s_val b), (''^irandomvariableinimptpfillprgrm'', [f, s_subs b], s_val b),
      (''^jrandomvariableinimptpfillprogr'', [f, s_I b, s_I b, s_subs b], s_val b), (''^entp'', [f, s_subs b], s_val b),
      (''^fntp'', [f, s_subs b], s_val b), (''^gntp'', [f, s_subsMAX b], s_valMAX b), (''^hntp'', [f, s_subsMAX b], s_valMAX b),
      (''^intp'', [f, s_subsMAX b], s_valMAX b)]"

definition has_left :: "'db ydb \<Rightarrow> 'db \<Rightarrow> string \<Rightarrow> strs \<Rightarrow> bool" where
  "has_left Y db f b \<longleftrightarrow> (\<forall>(g, s, v) \<in> set (left_by f b). node Y db g s = Some v)"

definition getdatinfo_law :: "'db ydb \<Rightarrow> int \<Rightarrow> int \<Rightarrow> bool" where
  "getdatinfo_law Y ks rs \<longleftrightarrow> (\<forall>db fillid. node Y db ''fillid'' [] = Some (dec fillid) \<longrightarrow>
     (\<exists>db'. ydb_cip Y db ''getdatinfo'' = (YDB_OK, db') \<and>
        (\<forall>g s. node Y db' g s =
           (if g = ''^%imptp'' \<and> s = [dec fillid, ''key_size''] then Some (dec ks)
            else if g = ''^%imptp'' \<and> s = [dec fillid, ''record_size''] then Some (dec rs)
            else node Y db g s))))"

definition helper1_law :: "'db ydb \<Rightarrow> (int \<Rightarrow> string) \<Rightarrow> bool" where
  "helper1_law Y ustr \<longleftrightarrow> (\<forall>db. \<forall>i \<in> {1..<50000017}. \<forall>loop \<in> {1..<50000017}.
     node Y db ''I'' [] = Some (dec i) \<longrightarrow> node Y db ''loop'' [] = Some (dec loop) \<longrightarrow>
     (\<exists>db' b. ydb_cip Y db ''helper1'' = (YDB_OK, db') \<and> strs_for ustr i loop b \<and>
        node Y db' ''subs'' [] = Some (s_subs b) \<and> node Y db' ''val'' [] = Some (s_val b) \<and>
        node Y db' ''valALT'' [] = Some (s_valALT b) \<and> node Y db' ''valMAX'' [] = Some (s_valMAX b) \<and>
        node Y db' ''subsMAX'' [] = Some (s_subsMAX b) \<and> node Y db' ''I'' [] = Some (dec i) \<and>
        (\<forall>g s. stays g s \<longrightarrow> node Y db' g s = node Y db g s)))"

definition helpers_law :: "'db ydb \<Rightarrow> bool" where
  "helpers_law Y \<longleftrightarrow> (\<forall>db. \<forall>name \<in> {''helper2'', ''helper3''}. \<exists>db'. ydb_cip Y db name = (YDB_OK, db') \<and>
     (\<forall>g s. stays g s \<longrightarrow> node Y db' g s = node Y db g s))"

definition unblank :: "string \<Rightarrow> string" where "unblank = dropWhile (\<lambda>c. c = CHR 0x20)"

definition ustr_law :: "(int \<Rightarrow> string) \<Rightarrow> bool" where
  "ustr_law ustr \<longleftrightarrow> (\<forall>i \<in> {1..<50000017}. length (ustr i) \<le> imptp_MAXVALUELEN \<and> unblank (ustr i) = ustr i) \<and> inj_on ustr {1..<50000017}"

definition imptp_laws :: "'db ydb \<Rightarrow> (int \<Rightarrow> string) \<Rightarrow> bool" where
  "imptp_laws Y ustr \<longleftrightarrow> ydb_good Y \<and> helper1_law Y ustr \<and> helpers_law Y \<and> ustr_law ustr"

text \<open>A job in a transaction, without triggers.\<close>

definition plain_job :: "job \<Rightarrow> bool" where
  "plain_job j \<longleftrightarrow> j_prime j = 50000017 \<and> j_root j = 5 \<and> j_istp j = 1 \<and> j_trigger j = 0 \<and> \<not> j_ztr j \<and> \<not> j_dztrig j \<and>
     1 \<le> j_no j \<and> j_no j \<le> j_jobcnt j \<and> 2 \<le> j_jobcnt j \<and> j_jobcnt j \<le> imptp_MAXCHILDREN"

text \<open>What a round starts from: nobody has asked for the end, and no transaction is restarted.\<close>

definition running :: "'db ydb \<Rightarrow> job \<Rightarrow> 'db \<Rightarrow> bool" where
  "running Y j db \<longleftrightarrow> node Y db ''^endloop'' [dec (j_fillid j)] = Some (dec 0) \<and> node Y db ''$trestart'' [] = Some (dec 0)"

locale imptp_db = calm_db Y for Y :: "'db ydb" +
  fixes ustr :: "int \<Rightarrow> string"
  assumes helper1: "helper1_law Y ustr" and helpers: "helpers_law Y" and ustr: "ustr_law ustr"

lemma imptp_laws_db: "imptp_laws Y ustr \<Longrightarrow> imptp_db Y ustr"
  by (simp add: imptp_laws_def imptp_db_def imptp_db_axioms_def calm_db_def)

context imptp_db
begin

lemma read_strs_runs:
  assumes "node Y db ''subs'' [] = Some (s_subs b)" "node Y db ''val'' [] = Some (s_val b)" "node Y db ''valALT'' [] = Some (s_valALT b)"
    and "node Y db ''valMAX'' [] = Some (s_valMAX b)" "node Y db ''subsMAX'' [] = Some (s_subsMAX b)" "node Y db ''I'' [] = Some (s_I b)"
    and "length (s_subs b) \<le> imptp_MAXVALUELEN" "length (s_val b) \<le> imptp_MAXVALUELEN" "length (s_I b) \<le> imptp_MAXVALUELEN"
    and "length (s_valMAX b) \<le> BIGMAXVALUELEN" "length (s_subsMAX b) \<le> BIGMAXVALUELEN" "length (s_valALT b) \<le> imptp_MAXVALUELEN"
  shows "read_strs Y db = Inr (Go b, db)"
proof -
  have "length (s_subs b) \<le> BIGMAXVALUELEN" "length (s_val b) \<le> BIGMAXVALUELEN" "length (s_I b) \<le> BIGMAXVALUELEN"
    "length (s_valALT b) \<le> BIGMAXVALUELEN"
    using assms(7-9,12) by (simp_all add: BIGMAXVALUELEN_def)
  with assms show ?thesis by (simp add: read_strs_def get_runs into_buffer_def)
qed

text \<open>The nodes of a database after sets, the last one first.\<close>

fun after_sets :: "(string \<times> string list \<times> string) list \<Rightarrow> 'db \<Rightarrow> string \<Rightarrow> string list \<Rightarrow> string option" where
  "after_sets [] db = node Y db"
| "after_sets ((g, s, v) # sets) db = (\<lambda>g' s'. if g' = g \<and> s' = s then Some v else after_sets sets db g' s')"

lemma after_sets_other: "(\<forall>v. (g, s, v) \<notin> set sets) \<Longrightarrow> after_sets sets db g s = node Y db g s"
  by (induction sets) auto

text \<open>The two stages that are transactions.\<close>

lemma stage1_runs:
  assumes "plain_job j" "running Y j db" "f = dec (j_fillid j)"
  shows "\<exists>db'. as_function (tpfn_stage1 Y j b loop rndm) db = Inr (YDB_OK, db') \<and> node Y db' = after_sets
      ((''^lasti'', [f, dec (j_no j)], dec loop) #
       (''^jrandomvariableinimptpfillprogr'', [f, s_I b, s_I b, s_subs b], s_val b) #
       (''^jrandomvariableinimptpfillprogr'', [f, s_I b, s_I b], s_val b) #
       (''^jrandomvariableinimptpfillprogr'', [f, s_I b], s_val b) # rev (take 9 (left_by f b))) db"
proof -
  let ?d = "put Y ''^arandom'' [f, s_subsMAX b] (s_val b) db"
  have "get_text Y BIGMAXVALUELEN ''$trestart'' [] ?d = Inr (Go (dec 0), ?d)"
    using assms(2) by (intro get_text_runs) (simp_all add: running_def BIGMAXVALUELEN_def imptp_MAXVALUELEN_def dec_def dec_nat.simps)
  then have "crash_delay Y (j_no j) rndm ?d = Inr (Go (), ?d)"
    by (simp add: crash_delay_def is_int32_def)
  then show ?thesis
    using assms(1,3)
    by (cases "j_istp j AND j_crash j = 0") (simp_all add: as_function_def tpfn_stage1_def plain_job_def Let_def left_by_def fun_eq_iff)
qed

lemma stage3_runs:
  assumes "plain_job j" "f = dec (j_fillid j)"
  shows "\<exists>db'. as_function (tpfn_stage3 Y j b) db = Inr (YDB_OK, db') \<and>
    node Y db' = after_sets ((''^bntp'', [f, s_subsMAX b], s_valMAX b) # rev (drop 10 (left_by f b))) db"
  using assms by (simp add: as_function_def tpfn_stage3_def plain_job_def Let_def set_restart_def set_put left_by_def fun_eq_iff)

lemma helper_runs:
  assumes "name \<in> {''helper2'', ''helper3''}"
  shows "\<exists>db'. cip_ok Y name db = Inr (Go (), db') \<and> (\<forall>g s. stays g s \<longrightarrow> node Y db' g s = node Y db g s)"
proof -
  obtain db' where "ydb_cip Y db name = (YDB_OK, db')" "\<forall>g s. stays g s \<longrightarrow> node Y db' g s = node Y db g s"
    using helpers assms unfolding helpers_law_def by blast
  then show ?thesis by (intro exI [of _ db']) (simp add: cip_ok_def asserted_def)
qed

text \<open>Different rounds leave different nodes: the last subscript of each is the index, but for blanks.\<close>

lemma unblank_blanks: "unblank (blanks n @ t) = unblank t"
  by (induction n) (simp_all add: unblank_def blanks_def)

lemma left_by_last:
  assumes "strs_for ustr i loop b" "i \<in> {1..<50000017}" "(g, s, v) \<in> set (left_by f b)"
  shows "s \<noteq> [] \<and> unblank (List.last s) = ustr i \<and> stays g s \<and> g \<noteq> ''^lasti'' \<and> g \<noteq> ''^endloop'' \<and> g \<noteq> ''$trestart''"
proof -
  have u: "unblank (ustr i) = ustr i" using ustr assms(2) by (simp add: ustr_law_def)
  obtain n where "s_subs b = ustr i" "s_subsMAX b = blanks n @ ustr i" using assms(1) by (auto simp: strs_for_def)
  then have "unblank (s_subs b) = ustr i" "unblank (s_subsMAX b) = ustr i" using u by (simp_all add: unblank_blanks)
  then have "\<forall>(g, s, v) \<in> set (left_by f b). s \<noteq> [] \<and> unblank (List.last s) = ustr i \<and> stays g s \<and>
      g \<noteq> ''^lasti'' \<and> g \<noteq> ''^endloop'' \<and> g \<noteq> ''$trestart''"
    by (simp add: left_by_def stays_def two_level_def)
  then show ?thesis using assms(3) by blast
qed

text \<open>One round.\<close>

lemma round_runs:
  assumes j: "plain_job j" "running Y j db" and i: "i \<in> {1..<50000017}" "loop \<in> {1..<50000017}" and f: "f = dec (j_fillid j)"
  shows "\<exists>db' b. job_round Y j rndm i loop db = Inr (Go True, db') \<and> running Y j db' \<and>
    node Y db' ''^lasti'' [f, dec (j_no j)] = Some (dec loop) \<and> strs_for ustr i loop b \<and> has_left Y db' f b \<and>
    (\<forall>g s. stays g s \<longrightarrow> g \<noteq> ''^lasti'' \<longrightarrow> unblank (List.last s) \<noteq> ustr i \<longrightarrow> node Y db' g s = node Y db g s)"
proof -
  let ?d0 = "put Y ''loop'' [] (dec loop) (put Y ''I'' [] (dec i) db)"
  have "node Y ?d0 ''I'' [] = Some (dec i)" "node Y ?d0 ''loop'' [] = Some (dec loop)" by simp_all
  then obtain d1 b where d1: "ydb_cip Y ?d0 ''helper1'' = (YDB_OK, d1)" "strs_for ustr i loop b"
    "node Y d1 ''subs'' [] = Some (s_subs b)" "node Y d1 ''val'' [] = Some (s_val b)"
    "node Y d1 ''valALT'' [] = Some (s_valALT b)" "node Y d1 ''valMAX'' [] = Some (s_valMAX b)"
    "node Y d1 ''subsMAX'' [] = Some (s_subsMAX b)" "node Y d1 ''I'' [] = Some (dec i)"
    "\<forall>g s. stays g s \<longrightarrow> node Y d1 g s = node Y ?d0 g s"
    using helper1 [unfolded helper1_law_def, rule_format, OF i] by blast
  have len: "length (ustr i) \<le> imptp_MAXVALUELEN" "length (ustr loop) \<le> imptp_MAXVALUELEN" "length (dec i) \<le> imptp_MAXVALUELEN"
    using ustr i length_dec [of i] by (auto simp: ustr_law_def is_int32_def imptp_MAXVALUELEN_def)
  have strs: "read_strs Y d1 = Inr (Go b, d1)"
    using d1(2-8) len by (intro read_strs_runs) (simp_all add: strs_for_def)
  have kept1: "node Y d1 g s = node Y db g s" if "stays g s" for g s
  proof -
    have "g \<noteq> ''loop''" "g \<noteq> ''I''" using that by (auto simp: stays_def two_level_def)
    then show ?thesis using d1(9) that by simp
  qed
  have ends: "stays ''^endloop'' s" "stays ''$trestart'' s" for s by (simp_all add: stays_def)
  have "running Y j d1" using j(2) kept1 ends by (simp add: running_def)
  then obtain d2 where d2: "as_function (tpfn_stage1 Y j b loop rndm) d1 = Inr (YDB_OK, d2)"
    "node Y d2 = after_sets
      ((''^lasti'', [f, dec (j_no j)], dec loop) #
       (''^jrandomvariableinimptpfillprogr'', [f, s_I b, s_I b, s_subs b], s_val b) #
       (''^jrandomvariableinimptpfillprogr'', [f, s_I b, s_I b], s_val b) #
       (''^jrandomvariableinimptpfillprogr'', [f, s_I b], s_val b) # rev (take 9 (left_by f b))) d1"
    using stage1_runs [OF j(1) _ f] by blast
  obtain d3 where d3: "cip_ok Y ''helper2'' d2 = Inr (Go (), d3)" "\<forall>g s. stays g s \<longrightarrow> node Y d3 g s = node Y d2 g s"
    using helper_runs [of "''helper2''" d2] by auto
  let ?d4 = "put Y ''^dntp'' [f, s_subs b] (s_valALT b) (put Y ''^cntp'' [f, s_subs b] (s_val b)
      (put Y ''^bntp'' [f, s_subs b] (s_val b) (put Y ''^antp'' [f, s_subs b] (s_val b) d3)))"
  obtain d5 where d5: "as_function (tpfn_stage3 Y j b) ?d4 = Inr (YDB_OK, d5)"
    "node Y d5 = after_sets ((''^bntp'', [f, s_subsMAX b], s_valMAX b) # rev (drop 10 (left_by f b))) ?d4"
    using stage3_runs [OF j(1) f] by blast
  obtain d6 where d6: "cip_ok Y ''helper3'' d5 = Inr (Go (), d6)" "\<forall>g s. stays g s \<longrightarrow> node Y d6 g s = node Y d5 g s"
    using helper_runs [of "''helper3''" d5] by auto
  have kept4: "node Y ?d4 g s = node Y d2 g s" if "stays g s" for g s
  proof -
    have "g \<notin> {''^antp'', ''^bntp'', ''^cntp'', ''^dntp''}" using that by (auto simp: stays_def two_level_def)
    then show ?thesis using d3(2) that by simp
  qed
  note nodes = d6(2) [rule_format] d5(2) d3(2) [rule_format] d2(2)
  have left: "has_left Y d6 f b"
    unfolding has_left_def left_by_def
    by (simp add: nodes stays_def two_level_def left_by_def)
  have lasti: "node Y d6 ''^lasti'' [f, dec (j_no j)] = Some (dec loop)"
    by (simp add: nodes stays_def left_by_def)
  have kept: "node Y d6 g s = node Y db g s" if st: "stays g s" "g \<noteq> ''^lasti''"
    and no: "\<forall>v. (g, s, v) \<notin> set (left_by f b)" for g s
  proof -
    have g: "g \<noteq> ''^bntp''" "g = ''^jrandomvariableinimptpfillprogr'' \<Longrightarrow> length s = 4" using st by (auto simp: stays_def two_level_def)
    have sets: "after_sets (rev (take 9 (left_by f b))) d1 g s = node Y d1 g s"
      "after_sets (rev (drop 10 (left_by f b))) ?d4 g s = node Y ?d4 g s"
      using no by (intro after_sets_other; auto dest: in_set_takeD in_set_dropD)+
    have "(''^jrandomvariableinimptpfillprogr'', [f, s_I b, s_I b, s_subs b], s_val b) \<in> set (left_by f b)" by (simp add: left_by_def)
    then have "\<not> (g = ''^jrandomvariableinimptpfillprogr'' \<and> s = [f, s_I b, s_I b, s_subs b])" using no by blast
    moreover have "\<not> (g = ''^jrandomvariableinimptpfillprogr'' \<and> s = [f, s_I b, s_I b])"
      "\<not> (g = ''^jrandomvariableinimptpfillprogr'' \<and> s = [f, s_I b])" using g(2) by auto
    ultimately have "node Y d5 g s = node Y ?d4 g s" "node Y d2 g s = node Y d1 g s"
      unfolding d5(2) d2(2) after_sets.simps sets using st(2) g(1) by (simp_all only: if_False simp_thms)
    then show ?thesis using d6(2) st(1) kept4 kept1 by simp
  qed
  have run6: "running Y j d6"
    using j(2) kept [OF ends(1)] kept [OF ends(2)] by (simp add: running_def left_by_def)
  then have "get_int_or_0 Y BIGMAXVALUELEN ''^endloop'' [f] d6 = Inr (Go (atoi (dec 0)), d6)"
    unfolding running_def f by (intro get_text_runs) (simp_all add: BIGMAXVALUELEN_def imptp_MAXVALUELEN_def dec_def dec_nat.simps)
  moreover have "cip_ok Y ''helper1'' ?d0 = Inr (Go (), d1)" using d1(1) by (simp add: cip_ok_def asserted_def)
  ultimately have "job_round Y j rndm i loop db = Inr (Go True, d6)"
    using j(1) strs d3(1) d6(1) call_runs [OF d2(1)] call_runs [OF d5(1)] f
    by (simp add: job_round_def Let_def run_stage_def plain_job_def is_int32_def)
  moreover have "node Y d6 g s = node Y db g s" if "stays g s" "g \<noteq> ''^lasti''" "unblank (List.last s) \<noteq> ustr i" for g s
    using that left_by_last [OF d1(2) i(1)] by (intro kept) auto
  ultimately show ?thesis using run6 left lasti d1(2) by blast
qed

text \<open>The rounds from one after \<open>lasti\<close> on, each with its own index.\<close>

lemma job_loop_runs:
  assumes j: "plain_job j" and top: "j_jobcnt j * tmax < 50000017" and f: "f = dec (j_fillid j)"
  defines "nroot \<equiv> nroot_loop (nat (j_jobcnt j)) 1 5 50000017" and "ix \<equiv> job_index (j_jobcnt j) (j_no j)"
  assumes "running Y j db" "0 \<le> lasti" "n = nat (tmax - lasti)"
  shows "\<exists>db'. job_loop Y j nroot rndm (ix (lasti + 1)) [lasti + 1..tmax] db = Inr (Go (), db') \<and> running Y j db' \<and>
    (lasti < tmax \<longrightarrow> node Y db' ''^lasti'' [f, dec (j_no j)] = Some (dec tmax)) \<and>
    (\<forall>l \<in> {lasti + 1..tmax}. \<exists>b. strs_for ustr (ix l) l b \<and> has_left Y db' f b) \<and>
    (\<forall>g s. stays g s \<longrightarrow> g \<noteq> ''^lasti'' \<longrightarrow> (\<forall>l \<in> {lasti + 1..tmax}. unblank (List.last s) \<noteq> ustr (ix l)) \<longrightarrow>
       node Y db' g s = node Y db g s)"
  using assms(6-8)
proof (induction n arbitrary: lasti db)
  case (Suc n)
  let ?l = "lasti + 1"
  have less: "lasti < tmax" "0 \<le> ?l" "n = nat (tmax - ?l)" using Suc.prems(2,3) by auto
  then have upto: "[?l..tmax] = ?l # [?l + 1..tmax]" by (simp add: upto_rec1)
  have jj: "1 \<le> j_no j" "1 \<le> j_jobcnt j" "j_prime j = 50000017" using j by (simp_all add: plain_job_def)
  have "tmax \<le> j_jobcnt j * tmax" using jj(2) less(1) Suc.prems(2) by simp
  then have "tmax < 50000017" using top by linarith
  then have l: "?l \<in> {1..<50000017}" using less(1) Suc.prems(2) by simp
  have ix: "ix k \<in> {1..<50000017}" for k using job_index_range by (simp add: ix_def)
  from round_runs [OF j Suc.prems(1) ix l f, of "rndm ?l" ?l] obtain d b where d: "job_round Y j (rndm ?l) (ix ?l) ?l db = Inr (Go True, d)"
    "running Y j d" "node Y d ''^lasti'' [f, dec (j_no j)] = Some (dec ?l)" "strs_for ustr (ix ?l) ?l b" "has_left Y d f b"
    "\<forall>g s. stays g s \<longrightarrow> g \<noteq> ''^lasti'' \<longrightarrow> unblank (List.last s) \<noteq> ustr (ix ?l) \<longrightarrow> node Y d g s = node Y db g s" by blast
  have step: "mulmod (ix ?l) nroot (j_prime j) = ix (?l + 1)"
    using next_index [OF jj(1,2), of ?l] Suc.prems(2) jj(3) by (simp add: ix_def nroot_def)
  from Suc.IH [OF d(2) less(2,3)] obtain db' where db': "job_loop Y j nroot rndm (ix (?l + 1)) [?l + 1..tmax] d = Inr (Go (), db')"
    "running Y j db'"
    "?l < tmax \<longrightarrow> node Y db' ''^lasti'' [f, dec (j_no j)] = Some (dec tmax)"
    "\<forall>l \<in> {?l + 1..tmax}. \<exists>b. strs_for ustr (ix l) l b \<and> has_left Y db' f b"
    "\<forall>g s. stays g s \<longrightarrow> g \<noteq> ''^lasti'' \<longrightarrow> (\<forall>l \<in> {?l + 1..tmax}. unblank (List.last s) \<noteq> ustr (ix l)) \<longrightarrow>
       node Y db' g s = node Y d g s" by blast
  have other: "ustr (ix ?l) \<noteq> ustr (ix l)" if l': "l \<in> {?l + 1..tmax}" for l
  proof
    assume "ustr (ix ?l) = ustr (ix l)"
    then have "ix ?l = ix l" using ustr ix unfolding ustr_law_def by (blast dest: inj_onD)
    then have "?l = l"
      using job_index_distinct [of "j_jobcnt j" "j_no j" ?l "j_no j" l tmax] top j less Suc.prems(2) l'
      by (simp add: ix_def plain_job_def)
    then show False using l' by simp
  qed
  have "node Y db' g s = Some v" if "(g, s, v) \<in> set (left_by f b)" for g s v
    using left_by_last [OF d(4) ix that] db'(5) other d(5) that by (auto simp: has_left_def)
  then have "has_left Y db' f b" by (auto simp: has_left_def)
  then have "\<exists>b. strs_for ustr (ix l) l b \<and> has_left Y db' f b" if "l \<in> {?l..tmax}" for l
    using db'(4) that d(4) by (cases "l = ?l") auto
  moreover have "node Y db' ''^lasti'' [f, dec (j_no j)] = Some (dec tmax)"
  proof (cases "?l < tmax")
    case False
    then have t: "tmax = ?l" using less(1) by simp
    have "[?l + 1..?l] = []" by simp
    then have "db' = d" using db'(1) unfolding t by simp
    then show ?thesis using d(3) t by simp
  qed (use db'(3) in simp)
  moreover have "node Y db' g s = node Y db g s"
    if "stays g s" "g \<noteq> ''^lasti''" "\<forall>l \<in> {?l..tmax}. unblank (List.last s) \<noteq> ustr (ix l)" for g s
  proof -
    have "unblank (List.last s) \<noteq> ustr (ix ?l)" "\<forall>l \<in> {?l + 1..tmax}. unblank (List.last s) \<noteq> ustr (ix l)"
      using that(3) less(1) by auto
    then show ?thesis using db'(5) d(6) that(1,2) by simp
  qed
  moreover have "job_loop Y j nroot rndm (ix ?l) [?l..tmax] db = Inr (Go (), db')"
    unfolding upto using d(1) db'(1) step by simp
  ultimately show ?case using db'(2) by blast
qed simp

end

section \<open>From the parent to its jobs\<close>

lemma is_int32_env [simp]: "is_int32 (env_int env name)"
  by (auto simp: env_int_def atoi_def is_int32_def int32_def split: option.splits)

lemma jobcnt_of_props: "jobcnt_of env \<noteq> 0" "is_int32 (jobcnt_of env)"
  by (auto simp: jobcnt_of_def Let_def) (simp add: is_int32_def)

lemma dec_not_word: "c \<notin> {CHR ''-''} \<Longrightarrow> \<not> is_digit c \<Longrightarrow> dec i \<noteq> c # s"
  using dec_nat_digits by (auto simp: dec_def split: if_splits) (metis list.set_intros(1))

lemma dec_not_fillid [simp]: "dec i \<noteq> ''fillid''"
  by (rule dec_not_word) (simp_all add: is_digit_def uc_def)

lemmas fillid_not_dec [simp] = dec_not_fillid [symmetric]

text \<open>What a job finds the settings to be.\<close>

definition job_of :: "(string \<Rightarrow> string option) \<Rightarrow> int \<Rightarrow> int \<Rightarrow> int \<Rightarrow> int \<Rightarrow> int \<Rightarrow> int \<Rightarrow> job" where
  "job_of env istp rnoiso rdup ks rs childnum =
     \<lparr>j_no = childnum, j_fillid = env_int env ''gtm_test_dbfillid'', j_jobcnt = jobcnt_of env,
      j_prime = 50000017, j_root = 5, j_top = c_div 50000017 (jobcnt_of env), j_istp = istp,
      j_tptype = (if env ''gtm_test_tptype'' = Some ''ONLINE'' then ''ONLINE'' else ''BATCH''),
      j_tpnoiso = tpnoiso_of env istp rnoiso, j_dupset = rdup, j_skipreg = env_int env ''gtm_test_repl_norepl'',
      j_crash = env_int env ''gtm_test_crash'', j_gtcm = env_int env ''gtm_test_is_gtcm'', j_keysize = ks,
      j_recsize = rs, j_span = env_int env ''gtm_test_spannode'', j_trigger = 0, j_ztr = False, j_dztrig = False\<rparr>"

definition settings_of :: "(string \<Rightarrow> string option) \<Rightarrow> int \<Rightarrow> int \<Rightarrow> int \<Rightarrow> int \<Rightarrow> int \<Rightarrow> (string \<times> string) list" where
  "settings_of env istp rnoiso rdup ks rs =
     [(''totaljob'', dec (jobcnt_of env)), (''prime'', dec 50000017), (''root'', dec 5), (''istp'', dec istp),
      (''tptype'', if env ''gtm_test_tptype'' = Some ''ONLINE'' then ''ONLINE'' else ''BATCH''),
      (''tpnoiso'', dec (tpnoiso_of env istp rnoiso)), (''dupset'', dec rdup),
      (''skipreg'', dec (env_int env ''gtm_test_repl_norepl'')), (''crash'', dec (env_int env ''gtm_test_crash'')),
      (''gtcm'', dec (env_int env ''gtm_test_is_gtcm'')), (''key_size'', dec ks), (''record_size'', dec rs),
      (''gtm_test_spannode'', dec (env_int env ''gtm_test_spannode'')), (''trigger'', dec 0)]"

context calm_db
begin

lemma read_job_runs:
  assumes "node Y db ''^%imptp'' [''fillid'', dec jobid] = Some (dec (env_int env ''gtm_test_dbfillid''))"
    and "\<forall>(name, v) \<in> set (settings_of env istp rnoiso rdup ks rs).
      node Y db ''^%imptp'' [dec (env_int env ''gtm_test_dbfillid''), name] = Some v"
    and "node Y db ''^%imptp'' [dec (env_int env ''gtm_test_dbfillid''), ''top''] = None"
    and "is_int32 istp" "is_int32 rnoiso" "is_int32 rdup" "is_int32 ks" "is_int32 rs"
  shows "\<exists>db'. read_job Y childnum jobid db = Inr (Go (job_of env istp rnoiso rdup ks rs childnum), db') \<and>
    (\<forall>g s. s \<noteq> [] \<or> take 1 g = ''^'' \<longrightarrow> node Y db' g s = node Y db g s)"
proof -
  have int: "get_int Y BIGMAXVALUELEN g s d = Inr (Go i, d)" if "node Y d g s = Some (dec i)" "is_int32 i" for g s d i
    using get_text_runs(2) [OF that(1), of BIGMAXVALUELEN] length_dec [OF that(2)] that(2)
    by (simp add: BIGMAXVALUELEN_def imptp_MAXVALUELEN_def)
  have "is_int32 (tpnoiso_of env istp rnoiso)" "is_int32 50000017" "is_int32 5" "is_int32 0"
    by (simp_all add: tpnoiso_of_def is_int32_def)
  moreover have "read_tptype Y f d = Inr (Go t, put Y ''tptype'' [] t d)"
    if "node Y d ''^%imptp'' [dec f, ''tptype''] = Some t" "length t < 256" for f d t
    using that by (simp add: read_tptype_def get_runs nul_ended_def BIGMAXVALUELEN_def imptp_MAXVALUELEN_def)
  ultimately show ?thesis
    using assms jobcnt_of_props [of env]
    by (simp add: read_job_def pct_int_def read_top_def int get_or_0_runs settings_of_def Let_def job_of_def)
qed

text \<open>A node that is set where it has no data.\<close>

lemma set_new_runs:
  "set_new Y g s v db = Inr (Go (), if node Y db g s = None \<and> \<not> below Y db g s then put Y g s v db else db)"
  by (simp add: set_new_def)

lemma setup_runs:
  fixes env :: "string \<Rightarrow> string option"
  defines "fillid \<equiv> env_int env ''gtm_test_dbfillid''" and "jobid \<equiv> env_int env ''gtm_test_jobid''"
    and "istp \<equiv> (if env ''gtm_test_tp'' = Some ''NON_TP'' then 0 else 1)"
  assumes cip: "getdatinfo_law Y ks rs" and new: "\<And>s. node Y db ''^%imptp'' s = None"
    and zro: "node Y db ''$zroutines'' [] = Some zro" "length zro < BIGMAXVALUELEN"
    and env: "env ''gtm_test_tp'' = Some ''NON_TP'' \<or> env ''gtm_test_dbfill'' \<noteq> Some ''IMPZTP''"
  shows "\<exists>db'. imptp_setup Y env rnoiso rdup db = Inr (Go (), db') \<and>
    node Y db' ''^%imptp'' [''fillid'', dec jobid] = Some (dec fillid) \<and>
    (\<forall>(name, v) \<in> set (settings_of env istp rnoiso rdup ks rs). node Y db' ''^%imptp'' [dec fillid, name] = Some v) \<and>
    node Y db' ''^%imptp'' [dec fillid, ''top''] = None \<and> node Y db' ''^endloop'' [dec fillid] = Some (dec 0)"
proof -
  let ?d0 = "put Y ''fillid'' [] (dec fillid) (put Y ''jobcnt'' [] (dec (jobcnt_of env)) db)"
  have istp: "read_istp env d = Inr (Go istp, d)" for d :: 'db
    using env by (auto simp: read_istp_def istp_def)
  let ?L = "[set_ok Y ''istp'' [] (dec istp),
        set_ok Y ''^%imptp'' [dec fillid, ''istp''] (dec istp),
        set_ok Y ''^%imptp'' [dec fillid, ''tptype'']
          (if env ''gtm_test_tptype'' = Some ''ONLINE'' then ''ONLINE'' else ''BATCH''),
        set_new Y ''^%imptp'' [dec fillid, ''tpnoiso''] (dec (tpnoiso_of env istp rnoiso)),
        set_new Y ''^%imptp'' [dec fillid, ''dupset''] (dec rdup),
        set_ok Y ''^%imptp'' [dec fillid, ''crash''] (dec (env_int env ''gtm_test_crash'')),
        set_ok Y ''^%imptp'' [dec fillid, ''gtcm''] (dec (env_int env ''gtm_test_is_gtcm'')),
        set_ok Y ''^%imptp'' [dec fillid, ''skipreg''] (dec (env_int env ''gtm_test_repl_norepl'')),
        set_ok Y ''jobid'' [] (dec jobid),
        set_ok Y ''^%imptp'' [''fillid'', dec jobid] (dec fillid)]"
  obtain d1 where d1: "block ?L ?d0 = Inr (Go (), d1)"
    "\<forall>s. node Y d1 ''^%imptp'' s = map_of
       [([dec fillid, ''istp''], dec istp),
        ([dec fillid, ''tptype''], if env ''gtm_test_tptype'' = Some ''ONLINE'' then ''ONLINE'' else ''BATCH''),
        ([dec fillid, ''tpnoiso''], dec (tpnoiso_of env istp rnoiso)), ([dec fillid, ''dupset''], dec rdup),
        ([dec fillid, ''crash''], dec (env_int env ''gtm_test_crash'')),
        ([dec fillid, ''gtcm''], dec (env_int env ''gtm_test_is_gtcm'')),
        ([dec fillid, ''skipreg''], dec (env_int env ''gtm_test_repl_norepl'')),
        ([''fillid'', dec jobid], dec fillid)] s"
    "node Y d1 ''fillid'' [] = Some (dec fillid)"
    by (simp add: set_new_runs below_def new)
  then obtain d2 where d2: "ydb_cip Y d1 ''getdatinfo'' = (YDB_OK, d2)"
    "\<forall>g s. node Y d2 g s =
           (if g = ''^%imptp'' \<and> s = [dec fillid, ''key_size''] then Some (dec ks)
            else if g = ''^%imptp'' \<and> s = [dec fillid, ''record_size''] then Some (dec rs)
            else node Y d1 g s)"
    using cip unfolding getdatinfo_law_def by blast
  let ?d3 = "put Y ''^%imptp'' [dec fillid, ''trigger''] (dec 0)
    (put Y ''^%imptp'' [dec fillid, ''gtm_test_spannode''] (dec (env_int env ''gtm_test_spannode'')) d2)"
  let ?R = "[cip_ok Y ''getdatinfo'',
        set_ok Y ''^%imptp'' [dec fillid, ''gtm_test_spannode''] (dec (env_int env ''gtm_test_spannode'')),
        set_ok Y ''^%imptp'' [dec fillid, ''trigger''] (dec 0)]"
  have "block ?R d1 = Inr (Go (), ?d3)" using d2(1) by (simp add: cip_ok_def asserted_def)
  then have "block (?L @ ?R) ?d0 = Inr (Go (), ?d3)" unfolding block_append d1(1) continue.simps .
  then have t: "test_settings Y env rnoiso rdup fillid istp ?d0 = Inr (Go (), ?d3)"
    by (simp only: test_settings_def Let_def append.simps jobid_def)
  have c: "check_totaljob Y fillid (jobcnt_of env) ?d3 =
      Inr (Go (), put Y ''^%imptp'' [dec fillid, ''totaljob''] (dec (jobcnt_of env)) ?d3)" (is "_ = Inr (Go (), ?d4)")
    by (simp add: check_totaljob_def below_def d2(2) d1(2))
  have n4: "\<forall>s. node Y ?d4 ''^%imptp'' s = map_of
     [([dec fillid, ''totaljob''], dec (jobcnt_of env)), ([dec fillid, ''trigger''], dec 0),
      ([dec fillid, ''gtm_test_spannode''], dec (env_int env ''gtm_test_spannode'')),
      ([dec fillid, ''key_size''], dec ks), ([dec fillid, ''record_size''], dec rs),
      ([dec fillid, ''istp''], dec istp),
      ([dec fillid, ''tptype''], if env ''gtm_test_tptype'' = Some ''ONLINE'' then ''ONLINE'' else ''BATCH''),
      ([dec fillid, ''tpnoiso''], dec (tpnoiso_of env istp rnoiso)), ([dec fillid, ''dupset''], dec rdup),
      ([dec fillid, ''crash''], dec (env_int env ''gtm_test_crash'')),
      ([dec fillid, ''gtcm''], dec (env_int env ''gtm_test_is_gtcm'')),
      ([dec fillid, ''skipreg''], dec (env_int env ''gtm_test_repl_norepl'')),
      ([''fillid'', dec jobid], dec fillid)] s"
    by (simp add: d2(2) d1(2))
  obtain d5 where d5: "fill_settings Y fillid ?d4 = Inr (Go (), d5)"
    "\<forall>s. node Y d5 ''^%imptp'' s =
       (if s = [dec fillid, ''jsyncnt''] then Some (dec 0) else if s = [dec fillid, ''root''] then Some (dec 5)
        else if s = [dec fillid, ''prime''] then Some (dec 50000017) else node Y ?d4 ''^%imptp'' s)"
    "node Y d5 ''^endloop'' [dec fillid] = Some (dec 0)"
    by (simp add: fill_settings_def set_new_runs)
  obtain d6 where d6: "jobwait_settings Y jobid (jobcnt_of env) d5 = Inr (Go (), d6)"
    "\<forall>g \<in> {''^%imptp'', ''^endloop''}. \<forall>s. node Y d6 g s = node Y d5 g s"
    by (simp add: jobwait_settings_def)
  have "get_text Y BIGMAXVALUELEN ''$zroutines'' [] (put Y ''jobcnt'' [] (dec (jobcnt_of env)) db) =
      Inr (Go zro, put Y ''jobcnt'' [] (dec (jobcnt_of env)) db)"
    using zro by (intro get_text_runs) simp_all
  then have "imptp_setup Y env rnoiso rdup db = Inr (Go (), d6)"
    using t c d5(1) d6(1) istp by (simp add: imptp_setup_def Let_def fillid_def jobid_def)
  moreover have n6: "node Y d6 ''^%imptp'' s =
       (if s = [dec fillid, ''jsyncnt''] then Some (dec 0) else if s = [dec fillid, ''root''] then Some (dec 5)
        else if s = [dec fillid, ''prime''] then Some (dec 50000017) else node Y ?d4 ''^%imptp'' s)" for s
    using d5(2) d6(2) by simp
  moreover have "\<forall>(name, v) \<in> set (settings_of env istp rnoiso rdup ks rs). node Y d6 ''^%imptp'' [dec fillid, name] = Some v"
    unfolding n6 n4 [rule_format] by (simp add: settings_of_def)
  moreover have "node Y d6 ''^%imptp'' [''fillid'', dec jobid] = Some (dec fillid)"
    "node Y d6 ''^%imptp'' [dec fillid, ''top''] = None"
    unfolding n6 n4 [rule_format] by simp_all
  ultimately show ?thesis using d5(3) d6(2) by (intro exI [of _ d6]) simp
qed

end

end
