(* ===== verification/ImptpProps.thy ===== *)
theory ImptpProps
  imports ImptpRun
begin

text \<open>
  The properties of com/simpleapi_imptp.c: what the parent writes is what the jobs read, no
  index is used twice, a job goes on where it was stopped, what a run leaves in the database,
  and what becomes of errors in its transactions.
\<close>

section \<open>A database with the M routines\<close>

definition imptp_cip :: "(string \<times> string list \<Rightarrow> string option) \<Rightarrow> string \<Rightarrow> int \<times> (string \<times> string list \<Rightarrow> string option)" where
  "imptp_cip db name =
     (0, if name = ''getdatinfo'' then
           db((''^%imptp'', [the (db (''fillid'', [])), ''key_size'']) := Some (dec 64),
              (''^%imptp'', [the (db (''fillid'', [])), ''record_size'']) := Some (dec 1000))
         else if name = ''helper1'' then
           db((''subs'', []) := db (''I'', []), (''val'', []) := db (''loop'', []), (''valALT'', []) := db (''loop'', []),
              (''valMAX'', []) := db (''loop'', []), (''subsMAX'', []) := db (''I'', []))
         else db)"

definition imptp_ydb :: "(string \<times> string list \<Rightarrow> string option) ydb" where
  "imptp_ydb = map_ydb\<lparr>ydb_cip := imptp_cip\<rparr>"

lemma imptp_ydb_good [simp]: "ydb_good imptp_ydb"
  by (simp add: imptp_ydb_def ydb_good_cip)

lemma node_imptp_ydb [simp]: "node imptp_ydb db g s = db (g, s)"
  by (simp add: imptp_ydb_def)

lemma cip_imptp_ydb: "ydb_cip imptp_ydb = imptp_cip"
  by (simp add: imptp_ydb_def)

lemma imptp_ydb_getdatinfo [simp]: "getdatinfo_law imptp_ydb 64 1000"
  by (auto simp: getdatinfo_law_def cip_imptp_ydb imptp_cip_def YDB_OK_def)

lemma strs_for_dec:
  assumes "is_int32 i" "is_int32 loop"
  shows "strs_for dec i loop \<lparr>s_subsMAX = dec i, s_val = dec loop, s_valALT = dec loop, s_valMAX = dec loop, s_subs = dec i, s_I = dec i\<rparr>"
  using assms [THEN length_dec] by (simp add: strs_for_def blanks_def BIGMAXVALUELEN_def imptp_MAXVALUELEN_def)

lemma imptp_ydb_laws [simp]: "imptp_laws imptp_ydb dec"
proof -
  have "helper1_law imptp_ydb dec"
    unfolding helper1_law_def
  proof (intro allI ballI impI)
    fix db and i loop :: int
    assume range: "i \<in> {1..<50000017}" "loop \<in> {1..<50000017}"
      and vars: "node imptp_ydb db ''I'' [] = Some (dec i)" "node imptp_ydb db ''loop'' [] = Some (dec loop)"
    have int: "is_int32 i" "is_int32 loop" using range by (simp_all add: is_int32_def)
    let ?b = "\<lparr>s_subsMAX = dec i, s_val = dec loop, s_valALT = dec loop, s_valMAX = dec loop, s_subs = dec i, s_I = dec i\<rparr>"
    have "g \<notin> {''subs'', ''val'', ''valALT'', ''valMAX'', ''subsMAX''}" if "stays g s" for g s
      using that by (auto simp: stays_def two_level_def)
    then show "\<exists>db' b. ydb_cip imptp_ydb db ''helper1'' = (YDB_OK, db') \<and> strs_for dec i loop b \<and>
        node imptp_ydb db' ''subs'' [] = Some (s_subs b) \<and> node imptp_ydb db' ''val'' [] = Some (s_val b) \<and>
        node imptp_ydb db' ''valALT'' [] = Some (s_valALT b) \<and> node imptp_ydb db' ''valMAX'' [] = Some (s_valMAX b) \<and>
        node imptp_ydb db' ''subsMAX'' [] = Some (s_subsMAX b) \<and> node imptp_ydb db' ''I'' [] = Some (dec i) \<and>
        (\<forall>g s. stays g s \<longrightarrow> node imptp_ydb db' g s = node imptp_ydb db g s)"
      using vars strs_for_dec [OF int]
      by (intro exI [of _ "snd (imptp_cip db ''helper1'')"] exI [of _ ?b]) (simp add: cip_imptp_ydb imptp_cip_def YDB_OK_def)
  qed
  moreover have "helpers_law imptp_ydb"
    by (simp add: helpers_law_def cip_imptp_ydb imptp_cip_def YDB_OK_def)
  moreover have "length (dec i) \<le> imptp_MAXVALUELEN \<and> unblank (dec i) = dec i" if "i \<in> {1..<50000017}" for i
  proof -
    have "dec i \<noteq> CHR 0x20 # t" for t by (rule dec_not_word) (simp_all add: is_digit_def uc_def)
    then have "unblank (dec i) = dec i" by (cases "dec i") (auto simp: unblank_def)
    then show ?thesis using that length_dec [of i] by (simp add: is_int32_def imptp_MAXVALUELEN_def)
  qed
  then have "ustr_law dec" by (simp add: ustr_law_def inj_on_def)
  ultimately show ?thesis by (simp add: imptp_laws_def)
qed

interpretation imptp: imptp_db imptp_ydb dec
  using imptp_ydb_laws by (rule imptp_laws_db)

section \<open>A job to run\<close>

definition some_job :: job where
  "some_job = job_of (\<lambda>_. None) 1 0 0 64 1000 2"

lemma some_job_simps:
  "j_prime some_job = 50000017" "j_root some_job = 5" "j_no some_job = 2" "j_jobcnt some_job = 5" "j_fillid some_job = 0"
  "plain_job some_job"
  by (simp_all add: some_job_def job_of_def jobcnt_of_def env_int_def plain_job_def imptp_MAXCHILDREN_def)

definition some_strs :: strs where
  "some_strs = \<lparr>s_subsMAX = '' s'', s_val = ''v'', s_valALT = ''v'', s_valMAX = '' v'', s_subs = ''s'', s_I = ''5''\<rparr>"

text \<open>A database in which the job can run.\<close>

definition job_db :: "string \<times> string list \<Rightarrow> string option" where
  "job_db = (\<lambda>_. None)((''^endloop'', [dec 0]) := Some (dec 0), (''$trestart'', []) := Some (dec 0))"

context calm_db
begin

lemma stage3_suffix:
  assumes "j_trigger j \<noteq> 0" "\<not> j_dztrig j" "node Y db ''^fntp'' [dec (j_fillid j), s_subs b] = Some v"
    and "length v \<le> BIGMAXVALUELEN"
  shows "if 6 \<le> length v then
      \<exists>db'. as_function (tpfn_stage3 Y j b) db = Inr (YDB_OK, db') \<and>
        node Y db' ''^fntp'' [dec (j_fillid j), s_subs b] = Some (take (length v - 6) v)
    else if j_istp j \<noteq> 0 then \<exists>db'. as_function (tpfn_stage3 Y j b) db = Inr (YDB_TP_RESTART Y, db')
    else as_function (tpfn_stage3 Y j b) db = Inl AssertFailed"
proof -
  let ?d = "put Y ''^entp'' [dec (j_fillid j), s_subs b] (s_val b) db"
  have "get_tp Y BIGMAXVALUELEN ''^fntp'' [dec (j_fillid j), s_subs b] ?d = Inr (Go v, ?d)"
    using assms(3,4) by (intro get_runs) simp_all
  then show ?thesis
    using assms(1,2) by (simp add: as_function_def tpfn_stage3_def Let_def cut_suffix_def)
qed

end

section \<open>Properties\<close>

text \<open>
  C21: no index is used twice: among the jobs 1 to \<open>jobcnt\<close> and the rounds 1 to
  \<open>prime / jobcnt\<close> of each, different ones start from different indices, all of them from 1
  to \<open>prime - 1\<close>.
\<close>

theorem indices_never_repeat:
  assumes "j_prime j = 50000017" "j_root j = 5" "2 \<le> j_jobcnt j" "j_jobcnt j \<le> imptp_MAXCHILDREN"
    and "a \<in> {1..j_jobcnt j}" "b \<in> {1..j_jobcnt j}" "l \<in> {1..c_div 50000017 (j_jobcnt j)}" "m \<in> {1..c_div 50000017 (j_jobcnt j)}"
    and "nroot = nroot_loop (nat (j_jobcnt j)) 1 5 50000017"
  shows "start_index (j\<lparr>j_no := a\<rparr>) nroot (l - 1) \<in> {1..<50000017} \<and>
    (start_index (j\<lparr>j_no := a\<rparr>) nroot (l - 1) = start_index (j\<lparr>j_no := b\<rparr>) nroot (m - 1) \<longrightarrow> a = b \<and> l = m)"
proof -
  let ?n = "j_jobcnt j"
  have start: "start_index (j\<lparr>j_no := c\<rparr>) nroot (k - 1) = job_index ?n c k" if "1 \<le> c" "1 \<le> k" for c k
    using start_index_pow5 [of "j\<lparr>j_no := c\<rparr>" "k - 1"] assms(1-3,9) that by simp
  have ix: "start_index (j\<lparr>j_no := a\<rparr>) nroot (l - 1) = job_index ?n a l"
    "start_index (j\<lparr>j_no := b\<rparr>) nroot (m - 1) = job_index ?n b m"
    using start assms(5-8) by simp_all
  show ?thesis
    unfolding ix using job_index_distinct [OF _ assms(5-8) rounds_bound [OF assms(3,4)]] job_index_range by auto
qed

theorem indices_never_repeat_witness:
  "start_index (some_job\<lparr>j_no := 2\<rparr>) (nroot_loop 5 1 5 50000017) 3 \<noteq>
   start_index (some_job\<lparr>j_no := 4\<rparr>) (nroot_loop 5 1 5 50000017) 3"
  using indices_never_repeat [of some_job 2 4 4 4 "nroot_loop 5 1 5 50000017"]
  by (simp add: some_job_simps imptp_MAXCHILDREN_def c_div_pos)

text \<open>
  a job that is started again goes on where it was: the index it computes from ^lasti
  is the one the loop has come to after that many rounds.
\<close>

theorem restart_resumes:
  assumes "j_prime j = 50000017" "j_root j = 5" "1 \<le> j_no j" "1 \<le> j_jobcnt j" "0 \<le> lasti"
    and "nroot = nroot_loop (nat (j_jobcnt j)) 1 5 50000017"
  shows "mulmod (start_index j nroot lasti) nroot (j_prime j) = start_index j nroot (lasti + 1)"
  using start_index_pow5 [OF assms(1-5)] start_index_pow5 [OF assms(1-4), of "lasti + 1"]
    next_index [OF assms(3,4), of "lasti + 1"] assms(1,5,6) by simp

theorem restart_resumes_witness:
  "mulmod (start_index some_job (nroot_loop 5 1 5 50000017) 7) (nroot_loop 5 1 5 50000017) 50000017 =
   start_index some_job (nroot_loop 5 1 5 50000017) 8"
  using restart_resumes [of some_job 7 "nroot_loop 5 1 5 50000017"] by (simp add: some_job_simps)

text \<open>
  C23: what the parent writes is what the jobs read: in a database without settings, after
  the set-up a job reads its own number and the settings the environment asked for.
\<close>

theorem settings_reach_jobs:
  assumes "ydb_good Y" "getdatinfo_law Y ks rs" "\<forall>s. node Y db ''^%imptp'' s = None"
    and "node Y db ''$zroutines'' [] = Some zro" "length zro < BIGMAXVALUELEN"
    and "env ''gtm_test_tp'' = Some ''NON_TP'' \<or> env ''gtm_test_dbfill'' \<noteq> Some ''IMPZTP''"
    and "rnoiso \<in> {0, 1}" "rdup \<in> {0, 1}" "is_int32 ks" "is_int32 rs"
    and "istp = (if env ''gtm_test_tp'' = Some ''NON_TP'' then 0 else 1)"
  shows "\<exists>db1 db2. imptp_setup Y env rnoiso rdup db = Inr (Go (), db1) \<and>
    read_job Y childnum (env_int env ''gtm_test_jobid'') db1 = Inr (Go (job_of env istp rnoiso rdup ks rs childnum), db2)"
proof -
  have Y: "calm_db Y" using assms(1) by (rule calm_db.intro)
  have int: "is_int32 istp" "is_int32 rnoiso" "is_int32 rdup" using assms(7,8,11) by (auto simp: is_int32_def)
  obtain db1 where db1: "imptp_setup Y env rnoiso rdup db = Inr (Go (), db1)"
    "node Y db1 ''^%imptp'' [''fillid'', dec (env_int env ''gtm_test_jobid'')] = Some (dec (env_int env ''gtm_test_dbfillid''))"
    "\<forall>(name, v) \<in> set (settings_of env istp rnoiso rdup ks rs).
       node Y db1 ''^%imptp'' [dec (env_int env ''gtm_test_dbfillid''), name] = Some v"
    "node Y db1 ''^%imptp'' [dec (env_int env ''gtm_test_dbfillid''), ''top''] = None"
    using calm_db.setup_runs [OF Y assms(2) assms(3) [rule_format] assms(4-6), of rnoiso rdup] assms(11) by blast
  from calm_db.read_job_runs [OF Y db1(2-4) int assms(9,10)] db1(1) show ?thesis by blast
qed

theorem settings_reach_jobs_witness:
  "\<exists>db1 db2. imptp_setup imptp_ydb (\<lambda>_. None) 0 1 ((\<lambda>_. None)((''$zroutines'', []) := Some ''.'')) = Inr (Go (), db1) \<and>
    read_job imptp_ydb 3 0 db1 = Inr (Go (job_of (\<lambda>_. None) 1 0 1 64 1000 3), db2)"
  using settings_reach_jobs [of imptp_ydb 64 1000 "(\<lambda>_. None)((''$zroutines'', []) := Some ''.'')" "''.''" "\<lambda>_. None" 0 1 1 3]
  by (simp add: env_int_def is_int32_def BIGMAXVALUELEN_def imptp_MAXVALUELEN_def)

text \<open>
  C22: a job that runs in transactions without triggers, from wherever it was stopped, does
  all its rounds: ^lasti ends at \<open>top\<close>, and what every round leaves (\<open>left_by\<close>: the nine variables of stage 1 with two
  subscripts, the node of the tenth with four, and the nodes of ^entp, ^fntp, ^gntp, ^hntp and ^intp) is there at the end,
  none of it overwritten by a later round. The other updates are deleted again by the M routine of the later stages.
\<close>

theorem job_fills:
  assumes "imptp_laws Y ustr" "plain_job j" "running Y j db" "0 \<le> lasti" "lasti < tmax" "tmax \<le> c_div 50000017 (j_jobcnt j)"
    and "nroot = nroot_loop (nat (j_jobcnt j)) 1 5 50000017"
  shows "\<exists>db'. job_loop Y j nroot rndm (start_index j nroot lasti) [lasti + 1..tmax] db = Inr (Go (), db') \<and>
    node Y db' ''^lasti'' [dec (j_fillid j), dec (j_no j)] = Some (dec tmax) \<and>
    (\<forall>l \<in> {lasti + 1..tmax}. \<exists>b. strs_for ustr (start_index j nroot (l - 1)) l b \<and>
       (\<forall>(g, s, v) \<in> set (left_by (dec (j_fillid j)) b). node Y db' g s = Some v))"
proof -
  let ?n = "j_jobcnt j"
  have j: "j_prime j = 50000017" "j_root j = 5" "1 \<le> j_no j" "2 \<le> ?n" "?n \<le> imptp_MAXCHILDREN"
    using assms(2) by (simp_all add: plain_job_def)
  have start: "start_index j nroot k = job_index ?n (j_no j) (k + 1)" if "0 \<le> k" for k
    using start_index_pow5 [OF j(1-3) _ that] j(4) assms(7) by simp
  have "?n * tmax \<le> ?n * c_div 50000017 ?n" using assms(6) j(4) by (intro mult_left_mono) auto
  also have "\<dots> < 50000017" using rounds_bound j(4,5) .
  finally have small: "?n * tmax < 50000017" .
  obtain db' where "job_loop Y j nroot rndm (job_index ?n (j_no j) (lasti + 1)) [lasti + 1..tmax] db = Inr (Go (), db')"
    "lasti < tmax \<longrightarrow> node Y db' ''^lasti'' [dec (j_fillid j), dec (j_no j)] = Some (dec tmax)"
    "\<forall>l \<in> {lasti + 1..tmax}. \<exists>b. strs_for ustr (job_index ?n (j_no j) l) l b \<and> has_left Y db' (dec (j_fillid j)) b"
    using imptp_db.job_loop_runs [OF imptp_laws_db [OF assms(1)] assms(2) small refl assms(3,4) refl, of rndm, folded assms(7)]
    by (elim exE conjE) (rule that; assumption)
  moreover have "start_index j nroot (l - 1) = job_index ?n (j_no j) l" if "l \<in> {lasti + 1..tmax}" for l
    using start [of "l - 1"] that assms(4) by simp
  ultimately show ?thesis using start [OF assms(4)] assms(5) unfolding has_left_def by (intro exI [of _ db']) auto
qed

theorem job_fills_witness:
  "\<exists>db'. job_loop imptp_ydb some_job (nroot_loop 5 1 5 50000017) (\<lambda>_. 0)
       (start_index some_job (nroot_loop 5 1 5 50000017) 2) [3..6] job_db = Inr (Go (), db') \<and>
     node imptp_ydb db' ''^lasti'' [dec 0, dec 2] = Some (dec 6) \<and>
     node imptp_ydb db' ''^hrandomvariableinimptpfilling'' [dec 0, dec (start_index some_job (nroot_loop 5 1 5 50000017) 3)] = Some (dec 4)"
proof -
  obtain db' where db': "job_loop imptp_ydb some_job (nroot_loop 5 1 5 50000017) (\<lambda>_. 0)
       (start_index some_job (nroot_loop 5 1 5 50000017) 2) [3..6] job_db = Inr (Go (), db')"
     "node imptp_ydb db' ''^lasti'' [dec 0, dec 2] = Some (dec 6)"
     "\<forall>l \<in> {3..6}. \<exists>b. strs_for dec (start_index some_job (nroot_loop 5 1 5 50000017) (l - 1)) l b \<and>
       (\<forall>(g, s, v) \<in> set (left_by (dec 0) b). node imptp_ydb db' g s = Some v)"
    using job_fills [of imptp_ydb dec some_job job_db 2 6 "nroot_loop 5 1 5 50000017" "\<lambda>_. 0"]
    by (auto simp: some_job_simps running_def job_db_def c_div_pos)
  obtain b where "strs_for dec (start_index some_job (nroot_loop 5 1 5 50000017) 3) 4 b"
    "\<forall>(g, s, v) \<in> set (left_by (dec 0) b). node imptp_ydb db' g s = Some v"
    using bspec [OF db'(3), of 4] by auto
  then have "node imptp_ydb db' ''^hrandomvariableinimptpfilling'' [dec 0, dec (start_index some_job (nroot_loop 5 1 5 50000017) 3)] = Some (dec 4)"
    by (simp add: left_by_def strs_for_def)
  with db'(1,2) show ?thesis by blast
qed

section \<open>Sets that are refused\<close>

text \<open>A library that refuses the sets of one variable with a status, and is as it was otherwise.\<close>

definition refusing :: "'db ydb \<Rightarrow> int \<Rightarrow> string \<Rightarrow> 'db ydb" where
  "refusing Y e g = Y\<lparr>ydb_set_s := \<lambda>db g' s v. if g' = g then (e, db) else ydb_set_s Y db g' s v\<rparr>"

lemma andThen_assoc: "andThen (andThen m k) h = andThen m (\<lambda>x. andThen (k x) h)"
proof
  fix db show "andThen (andThen m k) h db = andThen m (\<lambda>x. andThen (k x) h) db"
    by (cases "(m db, k)" rule: continue.cases) simp_all
qed

lemma andThen_ret: "andThen (ret x) k = k x"
  by (simp add: fun_eq_iff)

definition refused :: "'db ydb \<Rightarrow> int \<Rightarrow> c_fault + int \<times> 'db \<Rightarrow> bool" where
  "refused Y e res \<longleftrightarrow> (if e = YDB_TP_RESTART Y then \<exists>db. res = Inr (e, db) else res = Inl AssertFailed)"

context calm_db
begin

lemma refusing_set:
  assumes "e \<noteq> YDB_OK"
  shows "set_tp (refusing Y e g) g' s v db =
      (if g' \<noteq> g then Inr (Go (), put Y g' s v db) else if e = YDB_TP_RESTART Y then Inr (Stop e, db) else Inl AssertFailed)"
    and "set_restart (refusing Y e g) g' s v db =
      (if g' \<noteq> g then Inr (Go (), put Y g' s v db) else if e = YDB_TP_RESTART Y then Inr (Stop e, db) else Inr (Go (), db))"
  using assms by (simp_all add: refusing_def set_tp_def set_restart_def set_put asserted_tp_def)

lemma refusing_gets: "get_text (refusing Y e g) = get_text Y"
  by (simp add: fun_eq_iff refusing_def get_text_def)

text \<open>A list of sets of which one is refused.\<close>

lemma refused_block:
  assumes "e \<noteq> YDB_OK" "g \<in> fst ` set sets"
  shows "refused Y e (as_function (block (List.map (\<lambda>(g', s, v). set_tp (refusing Y e g) g' s v) sets)) db)"
  using assms(2)
proof (induction sets arbitrary: db)
  case (Cons a sets)
  obtain g' s v where a: "a = (g', s, v)" by (cases a)
  show ?case
  proof (cases "g' = g")
    case True
    then show ?thesis by (simp add: a refusing_set [OF assms(1)] as_function_def refused_def)
  next
    case False
    then have "set_tp (refusing Y e g) g' s v db = Inr (Go (), put Y g' s v db)" by (simp add: refusing_set [OF assms(1)])
    then show ?thesis using Cons.IH [of "put Y g' s v db"] Cons.prems False by (simp add: a as_function_def)
  qed
qed simp

lemma refused_stage1:
  assumes "plain_job j" "running Y j db" "e \<noteq> YDB_OK" "g \<in> two_level \<union> {''^jrandomvariableinimptpfillprogr'', ''^lasti''}"
  shows "refused Y e (as_function (tpfn_stage1 (refusing Y e g) j b loop rndm) db)"
proof -
  let ?f = "dec (j_fillid j)" and ?set = "\<lambda>(g', s, v). set_tp (refusing Y e g) g' s v"
  let ?d = "put Y ''^arandom'' [?f, s_subsMAX b] (s_val b) db"
  let ?rest = "tl (take 9 (left_by ?f b)) @
      [(''^jrandomvariableinimptpfillprogr'', [?f, s_I b], s_val b), (''^jrandomvariableinimptpfillprogr'', [?f, s_I b, s_I b], s_val b),
       (''^jrandomvariableinimptpfillprogr'', [?f, s_I b, s_I b, s_subs b], s_val b), (''^lasti'', [?f, dec (j_no j)], dec loop)]"
  have "get_text Y BIGMAXVALUELEN ''$trestart'' [] ?d = Inr (Go (dec 0), ?d)"
    using assms(2) by (intro get_text_runs) (simp_all add: running_def BIGMAXVALUELEN_def imptp_MAXVALUELEN_def dec_def dec_nat.simps)
  then have "crash_delay (refusing Y e g) (j_no j) rndm ?d = Inr (Go (), ?d)"
    by (simp add: crash_delay_def refusing_gets is_int32_def)
  then have crash: "onlyIf (j_istp j AND j_crash j \<noteq> 0) [crash_delay (refusing Y e g) (j_no j) rndm] ?d = Inr (Go (), ?d)"
    by (cases "j_istp j AND j_crash j = 0") simp_all
  have stage: "tpfn_stage1 (refusing Y e g) j b loop rndm =
      andThen (set_tp (refusing Y e g) ''^arandom'' [?f, s_subsMAX b] (s_val b)) (\<lambda>_.
      andThen (onlyIf (j_istp j AND j_crash j \<noteq> 0) [crash_delay (refusing Y e g) (j_no j) rndm]) (\<lambda>_.
        block (List.map ?set ?rest)))"
    using assms(1)
    by (simp add: tpfn_stage1_def plain_job_def Let_def left_by_def onlyIf_def andThen_assoc andThen_ret del: act_simps(1,4))
  show ?thesis
  proof (cases "g = ''^arandom''")
    case True
    then show ?thesis unfolding as_function_def stage by (simp add: refusing_set [OF assms(3)] refused_def)
  next
    case False
    then have "g \<in> fst ` set ?rest" using assms(4) by (auto simp: two_level_def left_by_def)
    from refused_block [OF assms(3) this] show ?thesis
      using False crash unfolding as_function_def stage by (simp add: refusing_set [OF assms(3)])
  qed
qed

lemma refused_stage3:
  assumes "plain_job j" "e \<noteq> YDB_OK"
  shows "g \<in> {''^entp'', ''^fntp'', ''^gntp'', ''^hntp''} \<Longrightarrow> refused Y e (as_function (tpfn_stage3 (refusing Y e g) j b) db)"
    and "g \<in> {''^intp'', ''^bntp''} \<Longrightarrow> \<exists>db'. as_function (tpfn_stage3 (refusing Y e g) j b) db =
      Inr (if e = YDB_TP_RESTART Y then e else YDB_OK, db')"
  using assms
  by (elim insertE emptyE; cases "e = YDB_TP_RESTART Y"; simp add: as_function_def tpfn_stage3_def plain_job_def Let_def refusing_set refused_def)+

end

text \<open>
  C24: a set of a stage that the library refuses does not pass unnoticed: for each variable that the first
  stage sets, and for ^entp, ^fntp, ^gntp and ^hntp, which the third sets, the stage of a job in transactions without triggers
  returns the status if it asks for a restart and fails an assertion if it is any other error. But the last two sets of the third stage, of
  ^intp and ^bntp, are looked at for a restart only: with any other error the stage has lost the update and returns YDB_OK.
\<close>

theorem refused_sets:
  assumes "ydb_good Y" "plain_job j" "running Y j db" "e \<noteq> YDB_OK"
  shows "(\<forall>g \<in> two_level \<union> {''^jrandomvariableinimptpfillprogr'', ''^lasti''}.
      refused Y e (as_function (tpfn_stage1 (refusing Y e g) j b loop rndm) db)) \<and>
    (\<forall>g \<in> {''^entp'', ''^fntp'', ''^gntp'', ''^hntp''}. refused Y e (as_function (tpfn_stage3 (refusing Y e g) j b) db)) \<and>
    (\<forall>g \<in> {''^intp'', ''^bntp''}. \<exists>db'. as_function (tpfn_stage3 (refusing Y e g) j b) db =
       Inr (if e = YDB_TP_RESTART Y then e else YDB_OK, db'))"
proof -
  have Y: "calm_db Y" by (rule calm_db.intro [OF assms(1)])
  show ?thesis
    by (intro conjI ballI calm_db.refused_stage1 [OF Y assms(2-4)] calm_db.refused_stage3 [OF Y assms(2,4)])
qed

theorem refused_sets_witness:
  "as_function (tpfn_stage1 (refusing imptp_ydb (-5) ''^lasti'') some_job some_strs 3 0) job_db = Inl AssertFailed \<and>
   as_function (tpfn_stage3 (refusing imptp_ydb (-5) ''^hntp'') some_job some_strs) job_db = Inl AssertFailed \<and>
   (\<exists>db'. as_function (tpfn_stage3 (refusing imptp_ydb (-5) ''^intp'') some_job some_strs) job_db = Inr (YDB_OK, db'))"
proof -
  have "running imptp_ydb some_job job_db" by (simp add: running_def job_db_def some_job_simps)
  moreover have "(-5 :: int) \<noteq> YDB_OK" "YDB_TP_RESTART imptp_ydb \<noteq> -5" by (simp_all add: YDB_OK_def imptp_ydb_def map_ydb_def)
  ultimately show ?thesis
    using refused_sets [of imptp_ydb some_job job_db "-5" some_strs 3 0] some_job_simps(6) by (auto simp: refused_def)
qed

text \<open>
  With triggers installed the third stage takes the suffix a trigger has put behind the
  value of ^fntp off again; a value too short for one, which only a violated isolation can
  leave, makes a transaction restart, and fails an assertion outside of one.
\<close>

theorem suffix_cut:
  assumes "ydb_good Y" "j_trigger j \<noteq> 0" "\<not> j_dztrig j" "node Y db ''^fntp'' [dec (j_fillid j), s_subs b] = Some v"
    and "length v \<le> BIGMAXVALUELEN"
  shows "if 6 \<le> length v then
      \<exists>db'. as_function (tpfn_stage3 Y j b) db = Inr (YDB_OK, db') \<and>
        node Y db' ''^fntp'' [dec (j_fillid j), s_subs b] = Some (take (length v - 6) v)
    else if j_istp j \<noteq> 0 then \<exists>db'. as_function (tpfn_stage3 Y j b) db = Inr (YDB_TP_RESTART Y, db')
    else as_function (tpfn_stage3 Y j b) db = Inl AssertFailed"
  using calm_db.stage3_suffix [OF calm_db.intro [OF assms(1)] assms(2-5)] .

theorem suffix_cut_witness:
  "\<exists>db'. as_function (tpfn_stage3 imptp_ydb (some_job\<lparr>j_trigger := 1\<rparr>) some_strs)
      (job_db((''^fntp'', [dec 0, ''s'']) := Some ''12suffix'')) = Inr (YDB_OK, db') \<and>
    node imptp_ydb db' ''^fntp'' [dec 0, ''s''] = Some ''12''"
  using suffix_cut [of imptp_ydb "some_job\<lparr>j_trigger := 1\<rparr>" "job_db((''^fntp'', [dec 0, ''s'']) := Some ''12suffix'')"
      some_strs "''12suffix''"]
  by (simp add: some_job_simps some_strs_def some_job_def job_of_def env_int_def BIGMAXVALUELEN_def imptp_MAXVALUELEN_def)

end
