(* ===== verification/RunConcurr.thy ===== *)
theory RunConcurr
  imports YdbProg
begin

text \<open>
  stress/inref/simpleapi_run_concurr.c: ten jobs that kill, set and verify the same global
  variables again and again, one of them without transactions, four in transactions they roll
  back and five in transactions they commit. The process number, the clock and the program's
  argument are parameters; of the messages only what can go wrong with their buffers is kept.
\<close>

section \<open>Types and buffers\<close>

datatype tpflag_t = NTP | TPR | TPC

datatype act_t = SET | KILL | VER

definition NTPJ :: int where "NTPJ = 1"

definition TPRJ :: int where "TPRJ = 5"

definition NCHILDREN :: int where "NCHILDREN = 10"

definition VALUELEN :: nat where "VALUELEN = 256"

text \<open>A line of \<open>n\<close> characters is printed to a buffer before its length is checked.\<close>

definition report_line :: "nat \<Rightarrow> ('db, unit) act" where
  "report_line n = (if n < VALUELEN then ret () else fault OutOfBounds)"

section \<open>Filling and verifying\<close>

text \<open>\<open>m_EXAM_randfill\<close>: a value that is not the right one is reported and counted in ERR.\<close>

definition m_EXAM_randfill :: "'db ydb \<Rightarrow> string \<Rightarrow> string \<Rightarrow> string \<Rightarrow> ('db, unit) act" where
  "m_EXAM_randfill Y pos vcorr vcomp =
     (if vcorr = vcomp then ret ()
      else
        andThen (report_line (length '' ** FAIL verifying global '' + length pos + 1)) (\<lambda>_.
        andThen (nul_ended VALUELEN vcorr) (\<lambda>_.
        andThen (report_line (length (CHR 0x09 # ''CORRECT = '') + length (c_str vcorr) + 1)) (\<lambda>_.
        andThen (nul_ended VALUELEN vcomp) (\<lambda>_.
        andThen (report_line (length (CHR 0x09 # ''COMPUTED = '') + length (c_str vcomp) + 1)) (\<lambda>_.
        andThen (incr_ok Y ''ERR'' [] None) (\<lambda>_. ret ())))))))"

text \<open>The customer of the current index; \<open>obj\<close> is set to it.\<close>

definition fetch_obj :: "'db ydb \<Rightarrow> ('db, string \<times> string) act" where
  "fetch_obj Y =
     andThen (get_ok Y VALUELEN ''ndx'' []) (\<lambda>ndx.
     andThen (get_tp Y VALUELEN ''^instance'' []) (\<lambda>inst.
     andThen (get_tp Y VALUELEN ''^cust'' [ndx, inst]) (\<lambda>obj.
     andThen (set_ok Y ''obj'' [] obj) (\<lambda>_. ret (ndx, obj)))))"

text \<open>The global variables with three subscripts, and those with the process number as one more.\<close>

definition fills :: "string list" where
  "fills = [''^afill'', ''^e'', ''^cfill'', ''^dfill'', ''^ffill'']"

definition counters :: "string list" where
  "counters = [''^efill'', ''^%1'', ''^b'', ''^bbbbbbbbbbbbbbbbbbbbbbbbbbbbbbb'']"

definition add_prime :: "'db ydb \<Rightarrow> int \<Rightarrow> string \<Rightarrow> string list \<Rightarrow> ('db, unit) act" where
  "add_prime Y prime g s =
     andThen (get_int_or_0_tp Y VALUELEN g s) (\<lambda>tmp. set_tp Y g s (dec (int32 (tmp + prime))))"

definition set_one :: "'db ydb \<Rightarrow> string \<Rightarrow> int \<Rightarrow> int \<Rightarrow> ('db, unit) act" where
  "set_one Y pid prime iter =
     andThen (fetch_obj Y) (\<lambda>(ndx, obj).
       block (List.map (\<lambda>g. set_tp Y g [ndx, obj, dec iter] ndx) fills @
              List.map (\<lambda>g. add_prime Y prime g [ndx, obj, pid, dec iter]) counters))"

text \<open>The name for the report is written whether there is something to report or not.\<close>

fun with_commas :: "string list \<Rightarrow> string" where
  "with_commas [] = []"
| "with_commas [u] = u"
| "with_commas (u # us) = u @ '','' @ with_commas us"

definition position :: "string \<Rightarrow> string list \<Rightarrow> string" where
  "position g s = g @ ''('' @ with_commas (List.map c_str s) @ '')''"

definition verify :: "'db ydb \<Rightarrow> string \<Rightarrow> string list \<Rightarrow> string \<Rightarrow> ('db, unit) act" where
  "verify Y g s vcorr =
     andThen (get_tp Y VALUELEN g s) (\<lambda>vcomp.
     andThen (block (List.map (\<lambda>u. andThen (nul_ended VALUELEN u) (\<lambda>_. ret ())) s)) (\<lambda>_.
     andThen (report_line (length (position g s))) (\<lambda>_.
       m_EXAM_randfill Y (position g s) vcorr vcomp)))"

definition ver_one :: "'db ydb \<Rightarrow> string \<Rightarrow> int \<Rightarrow> int \<Rightarrow> ('db, unit) act" where
  "ver_one Y pid prime iter =
     andThen (fetch_obj Y) (\<lambda>(ndx, obj).
       block (List.map (\<lambda>g. verify Y g [ndx, obj, dec iter] ndx) fills @
              List.map (\<lambda>g. verify Y g [ndx, obj, pid, dec iter] (dec prime)) counters))"

definition kill_one :: "'db ydb \<Rightarrow> string \<Rightarrow> int \<Rightarrow> int \<Rightarrow> ('db, unit) act" where
  "kill_one Y pid prime iter =
     andThen (fetch_obj Y) (\<lambda>(ndx, obj).
       block (List.map (\<lambda>g. delete_tp Y g [ndx, obj, dec iter]) fills @
              List.map (\<lambda>g. delete_tp Y g [ndx, obj, pid, dec iter]) counters))"

fun act_one :: "'db ydb \<Rightarrow> act_t \<Rightarrow> string \<Rightarrow> int \<Rightarrow> int \<Rightarrow> ('db, unit) act" where
  "act_one Y SET = set_one Y"
| "act_one Y VER = ver_one Y"
| "act_one Y KILL = kill_one Y"

text \<open>\<open>n\<close> rounds from the index \<open>ndx\<close> on, fewer when there are more errors than MAXERR.\<close>

fun filling_loop :: "'db ydb \<Rightarrow> act_t \<Rightarrow> string \<Rightarrow> int \<Rightarrow> int \<Rightarrow> int \<Rightarrow> nat \<Rightarrow> int \<Rightarrow> ('db, unit) act" where
  "filling_loop Y act pid prime root iter 0 ndx = ret ()"
| "filling_loop Y act pid prime root iter (Suc n) ndx =
     andThen (act_one Y act pid prime iter) (\<lambda>_.
     let ndx' = c_mod (int32 (ndx * root)) prime in
     andThen (set_ok Y ''ndx'' [] (dec ndx')) (\<lambda>_.
     andThen (get_int Y VALUELEN ''ERR'' []) (\<lambda>ERR.
     andThen (get_int Y VALUELEN ''MAXERR'' []) (\<lambda>MAXERR.
       if MAXERR < ERR then ret () else filling_loop Y act pid prime root iter n ndx'))))"

definition m_filling_randfill :: "'db ydb \<Rightarrow> act_t \<Rightarrow> string \<Rightarrow> int \<Rightarrow> int \<Rightarrow> int \<Rightarrow> ('db, unit) act" where
  "m_filling_randfill Y act pid prime root iter = block
     [set_ok Y ''ERR'' [] (dec 0),
      set_ok Y ''MAXERR'' [] (dec 10),
      set_ok Y ''ndx'' [] (dec 1),
      filling_loop Y act pid prime root iter (nat (prime - 1)) 1,
      andThen (get_int Y VALUELEN ''ERR'' []) (\<lambda>_. ret ())]"

definition m_randfill :: "'db ydb \<Rightarrow> act_t \<Rightarrow> string \<Rightarrow> int \<Rightarrow> int \<Rightarrow> ('db, unit) act" where
  "m_randfill Y act pid pno iter =
     andThen (get_int_tp Y VALUELEN ''^root'' [dec pno]) (\<lambda>root.
     andThen (get_int_tp Y VALUELEN ''^prime'' []) (\<lambda>prime.
       m_filling_randfill Y act pid prime root iter))"

section \<open>The jobs\<close>

text \<open>A function whose status is returned when it asks for a restart, and not looked at otherwise.\<close>

definition call_tp :: "'db ydb \<Rightarrow> ('db, unit) act \<Rightarrow> ('db, unit) act" where
  "call_tp Y f db =
     (case as_function f db of Inl e \<Rightarrow> Inl e
      | Inr (status, db') \<Rightarrow> if status = YDB_TP_RESTART Y then stop status db' else ret () db')"

definition pno_of :: "int \<Rightarrow> int" where
  "pno_of loop = c_mod (int32 (2 * loop)) 10 + 1"

definition job_stress_tpfn :: "'db ydb \<Rightarrow> tpflag_t \<Rightarrow> string \<Rightarrow> int \<Rightarrow> ('db, unit) act" where
  "job_stress_tpfn Y tpflag pid loop =
     andThen (call_tp Y (m_randfill Y KILL pid (pno_of loop) loop)) (\<lambda>_.
     andThen (call_tp Y (m_randfill Y SET pid (pno_of loop) loop)) (\<lambda>_.
     andThen (call_tp Y (m_randfill Y VER pid (pno_of loop) loop)) (\<lambda>_.
     andThen (get_int Y VALUELEN ''$trestart'' []) (\<lambda>trestart.
     andThen (if trestart \<noteq> 0 then
                andThen (check (tpflag \<noteq> NTP)) (\<lambda>_. andThen (get_int Y VALUELEN ''$tlevel'' []) (\<lambda>_. ret ()))
              else ret ()) (\<lambda>_.
     if tpflag = TPR then stop (YDB_TP_ROLLBACK Y) else ret ())))))"

text \<open>How a job runs it; a transaction that is rolled back is no failure.\<close>

definition run_tpfn :: "'db ydb \<Rightarrow> tpflag_t \<Rightarrow> ('db, unit) act \<Rightarrow> ('db, unit) act" where
  "run_tpfn Y tpflag f db =
     (if tpflag \<noteq> NTP then
        (case ydb_tp_s Y (as_function f) db of Inl e \<Rightarrow> Inl e
         | Inr (status, db') \<Rightarrow> check (status = YDB_OK \<or> status = YDB_TP_ROLLBACK Y) db')
      else call_ok (as_function f) db)"

definition tpflag_of :: "int \<Rightarrow> tpflag_t" where
  "tpflag_of child = (if child \<le> NTPJ then NTP else if child \<le> TPRJ then TPR else TPC)"

definition job_iteration :: "'db ydb \<Rightarrow> tpflag_t \<Rightarrow> string \<Rightarrow> int \<Rightarrow> ('db, unit) act" where
  "job_iteration Y tpflag pid loop =
     andThen (block
       [delete_ok Y ''efill'' [], delete_ok Y ''ffill'' [], delete_ok Y ''gfill'' [], delete_ok Y ''hfill'' [],
        set_ok Y ''loop'' [] (dec loop)]) (\<lambda>_.
     andThen (get_ok Y VALUELEN ''loop'' []) (\<lambda>v.
     andThen (block
       [set_ok Y ''efill'' [v] v, set_ok Y ''ffill'' [v] v, set_ok Y ''gfill'' [v] v, set_ok Y ''hfill'' [v] v,
        run_tpfn Y tpflag (job_stress_tpfn Y tpflag pid loop)]) (\<lambda>_.
     andThen (get_ok Y VALUELEN ''jobno'' []) (\<lambda>jobno.
     andThen (get_ok Y VALUELEN ''localinstance'' []) (\<lambda>inst.
     andThen (get_ok Y VALUELEN ''loop'' []) (\<lambda>v.
       set_ok Y ''^lasti'' [jobno, inst] v))))))"

text \<open>The status of the increment of ^permit is not looked at.\<close>

definition incr_any :: "'db ydb \<Rightarrow> string \<Rightarrow> string list \<Rightarrow> ('db, unit) act" where
  "incr_any Y g s db = (let (status, v, db') = ydb_incr_s Y db g s None in ret () db')"

definition m_job_stress :: "'db ydb \<Rightarrow> int \<Rightarrow> string \<Rightarrow> ('db, unit) act" where
  "m_job_stress Y child pid =
     andThen (set_ok Y ''jobno'' [] (dec child)) (\<lambda>_.
     andThen (get_ok Y VALUELEN ''jobno'' []) (\<lambda>jobno.
     andThen (get_ok Y VALUELEN ''localinstance'' []) (\<lambda>inst.
     andThen (block
       [set_ok Y ''^PID'' [jobno, inst] pid,
        incr_any Y ''^permit'' [inst],
        lock_ok Y ''^permit'' [pid]]) (\<lambda>_.
     andThen (get_int Y VALUELEN ''iterate'' []) (\<lambda>iterate.
     andThen (delete_ok Y ''loop'' []) (\<lambda>_.
       block (List.map (job_iteration Y (tpflag_of child) pid) [1..iterate])))))))"

text \<open>
  The parent: it holds ^permit until all children have counted themselves; \<open>others n\<close> is
  what they do while it sleeps, None that \<open>fuel\<close> did not last.
\<close>

fun wait_children :: "'db ydb \<Rightarrow> (nat \<Rightarrow> 'db \<Rightarrow> 'db) \<Rightarrow> nat \<Rightarrow> string \<Rightarrow> ('db, bool) act" where
  "wait_children Y others 0 inst = ret False"
| "wait_children Y others (Suc fuel) inst =
     andThen (get_int_or_0 Y VALUELEN ''^permit'' [inst]) (\<lambda>childcnt.
       if childcnt = NCHILDREN then ret True else (\<lambda>db. wait_children Y others fuel inst (others fuel db)))"

definition run_concurr_main :: "'db ydb \<Rightarrow> string \<Rightarrow> (nat \<Rightarrow> 'db \<Rightarrow> 'db) \<Rightarrow> nat \<Rightarrow> ('db, bool) act" where
  "run_concurr_main Y argv1 others fuel =
     andThen (into_buffer VALUELEN argv1) (\<lambda>times.
     andThen (set_ok Y ''iterate'' [] times) (\<lambda>_.
     andThen (get_ok Y VALUELEN ''^instance'' []) (\<lambda>inst.
     andThen (block [set_ok Y ''localinstance'' [] inst, lock_ok Y ''^permit'' []]) (\<lambda>_.
     andThen (wait_children Y others fuel inst) (\<lambda>started.
       if \<not> started then ret False else andThen (unlock_ok Y ''^permit'' []) (\<lambda>_. ret True))))))"

end
