(* ===== verification/RunConcurrRun.thy ===== *)
theory RunConcurrRun
  imports RunConcurr
begin

text \<open>
  Runs of stress/inref/simpleapi_run_concurr.c: the indices are the powers of a primitive
  root, each round of an act does its part of the work at its own index, and so killing,
  setting and verifying one after the other ends without an error.
\<close>

section \<open>The data the jobs work on\<close>

definition primitive :: "int \<Rightarrow> int \<Rightarrow> bool" where
  "primitive root prime \<longleftrightarrow> (\<lambda>i. root ^ i mod prime) ` {..<nat (prime - 1)} = {1..<prime}"

definition cyc :: "int \<Rightarrow> int \<Rightarrow> nat \<Rightarrow> int" where
  "cyc root prime i = root ^ i mod prime"

text \<open>
  The instance, the customer of each index, the prime and a root of it for each number, and
  that no transaction is restarted.
\<close>

definition stocked :: "'db ydb \<Rightarrow> string \<Rightarrow> (int \<Rightarrow> string) \<Rightarrow> (int \<Rightarrow> int) \<Rightarrow> int \<Rightarrow> 'db \<Rightarrow> bool" where
  "stocked Y inst cust root prime db \<longleftrightarrow>
     node Y db ''^instance'' [] = Some inst \<and> node Y db ''^prime'' [] = Some (dec prime) \<and>
     (\<forall>x \<in> {1..<prime}. node Y db ''^cust'' [dec x, inst] = Some (cust x)) \<and>
     (\<forall>pno \<in> {1..10}. node Y db ''^root'' [dec pno] = Some (dec (root pno))) \<and>
     node Y db ''$trestart'' [] = Some (dec 0)"

definition sizes_ok :: "string \<Rightarrow> (int \<Rightarrow> string) \<Rightarrow> (int \<Rightarrow> int) \<Rightarrow> int \<Rightarrow> string \<Rightarrow> bool" where
  "sizes_ok inst cust root prime pid \<longleftrightarrow> length inst < 256 \<and> length pid \<le> 20 \<and> (\<forall>x. length (cust x) \<le> 100) \<and>
     2 \<le> prime \<and> (\<forall>pno \<in> {1..10}. primitive (root pno) prime \<and> 0 \<le> root pno \<and> prime * root pno < 2 ^ 31 \<and> root pno < 2 ^ 31) \<and> prime < 2 ^ 31"

lemma primitive_props:
  assumes "primitive root prime" "2 \<le> prime"
  shows "inj_on (cyc root prime) {..<nat (prime - 1)}" "i < nat (prime - 1) \<Longrightarrow> cyc root prime i \<in> {1..<prime}"
    "x \<in> {1..<prime} \<Longrightarrow> \<exists>i < nat (prime - 1). x = cyc root prime i"
proof -
  have im: "cyc root prime ` {..<nat (prime - 1)} = {1..<prime}"
    using assms(1) by (simp add: primitive_def cyc_def image_def)
  have "card {1..<prime} = card {..<nat (prime - 1)}" using assms(2) by simp
  then show "inj_on (cyc root prime) {..<nat (prime - 1)}" using im by (intro eq_card_imp_inj_on) simp_all
  show "i < nat (prime - 1) \<Longrightarrow> cyc root prime i \<in> {1..<prime}" using im by blast
  show "x \<in> {1..<prime} \<Longrightarrow> \<exists>i < nat (prime - 1). x = cyc root prime i" using im by blast
qed

lemma cyc_step:
  assumes "0 \<le> root" "1 \<le> prime" "prime * root < 2 ^ 31"
  shows "c_mod (int32 (cyc root prime i * root)) prime = cyc root prime (Suc i)"
proof -
  have "0 \<le> cyc root prime i" "cyc root prime i < prime" using assms(2) by (simp_all add: cyc_def)
  then have "0 \<le> cyc root prime i * root" "cyc root prime i * root \<le> prime * root"
    using assms(1) by (simp_all add: mult_right_mono)
  then have "int32 (cyc root prime i * root) = cyc root prime i * root" "0 \<le> cyc root prime i * root"
    using assms(3) by (simp_all add: is_int32_def int32_id)
  then have "c_mod (int32 (cyc root prime i * root)) prime = (root ^ i mod prime * root) mod prime"
    using assms(2) c_mod_pos by (simp add: cyc_def)
  then show ?thesis by (simp add: cyc_def mod_mult_left_eq mod_mult_right_eq mult.commute)
qed

context calm_db
begin

lemma fetch_runs:
  assumes "stocked Y inst cust root prime db" "sizes_ok inst cust root prime pid" "x \<in> {1..<prime}"
    and "node Y db ''ndx'' [] = Some (dec x)"
  shows "fetch_obj Y db = Inr (Go (dec x, cust x), put Y ''obj'' [] (cust x) db)"
proof -
  have "length (dec x) \<le> VALUELEN" using assms(2,3) length_dec [of x] by (simp add: VALUELEN_def is_int32_def sizes_ok_def)
  moreover have "length inst \<le> VALUELEN" "length (cust x) \<le> VALUELEN"
    using assms(2) by (auto simp: sizes_ok_def VALUELEN_def intro: order_trans [of _ 100])
  moreover have "node Y db ''^instance'' [] = Some inst" "node Y db ''^cust'' [dec x, inst] = Some (cust x)"
    using assms(1,3) by (simp_all add: stocked_def)
  ultimately show ?thesis using assms(4) by (simp add: fetch_obj_def get_runs)
qed

lemma set_one_runs:
  assumes "stocked Y inst cust root prime db" "sizes_ok inst cust root prime pid" "x \<in> {1..<prime}"
    and "node Y db ''ndx'' [] = Some (dec x)"
    and "\<forall>g \<in> set counters. node Y db g [dec x, cust x, pid, dec iter] = None"
  shows "\<exists>db'. set_one Y pid prime iter db = Inr (Go (), db') \<and>
    (\<forall>g s. g \<noteq> ''obj'' \<longrightarrow> node Y db' g s =
       (if g \<in> set fills \<and> s = [dec x, cust x, dec iter] then Some (dec x)
        else if g \<in> set counters \<and> s = [dec x, cust x, pid, dec iter] then Some (dec prime)
        else node Y db g s))"
proof -
  have "add_prime Y prime g s d = Inr (Go (), put Y g s (dec prime) d)"
    if "node Y d g s = None" "take 1 g = ''^''" for g s d
    using get_or_0_runs(2) [OF that] assms(2) by (simp add: add_prime_def int32_id is_int32_def sizes_ok_def)
  then show ?thesis
    using assms(5) fetch_runs [OF assms(1-4)] by (simp add: set_one_def fills_def counters_def)
qed

lemma kill_one_runs:
  assumes "stocked Y inst cust root prime db" "sizes_ok inst cust root prime pid" "x \<in> {1..<prime}"
    and "node Y db ''ndx'' [] = Some (dec x)"
  shows "\<exists>db'. kill_one Y pid prime iter db = Inr (Go (), db') \<and>
    (\<forall>g s. g \<noteq> ''obj'' \<longrightarrow> node Y db' g s =
       (if g \<in> set fills \<and> take 3 s = [dec x, cust x, dec iter] then None
        else if g \<in> set counters \<and> take 4 s = [dec x, cust x, pid, dec iter] then None
        else node Y db g s))"
  using fetch_runs [OF assms] by (simp add: kill_one_def fills_def counters_def numeral_eq_Suc) blast

text \<open>The value that is right at an index, for both kinds of variables.\<close>

lemma verify_runs:
  assumes "node Y db g s = Some v" "length v \<le> 20" "\<forall>u \<in> set s. length u \<le> 100" "length s \<le> 4"
    "length g + sum_list (map length s) \<le> 240"
  shows "verify Y g s v db = Inr (Go (), db)"
proof -
  have "length (with_commas (map c_str us)) \<le> sum_list (map length us) + length us" for us
  proof (induction us rule: with_commas.induct)
    case (3 u v vs)
    have "length (c_str u) \<le> length u" by (simp add: c_str_def length_takeWhile_le)
    then show ?case using 3 by simp
  qed (auto simp: c_str_def intro: le_SucI [OF length_takeWhile_le])
  from this [of s] have "length (position g s) < VALUELEN"
    using assms(4,5) by (simp add: position_def VALUELEN_def)
  moreover have "block (List.map (\<lambda>u. andThen (nul_ended VALUELEN u) (\<lambda>_. ret ())) us) db = Inr (Go (), db)"
    if "\<forall>u \<in> set us. length u \<le> 100" for us
    using that by (induction us) (auto simp: nul_ended_def VALUELEN_def)
  ultimately show ?thesis
    using assms get_runs(2) [of db g s v VALUELEN]
    by (simp add: verify_def report_line_def m_EXAM_randfill_def VALUELEN_def)
qed

lemma ver_one_runs:
  assumes "stocked Y inst cust root prime db" "sizes_ok inst cust root prime pid" "x \<in> {1..<prime}" "is_int32 iter"
    and "node Y db ''ndx'' [] = Some (dec x)"
    and "\<forall>g \<in> set fills. node Y db g [dec x, cust x, dec iter] = Some (dec x)"
    and "\<forall>g \<in> set counters. node Y db g [dec x, cust x, pid, dec iter] = Some (dec prime)"
  shows "ver_one Y pid prime iter db = Inr (Go (), put Y ''obj'' [] (cust x) db)"
proof -
  have int: "is_int32 x" "is_int32 prime" using assms(2,3) by (auto simp: is_int32_def sizes_ok_def)
  have len: "length (dec x) \<le> 20" "length (dec prime) \<le> 20" "length (dec iter) \<le> 20" "length pid \<le> 20" "length (cust x) \<le> 100"
    using length_dec [OF int(1)] length_dec [OF int(2)] length_dec [OF assms(4)] assms(2) by (auto simp: sizes_ok_def)
  let ?d = "put Y ''obj'' [] (cust x) db"
  have "verify Y g [dec x, cust x, dec iter] (dec x) ?d = Inr (Go (), ?d)" if "g \<in> set fills" for g
    using that assms(6) len by (intro verify_runs) (auto simp: fills_def)
  moreover have "verify Y g [dec x, cust x, pid, dec iter] (dec prime) ?d = Inr (Go (), ?d)" if "g \<in> set counters" for g
    using that assms(7) len by (intro verify_runs) (auto simp: counters_def)
  ultimately show ?thesis
    using fetch_runs [OF assms(1-3,5)] by (simp add: ver_one_def fills_def counters_def)
qed

end

text \<open>What holds at an index once its variables are set, and once they are killed.\<close>

definition ready :: "'db ydb \<Rightarrow> string \<Rightarrow> (int \<Rightarrow> string) \<Rightarrow> (int \<Rightarrow> int) \<Rightarrow> int \<Rightarrow> 'db \<Rightarrow> bool" where
  "ready Y inst cust root prime db \<longleftrightarrow> stocked Y inst cust root prime db \<and>
     node Y db ''ERR'' [] = Some (dec 0) \<and> node Y db ''MAXERR'' [] = Some (dec 10)"

definition filled :: "'db ydb \<Rightarrow> (int \<Rightarrow> string) \<Rightarrow> string \<Rightarrow> int \<Rightarrow> int \<Rightarrow> int \<Rightarrow> 'db \<Rightarrow> bool" where
  "filled Y cust pid prime iter x db \<longleftrightarrow>
     (\<forall>g \<in> set fills. node Y db g [dec x, cust x, dec iter] = Some (dec x)) \<and>
     (\<forall>g \<in> set counters. node Y db g [dec x, cust x, pid, dec iter] = Some (dec prime))"

definition gone :: "'db ydb \<Rightarrow> (int \<Rightarrow> string) \<Rightarrow> string \<Rightarrow> int \<Rightarrow> int \<Rightarrow> 'db \<Rightarrow> bool" where
  "gone Y cust pid iter x db \<longleftrightarrow> (\<forall>g \<in> set counters. node Y db g [dec x, cust x, pid, dec iter] = None)"

context calm_db
begin

lemma caret_neq: "take 1 g \<noteq> ''^'' \<Longrightarrow> g \<noteq> CHR ''^'' # r" "take 1 g \<noteq> ''^'' \<Longrightarrow> CHR ''^'' # r \<noteq> g"
  by auto

text \<open>The data and the state of the indices are not touched by what happens to local variables.\<close>

lemma put_local:
  assumes "take 1 g \<noteq> ''^''"
  shows "filled Y cust pid prime iter x (put Y g s v db) \<longleftrightarrow> filled Y cust pid prime iter x db"
    "gone Y cust pid iter x (put Y g s v db) \<longleftrightarrow> gone Y cust pid iter x db"
  by (simp_all add: filled_def gone_def fills_def counters_def caret_neq [OF assms])

lemma put_local_ready:
  assumes "g \<notin> {''ERR'', ''MAXERR'', ''$trestart''}" "take 1 g \<noteq> ''^''"
  shows "ready Y inst cust root prime (put Y g s v db) \<longleftrightarrow> ready Y inst cust root prime db"
proof -
  have "g \<noteq> ''^instance''" "g \<noteq> ''^prime''" "g \<noteq> ''^cust''" "g \<noteq> ''^root''" "g \<noteq> ''ERR''" "g \<noteq> ''MAXERR''" "g \<noteq> ''$trestart''"
    using assms(1) by (simp_all add: caret_neq [OF assms(2)])
  then show ?thesis unfolding ready_def stocked_def node_put by simp
qed

lemma ready_other:
  assumes "ready Y inst cust root prime db"
    and "\<forall>g s. g \<noteq> ''obj'' \<longrightarrow> g \<notin> set fills \<longrightarrow> g \<notin> set counters \<longrightarrow> node Y db' g s = node Y db g s"
  shows "ready Y inst cust root prime db'"
proof -
  have "node Y db' g s = node Y db g s"
    if "g \<in> {''^instance'', ''^prime'', ''^cust'', ''^root'', ''ERR'', ''MAXERR'', ''$trestart''}" for g s
    using that assms(2) by (elim insertE emptyE) (simp_all add: fills_def counters_def)
  then show ?thesis using assms(1) unfolding ready_def stocked_def by simp
qed

lemma set_step:
  assumes "ready Y inst cust root prime db" "sizes_ok inst cust root prime pid" "x \<in> {1..<prime}"
    and "node Y db ''ndx'' [] = Some (dec x)" "gone Y cust pid iter x db"
  shows "\<exists>db'. set_one Y pid prime iter db = Inr (Go (), db') \<and> ready Y inst cust root prime db' \<and>
    filled Y cust pid prime iter x db' \<and>
    (\<forall>y. y \<noteq> x \<longrightarrow> (filled Y cust pid prime iter y db' \<longleftrightarrow> filled Y cust pid prime iter y db) \<and>
       (gone Y cust pid iter y db' \<longleftrightarrow> gone Y cust pid iter y db))"
proof -
  have "stocked Y inst cust root prime db" using assms(1) by (simp add: ready_def)
  then obtain db' where db': "set_one Y pid prime iter db = Inr (Go (), db')"
    "\<forall>g s. g \<noteq> ''obj'' \<longrightarrow> node Y db' g s =
       (if g \<in> set fills \<and> s = [dec x, cust x, dec iter] then Some (dec x)
        else if g \<in> set counters \<and> s = [dec x, cust x, pid, dec iter] then Some (dec prime)
        else node Y db g s)"
    using set_one_runs assms(2-5) unfolding gone_def by blast
  have names: "g \<noteq> ''obj''" if "g \<in> set fills \<or> g \<in> set counters" for g
    using that by (auto simp: fills_def counters_def)
  have "ready Y inst cust root prime db'" using assms(1) by (rule ready_other) (simp add: db'(2))
  moreover have "filled Y cust pid prime iter x db'"
    using names by (simp add: filled_def db'(2) [rule_format])
  moreover have "node Y db' g (dec y # r) = node Y db g (dec y # r)" if "y \<noteq> x" "g \<in> set fills \<or> g \<in> set counters" for y g r
    using names [OF that(2)] that(1) by (simp add: db'(2) [rule_format])
  ultimately show ?thesis using db'(1) by (simp add: filled_def gone_def)
qed

lemma kill_step:
  assumes "ready Y inst cust root prime db" "sizes_ok inst cust root prime pid" "x \<in> {1..<prime}"
    and "node Y db ''ndx'' [] = Some (dec x)"
  shows "\<exists>db'. kill_one Y pid prime iter db = Inr (Go (), db') \<and> ready Y inst cust root prime db' \<and>
    gone Y cust pid iter x db' \<and> (\<forall>y. gone Y cust pid iter y db \<longrightarrow> gone Y cust pid iter y db')"
proof -
  have "stocked Y inst cust root prime db" using assms(1) by (simp add: ready_def)
  then obtain db' where db': "kill_one Y pid prime iter db = Inr (Go (), db')"
    "\<forall>g s. g \<noteq> ''obj'' \<longrightarrow> node Y db' g s =
       (if g \<in> set fills \<and> take 3 s = [dec x, cust x, dec iter] then None
        else if g \<in> set counters \<and> take 4 s = [dec x, cust x, pid, dec iter] then None
        else node Y db g s)"
    using kill_one_runs assms(2-4) by blast
  have names: "g \<noteq> ''obj''" if "g \<in> set counters" for g using that by (auto simp: counters_def)
  have "ready Y inst cust root prime db'" using assms(1) by (rule ready_other) (simp add: db'(2))
  moreover have "gone Y cust pid iter x db'" "gone Y cust pid iter y db \<Longrightarrow> gone Y cust pid iter y db'" for y
    using names by (simp_all add: gone_def db'(2) [rule_format])
  ultimately show ?thesis using db'(1) by blast
qed

lemma ver_step:
  assumes "ready Y inst cust root prime db" "sizes_ok inst cust root prime pid" "x \<in> {1..<prime}" "is_int32 iter"
    and "node Y db ''ndx'' [] = Some (dec x)" "filled Y cust pid prime iter x db"
  shows "ver_one Y pid prime iter db = Inr (Go (), put Y ''obj'' [] (cust x) db)"
  using assms by (intro ver_one_runs) (simp_all add: ready_def filled_def)

lemma get_dec:
  assumes "node Y db g s = Some (dec i)" "is_int32 i"
  shows "get_int Y VALUELEN g s db = Inr (Go i, db)" "get_int_tp Y VALUELEN g s db = Inr (Go i, db)"
    "get_ok Y VALUELEN g s db = Inr (Go (dec i), db)"
  using get_text_runs(2,3) [OF assms(1), of VALUELEN] get_runs(1) [OF assms(1), of VALUELEN] length_dec [OF assms(2)] assms(2)
  by (simp_all add: VALUELEN_def)

text \<open>The loop of an act, whose rounds do their part at the index of the round.\<close>

lemma filling_loop_runs:
  assumes sizes: "sizes_ok inst cust root prime pid" "pno \<in> {1..10}" and m: "m = nat (prime - 1)"
    and step: "\<And>i d. i < m \<Longrightarrow> ready Y inst cust root prime d \<Longrightarrow> node Y d ''ndx'' [] = Some (dec (cyc (root pno) prime i)) \<Longrightarrow>
      P i d \<Longrightarrow> \<exists>d'. act_one Y act pid prime iter d = Inr (Go (), d') \<and> ready Y inst cust root prime d' \<and> P (Suc i) d'"
    and loc: "\<And>i d v. P i d \<Longrightarrow> P i (put Y ''ndx'' [] v d)"
    and "ready Y inst cust root prime db" "node Y db ''ndx'' [] = Some (dec (cyc (root pno) prime i))" "P i db" "i + n = m"
  shows "\<exists>db'. filling_loop Y act pid prime (root pno) iter n (cyc (root pno) prime i) db = Inr (Go (), db') \<and>
    ready Y inst cust root prime db' \<and> P m db'"
  using assms(6-9)
proof (induction n arbitrary: i db)
  case (Suc n)
  have i: "i < m" "Suc i + n = m" using Suc.prems(4) by simp_all
  obtain d where d: "act_one Y act pid prime iter db = Inr (Go (), d)" "ready Y inst cust root prime d" "P (Suc i) d"
    using step [OF i(1) Suc.prems(1-3)] by blast
  let ?x = "cyc (root pno) prime (Suc i)" and ?d = "put Y ''ndx'' [] (dec (cyc (root pno) prime (Suc i))) d"
  have next_x: "c_mod (int32 (cyc (root pno) prime i * root pno)) prime = ?x"
    using sizes by (intro cyc_step) (auto simp: sizes_ok_def)
  have r: "ready Y inst cust root prime ?d" using d(2) by (subst put_local_ready) simp_all
  have "node Y ?d ''ERR'' [] = Some (dec 0)" "node Y ?d ''MAXERR'' [] = Some (dec 10)"
    using r unfolding ready_def by blast+
  then have errs: "get_int Y VALUELEN ''ERR'' [] ?d = Inr (Go 0, ?d)" "get_int Y VALUELEN ''MAXERR'' [] ?d = Inr (Go 10, ?d)"
    using get_dec(1) [of ?d _ _ 0] get_dec(1) [of ?d _ _ 10] by (simp_all add: is_int32_def)
  have "node Y ?d ''ndx'' [] = Some (dec ?x)" "P (Suc i) ?d" using loc [OF d(3)] by simp_all
  from Suc.IH [OF r this i(2)] obtain db' where
    "filling_loop Y act pid prime (root pno) iter n ?x ?d = Inr (Go (), db')" "ready Y inst cust root prime db'" "P m db'" by blast
  then show ?case using d(1) next_x errs by (intro exI [of _ db']) (simp add: Let_def)
qed simp

end

text \<open>The three acts over all indices.\<close>

definition all_filled :: "'db ydb \<Rightarrow> (int \<Rightarrow> string) \<Rightarrow> string \<Rightarrow> int \<Rightarrow> int \<Rightarrow> 'db \<Rightarrow> bool" where
  "all_filled Y cust pid prime iter db \<longleftrightarrow> (\<forall>x \<in> {1..<prime}. filled Y cust pid prime iter x db)"

definition all_gone :: "'db ydb \<Rightarrow> (int \<Rightarrow> string) \<Rightarrow> string \<Rightarrow> int \<Rightarrow> int \<Rightarrow> 'db \<Rightarrow> bool" where
  "all_gone Y cust pid prime iter db \<longleftrightarrow> (\<forall>x \<in> {1..<prime}. gone Y cust pid iter x db)"

context calm_db
begin

lemma start_ready:
  assumes "stocked Y inst cust root prime db"
  defines "db' \<equiv> put Y ''ndx'' [] (dec 1) (put Y ''MAXERR'' [] (dec 10) (put Y ''ERR'' [] (dec 0) db))"
  shows "ready Y inst cust root prime db'" "node Y db' ''ndx'' [] = Some (dec 1)"
    "all_gone Y cust pid prime iter db' \<longleftrightarrow> all_gone Y cust pid prime iter db"
    "all_filled Y cust pid prime iter db' \<longleftrightarrow> all_filled Y cust pid prime iter db"
  using assms by (simp_all add: ready_def stocked_def all_gone_def all_filled_def put_local)

lemma cyc_0: "2 \<le> prime \<Longrightarrow> cyc root prime 0 = 1"
  by (simp add: cyc_def)

lemma filling_runs:
  assumes sizes: "sizes_ok inst cust root prime pid" "pno \<in> {1..10}" and "stocked Y inst cust root prime db"
    and step: "\<And>i d. i < nat (prime - 1) \<Longrightarrow> ready Y inst cust root prime d \<Longrightarrow>
      node Y d ''ndx'' [] = Some (dec (cyc (root pno) prime i)) \<Longrightarrow>
      P i d \<Longrightarrow> \<exists>d'. act_one Y act pid prime iter d = Inr (Go (), d') \<and> ready Y inst cust root prime d' \<and> P (Suc i) d'"
    and loc: "\<And>i d v. P i d \<Longrightarrow> P i (put Y ''ndx'' [] v d)"
    and "P 0 (put Y ''ndx'' [] (dec 1) (put Y ''MAXERR'' [] (dec 10) (put Y ''ERR'' [] (dec 0) db)))"
  shows "\<exists>db'. m_filling_randfill Y act pid prime (root pno) iter db = Inr (Go (), db') \<and>
    ready Y inst cust root prime db' \<and> P (nat (prime - 1)) db'"
proof -
  let ?db = "put Y ''ndx'' [] (dec 1) (put Y ''MAXERR'' [] (dec 10) (put Y ''ERR'' [] (dec 0) db))"
  have c0: "cyc (root pno) prime 0 = 1" using sizes by (intro cyc_0) (simp add: sizes_ok_def)
  have "node Y ?db ''ndx'' [] = Some (dec (cyc (root pno) prime 0))" using c0 by simp
  then have "\<exists>db'. filling_loop Y act pid prime (root pno) iter (nat (prime - 1)) (cyc (root pno) prime 0) ?db = Inr (Go (), db') \<and>
    ready Y inst cust root prime db' \<and> P (nat (prime - 1)) db'"
    by (intro filling_loop_runs [where P = P, OF sizes refl step loc start_ready(1) [OF assms(3)] _ assms(6)]) simp_all
  then obtain db' where "filling_loop Y act pid prime (root pno) iter (nat (prime - 1)) (cyc (root pno) prime 0) ?db = Inr (Go (), db')"
    "ready Y inst cust root prime db'" "P (nat (prime - 1)) db'" by blast
  then have db': "filling_loop Y act pid prime (root pno) iter (nat (prime - 1)) 1 ?db = Inr (Go (), db')"
    "ready Y inst cust root prime db'" "P (nat (prime - 1)) db'" unfolding c0 by blast+
  moreover have "get_int Y VALUELEN ''ERR'' [] db' = Inr (Go 0, db')"
    using db'(2) by (intro get_dec(1)) (simp_all add: ready_def is_int32_def)
  ultimately show ?thesis
    by (simp only: m_filling_randfill_def block.simps act_simps set_runs continue.simps outcome.inject prod.inject sum.inject) blast
qed

lemma randfill_eq:
  assumes "stocked Y inst cust root prime db" "sizes_ok inst cust root prime pid" "pno \<in> {1..10}"
  shows "m_randfill Y act pid pno iter db = m_filling_randfill Y act pid prime (root pno) iter db"
proof -
  have "node Y db ''^root'' [dec pno] = Some (dec (root pno))" "node Y db ''^prime'' [] = Some (dec prime)"
    using assms(1,3) by (auto simp: stocked_def)
  moreover have "0 \<le> root pno" "root pno < 2 ^ 31" "2 \<le> prime" "prime < 2 ^ 31" using assms(2,3) by (simp_all add: sizes_ok_def)
  then have "is_int32 (root pno)" "is_int32 prime" by (simp_all add: is_int32_def)
  ultimately show ?thesis by (simp add: m_randfill_def get_dec(2))
qed

lemma roots:
  assumes "sizes_ok inst cust root prime pid" "pno \<in> {1..10}"
  shows "primitive (root pno) prime" "2 \<le> prime"
  using assms by (simp_all add: sizes_ok_def)

lemma kill_runs:
  assumes "stocked Y inst cust root prime db" "sizes_ok inst cust root prime pid" "pno \<in> {1..10}"
  shows "\<exists>db'. m_randfill Y KILL pid pno iter db = Inr (Go (), db') \<and> ready Y inst cust root prime db' \<and>
    all_gone Y cust pid prime iter db'"
proof -
  let ?P = "\<lambda>i d. \<forall>k < i. gone Y cust pid iter (cyc (root pno) prime k) d"
  note pr = primitive_props [OF roots [OF assms(2,3)]]
  have "\<exists>db'. m_filling_randfill Y KILL pid prime (root pno) iter db = Inr (Go (), db') \<and>
    ready Y inst cust root prime db' \<and> ?P (nat (prime - 1)) db'"
  proof (rule filling_runs [where P = ?P, OF assms(2,3,1)])
    fix i d assume "i < nat (prime - 1)" "ready Y inst cust root prime d"
      "node Y d ''ndx'' [] = Some (dec (cyc (root pno) prime i))" "?P i d"
    then obtain d' where "kill_one Y pid prime iter d = Inr (Go (), d')" "ready Y inst cust root prime d'"
      "gone Y cust pid iter (cyc (root pno) prime i) d'" "\<forall>y. gone Y cust pid iter y d \<longrightarrow> gone Y cust pid iter y d'"
      using kill_step [OF _ assms(2) pr(2)] by blast
    with \<open>?P i d\<close> show "\<exists>d'. act_one Y KILL pid prime iter d = Inr (Go (), d') \<and> ready Y inst cust root prime d' \<and> ?P (Suc i) d'"
      by (intro exI [of _ d']) (auto simp: less_Suc_eq)
  qed (simp_all add: put_local)
  then show ?thesis using pr(3) unfolding randfill_eq [OF assms] all_gone_def by metis
qed

lemma set_runs_all:
  assumes "stocked Y inst cust root prime db" "sizes_ok inst cust root prime pid" "pno \<in> {1..10}"
    and "all_gone Y cust pid prime iter db"
  shows "\<exists>db'. m_randfill Y SET pid pno iter db = Inr (Go (), db') \<and> ready Y inst cust root prime db' \<and>
    all_filled Y cust pid prime iter db'"
proof -
  let ?m = "nat (prime - 1)" and ?c = "cyc (root pno) prime"
  let ?P = "\<lambda>i d. (\<forall>k < i. filled Y cust pid prime iter (?c k) d) \<and> (\<forall>k < ?m. i \<le> k \<longrightarrow> gone Y cust pid iter (?c k) d)"
  note pr = primitive_props [OF roots [OF assms(2,3)]]
  have "\<exists>db'. m_filling_randfill Y SET pid prime (root pno) iter db = Inr (Go (), db') \<and>
    ready Y inst cust root prime db' \<and> ?P ?m db'"
  proof (rule filling_runs [where P = ?P, OF assms(2,3,1)])
    fix i d assume i: "i < ?m" "ready Y inst cust root prime d" "node Y d ''ndx'' [] = Some (dec (?c i))" "?P i d"
    then obtain d' where d': "set_one Y pid prime iter d = Inr (Go (), d')" "ready Y inst cust root prime d'"
      "filled Y cust pid prime iter (?c i) d'"
      "\<forall>y. y \<noteq> ?c i \<longrightarrow> (filled Y cust pid prime iter y d' \<longleftrightarrow> filled Y cust pid prime iter y d) \<and>
         (gone Y cust pid iter y d' \<longleftrightarrow> gone Y cust pid iter y d)"
      using set_step [OF i(2) assms(2) pr(2) [OF i(1)] i(3)] by (metis order_refl)
    have "?c k \<noteq> ?c i" if "k < ?m" "k \<noteq> i" for k
      using pr(1) that i(1) by (metis inj_onD lessThan_iff)
    then have "?P (Suc i) d'" using d'(3,4) i(1,4) by (auto simp: less_Suc_eq)
    then show "\<exists>d'. act_one Y SET pid prime iter d = Inr (Go (), d') \<and> ready Y inst cust root prime d' \<and> ?P (Suc i) d'"
      using d'(1,2) by (intro exI [of _ d']) simp
  qed (use assms(4) pr(2) in \<open>simp_all add: put_local all_gone_def\<close>)
  then show ?thesis using pr(3) unfolding randfill_eq [OF assms(1-3)] all_filled_def by metis
qed

lemma ver_runs:
  assumes "stocked Y inst cust root prime db" "sizes_ok inst cust root prime pid" "pno \<in> {1..10}" "is_int32 iter"
    and "all_filled Y cust pid prime iter db"
  shows "\<exists>db'. m_randfill Y VER pid pno iter db = Inr (Go (), db') \<and> ready Y inst cust root prime db' \<and>
    all_filled Y cust pid prime iter db'"
proof -
  let ?P = "\<lambda>(i :: nat) d. all_filled Y cust pid prime iter d"
  note pr = primitive_props [OF roots [OF assms(2,3)]]
  have "\<exists>db'. m_filling_randfill Y VER pid prime (root pno) iter db = Inr (Go (), db') \<and>
    ready Y inst cust root prime db' \<and> ?P (nat (prime - 1)) db'"
  proof (rule filling_runs [where P = ?P, OF assms(2,3,1)])
    fix i d assume i: "i < nat (prime - 1)" "ready Y inst cust root prime d"
      "node Y d ''ndx'' [] = Some (dec (cyc (root pno) prime i))" "?P i d"
    then have f: "filled Y cust pid prime iter (cyc (root pno) prime i) d" using pr(2) by (simp add: all_filled_def)
    from ver_step [OF i(2) assms(2) pr(2) [OF i(1)] assms(4) i(3) f] i(2,4)
    show "\<exists>d'. act_one Y VER pid prime iter d = Inr (Go (), d') \<and> ready Y inst cust root prime d' \<and> ?P (Suc i) d'"
      by (simp add: put_local_ready all_filled_def put_local)
  qed (use assms(5) in \<open>simp_all add: put_local all_filled_def\<close>)
  then show ?thesis unfolding randfill_eq [OF assms(1-3)] by blast
qed

end

end
