(* ===== verification/RunConcurrJob.thy ===== *)
theory RunConcurrJob
  imports RunConcurrRun
begin

text \<open>
  The jobs of stress/inref/simpleapi_run_concurr.c: what an act can change, what one
  iteration of a job does in each of the three ways, and what a job leaves behind.
\<close>

section \<open>What an act leaves alone\<close>

text \<open>The nodes an iteration may write: its local variables and the nodes of its own number.\<close>

definition touched :: "int \<Rightarrow> (string \<times> string list) set" where
  "touched iter =
     {(g, s). g \<in> {''obj'', ''ndx'', ''ERR'', ''MAXERR''} \<or> g \<in> set fills \<and> (\<exists>a b r. s = a # b # dec iter # r) \<or>
       g \<in> set counters \<and> (\<exists>a b c r. s = a # b # c # dec iter # r)}"

lemma touched_own:
  "(''obj'', s) \<in> touched iter" "(''ndx'', s) \<in> touched iter" "(''ERR'', s) \<in> touched iter" "(''MAXERR'', s) \<in> touched iter"
  "g \<in> set fills \<Longrightarrow> (g, a # b # dec iter # r) \<in> touched iter"
  "g \<in> set counters \<Longrightarrow> (g, a # b # c # dec iter # r) \<in> touched iter"
  by (simp_all add: touched_def)

context calm_db
begin

lemma keeps_if: "keeps Y T m \<Longrightarrow> keeps Y T m' \<Longrightarrow> keeps Y T (if b then m else m')"
  by simp

lemma keeps_fetch: "keeps Y (touched iter) (fetch_obj Y)"
  unfolding fetch_obj_def by (intro keeps_then keeps_get keeps_pure keeps_write touched_own)

lemma keeps_report: "keeps Y (touched iter) (m_EXAM_randfill Y pos vcorr vcomp)"
  by (auto simp: m_EXAM_randfill_def report_line_def intro!: keeps_then keeps_get keeps_pure keeps_write touched_own)

lemma keeps_verify: "keeps Y (touched iter) (verify Y g s v)"
  by (auto simp: verify_def report_line_def intro!: keeps_then keeps_get keeps_pure keeps_report keeps_block)

lemma keeps_act: "keeps Y (touched iter) (act_one Y act pid prime iter)"
proof -
  have "keeps Y (touched iter) (act_one Y SET pid prime iter)" "keeps Y (touched iter) (act_one Y KILL pid prime iter)"
    "keeps Y (touched iter) (act_one Y VER pid prime iter)"
    by (auto simp: set_one_def kill_one_def ver_one_def add_prime_def
        intro!: keeps_then keeps_fetch keeps_block keeps_write keeps_delete keeps_verify keeps_get touched_own)
  then show ?thesis by (cases act) simp_all
qed

lemma keeps_loop: "keeps Y (touched iter) (filling_loop Y act pid prime root iter n ndx)"
proof (induction n arbitrary: ndx)
  case (Suc n)
  then show ?case
    unfolding filling_loop.simps Let_def by (intro keeps_then keeps_act keeps_write keeps_get keeps_if keeps_pure touched_own)
qed (simp add: keeps_pure)

lemma keeps_randfill: "keeps Y (touched iter) (m_randfill Y act pid pno iter)"
  unfolding m_randfill_def m_filling_randfill_def
  by (auto intro!: keeps_then keeps_get keeps_block keeps_write keeps_loop keeps_pure touched_own)

section \<open>One iteration\<close>

lemma call_tp_runs: "m db = Inr (Go (), db') \<Longrightarrow> call_tp Y m db = Inr (Go (), db')"
  by (simp add: call_tp_def as_function_def)

lemma pno_range: "1 \<le> loop \<Longrightarrow> loop < 2 ^ 30 \<Longrightarrow> pno_of loop \<in> {1..10}"
  by (simp add: pno_of_def int32_id is_int32_def c_mod_pos)

lemma tpfn_runs:
  assumes "stocked Y inst cust root prime db" "sizes_ok inst cust root prime pid" "1 \<le> loop" "loop < 2 ^ 30"
  shows "\<exists>db'. as_function (job_stress_tpfn Y tpflag pid loop) db = Inr (if tpflag = TPR then YDB_TP_ROLLBACK Y else YDB_OK, db') \<and>
    stocked Y inst cust root prime db' \<and> all_filled Y cust pid prime loop db' \<and>
    (\<forall>g s. (g, s) \<notin> touched loop \<longrightarrow> node Y db' g s = node Y db g s)"
proof -
  note pno = pno_range [OF assms(3,4)]
  have int: "is_int32 loop" using assms(3,4) by (simp add: is_int32_def)
  obtain d1 where d1: "m_randfill Y KILL pid (pno_of loop) loop db = Inr (Go (), d1)" "stocked Y inst cust root prime d1"
    "all_gone Y cust pid prime loop d1" using kill_runs [OF assms(1,2) pno] by (auto simp: ready_def)
  obtain d2 where d2: "m_randfill Y SET pid (pno_of loop) loop d1 = Inr (Go (), d2)" "stocked Y inst cust root prime d2"
    "all_filled Y cust pid prime loop d2" using set_runs_all [OF d1(2) assms(2) pno d1(3)] by (auto simp: ready_def)
  obtain d3 where d3: "m_randfill Y VER pid (pno_of loop) loop d2 = Inr (Go (), d3)" "stocked Y inst cust root prime d3"
    "all_filled Y cust pid prime loop d3" using ver_runs [OF d2(2) assms(2) pno int d2(3)] by (auto simp: ready_def)
  have "node Y d3 ''$trestart'' [] = Some (dec 0)" using d3(2) by (simp add: stocked_def)
  from get_dec(1) [OF this] have "get_int Y VALUELEN ''$trestart'' [] d3 = Inr (Go 0, d3)" by (simp add: is_int32_def)
  then have "as_function (job_stress_tpfn Y tpflag pid loop) db = Inr (if tpflag = TPR then YDB_TP_ROLLBACK Y else YDB_OK, d3)"
    using d1(1) d2(1) d3(1) by (simp add: job_stress_tpfn_def call_tp_runs as_function_def)
  moreover have "node Y d3 g s = node Y db g s" if "(g, s) \<notin> touched loop" for g s
    using keepsD [OF keeps_randfill d1(1) that] keepsD [OF keeps_randfill d2(1) that] keepsD [OF keeps_randfill d3(1) that] by simp
  ultimately show ?thesis using d3(2,3) by blast
qed

lemma rollback_runs:
  assumes "f db = Inr (YDB_TP_ROLLBACK Y, db')"
  shows "\<exists>db''. ydb_tp_s Y f db = Inr (YDB_TP_ROLLBACK Y, db'') \<and>
    (\<forall>g s. node Y db'' g s = node Y (if take 1 g = ''^'' then db else db') g s)"
  using laws(9) assms unfolding ydb_rollback_law_def by blast

lemma run_tpfn_runs:
  assumes "stocked Y inst cust root prime db" "sizes_ok inst cust root prime pid" "1 \<le> loop" "loop < 2 ^ 30"
  shows "\<exists>db'. run_tpfn Y tpflag (job_stress_tpfn Y tpflag pid loop) db = Inr (Go (), db') \<and>
    stocked Y inst cust root prime db' \<and> (tpflag \<noteq> TPR \<longrightarrow> all_filled Y cust pid prime loop db') \<and>
    (\<forall>g s. (g, s) \<notin> touched loop \<or> tpflag = TPR \<and> take 1 g = ''^'' \<longrightarrow> node Y db' g s = node Y db g s)"
proof -
  let ?f = "job_stress_tpfn Y tpflag pid loop"
  obtain d where d: "as_function ?f db = Inr (if tpflag = TPR then YDB_TP_ROLLBACK Y else YDB_OK, d)"
    "stocked Y inst cust root prime d" "all_filled Y cust pid prime loop d"
    "\<forall>g s. (g, s) \<notin> touched loop \<longrightarrow> node Y d g s = node Y db g s"
    using tpfn_runs [OF assms] by blast
  show ?thesis
  proof (cases tpflag)
    case NTP
    then show ?thesis using d by (intro exI [of _ d]) (simp add: run_tpfn_def call_runs)
  next
    case TPC
    then show ?thesis using d by (intro exI [of _ d]) (simp add: run_tpfn_def tp_runs)
  next
    case TPR
    then obtain d' where d': "ydb_tp_s Y (as_function ?f) db = Inr (YDB_TP_ROLLBACK Y, d')"
      "\<And>g s. node Y d' g s = node Y (if take 1 g = ''^'' then db else d) g s"
      using rollback_runs [of "as_function ?f" db d] d(1) by auto
    then have "run_tpfn Y tpflag ?f db = Inr (Go (), d')" using TPR by (simp add: run_tpfn_def)
    moreover have "stocked Y inst cust root prime d'" using assms(1) d(2) by (simp add: stocked_def d'(2))
    ultimately show ?thesis using d(4) TPR d'(2) by (intro exI [of _ d']) auto
  qed
qed

end

section \<open>A job\<close>

text \<open>What a job has in its local variables while it iterates.\<close>

definition at_work :: "'db ydb \<Rightarrow> string \<Rightarrow> (int \<Rightarrow> string) \<Rightarrow> (int \<Rightarrow> int) \<Rightarrow> int \<Rightarrow> int \<Rightarrow> 'db \<Rightarrow> bool" where
  "at_work Y inst cust root prime child db \<longleftrightarrow> stocked Y inst cust root prime db \<and>
     node Y db ''jobno'' [] = Some (dec child) \<and> node Y db ''localinstance'' [] = Some inst"

text \<open>What it leaves after the iterations up to \<open>n\<close>: its data, or nothing if it rolls back.\<close>

definition worked :: "'db ydb \<Rightarrow> (int \<Rightarrow> string) \<Rightarrow> int \<Rightarrow> tpflag_t \<Rightarrow> string \<Rightarrow> int \<Rightarrow> 'db \<Rightarrow> 'db \<Rightarrow> bool" where
  "worked Y cust prime tpflag pid n db db' \<longleftrightarrow>
     (tpflag \<noteq> TPR \<longrightarrow> (\<forall>k \<in> {1..n}. all_filled Y cust pid prime k db')) \<and>
     (\<forall>g s. take 1 g = ''^'' \<longrightarrow> g \<noteq> ''^lasti'' \<longrightarrow> tpflag = TPR \<or> (\<forall>k \<in> {1..n}. (g, s) \<notin> touched k) \<longrightarrow>
        node Y db' g s = node Y db g s)"

lemma touched_names:
  "(''jobno'', s) \<notin> touched k" "(''localinstance'', s) \<notin> touched k" "(''loop'', s) \<notin> touched k" "(''^lasti'', s) \<notin> touched k"
  by (simp_all add: touched_def fills_def counters_def)

lemma global_name: "take 1 g = ''^'' \<Longrightarrow> \<exists>r. g = CHR ''^'' # r"
  by (cases g) simp_all

lemma fills_apart: "filled Y cust pid prime k x db' \<longleftrightarrow> filled Y cust pid prime k x db"
  if "\<forall>g s. (g, s) \<notin> touched loop \<longrightarrow> take 1 g = ''^'' \<longrightarrow> g \<noteq> ''^lasti'' \<longrightarrow> node Y db' g s = node Y db g s" "k \<noteq> loop"
proof -
  have "(g, [a, b, dec k]) \<notin> touched loop" "take 1 g = ''^''" "g \<noteq> ''^lasti''" if "g \<in> set fills" for g a b
    using that \<open>k \<noteq> loop\<close> by (auto simp: touched_def fills_def counters_def)
  moreover have "(g, [a, b, c, dec k]) \<notin> touched loop" "take 1 g = ''^''" "g \<noteq> ''^lasti''" if "g \<in> set counters" for g a b c
    using that \<open>k \<noteq> loop\<close> by (auto simp: touched_def fills_def counters_def)
  ultimately show ?thesis using that(1) by (simp add: filled_def)
qed

context calm_db
begin

lemma iteration_runs:
  assumes "at_work Y inst cust root prime child db" "sizes_ok inst cust root prime pid" "1 \<le> loop" "loop < 2 ^ 30" "is_int32 child"
  shows "\<exists>db'. job_iteration Y tpflag pid loop db = Inr (Go (), db') \<and> at_work Y inst cust root prime child db' \<and>
    node Y db' ''^lasti'' [dec child, inst] = Some (dec loop) \<and>
    (tpflag \<noteq> TPR \<longrightarrow> all_filled Y cust pid prime loop db') \<and>
    (\<forall>g s. take 1 g = ''^'' \<longrightarrow> g \<noteq> ''^lasti'' \<longrightarrow> tpflag = TPR \<or> (g, s) \<notin> touched loop \<longrightarrow> node Y db' g s = node Y db g s)"
proof -
  let ?v = "dec loop"
  let ?d1 = "put Y ''loop'' [] ?v (deleted Y ''hfill'' [] (deleted Y ''gfill'' [] (deleted Y ''ffill'' [] (deleted Y ''efill'' [] db))))"
  let ?d2 = "put Y ''hfill'' [?v] ?v (put Y ''gfill'' [?v] ?v (put Y ''ffill'' [?v] ?v (put Y ''efill'' [?v] ?v ?d1)))"
  have len: "length (dec child) \<le> VALUELEN" "length ?v \<le> VALUELEN" "length inst \<le> VALUELEN"
    using length_dec [of child] length_dec [of loop] assms(2-5) by (simp_all add: VALUELEN_def is_int32_def sizes_ok_def)
  have loc: "node Y ?d2 g s = node Y db g s" if "g \<notin> {''efill'', ''ffill'', ''gfill'', ''hfill'', ''loop''}" for g s
    using that by simp
  have "stocked Y inst cust root prime ?d2" using assms(1) unfolding at_work_def stocked_def by (simp add: loc)
  from run_tpfn_runs [OF this assms(2-4), of tpflag] obtain d where
    d: "run_tpfn Y tpflag (job_stress_tpfn Y tpflag pid loop) ?d2 = Inr (Go (), d)"
    "stocked Y inst cust root prime d" "tpflag \<noteq> TPR \<Longrightarrow> all_filled Y cust pid prime loop d"
    "\<And>g s. (g, s) \<notin> touched loop \<or> tpflag = TPR \<and> take 1 g = ''^'' \<Longrightarrow> node Y d g s = node Y ?d2 g s"
    by blast
  have vars: "node Y d ''jobno'' [] = Some (dec child)" "node Y d ''localinstance'' [] = Some inst" "node Y d ''loop'' [] = Some ?v"
    using assms(1) by (simp_all add: d(4) touched_names at_work_def)
  have "node Y ?d1 ''loop'' [] = Some ?v" by simp
  note gets = get_runs(1) [OF this len(2)] get_runs(1) [OF vars(1) len(1)] get_runs(1) [OF vars(2) len(3)] get_runs(1) [OF vars(3) len(2)]
  let ?db' = "put Y ''^lasti'' [dec child, inst] ?v d"
  have "job_iteration Y tpflag pid loop db = Inr (Go (), ?db')"
    unfolding job_iteration_def by (simp add: gets d(1))
  moreover have "at_work Y inst cust root prime child ?db'"
    using d(2) vars unfolding at_work_def stocked_def by simp
  moreover have "tpflag \<noteq> TPR \<longrightarrow> all_filled Y cust pid prime loop ?db'"
    using d(3) by (simp add: all_filled_def filled_def fills_def counters_def)
  moreover have "node Y ?db' g s = node Y db g s"
    if "take 1 g = ''^''" "g \<noteq> ''^lasti''" "tpflag = TPR \<or> (g, s) \<notin> touched loop" for g s
  proof -
    from global_name [OF that(1)] obtain r where g: "g = CHR ''^'' # r" by blast
    have "node Y d g s = node Y ?d2 g s" using that by (intro d(4)) blast
    also have "\<dots> = node Y db g s" by (rule loc) (simp add: g)
    finally show ?thesis using that(2) by simp
  qed
  ultimately show ?thesis by (intro exI [of _ ?db']) simp
qed

lemma iterations_run:
  assumes "at_work Y inst cust root prime child db" "sizes_ok inst cust root prime pid" "n < 2 ^ 30" "is_int32 child"
  shows "\<exists>db'. block (List.map (job_iteration Y tpflag pid) [1..int n]) db = Inr (Go (), db') \<and> at_work Y inst cust root prime child db' \<and>
    (0 < n \<longrightarrow> node Y db' ''^lasti'' [dec child, inst] = Some (dec (int n))) \<and> worked Y cust prime tpflag pid (int n) db db'"
  using assms(3)
proof (induction n)
  case 0
  then show ?case using assms(1) by (simp add: worked_def)
next
  case (Suc n)
  then obtain d where d: "block (List.map (job_iteration Y tpflag pid) [1..int n]) db = Inr (Go (), d)"
    "at_work Y inst cust root prime child d" "worked Y cust prime tpflag pid (int n) db d" by auto
  let ?k = "1 + int n"
  from iteration_runs [OF d(2) assms(2), of ?k tpflag] Suc.prems assms(4) obtain db' where
    db': "job_iteration Y tpflag pid ?k d = Inr (Go (), db')" "at_work Y inst cust root prime child db'"
    "node Y db' ''^lasti'' [dec child, inst] = Some (dec ?k)" "tpflag \<noteq> TPR \<longrightarrow> all_filled Y cust pid prime ?k db'"
    "\<And>g s. take 1 g = ''^'' \<Longrightarrow> g \<noteq> ''^lasti'' \<Longrightarrow> tpflag = TPR \<or> (g, s) \<notin> touched ?k \<Longrightarrow> node Y db' g s = node Y d g s"
    by auto
  have upto: "[1..int (Suc n)] = [1..int n] @ [?k]" using upto_rec2 [of 1 "int (Suc n)"] by simp
  have "block (List.map (job_iteration Y tpflag pid) [1..int (Suc n)]) db = Inr (Go (), db')"
    unfolding upto by (simp add: block_append d(1) db'(1))
  moreover have "all_filled Y cust pid prime k db'" if "tpflag \<noteq> TPR" "k \<in> {1..int (Suc n)}" for k
  proof (cases "k = ?k")
    case False
    then have "all_filled Y cust pid prime k d" using d(3) that by (auto simp: worked_def)
    then show ?thesis using fills_apart [of ?k Y db' d k] db'(5) False by (simp add: all_filled_def)
  qed (use that(1) db'(4) in simp)
  moreover have "node Y db' g s = node Y db g s"
    if "take 1 g = ''^''" "g \<noteq> ''^lasti''" "tpflag = TPR \<or> (\<forall>k \<in> {1..int (Suc n)}. (g, s) \<notin> touched k)" for g s
    using db'(5) [OF that(1,2)] d(3) that unfolding worked_def by force
  ultimately show ?case using db'(2,3) by (intro exI [of _ db']) (simp add: worked_def add.commute)
qed

lemma incr_any_runs:
  "\<exists>db'. incr_any Y g s db = Inr (Go (), db') \<and> (\<forall>g' s'. (g', s') \<noteq> (g, s) \<longrightarrow> node Y db' g' s' = node Y db g' s')"
  using laws(5) [unfolded ydb_incr_law_def, THEN conjunct2, rule_format, of _ _ g s db None]
  by (intro exI [of _ "snd (snd (ydb_incr_s Y db g s None))"]) (simp add: incr_any_def case_prod_beta)

lemma job_runs:
  assumes "stocked Y inst cust root prime db" "node Y db ''localinstance'' [] = Some inst"
    "node Y db ''iterate'' [] = Some (dec (int n))" "sizes_ok inst cust root prime pid" "n < 2 ^ 30" "is_int32 child"
  shows "\<exists>db'. m_job_stress Y child pid db = Inr (Go (), db') \<and>
    (0 < n \<longrightarrow> node Y db' ''^lasti'' [dec child, inst] = Some (dec (int n))) \<and>
    (tpflag_of child \<noteq> TPR \<longrightarrow> (\<forall>k \<in> {1..int n}. all_filled Y cust pid prime k db')) \<and>
    (\<forall>g s. take 1 g = ''^'' \<longrightarrow> g \<notin> {''^lasti'', ''^PID'', ''^permit''} \<longrightarrow>
       tpflag_of child = TPR \<or> (\<forall>k \<in> {1..int n}. (g, s) \<notin> touched k) \<longrightarrow> node Y db' g s = node Y db g s)"
proof -
  have len: "length (dec child) \<le> VALUELEN" "length inst \<le> VALUELEN" "is_int32 (int n)"
    using length_dec [of child] assms(4-6) by (simp_all add: VALUELEN_def is_int32_def sizes_ok_def)
  let ?d1 = "put Y ''jobno'' [] (dec child) db"
  let ?d2 = "put Y ''^PID'' [dec child, inst] pid ?d1"
  obtain d3 where d3: "incr_any Y ''^permit'' [inst] ?d2 = Inr (Go (), d3)"
    "\<And>g s. (g, s) \<noteq> (''^permit'', [inst]) \<Longrightarrow> node Y d3 g s = node Y ?d2 g s"
    using incr_any_runs by blast
  let ?d4 = "locked Y ''^permit'' [pid] d3" and ?d5 = "deleted Y ''loop'' [] (locked Y ''^permit'' [pid] d3)"
  have vars: "node Y ?d1 ''jobno'' [] = Some (dec child)" "node Y ?d1 ''localinstance'' [] = Some inst"
    "node Y ?d4 ''iterate'' [] = Some (dec (int n))" using assms(2,3) d3(2) by simp_all
  note gets = get_runs(1) [OF vars(1) len(1)] get_runs(1) [OF vars(2) len(2)] get_dec(1) [OF vars(3) len(3)]
  have kept: "node Y ?d5 g s = node Y db g s" if "g \<notin> {''^permit'', ''^PID'', ''jobno'', ''loop''}" for g s
    using that by (simp add: d3(2))
  have "at_work Y inst cust root prime child ?d5"
    using assms(1,2) d3(2) unfolding at_work_def stocked_def by (simp add: kept)
  from iterations_run [OF this assms(4-6), of "tpflag_of child"] obtain db' where
    db': "block (List.map (job_iteration Y (tpflag_of child) pid) [1..int n]) ?d5 = Inr (Go (), db')"
    "0 < n \<longrightarrow> node Y db' ''^lasti'' [dec child, inst] = Some (dec (int n))" "worked Y cust prime (tpflag_of child) pid (int n) ?d5 db'"
    by blast
  have "m_job_stress Y child pid db = Inr (Go (), db')"
    unfolding m_job_stress_def by (simp add: gets d3(1) db'(1))
  moreover have "node Y db' g s = node Y db g s"
    if "take 1 g = ''^''" "g \<notin> {''^lasti'', ''^PID'', ''^permit''}" "tpflag_of child = TPR \<or> (\<forall>k \<in> {1..int n}. (g, s) \<notin> touched k)" for g s
  proof -
    from global_name [OF that(1)] obtain r where "g = CHR ''^'' # r" by blast
    then have "g \<notin> {''^permit'', ''^PID'', ''jobno'', ''loop''}" using that(2) by simp
    then have "node Y ?d5 g s = node Y db g s" by (rule kept)
    moreover have "node Y db' g s = node Y ?d5 g s" using db'(3) that unfolding worked_def by blast
    ultimately show ?thesis by simp
  qed
  ultimately show ?thesis using db'(2,3) by (intro exI [of _ db']) (simp add: worked_def)
qed

end

end
