(* ===== verification/RunConcurrCheck.thy ===== *)
theory RunConcurrCheck
  imports RunConcurrRun
begin

text \<open>
  What the verification of stress/inref/simpleapi_run_concurr.c is worth: every value that is
  not right adds one to ERR, so a verification that ends with no errors has seen nothing but
  right values at all indices.
\<close>

text \<open>The data, with \<open>e\<close> errors counted.\<close>

definition counting :: "'db ydb \<Rightarrow> string \<Rightarrow> (int \<Rightarrow> string) \<Rightarrow> (int \<Rightarrow> int) \<Rightarrow> int \<Rightarrow> int \<Rightarrow> 'db \<Rightarrow> bool" where
  "counting Y inst cust root prime e db \<longleftrightarrow> stocked Y inst cust root prime db \<and>
     node Y db ''ERR'' [] = Some (dec e) \<and> node Y db ''MAXERR'' [] = Some (dec 10)"

lemma continue_Go:
  assumes "continue r k = Inr (Go x, db')"
  obtains y d where "r = Inr (Go y, d)" "k y d = Inr (Go x, db')"
  using assms by (cases "(r, k)" rule: continue.cases) auto

context calm_db
begin

lemma counting_ready: "counting Y inst cust root prime 0 db \<longleftrightarrow> ready Y inst cust root prime db"
  by (simp add: counting_def ready_def)

lemma counting_else:
  assumes "counting Y inst cust root prime e db" "node Y db' ''ERR'' [] = Some (dec e')"
    and "\<forall>g s. g \<notin> {''ERR'', ''obj'', ''ndx''} \<longrightarrow> node Y db' g s = node Y db g s"
  shows "counting Y inst cust root prime e' db'"
proof -
  have "node Y db' g s = node Y db g s"
    if "g \<in> {''^instance'', ''^prime'', ''^cust'', ''^root'', ''MAXERR'', ''$trestart''}" for g s
    using that assms(3) by (elim insertE emptyE) simp_all
  then show ?thesis using assms(1,2) unfolding counting_def stocked_def by simp
qed

lemma got_tp: "get_tp Y n g s db = Inr (Go v, d) \<Longrightarrow> d = db \<and> node Y db g s = Some v"
  by (auto simp: get_tp_def asserted_tp_def into_buffer_def node_def YDB_OK_def split: prod.splits if_splits)

lemma report_counts:
  assumes "m_EXAM_randfill Y pos vcorr vcomp db = Inr (Go (), db')" "node Y db ''ERR'' [] = Some (dec e)" "\<bar>e\<bar> < 10 ^ 18"
  shows "\<exists>e'. e \<le> e' \<and> e' \<le> e + 1 \<and> node Y db' ''ERR'' [] = Some (dec e') \<and> (e' = e \<longrightarrow> vcorr = vcomp) \<and>
    (\<forall>g s. g \<noteq> ''ERR'' \<longrightarrow> node Y db' g s = node Y db g s)"
proof (cases "vcorr = vcomp")
  case True
  then show ?thesis using assms by (intro exI [of _ e]) (simp add: m_EXAM_randfill_def)
next
  case False
  have one: "incr_ok Y ''ERR'' [] None db = Inr (Go (dec (e + 1)), bumped Y ''ERR'' [] None db)"
    "node Y (bumped Y ''ERR'' [] None db) g s = (if g = ''ERR'' \<and> s = [] then Some (dec (e + 1)) else node Y db g s)" for g s
    using incr_runs(1) [where db = db and g = "''ERR''" and s = "[]" and a = e and b = 1] incr_bumped(2) [where db = db and g = "''ERR''" and s = "[]" and a = e and b = 1] assms(2,3) by simp_all
  have "db' = bumped Y ''ERR'' [] None db"
    using assms(1) False one(1)
    by (auto simp: m_EXAM_randfill_def report_line_def nul_ended_def split: if_splits)
  then show ?thesis using one(2) False by (intro exI [of _ "e + 1"]) simp
qed

lemma verify_counts:
  assumes "verify Y g s v db = Inr (Go (), db')" "node Y db ''ERR'' [] = Some (dec e)" "\<bar>e\<bar> < 10 ^ 18"
  shows "\<exists>e'. e \<le> e' \<and> e' \<le> e + 1 \<and> node Y db' ''ERR'' [] = Some (dec e') \<and> (e' = e \<longrightarrow> node Y db g s = Some v) \<and>
    (\<forall>g s. g \<noteq> ''ERR'' \<longrightarrow> node Y db' g s = node Y db g s)"
proof -
  have nuls: "block (List.map (\<lambda>u db. continue (nul_ended VALUELEN u db) (\<lambda>_ db. Inr (Go (), db))) us) db = Inr (Go (), d) \<Longrightarrow> d = db" for us d
    by (induction us) (auto simp: nul_ended_def split: if_splits)
  from assms(1) obtain vcomp where "node Y db g s = Some vcomp" and exam: "m_EXAM_randfill Y (position g s) v vcomp db = Inr (Go (), db')"
    unfolding verify_def act_simps by (auto elim!: continue_Go dest!: got_tp nuls simp: report_line_def split: if_splits)
  then show ?thesis using report_counts [OF exam assms(2,3)] by auto
qed

lemma verifies_count:
  assumes "block (List.map (\<lambda>(g, s, v). verify Y g s v) js) db = Inr (Go (), db')"
    "node Y db ''ERR'' [] = Some (dec e)" "0 \<le> e" "e + int (length js) < 10 ^ 18" "\<forall>(g, s, v) \<in> set js. g \<noteq> ''ERR''"
  shows "\<exists>e'. e \<le> e' \<and> e' \<le> e + int (length js) \<and> node Y db' ''ERR'' [] = Some (dec e') \<and>
    (e' = e \<longrightarrow> (\<forall>(g, s, v) \<in> set js. node Y db g s = Some v)) \<and>
    (\<forall>g s. g \<noteq> ''ERR'' \<longrightarrow> node Y db' g s = node Y db g s)"
  using assms
proof (induction js arbitrary: db e)
  case (Cons j js)
  obtain g s v where j: "j = (g, s, v)" by (cases j)
  from Cons.prems(1) j obtain d where d: "verify Y g s v db = Inr (Go (), d)"
    "block (List.map (\<lambda>(g, s, v). verify Y g s v) js) d = Inr (Go (), db')"
    by (auto elim!: continue_Go)
  have "\<bar>e\<bar> < 10 ^ 18" using Cons.prems(3,4) by simp
  from verify_counts [OF d(1) Cons.prems(2) this] obtain e1 where e1: "e \<le> e1" "e1 \<le> e + 1" "node Y d ''ERR'' [] = Some (dec e1)"
    "e1 = e \<longrightarrow> node Y db g s = Some v" "\<forall>g s. g \<noteq> ''ERR'' \<longrightarrow> node Y d g s = node Y db g s" by blast
  have "0 \<le> e1" "e1 + int (length js) < 10 ^ 18" "\<forall>(g, s, v) \<in> set js. g \<noteq> ''ERR''" using Cons.prems(3-5) e1(1,2) by auto
  from Cons.IH [OF d(2) e1(3) this] obtain e2 where e2: "e1 \<le> e2" "e2 \<le> e1 + int (length js)" "node Y db' ''ERR'' [] = Some (dec e2)"
    "e2 = e1 \<longrightarrow> (\<forall>(g, s, v) \<in> set js. node Y d g s = Some v)" "\<forall>g s. g \<noteq> ''ERR'' \<longrightarrow> node Y db' g s = node Y d g s" by blast
  have "\<forall>(g, s, v) \<in> set js. node Y db g s = Some v" if "e2 = e"
    using that e1(1,5) e2(1,4) Cons.prems(5) by fastforce
  then show ?case using e1 e2 j by (intro exI [of _ e2]) auto
qed simp

lemma ver_one_counts:
  assumes "ver_one Y pid prime iter db = Inr (Go (), db')" "counting Y inst cust root prime e db"
    "sizes_ok inst cust root prime pid" "x \<in> {1..<prime}" "node Y db ''ndx'' [] = Some (dec x)" "0 \<le> e" "e \<le> 10"
  shows "\<exists>e'. e \<le> e' \<and> e' \<le> e + 9 \<and> counting Y inst cust root prime e' db' \<and> (e' = e \<longrightarrow> filled Y cust pid prime iter x db) \<and>
    (\<forall>g s. g \<notin> {''ERR'', ''obj'', ''ndx''} \<longrightarrow> node Y db' g s = node Y db g s)"
proof -
  let ?js = "List.map (\<lambda>g. (g, [dec x, cust x, dec iter], dec x)) fills @ List.map (\<lambda>g. (g, [dec x, cust x, pid, dec iter], dec prime)) counters"
  let ?d = "put Y ''obj'' [] (cust x) db"
  have "fetch_obj Y db = Inr (Go (dec x, cust x), ?d)"
    using assms(2) by (intro fetch_runs [OF _ assms(3-5)]) (simp add: counting_def)
  then have run: "block (List.map (\<lambda>(g, s, v). verify Y g s v) ?js) ?d = Inr (Go (), db')"
    using assms(1) by (simp add: ver_one_def o_def)
  have "node Y ?d ''ERR'' [] = Some (dec e)" using assms(2) by (simp add: counting_def)
  moreover have "length ?js = 9" by (simp add: fills_def counters_def)
  moreover have "\<forall>(g, s, v) \<in> set ?js. g \<noteq> ''ERR''" by (simp add: fills_def counters_def)
  ultimately obtain e' where e': "e \<le> e'" "e' \<le> e + 9" "node Y db' ''ERR'' [] = Some (dec e')"
    "e' = e \<longrightarrow> (\<forall>(g, s, v) \<in> set ?js. node Y ?d g s = Some v)" "\<forall>g s. g \<noteq> ''ERR'' \<longrightarrow> node Y db' g s = node Y ?d g s"
    using verifies_count [OF run _ assms(6)] assms(7) by auto
  have same: "\<forall>g s. g \<notin> {''ERR'', ''obj'', ''ndx''} \<longrightarrow> node Y db' g s = node Y db g s" using e'(5) by simp
  have "filled Y cust pid prime iter x db" if "e' = e"
    using e'(4) that by (simp add: filled_def fills_def counters_def)
  then show ?thesis using e'(1,2) same counting_else [OF assms(2) e'(3) same] by blast
qed

lemma loop_counts:
  assumes sizes: "sizes_ok inst cust root prime pid" "pno \<in> {1..10}"
    and "filling_loop Y VER pid prime (root pno) iter n (cyc (root pno) prime i) db = Inr (Go (), db')"
    "counting Y inst cust root prime e db" "node Y db ''ndx'' [] = Some (dec (cyc (root pno) prime i))" "0 \<le> e" "e \<le> 10"
    "i + n = nat (prime - 1)"
  shows "\<exists>e'. e \<le> e' \<and> node Y db' ''ERR'' [] = Some (dec e') \<and>
    (e' = e \<longrightarrow> (\<forall>k. i \<le> k \<longrightarrow> k < nat (prime - 1) \<longrightarrow> filled Y cust pid prime iter (cyc (root pno) prime k) db))"
  using assms(3-8)
proof (induction n arbitrary: i db e)
  case 0
  then show ?case by (intro exI [of _ e]) (auto simp: counting_def)
next
  case (Suc n)
  let ?c = "cyc (root pno) prime"
  have x: "?c i \<in> {1..<prime}" using Suc.prems(6) roots [OF sizes] primitive_props(2) by simp
  have next_x: "c_mod (int32 (?c i * root pno)) prime = ?c (Suc i)"
    using sizes by (intro cyc_step) (auto simp: sizes_ok_def)
  from Suc.prems(1) obtain d where d: "ver_one Y pid prime iter db = Inr (Go (), d)"
    and rest: "continue (get_int Y VALUELEN ''ERR'' [] (put Y ''ndx'' [] (dec (?c (Suc i))) d))
      (\<lambda>ERR. andThen (get_int Y VALUELEN ''MAXERR'' []) (\<lambda>MAXERR. if MAXERR < ERR then ret ()
         else filling_loop Y VER pid prime (root pno) iter n (?c (Suc i)))) = Inr (Go (), db')"
    by (auto simp: next_x Let_def elim!: continue_Go)
  let ?d = "put Y ''ndx'' [] (dec (?c (Suc i))) d"
  from ver_one_counts [OF d Suc.prems(2) sizes(1) x Suc.prems(3-5)] obtain e1 where e1: "e \<le> e1" "e1 \<le> e + 9"
    "counting Y inst cust root prime e1 d" "e1 = e \<longrightarrow> filled Y cust pid prime iter (?c i) db"
    "\<forall>g s. g \<notin> {''ERR'', ''obj'', ''ndx''} \<longrightarrow> node Y d g s = node Y db g s" by blast
  have c1: "counting Y inst cust root prime e1 ?d"
    using e1(3) by (intro counting_else [OF e1(3)]) (simp_all add: counting_def)
  have "node Y ?d ''ERR'' [] = Some (dec e1)" "node Y ?d ''MAXERR'' [] = Some (dec 10)" using c1 by (simp_all only: counting_def)
  then have errs: "get_int Y VALUELEN ''ERR'' [] ?d = Inr (Go e1, ?d)" "get_int Y VALUELEN ''MAXERR'' [] ?d = Inr (Go 10, ?d)"
    using e1(1,2) Suc.prems(4,5) by (intro get_dec(1); simp add: is_int32_def)+
  show ?case
  proof (cases "10 < e1")
    case True
    then have "db' = ?d" using rest errs by simp
    then show ?thesis using e1(1) True Suc.prems(5) c1 unfolding counting_def by (intro exI [of _ e1]) simp
  next
    case False
    then have "filling_loop Y VER pid prime (root pno) iter n (?c (Suc i)) ?d = Inr (Go (), db')" using rest errs by simp
    from Suc.IH [OF this c1] e1(1) False Suc.prems(4,6) obtain e2 where e2: "e1 \<le> e2" "node Y db' ''ERR'' [] = Some (dec e2)"
      "e2 = e1 \<longrightarrow> (\<forall>k. Suc i \<le> k \<longrightarrow> k < nat (prime - 1) \<longrightarrow> filled Y cust pid prime iter (?c k) ?d)" by auto
    have same: "filled Y cust pid prime iter y ?d \<longleftrightarrow> filled Y cust pid prime iter y db" for y
      using e1(5) by (simp add: filled_def fills_def counters_def)
    have "filled Y cust pid prime iter (?c k) db" if "e2 = e" "i \<le> k" "k < nat (prime - 1)" for k
      using that e1(1,4) e2(1,3) same by (cases "k = i") auto
    then show ?thesis using e1(1) e2(1,2) by (intro exI [of _ e2]) auto
  qed
qed

lemma verification_sound_run:
  assumes "stocked Y inst cust root prime db" "sizes_ok inst cust root prime pid" "pno \<in> {1..10}"
    and "m_randfill Y VER pid pno iter db = Inr (Go (), db')" "node Y db' ''ERR'' [] = Some (dec 0)"
  shows "all_filled Y cust pid prime iter db"
proof -
  note pr = primitive_props [OF roots [OF assms(2,3)]]
  let ?db = "put Y ''ndx'' [] (dec 1) (put Y ''MAXERR'' [] (dec 10) (put Y ''ERR'' [] (dec 0) db))"
  have c0: "cyc (root pno) prime 0 = 1" using roots [OF assms(2,3)] by (intro cyc_0)
  have pure: "get_int Y n g s d = Inr (Go z, d') \<Longrightarrow> d' = d" for n g s d z d'
    by (auto simp: get_int_def get_text_def asserted_def nul_ended_def split: prod.splits if_splits)
  have "filling_loop Y VER pid prime (root pno) iter (nat (prime - 1)) (cyc (root pno) prime 0) ?db = Inr (Go (), db')"
    using assms(4) unfolding randfill_eq [OF assms(1-3)] c0 by (auto simp: m_filling_randfill_def elim!: continue_Go dest!: pure)
  moreover have "counting Y inst cust root prime 0 ?db" using start_ready(1) [OF assms(1)] by (simp add: counting_ready)
  moreover have "node Y ?db ''ndx'' [] = Some (dec (cyc (root pno) prime 0))" using c0 by simp
  ultimately have "\<forall>k < nat (prime - 1). filled Y cust pid prime iter (cyc (root pno) prime k) ?db"
    using loop_counts [OF assms(2,3), of iter "nat (prime - 1)" 0 ?db db' 0] assms(5) by auto
  then have "all_filled Y cust pid prime iter ?db" using pr(3) unfolding all_filled_def by metis
  then show ?thesis by (simp add: start_ready(4) [OF assms(1)])
qed

end

end
