(* ===== verification/RunConcurrProps.thy ===== *)
theory RunConcurrProps
  imports RunConcurrJob RunConcurrCheck
begin

text \<open>
  The properties of stress/inref/simpleapi_run_concurr.c: what a job leaves behind in each of
  the three ways it can run, and what its verification proves.
\<close>

text \<open>A small database to run jobs on: the numbers below 5, with 2 as its primitive root.\<close>

definition small_db :: "string \<times> string list \<Rightarrow> string option" where
  "small_db = (\<lambda>(g, s).
     if g = ''^cust'' then Some ''C'' else if g = ''^root'' then Some (dec 2)
     else if s \<noteq> [] then None
     else if g = ''^instance'' \<or> g = ''localinstance'' then Some ''A''
     else if g = ''^prime'' then Some (dec 5) else if g = ''iterate'' then Some (dec 3)
     else if g = ''$trestart'' then Some (dec 0) else None)"

lemma small_db_stocked:
  "stocked map_ydb ''A'' (\<lambda>_. ''C'') (\<lambda>_. 2) 5 small_db" "sizes_ok ''A'' (\<lambda>_. ''C'') (\<lambda>_. 2) 5 ''7''"
  "node map_ydb small_db ''localinstance'' [] = Some ''A''" "node map_ydb small_db ''iterate'' [] = Some (dec 3)"
proof -
  have "{..<4 :: nat} = {0, 1, 2, 3}" "{1..<5 :: int} = {1, 2, 3, 4}" by auto
  then have "primitive 2 5" by (simp add: primitive_def) blast
  then show "sizes_ok ''A'' (\<lambda>_. ''C'') (\<lambda>_. 2) 5 ''7''" by (simp add: sizes_ok_def)
qed (simp_all add: stocked_def small_db_def)

text \<open>
  C25: a job that does not use transactions or commits them (jobs 1 and 6 to 10) runs to its end
  on a database it has for itself, records its last iteration in \<open>^lasti\<close>, and every one of the
  nine variables is right at every index below the prime for every iteration.
\<close>

theorem job_leaves_its_data:
  assumes "ydb_good Y" "stocked Y inst cust root prime db" "sizes_ok inst cust root prime pid"
    and "node Y db ''localinstance'' [] = Some inst" "node Y db ''iterate'' [] = Some (dec (int n))" "0 < n" "n < 2 ^ 30"
    and "child = 1 \<or> child \<in> {6..10}"
  shows "\<exists>db'. m_job_stress Y child pid db = Inr (Go (), db') \<and>
    node Y db' ''^lasti'' [dec child, inst] = Some (dec (int n)) \<and>
    (\<forall>iter \<in> {1..int n}. \<forall>x \<in> {1..<prime}.
       (\<forall>g \<in> set fills. node Y db' g [dec x, cust x, dec iter] = Some (dec x)) \<and>
       (\<forall>g \<in> set counters. node Y db' g [dec x, cust x, pid, dec iter] = Some (dec prime)))"
proof -
  have "is_int32 child" "tpflag_of child \<noteq> TPR" using assms(8) by (auto simp: is_int32_def tpflag_of_def NTPJ_def TPRJ_def)
  then show ?thesis
    using calm_db.job_runs [OF calm_db.intro, OF assms(1,2,4,5,3,7)] assms(6) unfolding all_filled_def filled_def by blast
qed

lemma job_leaves_its_data_witness:
  "\<exists>db'. m_job_stress map_ydb 6 ''7'' small_db = Inr (Go (), db') \<and>
    node map_ydb db' ''^lasti'' [dec 6, ''A''] = Some (dec (int 3)) \<and>
    (\<forall>iter \<in> {1..int 3}. \<forall>x \<in> {1..<5}.
       (\<forall>g \<in> set fills. node map_ydb db' g [dec x, ''C'', dec iter] = Some (dec x)) \<and>
       (\<forall>g \<in> set counters. node map_ydb db' g [dec x, ''C'', ''7'', dec iter] = Some (dec 5)))"
proof -
  have "node map_ydb small_db ''iterate'' [] = Some (dec (int 3))" using small_db_stocked(4) by (simp only: of_nat_numeral)
  moreover have "0 < (3 :: nat)" "(3 :: nat) < 2 ^ 30" "(6 :: int) = 1 \<or> (6 :: int) \<in> {6..10}" by simp_all
  ultimately show ?thesis by (rule job_leaves_its_data [OF map_ydb_good small_db_stocked(1-3)])
qed

text \<open>
  C26: a job that rolls its transactions back (jobs 2 to 5) runs to its end as well and leaves
  every global variable as it was, but \<open>^lasti\<close>, \<open>^PID\<close> and \<open>^permit\<close>, which it sets outside
  of its transactions.
\<close>

theorem rolled_back_job_leaves_nothing:
  assumes "ydb_good Y" "stocked Y inst cust root prime db" "sizes_ok inst cust root prime pid"
    and "node Y db ''localinstance'' [] = Some inst" "node Y db ''iterate'' [] = Some (dec (int n))" "n < 2 ^ 30"
    and "child \<in> {2..5}"
  shows "\<exists>db'. m_job_stress Y child pid db = Inr (Go (), db') \<and>
    (\<forall>g s. take 1 g = ''^'' \<longrightarrow> g \<notin> {''^lasti'', ''^PID'', ''^permit''} \<longrightarrow> node Y db' g s = node Y db g s)"
proof -
  have child: "is_int32 child" "tpflag_of child = TPR" using assms(7) by (auto simp: is_int32_def tpflag_of_def NTPJ_def TPRJ_def)
  from calm_db.job_runs [OF calm_db.intro, OF assms(1,2,4,5,3,6) child(1)] obtain db' where
    "m_job_stress Y child pid db = Inr (Go (), db')"
    "\<forall>g s. take 1 g = ''^'' \<longrightarrow> g \<notin> {''^lasti'', ''^PID'', ''^permit''} \<longrightarrow>
       tpflag_of child = TPR \<or> (\<forall>k \<in> {1..int n}. (g, s) \<notin> touched k) \<longrightarrow> node Y db' g s = node Y db g s"
    by (elim exE conjE) (assumption | rule)+
  then show ?thesis using child(2) by (intro exI [of _ db'] conjI allI impI) simp_all
qed

lemma rolled_back_job_leaves_nothing_witness:
  "\<exists>db'. m_job_stress map_ydb 2 ''7'' small_db = Inr (Go (), db') \<and>
    (\<forall>g s. take 1 g = ''^'' \<longrightarrow> g \<notin> {''^lasti'', ''^PID'', ''^permit''} \<longrightarrow> node map_ydb db' g s = node map_ydb small_db g s)"
proof -
  have "node map_ydb small_db ''iterate'' [] = Some (dec (int 3))" using small_db_stocked(4) by (simp only: of_nat_numeral)
  moreover have "(3 :: nat) < 2 ^ 30" "(2 :: int) \<in> {2..5}" by simp_all
  ultimately show ?thesis by (rule rolled_back_job_leaves_nothing [OF map_ydb_good small_db_stocked(1-3)])
qed

text \<open>
  C27: a verification that ends with ERR at 0 has found the nine variables right at every index
  below the prime: no wrong value escapes it, although it goes through the indices in the order
  of the powers of a root and may stop early.
\<close>

theorem verification_sound:
  assumes "ydb_good Y" "stocked Y inst cust root prime db" "sizes_ok inst cust root prime pid" "pno \<in> {1..10}"
    and "m_randfill Y VER pid pno iter db = Inr (Go (), db')" "node Y db' ''ERR'' [] = Some (dec 0)" "x \<in> {1..<prime}"
  shows "(\<forall>g \<in> set fills. node Y db g [dec x, cust x, dec iter] = Some (dec x)) \<and>
    (\<forall>g \<in> set counters. node Y db g [dec x, cust x, pid, dec iter] = Some (dec prime))"
  using calm_db.verification_sound_run [OF calm_db.intro, OF assms(1-6)] assms(7) unfolding all_filled_def filled_def by blast

lemma verification_sound_witness:
  "\<exists>db db'. m_randfill map_ydb VER ''7'' 3 1 db = Inr (Go (), db') \<and>
    (\<forall>g \<in> set fills. node map_ydb db g [dec 4, ''C'', dec 1] = Some (dec 4)) \<and>
    (\<forall>g \<in> set counters. node map_ydb db g [dec 4, ''C'', ''7'', dec 1] = Some (dec 5))"
proof -
  note s = small_db_stocked(2)
  have pno: "(3 :: int) \<in> {1..10}" by simp
  obtain d1 where d1: "stocked map_ydb ''A'' (\<lambda>_. ''C'') (\<lambda>_. 2) 5 d1" "all_gone map_ydb (\<lambda>_. ''C'') ''7'' 5 1 d1"
    using map.kill_runs [OF small_db_stocked(1) s pno] unfolding ready_def by blast
  obtain d2 where d2: "stocked map_ydb ''A'' (\<lambda>_. ''C'') (\<lambda>_. 2) 5 d2" "all_filled map_ydb (\<lambda>_. ''C'') ''7'' 5 1 d2"
    using map.set_runs_all [OF d1(1) s pno d1(2)] unfolding ready_def by blast
  have "is_int32 1" by (simp add: is_int32_def)
  from map.ver_runs [OF d2(1) s pno this d2(2)] obtain d3 where
    d3: "m_randfill map_ydb VER ''7'' 3 1 d2 = Inr (Go (), d3)" "node map_ydb d3 ''ERR'' [] = Some (dec 0)"
    unfolding ready_def by blast
  moreover have "(4 :: int) \<in> {1..<5}" by simp
  ultimately show ?thesis using verification_sound [OF map_ydb_good d2(1) s pno d3] by blast
qed

end
