(* ===== verification/WordFreq.thy ===== *)
theory WordFreq
  imports YdbProg
begin

text \<open>
  simpleapi/inref/wordfreq.c: counts the words of its input in the variable \<open>words\<close>, turns
  that into \<open>index\<close>, whose first subscripts are the counts, and prints the words by falling
  counts. The variables are local ones or global ones, after the process number.
\<close>

section \<open>Counting\<close>

text \<open>The bytes of a buffer of words and counts, and of the one for lines.\<close>

definition wf_buff :: nat where "wf_buff = 64"

definition wf_linebuff :: nat where "wf_linebuff = 1024"

text \<open>A word is turned to lower case and loses its newline; nothing may be left of it.\<close>

definition clean_word :: "string \<Rightarrow> string" where
  "clean_word tok =
     (let w = List.map tolower tok in if List.last w = CHR 0x0A then butlast w else w)"

definition count_word :: "'db ydb \<Rightarrow> string \<Rightarrow> string \<Rightarrow> ('db, unit) act" where
  "count_word Y words tok =
     (if clean_word tok = [] then ret ()
      else andThen (incr_ok Y words [clean_word tok] None) (\<lambda>_. ret ()))"

text \<open>The tokens of a line, and the lines of the input.\<close>

function count_line :: "'db ydb \<Rightarrow> string \<Rightarrow> string \<Rightarrow> ('db, unit) act" where
  "count_line Y words line =
     (case strtok '' '' line of
        None \<Rightarrow> ret ()
      | Some (tok, rest) \<Rightarrow> andThen (count_word Y words tok) (\<lambda>_. count_line Y words rest))"
  by pat_completeness auto
termination
  by (relation "measure (\<lambda>(Y, words, line). length line)") (auto dest: strtok_shorter)

declare count_line.simps [simp del]

function count_lines :: "'db ydb \<Rightarrow> string \<Rightarrow> string \<Rightarrow> ('db, unit) act" where
  "count_lines Y words stdin =
     (case fgets wf_linebuff stdin False of
        None \<Rightarrow> ret ()
      | Some (line, rest) \<Rightarrow> andThen (count_line Y words (c_str line)) (\<lambda>_. count_lines Y words rest))"
  by pat_completeness auto
termination
  by (relation "measure (\<lambda>(Y, words, stdin). length stdin)") (auto dest: fgets_rest simp: wf_linebuff_def)

declare count_lines.simps [simp del]

section \<open>The words by their counts\<close>

text \<open>The subscript beside the last one, in a buffer; None at the end, which changes no buffer.\<close>

definition beside_or_end :: "'db ydb \<Rightarrow> int \<times> string \<Rightarrow> ('db, string option) act" where
  "beside_or_end Y res =
     (case res of (status, v) \<Rightarrow>
        if status = YDB_ERR_NODEEND Y then ret None
        else andThen (asserted status v) (\<lambda>v. andThen (into_buffer wf_buff v) (\<lambda>v.
             andThen (check (v \<noteq> [])) (\<lambda>_. ret (Some v)))))"

text \<open>
  For each word an empty value under its count. What is left in \<open>tmp1\<close> is the result; None
  says that \<open>fuel\<close> did not last.
\<close>

fun index_words :: "'db ydb \<Rightarrow> string \<Rightarrow> string \<Rightarrow> nat \<Rightarrow> string \<Rightarrow> ('db, string option) act" where
  "index_words Y words index 0 tmp1 = ret None"
| "index_words Y words index (Suc fuel) tmp1 =
     andThen (\<lambda>db. beside_or_end Y (ydb_subscript_next_s Y db words [tmp1]) db) (\<lambda>found.
       case found of
         None \<Rightarrow> ret (Some tmp1)
       | Some tmp1 \<Rightarrow>
           andThen (get_ok Y wf_buff words [tmp1]) (\<lambda>words_tmp1.
           andThen (set_ok Y index [words_tmp1, tmp1] []) (\<lambda>_. index_words Y words index fuel tmp1)))"

text \<open>\<open>printf("%s\t%s\n", ...)\<close>\<close>

definition wf_row :: "string \<Rightarrow> string \<Rightarrow> string" where
  "wf_row n w = c_str n @ [CHR 0x09] @ c_str w @ [CHR 0x0A]"

fun print_words :: "'db ydb \<Rightarrow> string \<Rightarrow> nat \<Rightarrow> string \<Rightarrow> string \<Rightarrow> ('db, string option) act" where
  "print_words Y index 0 tmp1 tmp2 = ret None"
| "print_words Y index (Suc fuel) tmp1 tmp2 =
     andThen (\<lambda>db. beside_or_end Y (ydb_subscript_next_s Y db index [tmp1, tmp2]) db) (\<lambda>found.
       case found of
         None \<Rightarrow> ret (Some [])
       | Some tmp2 \<Rightarrow>
           andThen (nul_ended wf_buff tmp1) (\<lambda>_.
           andThen (nul_ended wf_buff tmp2) (\<lambda>_.
           andThen (print_words Y index fuel tmp1 tmp2) (\<lambda>out. ret (map_option (\<lambda>rest. wf_row tmp1 tmp2 @ rest) out)))))"

fun print_counts :: "'db ydb \<Rightarrow> string \<Rightarrow> nat \<Rightarrow> string \<Rightarrow> ('db, string option) act" where
  "print_counts Y index 0 tmp1 = ret None"
| "print_counts Y index (Suc fuel) tmp1 =
     andThen (\<lambda>db. beside_or_end Y (ydb_subscript_previous_s Y db index [tmp1]) db) (\<lambda>found.
       case found of
         None \<Rightarrow> ret (Some [])
       | Some tmp1 \<Rightarrow>
           andThen (print_words Y index fuel tmp1 []) (\<lambda>out.
             case out of
               None \<Rightarrow> ret None
             | Some row \<Rightarrow> andThen (print_counts Y index fuel tmp1) (\<lambda>out. ret (map_option (\<lambda>rest. row @ rest) out))))"

text \<open>A kill whose status is not looked at.\<close>

definition delete_any :: "'db ydb \<Rightarrow> string \<Rightarrow> ('db, unit) act" where
  "delete_any Y g db = (let (status, db') = ydb_delete_s Y db g [] in ret () db')"

definition wf_names :: "int \<Rightarrow> string \<times> string" where
  "wf_names pid = (if c_mod pid 2 \<noteq> 0 then (''words'', ''index'') else (''^words'', ''^index''))"

text \<open>The whole program: what it prints.\<close>

definition wordfreq_main :: "'db ydb \<Rightarrow> int \<Rightarrow> nat \<Rightarrow> string \<Rightarrow> ('db, string option) act" where
  "wordfreq_main Y pid fuel stdin =
     (case wf_names pid of (words, index) \<Rightarrow>
        andThen (onlyIf (c_mod pid 2 = 0) [delete_any Y words, delete_any Y index]) (\<lambda>_.
        andThen (count_lines Y words stdin) (\<lambda>_.
        andThen (index_words Y words index fuel []) (\<lambda>tmp1.
          case tmp1 of None \<Rightarrow> ret None | Some tmp1 \<Rightarrow> print_counts Y index fuel tmp1))))"

end
