(* ===== verification/YdbOrder.thy ===== *)
theory YdbOrder
  imports YdbProg
begin

text \<open>
  Walking over the subscripts of a node: the calls for the next and the previous subscript
  follow a list that is sorted by the collation. The locale \<open>ordered_db\<close> is the interface.
\<close>

lemma sorted_wrt_exists:
  assumes "transp R" "totalp R" "finite A"
  shows "\<exists>xs. sorted_wrt R xs \<and> set xs = A"
  using assms(3)
proof (induction A rule: finite_induct)
  case (insert a A)
  then obtain xs where xs: "sorted_wrt R xs" "set xs = A" by blast
  let ?ys = "filter (\<lambda>x. R x a) xs @ a # filter (\<lambda>x. R a x) xs"
  have "R x a \<or> R a x" if "x \<in> A" for x using that insert(2) assms(2) by (metis totalpD)
  then have "set ?ys = insert a A" using xs(2) by auto
  moreover have "sorted_wrt R ?ys"
    using xs(1) assms(1) by (auto simp: sorted_wrt_append sorted_wrt_filter dest: transpD)
  ultimately show ?case by blast
qed simp

lemma first_after_Cons:
  assumes "irreflp R" "transp R" "sorted_wrt R (x # xs)" "set (x # xs) = {v \<in> S. u = [] \<or> R u v}" "[] \<notin> S"
  shows "first_after R S u x" "{v \<in> S. x = [] \<or> R x v} = set xs"
proof -
  have x: "x \<in> S" "u = [] \<or> R u x" "x \<noteq> []" using assms(4,5) by auto
  have "w = x \<or> R x w" if "w \<in> S" "u = [] \<or> R u w" for w
    using assms(3,4) that by (metis (mono_tags, lifting) mem_Collect_eq set_ConsD sorted_wrt.simps(2))
  then show "first_after R S u x" using x unfolding first_after_def by blast
  have "v \<in> set xs" if "v \<in> S" "R x v" for v
  proof -
    have "u = [] \<or> R u v" using x(2) that(2) assms(2) by (blast dest: transpD)
    then have "v \<in> set (x # xs)" using assms(4) that(1) by blast
    moreover have "v \<noteq> x" using that(2) assms(1) by (auto simp: irreflp_def)
    ultimately show ?thesis by simp
  qed
  moreover have "v \<in> S \<and> R x v" if "v \<in> set xs" for v
  proof -
    have "v \<in> set (x # xs)" using that by simp
    then have "v \<in> S" unfolding assms(4) by blast
    then show ?thesis using assms(3) that by simp
  qed
  ultimately show "{v \<in> S. x = [] \<or> R x v} = set xs" using x(3) by blast
qed

lemma first_after_Nil: "{v \<in> S. u = [] \<or> R u v} = {} \<Longrightarrow> \<nexists>v. first_after R S u v"
  by (auto simp: first_after_def)

locale ordered_db = calm_db Y for Y :: "'db ydb" +
  fixes before :: "string \<Rightarrow> string \<Rightarrow> bool"
  assumes collates: "collation before"
    and ordered: "ydb_order_law Y before"
begin

lemma before_order: "irreflp before" "transp before" "totalp before" "irreflp before\<inverse>\<inverse>" "transp before\<inverse>\<inverse>"
  using collates collation_converse [of before] by (auto simp: collation_def)

lemma before_numbers:
  "\<bar>a\<bar> < 10 ^ 18 \<Longrightarrow> \<bar>b\<bar> < 10 ^ 18 \<Longrightarrow> before (dec a) (dec b) \<longleftrightarrow> a < b"
  "\<bar>a\<bar> < 10 ^ 18 \<Longrightarrow> uc c \<in> {97..122} \<Longrightarrow> before (dec a) (c # w)"
  using collates by (simp_all add: collation_def)

lemma sorted_subscripts: "finite A \<Longrightarrow> \<exists>xs. sorted_wrt before xs \<and> set xs = A"
  using sorted_wrt_exists before_order(2,3) by blast

lemma next_found:
  assumes "sorted_wrt before (x # xs)" "set (x # xs) = {v \<in> S. u = [] \<or> before u v}" "[] \<notin> S" "finite S"
    and "subscripts Y db g s = S"
  shows "ydb_subscript_next_s Y db g (s @ [u]) = (YDB_OK, x)" "{v \<in> S. x = [] \<or> before x v} = set xs"
  using first_after_Cons [OF before_order(1,2) assms(1-3)] ordered assms(3-5) by (auto simp: ydb_order_law_def)

lemma next_none:
  assumes "{v \<in> S. u = [] \<or> before u v} = {}" "[] \<notin> S" "finite S" "subscripts Y db g s = S"
  shows "ydb_subscript_next_s Y db g (s @ [u]) = (YDB_ERR_NODEEND Y, [])"
  using first_after_Nil [of S u before] ordered assms by (auto simp: ydb_order_law_def)

lemma previous_found:
  assumes "sorted_wrt before\<inverse>\<inverse> (x # xs)" "set (x # xs) = {v \<in> S. u = [] \<or> before v u}" "[] \<notin> S" "finite S"
    and "subscripts Y db g s = S"
  shows "ydb_subscript_previous_s Y db g (s @ [u]) = (YDB_OK, x)" "{v \<in> S. x = [] \<or> before v x} = set xs"
  using first_after_Cons [OF before_order(4,5) assms(1), of S u] ordered assms(2-5) by (auto simp: ydb_order_law_def)

lemma previous_none:
  assumes "{v \<in> S. u = [] \<or> before v u} = {}" "[] \<notin> S" "finite S" "subscripts Y db g s = S"
  shows "ydb_subscript_previous_s Y db g (s @ [u]) = (YDB_ERR_NODEEND Y, [])"
  using first_after_Nil [of S u "before\<inverse>\<inverse>"] ordered assms by (auto simp: ydb_order_law_def)

end

interpretation omap: ordered_db map_ydb m_before
  by unfold_locales (rule m_before_collation map_ydb_order)+

end
