(* ===== verification/WordFreqRun.thy ===== *)
theory WordFreqRun
  imports WordFreq YdbOrder
begin

text \<open>
  Runs of simpleapi/inref/wordfreq.c: which words it sees in its input, what \<open>words\<close> and
  \<open>index\<close> hold after the first two loops, and the rows the last loop prints.
\<close>

section \<open>The words of a text\<close>

text \<open>The reference: words end at blanks and newlines and are in lower case; \<open>w\<close> is the word begun.\<close>

fun words_from :: "string \<Rightarrow> string \<Rightarrow> string list" where
  "words_from w [] = (if w = [] then [] else [w])"
| "words_from w (c # s) =
     (if c = CHR 0x20 \<or> c = CHR 0x0A then (if w = [] then [] else [w]) @ words_from [] s
      else words_from (w @ [tolower c]) s)"

text \<open>The words the program's two loops see.\<close>

function line_words :: "string \<Rightarrow> string list" where
  "line_words line =
     (case strtok '' '' line of
        None \<Rightarrow> []
      | Some (tok, rest) \<Rightarrow> (if clean_word tok = [] then [] else [clean_word tok]) @ line_words rest)"
  by pat_completeness auto
termination
  by (relation "measure length") (auto dest: strtok_shorter)

declare line_words.simps [simp del]

function text_words :: "string \<Rightarrow> string list" where
  "text_words stdin =
     (case fgets wf_linebuff stdin False of
        None \<Rightarrow> []
      | Some (line, rest) \<Rightarrow> line_words (c_str line) @ text_words rest)"
  by pat_completeness auto
termination
  by (relation "measure length") (auto dest: fgets_rest simp: wf_linebuff_def)

declare text_words.simps [simp del]

text \<open>No line is too long for the buffer.\<close>

definition short_lines :: "string \<Rightarrow> bool" where
  "short_lines s \<longleftrightarrow> (\<forall>i. i + 1023 \<le> length s \<longrightarrow> CHR 0x0A \<in> set (take 1023 (drop i s)))"

lemma short_lines_drop: "short_lines s \<Longrightarrow> short_lines (drop n s)"
  unfolding short_lines_def
proof (intro allI impI)
  fix i assume *: "\<forall>i. i + 1023 \<le> length s \<longrightarrow> CHR 0x0A \<in> set (take 1023 (drop i s))" and i: "i + 1023 \<le> length (drop n s)"
  have "(i + n) + 1023 \<le> length s" using i by simp
  with * have "CHR 0x0A \<in> set (take 1023 (drop (i + n) s))" by blast
  then show "CHR 0x0A \<in> set (take 1023 (drop i (drop n s)))" by simp
qed

lemma words_from_sep:
  "c = CHR 0x20 \<or> c = CHR 0x0A \<Longrightarrow> words_from w (s @ c # t) = words_from w s @ words_from [] t"
  by (induction w s rule: words_from.induct) auto

lemma words_from_plain:
  "CHR 0x20 \<notin> set s \<Longrightarrow> CHR 0x0A \<notin> set s \<Longrightarrow>
     words_from w s = (if w @ List.map tolower s = [] then [] else [w @ List.map tolower s])"
  by (induction w s rule: words_from.induct) auto

lemma words_from_blanks: "(\<forall>c \<in> set b. c = CHR 0x20) \<Longrightarrow> words_from [] (b @ s) = words_from [] s"
  by (induction b) auto

lemma tolower_newline: "tolower c = CHR 0x0A \<longleftrightarrow> c = CHR 0x0A"
proof (cases "65 \<le> uc c \<and> uc c \<le> 90")
  case True
  then have "nat (uc c) + 32 < 256" by linarith
  then have "uc (tolower c) = uc c + 32" using True by (simp add: tolower_def uc_def)
  then have "uc (tolower c) \<noteq> 10" "uc c \<noteq> 10" using True by simp_all
  moreover have "uc (CHR 0x0A) = 10" by (simp add: uc_def)
  ultimately show ?thesis by metis
qed (auto simp: tolower_def)

lemma clean_word_plain:
  assumes "tok \<noteq> []" "CHR 0x0A \<notin> set tok"
  shows "clean_word tok = List.map tolower tok" "clean_word (t @ [CHR 0x0A]) = List.map tolower t"
  using assms by (simp_all add: clean_word_def Let_def last_map tolower_newline) (metis last_in_set)

lemma clean_word_alone:
  assumes "tok \<noteq> []" "CHR 0x0A \<notin> set (butlast tok)" "CHR 0x20 \<notin> set tok"
  shows "words_from [] tok = (if clean_word tok = [] then [] else [clean_word tok])"
proof (cases tok rule: rev_cases)
  case (snoc t c)
  show ?thesis
  proof (cases "c = CHR 0x0A")
    case True
    then have "words_from [] tok = words_from [] t" using words_from_sep [of c "[]" t "[]"] snoc by simp
    then show ?thesis using True snoc assms(2,3) words_from_plain [of t "[]"] by (simp add: clean_word_def tolower_newline)
  next
    case False
    then have nl: "CHR 0x0A \<notin> set tok" using snoc assms(2) by auto
    then show ?thesis using words_from_plain [OF assms(3) nl, of "[]"] clean_word_plain(1) [OF assms(1) nl] by simp
  qed
qed (use assms(1) in simp)

lemma strtok_blank:
  obtains "strtok '' '' s = None" "\<forall>c \<in> set s. c = CHR 0x20"
  | b tok where "strtok '' '' s = Some (tok, [])" "s = b @ tok" "\<forall>c \<in> set b. c = CHR 0x20" "tok \<noteq> []" "CHR 0x20 \<notin> set tok"
  | b tok rest where "strtok '' '' s = Some (tok, rest)" "s = b @ tok @ CHR 0x20 # rest" "\<forall>c \<in> set b. c = CHR 0x20" "tok \<noteq> []"
      "CHR 0x20 \<notin> set tok"
proof -
  define b where "b = takeWhile (\<lambda>c. c \<in> set '' '') s"
  define r where "r = dropWhile (\<lambda>c. c \<in> set '' '') s"
  define tok where "tok = takeWhile (\<lambda>c. c \<notin> set '' '') r"
  define tl where "tl = dropWhile (\<lambda>c. c \<notin> set '' '') r"
  have s: "s = b @ r" and r: "r = tok @ tl" by (simp_all add: b_def r_def tok_def tl_def)
  have blanks: "\<forall>c \<in> set b. c = CHR 0x20" unfolding b_def by (auto dest: set_takeWhileD)
  have tok: "CHR 0x20 \<notin> set tok" unfolding tok_def by (auto dest: set_takeWhileD)
  have strtok: "strtok '' '' s = (if r = [] then None else Some (tok, drop 1 tl))"
    by (simp only: strtok_def Let_def r_def tok_def tl_def)
  show thesis
  proof (cases "r = []")
    case True
    then show thesis using that(1) strtok s blanks by simp
  next
    case False
    then have some: "strtok '' '' s = Some (tok, drop 1 tl)" using strtok by simp
    note ne = strtok_token(1) [OF this]
    show thesis
    proof (cases tl)
      case Nil
      then show thesis using that(2) some s r blanks ne tok by simp
    next
      case (Cons c rest)
      then have "c = CHR 0x20" using hd_dropWhile [of "\<lambda>c. c \<notin> set '' ''" r] unfolding tl_def [symmetric] by simp
      then show thesis using that(3) some s r blanks ne tok Cons by simp
    qed
  qed
qed

lemma line_words_eq: "CHR 0x0A \<notin> set (butlast s) \<Longrightarrow> line_words s = words_from [] s"
proof (induction s rule: line_words.induct)
  case (1 s)
  show ?case
  proof (cases s rule: strtok_blank)
    case 1
    then show ?thesis using words_from_blanks [of s "[]"] by (simp add: line_words.simps [of s])
  next
    case (2 b tok)
    have "words_from [] s = words_from [] tok" unfolding 2(2) using 2(3) by (rule words_from_blanks)
    also have "\<dots> = (if clean_word tok = [] then [] else [clean_word tok])"
      using "1.prems" 2 by (intro clean_word_alone) (simp_all add: butlast_append)
    also have "\<dots> = line_words s" using 2(1) by (simp add: line_words.simps [of s] line_words.simps [of "[]"] strtok_def)
    finally show ?thesis by simp
  next
    case (3 b tok rest)
    have nl: "CHR 0x0A \<notin> set tok" "CHR 0x0A \<notin> set (butlast rest)"
      using "1.prems" unfolding 3(2) by (auto simp: butlast_append split: if_splits)
    have "words_from [] s = words_from [] (tok @ CHR 0x20 # rest)" unfolding 3(2) using 3(3) by (rule words_from_blanks)
    also have "\<dots> = words_from [] tok @ words_from [] rest" by (rule words_from_sep) simp
    also have "words_from [] rest = line_words rest" using "1.IH" [OF 3(1) refl] nl(2) by simp
    also have "words_from [] tok @ line_words rest = line_words s"
      using 3(1,4) words_from_plain [OF 3(5) nl(1), of "[]"] clean_word_plain(1) [OF 3(4) nl(1)]
      by (simp add: line_words.simps [of s])
    finally show ?thesis by simp
  qed
qed

lemma text_words_eq: "nul_free s \<Longrightarrow> short_lines s \<Longrightarrow> text_words s = words_from [] s"
proof (induction s rule: text_words.induct)
  case (1 s)
  let ?k = "length (takeWhile (\<lambda>c. c \<noteq> CHR 0x0A) s)"
  show ?case
  proof (cases "s = []")
    case False
    show ?thesis
    proof (cases "?k < length s")
      case True
      have nl: "s ! ?k = CHR 0x0A" using nth_length_takeWhile [OF True] by simp
      have "?k < 1023"
      proof (rule ccontr)
        assume "\<not> ?k < 1023"
        then have "take 1023 s = take 1023 (takeWhile (\<lambda>c. c \<noteq> CHR 0x0A) s)" by (metis length_takeWhile_le linorder_not_less takeWhile_eq_take take_take min_def)
        moreover have "CHR 0x0A \<in> set (take 1023 (drop 0 s))"
          using 1(3) True \<open>\<not> ?k < 1023\<close> unfolding short_lines_def by (metis add_0 le_trans less_imp_le linorder_not_less)
        ultimately show False by (auto dest!: in_set_takeD set_takeWhileD)
      qed
      let ?line = "take (Suc ?k) s" and ?rest = "drop (Suc ?k) s"
      have f: "fgets wf_linebuff s False = Some (?line, ?rest)"
        using False True \<open>?k < 1023\<close> by (simp add: fgets_def wf_linebuff_def Let_def)
      have line: "?line = take ?k s @ [CHR 0x0A]" using nl True by (simp add: take_Suc_conv_app_nth)
      have tk: "take ?k s = takeWhile (\<lambda>c. c \<noteq> CHR 0x0A) s" by (metis takeWhile_eq_take)
      have but: "CHR 0x0A \<notin> set (butlast ?line)" unfolding line tk by (auto dest: set_takeWhileD)
      have s: "s = take ?k s @ CHR 0x0A # ?rest" using nl True by (metis id_take_nth_drop)
      have "nul_free ?line" "nul_free ?rest" using 1(2) by (auto simp: nul_free_def dest: in_set_takeD in_set_dropD)
      moreover have "short_lines ?rest" using 1(3) by (rule short_lines_drop)
      ultimately have "text_words s = words_from [] ?line @ words_from [] ?rest"
        using 1(1) [OF f refl] f line_words_eq [OF but] by (simp add: text_words.simps [of s])
      also have "words_from [] ?line = words_from [] (take ?k s)"
        unfolding line using words_from_sep [of "CHR 0x0A" "[]" "take ?k s" "[]"] by simp
      also have "words_from [] (take ?k s) @ words_from [] ?rest = words_from [] s"
        using words_from_sep [of "CHR 0x0A" "[]" "take ?k s" ?rest] s by metis
      finally show ?thesis .
    next
      case no: False
      have "takeWhile (\<lambda>c. c \<noteq> CHR 0x0A) s = take ?k s" by (rule takeWhile_eq_take)
      also have "\<dots> = s" using no by (intro take_all) simp
      finally have all: "CHR 0x0A \<notin> set s" by (auto simp: takeWhile_eq_all_conv)
      have len: "length s < 1023"
      proof (rule ccontr)
        assume "\<not> length s < 1023"
        then have "CHR 0x0A \<in> set (take 1023 (drop 0 s))" using 1(3) unfolding short_lines_def by (metis add_0 linorder_not_less)
        then show False using all by (auto dest: in_set_takeD)
      qed
      have f: "fgets wf_linebuff s False = Some (s, [])" using False no len by (simp add: fgets_def wf_linebuff_def Let_def)
      have "CHR 0x0A \<notin> set (butlast s)" using all by (auto dest: in_set_butlastD)
      then show ?thesis using f 1(2) line_words_eq by (simp add: text_words.simps [of s] text_words.simps [of "[]"] fgets_def)
    qed
  qed (simp add: text_words.simps [of "[]"] fgets_def)
qed

end
