(* ===== verification/WordFreqLoops.thy ===== *)
theory WordFreqLoops
  imports WordFreqRun
begin

text \<open>
  The loops of simpleapi/inref/wordfreq.c on an ordered database: \<open>words\<close> has the count of
  each word, \<open>index\<close> has each word under its count, and the rows come out sorted.
\<close>

definition tallied :: "'db ydb \<Rightarrow> string \<Rightarrow> string list \<Rightarrow> 'db \<Rightarrow> bool" where
  "tallied Y words ws db \<longleftrightarrow> (\<forall>s. node Y db words s =
     (case s of [w] \<Rightarrow> if w \<in> set ws then Some (dec (int (count_list ws w))) else None | _ \<Rightarrow> None))"

definition indexed :: "'db ydb \<Rightarrow> string \<Rightarrow> string list \<Rightarrow> string set \<Rightarrow> 'db \<Rightarrow> bool" where
  "indexed Y index ws W db \<longleftrightarrow> (\<forall>s. node Y db index s =
     (case s of [c, w] \<Rightarrow> if w \<in> W \<and> c = dec (int (count_list ws w)) then Some [] else None | _ \<Rightarrow> None))"

lemma tallied_node:
  assumes "tallied Y words ws db"
  shows "node Y db words (v # r) = (if r = [] \<and> v \<in> set ws then Some (dec (int (count_list ws v))) else None)"
  using assms unfolding tallied_def by (cases r) simp_all

lemma indexed_node:
  assumes "indexed Y index ws W db"
  shows "node Y db index [c] = None"
    "node Y db index (c # v # r) = (if r = [] \<and> v \<in> W \<and> c = dec (int (count_list ws v)) then Some [] else None)"
  using assms unfolding indexed_def by (cases r; simp)+

lemma tallied_subscripts: "tallied Y words ws db \<Longrightarrow> subscripts Y db words [] = set ws"
  by (simp add: subscripts_def tallied_node)

lemma indexed_subscripts:
  assumes "indexed Y index ws W db"
  shows "subscripts Y db index [] = (\<lambda>w. dec (int (count_list ws w))) ` W"
    "subscripts Y db index [dec (int n)] = {w \<in> W. count_list ws w = n}"
proof -
  have "(\<exists>r. node Y db index (c # r) \<noteq> None) \<longleftrightarrow> (\<exists>v \<in> W. c = dec (int (count_list ws v)))" for c
  proof
    assume "\<exists>r. node Y db index (c # r) \<noteq> None"
    then obtain r where r: "node Y db index (c # r) \<noteq> None" by blast
    then obtain v r' where "r = v # r'" using indexed_node(1) [OF assms] by (cases r) auto
    then show "\<exists>v \<in> W. c = dec (int (count_list ws v))" using r indexed_node(2) [OF assms] by (auto split: if_splits)
  next
    assume "\<exists>v \<in> W. c = dec (int (count_list ws v))"
    then obtain v where "v \<in> W" "c = dec (int (count_list ws v))" by blast
    then have "node Y db index (c # [v]) \<noteq> None" using indexed_node(2) [OF assms, of c v "[]"] by simp
    then show "\<exists>r. node Y db index (c # r) \<noteq> None" by blast
  qed
  then show "subscripts Y db index [] = (\<lambda>w. dec (int (count_list ws w))) ` W" by (auto simp: subscripts_def)
  show "subscripts Y db index [dec (int n)] = {w \<in> W. count_list ws w = n}"
    using indexed_node(2) [OF assms] by (auto simp: subscripts_def)
qed

lemma clean_word_length: "length (clean_word tok) \<le> length tok"
  by (simp add: clean_word_def Let_def)

lemma line_words_length: "length (line_words s) \<le> length s"
proof (induction s rule: line_words.induct)
  case (1 s)
  show ?case
  proof (cases "strtok '' '' s")
    case (Some p)
    then obtain tok rest where p: "strtok '' '' s = Some (tok, rest)" by (cases p) simp
    have "length (line_words rest) \<le> length rest" using 1 [OF p refl] .
    with strtok_shorter [OF p] show ?thesis by (simp add: line_words.simps [of s] p)
  qed (simp add: line_words.simps [of s])
qed

lemma text_words_length: "length (text_words s) \<le> length s"
proof (induction s rule: text_words.induct)
  case (1 s)
  show ?case
  proof (cases "fgets wf_linebuff s False")
    case (Some p)
    then obtain line rest where p: "fgets wf_linebuff s False = Some (line, rest)" by (cases p) simp
    have "length (line_words (c_str line)) \<le> length line"
      by (rule order_trans [OF line_words_length]) (simp add: c_str_def length_takeWhile_le)
    moreover have "length line + length rest = length s"
      using p by (auto simp: fgets_def Let_def split: if_splits)
    ultimately show ?thesis using 1 [OF p refl] by (simp add: text_words.simps [of s] p)
  qed (simp add: text_words.simps [of s])
qed

context ordered_db
begin

subsection \<open>Counting\<close>

lemma count_word_runs:
  assumes "tallied Y words ws db" "int (length ws) < 10 ^ 18 - 1"
  shows "\<exists>db'. count_word Y words tok db = Inr (Go (), db') \<and>
    tallied Y words (ws @ (if clean_word tok = [] then [] else [clean_word tok])) db' \<and>
    (\<forall>g s. g \<noteq> words \<longrightarrow> node Y db' g s = node Y db g s)"
proof (cases "clean_word tok = []")
  case False
  let ?w = "clean_word tok" and ?a = "int (count_list ws (clean_word tok))"
  have a: "case node Y db words [?w] of None \<Rightarrow> ?a = 0 | Some v \<Rightarrow> v = dec ?a"
    using assms(1) by (simp add: tallied_def count_list_0_iff)
  have "count_list ws ?w \<le> length ws" by (rule count_le_length)
  then have b: "\<bar>?a\<bar> < 10 ^ 18" using assms(2) by linarith
  have run: "incr_ok Y words [?w] None db = Inr (Go (dec (?a + 1)), bumped Y words [?w] None db)"
    "node Y (bumped Y words [?w] None db) g s = (if g = words \<and> s = [?w] then Some (dec (?a + 1)) else node Y db g s)" for g s
    using incr_runs(1) [OF a b, of 1 None] incr_bumped(2) [OF a b, of 1 None] by simp_all
  have "tallied Y words (ws @ [?w]) (bumped Y words [?w] None db)"
    using assms(1) run(2) by (auto simp: tallied_def split: list.splits)
  then show ?thesis
    using False run by (intro exI [of _ "bumped Y words [?w] None db"]) (simp add: count_word_def)
qed (use assms(1) in \<open>simp add: count_word_def\<close>)

lemma count_line_runs:
  assumes "tallied Y words ws db" "int (length ws + length line) < 10 ^ 18 - 1"
  shows "\<exists>db'. count_line Y words line db = Inr (Go (), db') \<and> tallied Y words (ws @ line_words line) db' \<and>
    (\<forall>g s. g \<noteq> words \<longrightarrow> node Y db' g s = node Y db g s)"
  using assms
proof (induction line arbitrary: ws db rule: line_words.induct)
  case (1 line)
  show ?case
  proof (cases "strtok '' '' line")
    case None
    then show ?thesis using 1(2) by (intro exI [of _ db]) (simp add: count_line.simps [of _ _ line] line_words.simps [of line])
  next
    case (Some p)
    then obtain tok rest where p: "strtok '' '' line = Some (tok, rest)" by (cases p) simp
    let ?ws = "ws @ (if clean_word tok = [] then [] else [clean_word tok])"
    obtain d where d: "count_word Y words tok db = Inr (Go (), d)" "tallied Y words ?ws d"
      "\<forall>g s. g \<noteq> words \<longrightarrow> node Y d g s = node Y db g s"
      using count_word_runs [OF 1(2), of tok] 1(3) by auto
    have "int (length ?ws + length rest) < 10 ^ 18 - 1" using 1(3) strtok_shorter [OF p] by auto
    from 1(1) [OF p refl d(2) this] obtain db' where
      "count_line Y words rest d = Inr (Go (), db')" "tallied Y words (?ws @ line_words rest) db'"
      "\<forall>g s. g \<noteq> words \<longrightarrow> node Y db' g s = node Y d g s" by blast
    then show ?thesis using d
      by (intro exI [of _ db']) (simp add: p count_line.simps [of _ _ line] line_words.simps [of line])
  qed
qed

lemma count_lines_runs:
  assumes "tallied Y words ws db" "int (length ws + length stdin) < 10 ^ 18 - 1"
  shows "\<exists>db'. count_lines Y words stdin db = Inr (Go (), db') \<and> tallied Y words (ws @ text_words stdin) db' \<and>
    (\<forall>g s. g \<noteq> words \<longrightarrow> node Y db' g s = node Y db g s)"
  using assms
proof (induction stdin arbitrary: ws db rule: text_words.induct)
  case (1 stdin)
  show ?case
  proof (cases "fgets wf_linebuff stdin False")
    case None
    then show ?thesis using 1(2) by (intro exI [of _ db]) (simp add: count_lines.simps [of _ _ stdin] text_words.simps [of stdin])
  next
    case (Some p)
    then obtain line rest where p: "fgets wf_linebuff stdin False = Some (line, rest)" by (cases p) simp
    let ?l = "c_str line"
    have "length line + length rest = length stdin" using p by (auto simp: fgets_def Let_def split: if_splits)
    moreover have l: "length ?l \<le> length line" by (simp add: c_str_def length_takeWhile_le)
    ultimately have "int (length ws + length ?l) < 10 ^ 18 - 1" "int (length (ws @ line_words ?l) + length rest) < 10 ^ 18 - 1"
      using 1(3) line_words_length [of ?l] by auto
    with count_line_runs [OF 1(2), of ?l] obtain d where d: "count_line Y words ?l db = Inr (Go (), d)"
      "tallied Y words (ws @ line_words ?l) d" "\<forall>g s. g \<noteq> words \<longrightarrow> node Y d g s = node Y db g s" by blast
    from 1(1) [OF p refl d(2)] \<open>int (length (ws @ line_words ?l) + length rest) < 10 ^ 18 - 1\<close> obtain db' where
      "count_lines Y words rest d = Inr (Go (), db')" "tallied Y words ((ws @ line_words ?l) @ text_words rest) db'"
      "\<forall>g s. g \<noteq> words \<longrightarrow> node Y db' g s = node Y d g s" by blast
    then show ?thesis using d
      by (intro exI [of _ db']) (simp add: p count_lines.simps [of _ _ stdin] text_words.simps [of stdin])
  qed
qed

subsection \<open>The index\<close>

lemma beside_found: "length v \<le> wf_buff \<Longrightarrow> v \<noteq> [] \<Longrightarrow> beside_or_end Y (YDB_OK, v) db = Inr (Go (Some v), db)"
  and beside_none: "beside_or_end Y (YDB_ERR_NODEEND Y, v) db = Inr (Go None, db)"
  by (simp_all add: beside_or_end_def asserted_def into_buffer_def)

lemma length_count: "int (length ws) < 10 ^ 9 \<Longrightarrow> length (dec (int (count_list ws w))) \<le> 20"
proof -
  assume *: "int (length ws) < 10 ^ 9"
  have "count_list ws w \<le> length ws" by (rule count_le_length)
  then have "is_int32 (int (count_list ws w))" using * by (simp add: is_int32_def)
  from length_dec [OF this] show ?thesis by simp
qed

lemma index_runs:
  assumes "tallied Y words ws db" "indexed Y index ws W db" "words \<noteq> index" "\<forall>w \<in> set ws. w \<noteq> [] \<and> length w \<le> wf_buff"
    "int (length ws) < 10 ^ 9" "sorted_wrt before xs" "set xs = {v \<in> set ws. u = [] \<or> before u v}" "length xs < fuel"
  shows "\<exists>db'. index_words Y words index fuel u db = Inr (Go (Some (List.last (u # xs))), db') \<and>
    indexed Y index ws (W \<union> set xs) db'"
  using assms(1,2,6-8)
proof (induction xs arbitrary: u W db fuel)
  case Nil
  then obtain f where fuel: "fuel = Suc f" by (cases fuel) auto
  have "ydb_subscript_next_s Y db words ([] @ [u]) = (YDB_ERR_NODEEND Y, [])"
    using Nil(4) assms(4) tallied_subscripts [OF Nil(1)] by (intro next_none [of "set ws"]) auto
  then show ?case using Nil(2) by (intro exI [of _ db]) (simp add: fuel beside_none)
next
  case (Cons x xs)
  then obtain f where fuel: "fuel = Suc f" "length xs < f" by (cases fuel) auto
  have "[] \<notin> set ws" using assms(4) by blast
  note nx = next_found [OF Cons(4,5) this finite_set tallied_subscripts [OF Cons(2)]]
  have x: "x \<in> set ws" using Cons(5) by auto
  then have ok: "length x \<le> wf_buff" "x \<noteq> []" using assms(4) by blast+
  let ?c = "dec (int (count_list ws x))" and ?d = "put Y index [dec (int (count_list ws x)), x] [] db"
  have "node Y db words [x] = Some ?c" using Cons(2) x by (simp add: tallied_def)
  then have get: "get_ok Y wf_buff words [x] db = Inr (Go ?c, db)"
    using length_count [OF assms(5), of x] by (intro get_runs(1)) (simp_all add: wf_buff_def)
  have "tallied Y words ws ?d" using Cons(2) assms(3) by (simp add: tallied_def)
  moreover have "indexed Y index ws (insert x W) ?d" using Cons(3) by (auto simp: indexed_def split: list.splits)
  moreover have "sorted_wrt before xs" "set xs = {v \<in> set ws. x = [] \<or> before x v}" using Cons(4) nx(2) by auto
  ultimately obtain db' where db': "index_words Y words index f x ?d = Inr (Go (Some (List.last (x # xs))), db')"
    "indexed Y index ws (insert x W \<union> set xs) db'"
    using Cons.IH fuel(2) by blast
  then show ?case using nx(1) get ok by (intro exI [of _ db']) (simp add: fuel(1) beside_found)
qed

end

end
