(* ===== verification/WordFreqProps.thy ===== *)
theory WordFreqProps
  imports WordFreqLoops
begin

text \<open>
  The properties of simpleapi/inref/wordfreq.c: what it prints, and for which inputs it
  prints nothing although there are words.
\<close>

section \<open>Printing\<close>

text \<open>The rows: for each count, from the highest on, the words with that count in their order.\<close>

definition row_list :: "(nat \<Rightarrow> string list) \<Rightarrow> nat list \<Rightarrow> (nat \<times> string) list" where
  "row_list L ns = concat (List.map (\<lambda>n. List.map (\<lambda>w. (n, w)) (L n)) ns)"

definition row_less :: "(string \<Rightarrow> string \<Rightarrow> bool) \<Rightarrow> nat \<times> string \<Rightarrow> nat \<times> string \<Rightarrow> bool" where
  "row_less before = (\<lambda>(n, w) (m, v). m < n \<or> n = m \<and> before w v)"

lemma row_list_sorted:
  assumes "sorted_wrt (>) ns" "\<And>n. n \<in> set ns \<Longrightarrow> sorted_wrt before (L n)"
  shows "sorted_wrt (row_less before) (row_list L ns)"
  using assms
proof (induction ns)
  case (Cons n ns)
  have "sorted_wrt (row_less before) (List.map (\<lambda>w. (n, w)) (L n))"
    using Cons.prems(2) [of n] by (simp add: sorted_wrt_map row_less_def)
  then show ?case using Cons by (auto simp: row_list_def sorted_wrt_append row_less_def)
qed (simp add: row_list_def)

lemma row_list_prints:
  "concat (List.map (\<lambda>n. concat (List.map (wf_row (dec (int n))) (L n))) ns) =
     concat (List.map (\<lambda>(n, w). wf_row (dec (int n)) w) (row_list L ns))"
proof (induction ns)
  case (Cons n ns)
  have "concat (List.map (wf_row (dec (int n))) ws) = concat (List.map (\<lambda>(n, w). wf_row (dec (int n)) w) (List.map (\<lambda>w. (n, w)) ws))" for ws
    by (induction ws) simp_all
  then show ?case using Cons by (simp add: row_list_def)
qed (simp add: row_list_def)

lemma sorted_distinct: "irreflp R \<Longrightarrow> sorted_wrt R xs \<Longrightarrow> distinct xs"
  by (induction xs) (auto simp: irreflp_def)

lemma distinct_length:
  assumes "distinct xs" "set xs \<subseteq> f ` set ws"
  shows "length xs \<le> length ws"
proof -
  have "length xs = card (set xs)" using assms(1) by (simp add: distinct_card)
  also have "\<dots> \<le> card (f ` set ws)" using assms(2) by (intro card_mono) simp_all
  also have "\<dots> \<le> length ws" by (rule order_trans [OF card_image_le card_length]) simp
  finally show ?thesis .
qed

lemma words_from_nul_free: "nul_free w \<Longrightarrow> nul_free s \<Longrightarrow> \<forall>v \<in> set (words_from w s). nul_free v"
proof (induction w s rule: words_from.induct)
  case (2 w c s)
  then have "nul_free (w @ [tolower c])" "nul_free s" using tolower_NUL_iff [of c] by (auto simp: nul_free_def simp del: tolower_NUL_iff)
  then show ?case using 2 by auto
qed auto

lemma words_from_not_Nil: "[] \<notin> set (words_from w s)"
  by (induction w s rule: words_from.induct) auto

context ordered_db
begin

lemma print_words_runs:
  assumes "indexed Y index ws (set ws) db" "\<forall>w \<in> set ws. w \<noteq> [] \<and> length w < wf_buff" "length (dec (int n)) < wf_buff"
    and "sorted_wrt before xs" "set xs = {v \<in> {w \<in> set ws. count_list ws w = n}. u = [] \<or> before u v}" "length xs < fuel"
  shows "print_words Y index fuel (dec (int n)) u db = Inr (Go (Some (concat (List.map (wf_row (dec (int n))) xs))), db)"
  using assms(4-6)
proof (induction xs arbitrary: u fuel)
  case Nil
  then obtain f where fuel: "fuel = Suc f" by (cases fuel) auto
  have "ydb_subscript_next_s Y db index ([dec (int n)] @ [u]) = (YDB_ERR_NODEEND Y, [])"
    using Nil(2) assms(2) indexed_subscripts(2) [OF assms(1)] by (intro next_none [of "{w \<in> set ws. count_list ws w = n}"]) auto
  then show ?case by (simp add: fuel beside_none)
next
  case (Cons x xs)
  then obtain f where fuel: "fuel = Suc f" "length xs < f" by (cases fuel) auto
  let ?S = "{w \<in> set ws. count_list ws w = n}"
  have "[] \<notin> ?S" "finite ?S" using assms(2) by auto
  note nx = next_found [OF Cons(2,3) this indexed_subscripts(2) [OF assms(1)]]
  have "x \<in> set ws" using Cons(3) by auto
  then have x: "length x \<le> wf_buff" "x \<noteq> []" "length x < wf_buff" using assms(2) by (auto intro: less_imp_le)
  have "print_words Y index f (dec (int n)) x db = Inr (Go (Some (concat (List.map (wf_row (dec (int n))) xs))), db)"
    using Cons.IH [of x f] Cons(2) nx(2) fuel(2) by auto
  then show ?case using nx(1) x assms(3) by (simp add: fuel(1) beside_found nul_ended_def)
qed

lemma print_counts_runs:
  assumes "indexed Y index ws (set ws) db" "\<forall>w \<in> set ws. w \<noteq> [] \<and> length w < wf_buff" "int (length ws) < 10 ^ 9"
    and L: "\<And>n. sorted_wrt before (L n) \<and> set (L n) = {w \<in> set ws. count_list ws w = n}"
    and "sorted_wrt (>) ns" "set ns \<subseteq> count_list ws ` set ws" "(\<lambda>n. dec (int n)) ` set ns = {v \<in> (\<lambda>w. dec (int (count_list ws w))) ` set ws. u = [] \<or> before v u}"
    and "\<forall>n \<in> set ns. length (L n) + length ns < fuel" "length ns < fuel"
  shows "print_counts Y index fuel u db = Inr (Go (Some (concat (List.map (\<lambda>n. concat (List.map (wf_row (dec (int n))) (L n))) ns))), db)"
  using assms(5-9)
proof (induction ns arbitrary: u fuel)
  case Nil
  then obtain f where fuel: "fuel = Suc f" by (cases fuel) auto
  have "ydb_subscript_previous_s Y db index ([] @ [u]) = (YDB_ERR_NODEEND Y, [])"
    using Nil(3) indexed_subscripts(1) [OF assms(1)]
    by (intro previous_none [of "(\<lambda>w. dec (int (count_list ws w))) ` set ws"]) (auto simp: image_iff dec_not_Nil [symmetric] simp del: dec_not_Nil)
  then show ?case by (simp add: fuel beside_none)
next
  case (Cons n ns)
  then obtain f where fuel: "fuel = Suc f" "length ns < f" by (cases fuel) auto
  let ?C = "(\<lambda>w. dec (int (count_list ws w))) ` set ws" and ?ds = "List.map (\<lambda>n. dec (int n))"
  have small: "\<bar>int m\<bar> < 10 ^ 18" if "m \<in> set (n # ns)" for m
  proof -
    obtain w where "m = count_list ws w" using Cons(3) \<open>m \<in> set (n # ns)\<close> by blast
    then have "m \<le> length ws" using count_le_length by simp
    then show ?thesis using assms(3) by simp
  qed
  have "before\<inverse>\<inverse> (dec (int a)) (dec (int b))" if "a \<in> set (n # ns)" "b \<in> set (n # ns)" "b < a" for a b
    using before_numbers(1) [of "int b" "int a"] small that by simp
  then have sorted: "sorted_wrt before\<inverse>\<inverse> (?ds (n # ns))"
    using sorted_wrt_mono_rel [OF _ Cons(2), of "\<lambda>a b. before\<inverse>\<inverse> (dec (int a)) (dec (int b))"] unfolding sorted_wrt_map by blast
  have C: "[] \<notin> ?C" "finite ?C" by (simp_all add: image_iff dec_not_Nil [symmetric] del: dec_not_Nil)
  have "set (?ds (n # ns)) = {v \<in> ?C. u = [] \<or> before v u}" using Cons(4) by simp
  note pv = previous_found [OF sorted [unfolded list.map] this [unfolded list.map] C indexed_subscripts(1) [OF assms(1)]]
  have n: "length (dec (int n)) < wf_buff"
  proof -
    obtain w where "n = count_list ws w" using Cons(3) by auto
    then show ?thesis using length_count [OF assms(3), of w] by (simp add: wf_buff_def)
  qed
  have "print_words Y index f (dec (int n)) [] db = Inr (Go (Some (concat (List.map (wf_row (dec (int n))) (L n)))), db)"
    using L [of n] Cons(5) fuel by (intro print_words_runs [OF assms(1,2) n]) auto
  moreover have "print_counts Y index f (dec (int n)) db =
      Inr (Go (Some (concat (List.map (\<lambda>n. concat (List.map (wf_row (dec (int n))) (L n))) ns))), db)"
  proof (rule Cons.IH)
    show "(\<lambda>n. dec (int n)) ` set ns = {v \<in> ?C. dec (int n) = [] \<or> before v (dec (int n))}" using pv(2) by simp
    show "\<forall>n \<in> set ns. length (L n) + length ns < f" using Cons(5) fuel(1) by auto
  qed (use Cons(2,3) fuel(2) in auto)
  ultimately show ?case using pv(1) n by (simp add: fuel(1) beside_found)
qed

text \<open>The whole run, up to the cursor the index loop leaves in \<open>tmp1\<close>.\<close>

lemma wordfreq_runs:
  assumes "nul_free stdin" "short_lines stdin" "int (length stdin) < 10 ^ 9" "ws = words_from [] stdin" "\<forall>w \<in> set ws. length w < 64"
    and "c_mod pid 2 \<noteq> 0 \<Longrightarrow> \<forall>s. node Y db ''words'' s = None \<and> node Y db ''index'' s = None"
    and xs: "sorted_wrt before xs" "set xs = set ws" and fuel: "2 * length stdin + 2 \<le> fuel"
    and L: "\<And>n. sorted_wrt before (L n) \<and> set (L n) = {w \<in> set ws. count_list ws w = n}"
    and ns: "sorted_wrt (>) ns" "set ns \<subseteq> count_list ws ` set ws"
      "(\<lambda>n. dec (int n)) ` set ns = {v \<in> (\<lambda>w. dec (int (count_list ws w))) ` set ws. xs = [] \<or> before v (List.last xs)}"
  shows "\<exists>db'. wordfreq_main Y pid fuel stdin db =
    Inr (Go (Some (concat (List.map (\<lambda>(n, w). dec (int n) @ CHR 0x09 # w @ [CHR 0x0A]) (row_list L ns)))), db')"
proof -
  obtain words index where names: "wf_names pid = (words, index)" "words \<noteq> index" by (cases "c_mod pid 2 = 0") (simp_all add: wf_names_def)
  obtain d1 where d1: "onlyIf (c_mod pid 2 = 0) [delete_any Y words, delete_any Y index] db = Inr (Go (), d1)"
    "tallied Y words [] d1" "indexed Y index [] {} d1"
  proof (cases "c_mod pid 2 = 0")
    case True
    have "delete_any Y g d = Inr (Go (), deleted Y g [] d)" for g d by (simp add: delete_any_def delete_deleted)
    then show ?thesis using True names by (intro that [of "deleted Y index [] (deleted Y words [] db)"]) (simp_all add: tallied_def indexed_def split: list.split)
  next
    case False
    then show ?thesis using names assms(6) by (intro that [of db]) (auto simp: wf_names_def tallied_def indexed_def split: list.split)
  qed
  have tw: "text_words stdin = ws" using text_words_eq [OF assms(1,2)] assms(4) by simp
  then have len: "length ws \<le> length stdin" using text_words_length by metis
  have "int (length ([] :: string list) + length stdin) < 10 ^ 18 - 1" using assms(3) by simp
  from count_lines_runs [OF d1(2) this] obtain d2 where d2: "count_lines Y words stdin d1 = Inr (Go (), d2)" "tallied Y words ws d2"
    "\<forall>g s. g \<noteq> words \<longrightarrow> node Y d2 g s = node Y d1 g s" unfolding tw append_Nil by blast
  have ix: "indexed Y index ws {} d2" using d1(3) d2(3) names(2) by (auto simp: indexed_def split: list.splits)
  have words: "\<forall>w \<in> set ws. w \<noteq> [] \<and> length w < wf_buff" using assms(4,5) words_from_not_Nil unfolding wf_buff_def by blast
  then have words': "\<forall>w \<in> set ws. w \<noteq> [] \<and> length w \<le> wf_buff" by (auto intro: less_imp_le)
  have small: "int (length ws) < 10 ^ 9" using len assms(3) by linarith
  have "length xs \<le> length ws"
    using sorted_distinct [OF before_order(1) xs(1)] xs(2) by (intro distinct_length [of _ "\<lambda>w. w"]) simp_all
  then have "length xs < fuel" using len fuel by linarith
  moreover have "set ws = {v \<in> set ws. [] = [] \<or> before [] v}" by simp
  ultimately obtain d3 where d3: "index_words Y words index fuel [] d2 = Inr (Go (Some (List.last ([] # xs))), d3)"
    "indexed Y index ws (set ws) d3"
    using index_runs [OF d2(2) ix names(2) words' small xs(1), of "[]" fuel] unfolding xs(2) Un_empty_left by blast
  have fuels: "length (L n) + length ns < fuel" for n
  proof -
    have "distinct (L n)" "distinct ns"
      using L [of n] ns(1) by (auto intro: sorted_distinct [OF before_order(1)] sorted_distinct [of "(>)"] simp: irreflp_def)
    then have "length (L n) \<le> length ws" "length ns \<le> length ws"
      using L [of n] ns(2) by (auto intro: distinct_length [of "L n" "\<lambda>w. w"] distinct_length [of ns "count_list ws"])
    then show ?thesis using len fuel by linarith
  qed
  let ?u = "List.last ([] # xs)"
  have "?u = [] \<longleftrightarrow> xs = []" using words xs(2) by (cases xs rule: rev_cases) auto
  then have "(\<lambda>n. dec (int n)) ` set ns = {v \<in> (\<lambda>w. dec (int (count_list ws w))) ` set ws. ?u = [] \<or> before v ?u}"
    using ns(3) by auto
  moreover have "length ns < fuel" using fuels [of 0] by linarith
  ultimately have "print_counts Y index fuel ?u d3 =
      Inr (Go (Some (concat (List.map (\<lambda>n. concat (List.map (wf_row (dec (int n))) (L n))) ns))), d3)"
    using fuels by (intro print_counts_runs [OF d3(2) words small L ns(1,2)]) simp_all
  moreover have "wf_row (dec (int n)) w = dec (int n) @ CHR 0x09 # w @ [CHR 0x0A]" if "(n, w) \<in> set (row_list L ns)" for n w
  proof -
    have "w \<in> set ws" using that L by (auto simp: row_list_def)
    then have "nul_free w" using words_from_nul_free [of "[]" stdin] assms(1,4) by simp
    then show ?thesis by (simp add: wf_row_def)
  qed
  then have "List.map (\<lambda>(n, w). wf_row (dec (int n)) w) (row_list L ns) =
      List.map (\<lambda>(n, w). dec (int n) @ CHR 0x09 # w @ [CHR 0x0A]) (row_list L ns)"
    by (intro map_cong) auto
  ultimately show ?thesis
    using d1(1) d2(1) d3(1) by (intro exI [of _ d3]) (simp only: wordfreq_main_def names(1) prod.case act_simps continue.simps option.case row_list_prints)
qed

lemma rows_exist:
  obtains xs L ns where "sorted_wrt before xs" "set xs = set ws"
    "\<And>n. sorted_wrt before (L n) \<and> set (L n) = {w \<in> set ws. count_list ws w = n}"
    "sorted_wrt (>) ns" "set ns = count_list ws ` set ws"
proof -
  obtain xs where xs: "sorted_wrt before xs" "set xs = set ws" using sorted_subscripts [of "set ws"] by auto
  have "\<exists>l. sorted_wrt before l \<and> set l = {w \<in> set ws. count_list ws w = n}" for n by (rule sorted_subscripts) simp
  then obtain L where L: "\<And>n. sorted_wrt before (L n) \<and> set (L n) = {w \<in> set ws. count_list ws w = n}" by metis
  let ?ns = "rev (sorted_list_of_set (count_list ws ` set ws))"
  have "sorted_wrt (>) ?ns" "set ?ns = count_list ws ` set ws" by (simp_all add: sorted_wrt_rev strict_sorted_list_of_set)
  then show thesis using that xs L by blast
qed

lemma count_small: "int (length ws) < 10 ^ 9 \<Longrightarrow> \<bar>int (count_list ws w)\<bar> < 10 ^ 18"
proof -
  assume "int (length ws) < 10 ^ 9"
  moreover have "count_list ws w \<le> length ws" by (rule count_le_length)
  ultimately show ?thesis by simp
qed

lemma printed_by_count:
  assumes "nul_free stdin" "short_lines stdin" "int (length stdin) < 10 ^ 9" "ws = words_from [] stdin" "\<forall>w \<in> set ws. length w < 64"
    and "c_mod pid 2 \<noteq> 0 \<Longrightarrow> \<forall>s. node Y db ''words'' s = None \<and> node Y db ''index'' s = None"
    and "2 * length stdin + 2 \<le> fuel" and letter: "ws = [] \<or> (\<exists>c w. c # w \<in> set ws \<and> uc c \<in> {97..122})"
  shows "\<exists>db' rows. wordfreq_main Y pid fuel stdin db =
      Inr (Go (Some (concat (List.map (\<lambda>(n, w). dec (int n) @ CHR 0x09 # w @ [CHR 0x0A]) rows))), db') \<and>
    set rows = (\<lambda>w. (count_list ws w, w)) ` set ws \<and> sorted_wrt (row_less before) rows"
proof -
  obtain xs L ns where *: "sorted_wrt before xs" "set xs = set ws"
    "\<And>n. sorted_wrt before (L n) \<and> set (L n) = {w \<in> set ws. count_list ws w = n}"
    "sorted_wrt (>) ns" "set ns = count_list ws ` set ws" using rows_exist [of ws] by blast
  have "length ws \<le> length stdin" using text_words_eq [OF assms(1,2)] assms(4) text_words_length by metis
  then have small: "int (length ws) < 10 ^ 9" using assms(3) by linarith
  have "before (dec (int (count_list ws v))) (List.last xs)" if ne: "xs \<noteq> []" for v
  proof -
    obtain c w where cw: "c # w \<in> set ws" "uc c \<in> {97..122}" using letter ne *(2) by auto
    have "before (dec (int (count_list ws v))) (c # w)" using before_numbers(2) [OF count_small [OF small] cw(2)] .
    moreover have "c # w = List.last xs \<or> before (c # w) (List.last xs)"
      using *(1,2) cw(1) ne by (cases xs rule: rev_cases) (auto simp: sorted_wrt_append)
    ultimately show ?thesis using before_order(2) by (auto dest: transpD)
  qed
  then have "(\<lambda>n. dec (int n)) ` set ns = {v \<in> (\<lambda>w. dec (int (count_list ws w))) ` set ws. xs = [] \<or> before v (List.last xs)}"
    using *(5) by auto
  from wordfreq_runs [OF assms(1-6) *(1,2) assms(7) *(3,4) _ this] *(5) obtain db' where
    "wordfreq_main Y pid fuel stdin db =
      Inr (Go (Some (concat (List.map (\<lambda>(n, w). dec (int n) @ CHR 0x09 # w @ [CHR 0x0A]) (row_list L ns)))), db')" by blast
  moreover have "(n, w) \<in> set (row_list L ns) \<longleftrightarrow> w \<in> set ws \<and> n = count_list ws w" for n w
    using *(3,5) by (auto simp: row_list_def)
  then have "set (row_list L ns) = (\<lambda>w. (count_list ws w, w)) ` set ws" by auto
  moreover have "sorted_wrt (row_less before) (row_list L ns)" using *(3,4) by (intro row_list_sorted) simp_all
  ultimately show ?thesis by blast
qed

lemma nothing_printed:
  assumes "nul_free stdin" "short_lines stdin" "int (length stdin) < 10 ^ 9" "ws = words_from [] stdin"
    and "c_mod pid 2 \<noteq> 0 \<Longrightarrow> \<forall>s. node Y db ''words'' s = None \<and> node Y db ''index'' s = None"
    and "2 * length stdin + 2 \<le> fuel"
    and numbers: "\<forall>w \<in> set ws. \<exists>k. 0 \<le> k \<and> w = dec k \<and> (\<forall>v \<in> set ws. k \<le> int (count_list ws v))" and "ws \<noteq> []"
  shows "\<exists>db'. wordfreq_main Y pid fuel stdin db = Inr (Go (Some []), db')"
proof -
  obtain xs L ns where *: "sorted_wrt before xs" "set xs = set ws"
    "\<And>n. sorted_wrt before (L n) \<and> set (L n) = {w \<in> set ws. count_list ws w = n}"
    "sorted_wrt (>) ns" "set ns = count_list ws ` set ws" using rows_exist [of ws] by blast
  have "length ws \<le> length stdin" using text_words_eq [OF assms(1,2)] assms(4) text_words_length by metis
  then have small: "int (length ws) < 10 ^ 9" using assms(3) by linarith
  have "length w < 64" if w: "w \<in> set ws" for w
  proof -
    obtain k where k: "0 \<le> k" "w = dec k" "k \<le> int (count_list ws w)" using numbers w by blast
    moreover have "count_list ws w \<le> length ws" by (rule count_le_length)
    ultimately have "is_int32 k" using small by (simp add: is_int32_def)
    from length_dec [OF this] show ?thesis by (simp add: k(2))
  qed
  then have short: "\<forall>w \<in> set ws. length w < 64" by blast
  have ne: "xs \<noteq> []" using assms(8) *(2) by auto
  then have xs: "xs \<noteq> []" "List.last xs \<in> set ws" using *(2) last_in_set [of xs] by auto
  then obtain k where k: "0 \<le> k" "List.last xs = dec k" "\<forall>v \<in> set ws. k \<le> int (count_list ws v)" using numbers by blast
  have "\<not> before (dec (int (count_list ws v))) (dec k)" if "v \<in> set ws" for v
  proof -
    have "\<bar>k\<bar> < 10 ^ 18" using k(1,3) that count_small [OF small, of v] by auto
    then show ?thesis using before_numbers(1) [OF count_small [OF small]] k(3) that by auto
  qed
  then have "(\<lambda>n. dec (int n)) ` set ([] :: nat list) = {v \<in> (\<lambda>w. dec (int (count_list ws w))) ` set ws. xs = [] \<or> before v (List.last xs)}"
    using xs(1) k(2) by auto
  from wordfreq_runs [OF assms(1-4) short assms(5) *(1,2) assms(6) *(3) _ _ this] show ?thesis by (simp add: row_list_def)
qed

end

section \<open>The properties\<close>

text \<open>
  C28: for a text whose lines fit the buffer, whose words are shorter than 64 bytes and one of
  whose words begins with a letter, the program prints one row for each word: its number of
  occurrences and the word, by falling numbers and, among words that are as frequent, in the
  order of the database. The words are those between blanks and newlines, in lower case.
\<close>

theorem words_printed_by_count:
  assumes "ydb_good Y" "collation before" "ydb_order_law Y before"
    and "nul_free stdin" "short_lines stdin" "int (length stdin) < 10 ^ 9" "ws = words_from [] stdin" "\<forall>w \<in> set ws. length w < 64"
    and "ws = [] \<or> (\<exists>c w. c # w \<in> set ws \<and> uc c \<in> {97..122})"
    and "c_mod pid 2 \<noteq> 0 \<Longrightarrow> \<forall>s. node Y db ''words'' s = None \<and> node Y db ''index'' s = None"
    and "2 * length stdin + 2 \<le> fuel"
  shows "\<exists>db' rows. wordfreq_main Y pid fuel stdin db =
      Inr (Go (Some (concat (List.map (\<lambda>(n, w). dec (int n) @ CHR 0x09 # w @ [CHR 0x0A]) rows))), db') \<and>
    set rows = (\<lambda>w. (count_list ws w, w)) ` set ws \<and>
    sorted_wrt (\<lambda>(n, w) (m, v). m < n \<or> n = m \<and> before w v) rows"
proof -
  have "ordered_db Y before" using assms(1-3) by (intro ordered_db.intro calm_db.intro ordered_db_axioms.intro)
  from ordered_db.printed_by_count [OF this assms(4-8,10,11,9)] show ?thesis unfolding row_less_def .
qed

lemma words_printed_by_count_witness:
  "\<exists>db' rows. wordfreq_main map_ydb 7 100 (''The cat and the dog'' @ [CHR 0x0A]) (\<lambda>_. None) =
      Inr (Go (Some (concat (List.map (\<lambda>(n, w). dec (int n) @ CHR 0x09 # w @ [CHR 0x0A]) rows))), db') \<and>
    set rows = {(2, ''the''), (1, ''cat''), (1, ''and''), (1, ''dog'')} \<and>
    sorted_wrt (\<lambda>(n, w) (m, v). m < n \<or> n = m \<and> m_before w v) rows"
proof -
  let ?s = "''The cat and the dog'' @ [CHR 0x0A]" and ?ws = "[''the'', ''cat'', ''and'', ''the'', ''dog'']"
  have ws: "?ws = words_from [] ?s" by (simp add: tolower_def uc_def char_of_def bit_Suc_0_iff)
  have "nul_free ?s" "short_lines ?s" "int (length ?s) < 10 ^ 9" by (simp_all add: nul_free_def NUL_def short_lines_def)
  note inp = this
  have "\<forall>w \<in> set ?ws. length w < 64" by simp
  moreover have "?ws = [] \<or> (\<exists>c w. c # w \<in> set ?ws \<and> uc c \<in> {97..122})"
    by (intro disjI2 exI [of _ "CHR ''c''"] exI [of _ "''at''"]) (simp add: uc_def)
  moreover have "c_mod 7 2 \<noteq> 0 \<Longrightarrow> \<forall>s. node map_ydb (\<lambda>_. None) ''words'' s = None \<and> node map_ydb (\<lambda>_. None) ''index'' s = None"
    by simp
  moreover have "2 * length ?s + 2 \<le> 100" by simp
  ultimately have "\<exists>db' rows. wordfreq_main map_ydb 7 100 ?s (\<lambda>_. None) =
      Inr (Go (Some (concat (List.map (\<lambda>(n, w). dec (int n) @ CHR 0x09 # w @ [CHR 0x0A]) rows))), db') \<and>
    set rows = (\<lambda>w. (count_list ?ws w, w)) ` set ?ws \<and>
    sorted_wrt (\<lambda>(n, w) (m, v). m < n \<or> n = m \<and> m_before w v) rows"
    by (rule words_printed_by_count [OF map_ydb_good m_before_collation map_ydb_order inp ws])
  moreover have "(\<lambda>w. (count_list ?ws w, w)) ` set ?ws = {(2, ''the''), (1, ''cat''), (1, ''and''), (1, ''dog'')}"
    by (simp add: insert_commute numeral_2_eq_2)
  ultimately show ?thesis by (simp only:)
qed

text \<open>
  C29: a text of numbers none of which is larger than any number of occurrences, say the
  single word 1, prints nothing at all: the last word is still in the buffer when the walk
  over the counts begins, and the counts from it on are not visited.
\<close>

theorem numbers_not_printed:
  assumes "ydb_good Y" "collation before" "ydb_order_law Y before"
    and "nul_free stdin" "short_lines stdin" "int (length stdin) < 10 ^ 9" "ws = words_from [] stdin" "ws \<noteq> []"
    and "\<forall>w \<in> set ws. \<exists>k. 0 \<le> k \<and> w = dec k \<and> (\<forall>v \<in> set ws. k \<le> int (count_list ws v))"
    and "c_mod pid 2 \<noteq> 0 \<Longrightarrow> \<forall>s. node Y db ''words'' s = None \<and> node Y db ''index'' s = None"
    and "2 * length stdin + 2 \<le> fuel"
  shows "\<exists>db'. wordfreq_main Y pid fuel stdin db = Inr (Go (Some []), db')"
proof -
  have "ordered_db Y before" using assms(1-3) by (intro ordered_db.intro calm_db.intro ordered_db_axioms.intro)
  from ordered_db.nothing_printed [OF this assms(4-7,10,11,9,8)] show ?thesis .
qed

lemma numbers_not_printed_witness:
  "\<exists>db'. wordfreq_main map_ydb 7 100 (''1 1'' @ [CHR 0x0A]) (\<lambda>_. None) = Inr (Go (Some []), db')"
proof -
  let ?s = "''1 1'' @ [CHR 0x0A]" and ?ws = "[''1'', ''1'']"
  have ws: "?ws = words_from [] ?s" by (simp add: tolower_def uc_def)
  have one: "''1'' = dec 1" by (simp add: dec_def dec_nat.simps digit_char_def char_of_def bit_Suc_0_iff)
  have "nul_free ?s" "short_lines ?s" "int (length ?s) < 10 ^ 9" by (simp_all add: nul_free_def NUL_def short_lines_def)
  note inp = this
  have "?ws \<noteq> []" by simp
  moreover have "\<forall>w \<in> set ?ws. \<exists>k. 0 \<le> k \<and> w = dec k \<and> (\<forall>v \<in> set ?ws. k \<le> int (count_list ?ws v))"
    using one by (intro ballI exI [of _ 1]) simp
  moreover have "c_mod 7 2 \<noteq> 0 \<Longrightarrow> \<forall>s. node map_ydb (\<lambda>_. None) ''words'' s = None \<and> node map_ydb (\<lambda>_. None) ''index'' s = None"
    by simp
  moreover have "2 * length ?s + 2 \<le> 100" by simp
  ultimately show ?thesis by (rule numbers_not_printed [OF map_ydb_good m_before_collation map_ydb_order inp ws])
qed

end
