(* ===== verification/CFloat.thy ===== *)
theory CFloat
  imports CLib Complex_Main
begin

text \<open>
  Floating point as the programs use it: the values are rational numbers, and every operation
  rounds its exact result to \<open>p\<close> binary digits (24 for float, 53 for double), to the nearest
  and to even in the middle. Overflow and subnormal numbers do not occur.
\<close>

definition round_even :: "rat \<Rightarrow> int" where
  "round_even x =
     (let f = \<lfloor>x\<rfloor>; d = x - of_int f
      in if d < 1 / 2 then f else if 1 / 2 < d then f + 1 else if even f then f else f + 1)"

text \<open>The exponent: the first power of two above \<open>x\<close>, from \<open>2 ^ e\<close> on; \<open>n\<close> bounds the search.\<close>

fun expo_from :: "nat \<Rightarrow> rat \<Rightarrow> rat \<Rightarrow> rat" where
  "expo_from 0 e x = e"
| "expo_from (Suc n) e x = (if x < e then e else expo_from n (2 * e) x)"

definition flt_scale :: "nat \<Rightarrow> rat \<Rightarrow> rat" where
  "flt_scale p x = 2 ^ p / expo_from 200 (1 / 2 ^ 100) x"

definition flt :: "nat \<Rightarrow> rat \<Rightarrow> rat" where
  "flt p x = of_int (round_even (x * flt_scale p x)) / flt_scale p x"

text \<open>The conversion of a value that is not negative to an integer.\<close>

definition trunc :: "rat \<Rightarrow> int" where
  "trunc x = \<lfloor>x\<rfloor>"

lemma round_even_le: "x \<le> of_int m \<Longrightarrow> round_even x \<le> m"
proof -
  assume x: "x \<le> of_int m"
  have f: "of_int \<lfloor>x\<rfloor> \<le> x" by simp
  show ?thesis
  proof (cases "\<lfloor>x\<rfloor> < m")
    case True
    then show ?thesis by (simp add: round_even_def Let_def)
  next
    case False
    then have "x = of_int \<lfloor>x\<rfloor>" "\<lfloor>x\<rfloor> = m" using x f by linarith+
    then show ?thesis by (simp add: round_even_def Let_def)
  qed
qed

lemma round_even_ge: "of_int m \<le> x \<Longrightarrow> m \<le> round_even x"
  by (simp add: round_even_def Let_def le_floor_iff) (metis le_floor_iff add_increasing2 zero_le_one)

lemma expo_from_power: "\<exists>k. expo_from n e x = 2 ^ k * e"
proof (induction n arbitrary: e)
  case 0
  show ?case by (intro exI [of _ 0]) simp
next
  case (Suc n)
  obtain k where "expo_from n (2 * e) x = 2 ^ k * (2 * e)" using Suc by blast
  then show ?case by (cases "x < e") (auto intro: exI [of _ 0] exI [of _ "Suc k"])
qed

text \<open>All powers before the exponent are at most \<open>x\<close>.\<close>

lemma expo_from_le: "0 < e \<Longrightarrow> expo_from n e x \<noteq> e \<Longrightarrow> expo_from n e x \<le> 2 * x"
proof (induction n arbitrary: e)
  case (Suc n)
  then have "\<not> x < e" by auto
  then show ?case using Suc.IH [of "2 * e"] Suc.prems by (cases "expo_from n (2 * e) x = 2 * e") auto
qed simp

lemma flt_scale_cases:
  assumes "x \<le> of_int m" "0 \<le> m" "m < 2 ^ p"
  shows "\<exists>i :: int. flt_scale p x * of_int m = of_int i \<and> 0 < flt_scale p x"
proof -
  let ?b = "1 / 2 ^ 100 :: rat" and ?E = "expo_from 200 (1 / 2 ^ 100) x"
  obtain k where k: "?E = 2 ^ k * ?b" using expo_from_power by blast
  have pos: "0 < ?E" unfolding k by simp
  have scale: "flt_scale p x = 2 ^ (p + 100) / 2 ^ k" unfolding flt_scale_def k by (simp add: power_add)
  have "k \<le> p + 100 \<or> m = 0"
  proof (cases "?E = ?b")
    case True
    then have "2 ^ k = (1 :: rat)" using k by simp
    then have "k = 0" using one_less_power [of "2 :: rat" k] by (cases k) simp_all
    then show ?thesis by simp
  next
    case False
    then have "?E \<le> 2 * x" by (intro expo_from_le) simp_all
    also have "\<dots> \<le> 2 * of_int m" using assms(1) by simp
    also have "\<dots> < 2 * 2 ^ p" using assms(3) by (simp add: of_int_less_numeral_power_cancel_iff)
    finally have "2 ^ k < (2 :: rat) ^ (p + 101)" unfolding k by (simp add: power_add field_simps)
    then show ?thesis by simp
  qed
  then show ?thesis
  proof
    assume "k \<le> p + 100"
    then have "flt_scale p x = 2 ^ (p + 100 - k)" unfolding scale by (simp add: power_diff)
    then show ?thesis by (intro exI [of _ "2 ^ (p + 100 - k) * m"]) simp
  qed (intro exI [of _ 0], simp add: scale)
qed

lemma flt_le:
  assumes "x \<le> of_int m" "0 \<le> m" "m < 2 ^ p"
  shows "flt p x \<le> of_int m"
proof -
  obtain i where i: "flt_scale p x * of_int m = of_int i" "0 < flt_scale p x" using flt_scale_cases [OF assms] by blast
  have "x * flt_scale p x \<le> of_int i" using assms(1) i by (metis mult.commute mult_left_mono less_imp_le)
  then have "of_int (round_even (x * flt_scale p x)) \<le> (of_int i :: rat)" using round_even_le by simp
  then show ?thesis unfolding flt_def using i by (simp add: pos_divide_le_eq mult.commute)
qed

text \<open>Integers that fit are kept.\<close>

lemma flt_int:
  assumes "0 \<le> m" "m < 2 ^ p"
  shows "flt p (of_int m) = of_int m"
proof -
  obtain i where i: "flt_scale p (of_int m) * of_int m = of_int i" "0 < flt_scale p (of_int m)"
    using flt_scale_cases [of "of_int m" m p] assms by auto
  have "round_even (of_int i) = i" by (simp add: round_even_def)
  then have "flt p (of_int m) = of_int i / flt_scale p (of_int m)" using i(1) by (simp add: flt_def mult.commute)
  also have "\<dots> = of_int m" unfolding i(1) [symmetric] using i(2) by simp
  finally show ?thesis .
qed

lemma flt_nonneg: "0 \<le> x \<Longrightarrow> 0 \<le> flt p x"
proof -
  assume x: "0 \<le> x"
  obtain k where k: "expo_from 200 (1 / 2 ^ 100) x = 2 ^ k * (1 / 2 ^ 100)" using expo_from_power by blast
  have "0 < flt_scale p x" unfolding flt_scale_def k by simp
  then show ?thesis using x round_even_ge [of 0 "x * flt_scale p x"] by (simp add: flt_def)
qed

lemma trunc_flt_bounds: "0 \<le> x \<Longrightarrow> x \<le> of_int m \<Longrightarrow> m < 2 ^ p \<Longrightarrow> 0 \<le> trunc (flt p x) \<and> trunc (flt p x) \<le> m"
  using flt_nonneg [of x p] flt_le [of x m p] by (simp add: trunc_def floor_le_iff)

text \<open>The relative error is at most half of the last digit.\<close>

lemma round_even_near: "\<bar>of_int (round_even y) - y\<bar> \<le> 1 / 2"
proof -
  have "of_int \<lfloor>y\<rfloor> \<le> y" "y < of_int \<lfloor>y\<rfloor> + 1" by linarith+
  then show ?thesis by (simp add: round_even_def Let_def abs_if) linarith
qed

lemma flt_near:
  assumes "1 / 2 ^ 100 \<le> x"
  shows "\<bar>flt p x - x\<bar> \<le> x / 2 ^ p"
proof -
  let ?b = "1 / 2 ^ 100 :: rat" and ?E = "expo_from 200 (1 / 2 ^ 100) x" and ?s = "flt_scale p x"
  obtain k where "?E = 2 ^ k * ?b" using expo_from_power by blast
  then have E: "0 < ?E" by (metis zero_less_divide_1_iff zero_less_mult_iff zero_less_numeral zero_less_power)
  then have s: "0 < ?s" by (simp add: flt_scale_def)
  have "?E \<le> 2 * x"
  proof (cases "?E = ?b")
    case False
    then show ?thesis by (intro expo_from_le) simp_all
  qed (use assms in simp)
  then have small: "1 / 2 / ?s \<le> x / 2 ^ p" using E by (simp add: flt_scale_def field_simps)
  have "flt p x - x = (of_int (round_even (x * ?s)) - x * ?s) / ?s" using s by (simp add: flt_def field_simps)
  then have "\<bar>flt p x - x\<bar> = \<bar>of_int (round_even (x * ?s)) - x * ?s\<bar> / ?s" using s by simp
  also have "\<dots> \<le> 1 / 2 / ?s" using round_even_near [of "x * ?s"] s by (intro divide_right_mono) simp_all
  finally show ?thesis using small by simp
qed

end
