(* ===== verification/CorruptJnl.thy ===== *)
theory CorruptJnl
  imports CFloat
begin

text \<open>
  com/corrupt_jnlrec.c: overwrites a piece of a journal file behind its last epoch record with
  random data. Offsets and lengths are \<open>unsigned int\<close>; the numbers drawn and whether the file
  can be opened, positioned and written are arguments. The file is the list of its bytes.
\<close>

section \<open>The program\<close>

type_synonym uint4 = "32 word"

definition WRITE_GRANULARITY :: uint4 where "WRITE_GRANULARITY = 4"

text \<open>\<open>drand48\<close>: a multiple of \<open>2 ^ -48\<close> below 1.\<close>

definition drand48 :: "nat \<Rightarrow> rat" where
  "drand48 k = of_nat (k mod 2 ^ 48) / 2 ^ 48"

text \<open>\<open>n * drand48()\<close> as a double, converted to an integer.\<close>

definition scaled :: "int \<Rightarrow> nat \<Rightarrow> int" where
  "scaled n k = trunc (flt 53 (of_int n * drand48 k))"

definition part_of :: "uint4 \<Rightarrow> nat \<Rightarrow> uint4" where
  "part_of n k = word_of_int (scaled (uint n) k)"

datatype cj_end = Usage | Skip | CannotOpen | CannotSeek | SkipTail | CannotWrite | Corrupted uint4 uint4

definition start_offset :: "uint4 \<Rightarrow> uint4 \<Rightarrow> nat \<Rightarrow> nat \<Rightarrow> uint4" where
  "start_offset lastEpochOffset OsFileSize k0 k1 =
     (let len = part_of (OsFileSize - lastEpochOffset) k0;
          len = (len + WRITE_GRANULARITY - 1) div WRITE_GRANULARITY * WRITE_GRANULARITY
      in if drand48 k1 < 1 / 2 then lastEpochOffset else lastEpochOffset + len)"

text \<open>The random data; the index \<open>i\<close> is an \<open>int\<close>, which does not reach all lengths.\<close>

definition random_data :: "(nat \<Rightarrow> nat) \<Rightarrow> uint4 \<Rightarrow> c_fault + mem" where
  "random_data ks len =
     (if 2 ^ 31 \<le> uint len then Inl OutOfBounds
      else Inr (List.map (\<lambda>i. word_of_int (scaled 255 (ks (3 + i)))) [0..<unat len]))"

text \<open>A write from an offset on; one behind the end fills the gap with zeros.\<close>

definition write_at :: "mem \<Rightarrow> nat \<Rightarrow> mem \<Rightarrow> mem" where
  "write_at f i bs = take i f @ replicate (i - length f) 0 @ bs @ drop (i + length bs) f"

definition corrupt_file :: "(nat \<Rightarrow> nat) \<Rightarrow> uint4 \<Rightarrow> uint4 \<Rightarrow> bool \<Rightarrow> bool \<Rightarrow> bool \<Rightarrow> mem \<Rightarrow> c_fault + cj_end \<times> mem" where
  "corrupt_file ks lastEpochOffset OsFileSize open_ok lseek_ok write_ok f =
     (if OsFileSize \<le> lastEpochOffset then Inr (Skip, f)
      else if \<not> open_ok then Inr (CannotOpen, f)
      else
        let badDataStartOffset = start_offset lastEpochOffset OsFileSize (ks 0) (ks 1);
            len = part_of (OsFileSize - badDataStartOffset) (ks 2)
        in if \<not> lseek_ok then Inr (CannotSeek, f)
           else if OsFileSize < badDataStartOffset + len then Inr (SkipTail, f)
           else bindE (random_data ks len) (\<lambda>buff.
             if \<not> write_ok then Inr (CannotWrite, f)
             else Inr (Corrupted badDataStartOffset len, write_at f (unat badDataStartOffset) buff)))"

text \<open>\<open>argv[0]\<close> is the program's name; the file name is copied to 256 bytes.\<close>

definition corrupt_main :: "string list \<Rightarrow> (nat \<Rightarrow> nat) \<Rightarrow> bool \<Rightarrow> bool \<Rightarrow> bool \<Rightarrow> mem \<Rightarrow> c_fault + cj_end \<times> mem" where
  "corrupt_main argv ks open_ok lseek_ok write_ok f =
     (if length argv \<noteq> 4 then Inr (Usage, f)
      else if 256 \<le> length (argv ! 1) then Inl OutOfBounds
      else corrupt_file ks (word_of_int (atoi (argv ! 2))) (word_of_int (atoi (argv ! 3))) open_ok lseek_ok write_ok f)"

section \<open>What it overwrites\<close>

lemma scaled_bounds: "0 \<le> n \<Longrightarrow> n < 2 ^ 53 \<Longrightarrow> 0 \<le> scaled n k \<and> scaled n k \<le> n"
proof -
  assume n: "0 \<le> n" "n < 2 ^ 53"
  have "k mod 2 ^ 48 < 2 ^ 48" by simp
  then have "0 \<le> drand48 k" "drand48 k \<le> 1" by (simp_all add: drand48_def)
  then have "0 \<le> of_int n * drand48 k" "of_int n * drand48 k \<le> of_int n" using n(1) by (simp_all add: mult_left_le)
  then show ?thesis unfolding scaled_def using trunc_flt_bounds n(2) by blast
qed

lemma part_of_le: "uint (part_of n k) = scaled (uint n) k" "part_of n k \<le> n"
proof -
  have "0 \<le> uint n" "uint n < 2 ^ 32" using uint_lt2p [of n] by simp_all
  then have s: "0 \<le> scaled (uint n) k" "scaled (uint n) k \<le> uint n" "uint n < 2 ^ 32" using scaled_bounds [of "uint n" k] by simp_all
  then show *: "uint (part_of n k) = scaled (uint n) k" unfolding part_of_def by (simp add: uint_word_of_int take_bit_int_eq_self)
  show "part_of n k \<le> n" unfolding word_le_def * using s by simp
qed

lemma round_up:
  assumes "uint l + 3 < 2 ^ 32"
  shows "uint ((l + WRITE_GRANULARITY - 1) div WRITE_GRANULARITY * WRITE_GRANULARITY) = (uint l + 3) div 4 * 4"
proof -
  have "l + WRITE_GRANULARITY - 1 = l + 3" by (simp add: WRITE_GRANULARITY_def)
  moreover have "uint (l + 3) = uint l + 3" using assms by (simp add: uint_word_ariths)
  moreover have "uint WRITE_GRANULARITY = 4" by (simp add: WRITE_GRANULARITY_def)
  ultimately have "uint ((l + WRITE_GRANULARITY - 1) div WRITE_GRANULARITY) = (uint l + 3) div 4"
    unfolding uint_div_distrib by metis
  moreover have "(uint l + 3) div 4 * 4 < 2 ^ 32" "0 \<le> (uint l + 3) div 4" using assms by (simp_all add: pos_imp_zdiv_nonneg_iff)
  ultimately show ?thesis by (simp add: WRITE_GRANULARITY_def uint_word_ariths)
qed

text \<open>The offset drawn, without wrap-around.\<close>

lemma start_offset_value:
  assumes "lastEpochOffset < OsFileSize" "uint OsFileSize + 3 < 2 ^ 32"
  shows "uint (start_offset lastEpochOffset OsFileSize k0 k1) = uint lastEpochOffset \<or>
    (\<exists>l. 0 \<le> l \<and> l \<le> uint OsFileSize - uint lastEpochOffset \<and>
       uint (start_offset lastEpochOffset OsFileSize k0 k1) = uint lastEpochOffset + (l + 3) div 4 * 4)"
proof -
  let ?n = "OsFileSize - lastEpochOffset" and ?l = "part_of (OsFileSize - lastEpochOffset) k0"
  let ?r = "(?l + WRITE_GRANULARITY - 1) div WRITE_GRANULARITY * WRITE_GRANULARITY"
  have lt: "uint lastEpochOffset < uint OsFileSize" using assms(1) by (simp add: word_less_def)
  then have n: "uint ?n = uint OsFileSize - uint lastEpochOffset" using uint_sub_lem [of lastEpochOffset OsFileSize] by simp
  have l: "uint ?l \<le> uint ?n" using part_of_le(2) by (simp add: word_le_def)
  then have "uint ?l + 3 < 2 ^ 32" using n assms(2) uint_ge_0 [of lastEpochOffset] by linarith
  note r = round_up [OF this]
  have "uint lastEpochOffset + uint ?r < 2 ^ 32" unfolding r using l n assms(2) by linarith
  then have "uint (lastEpochOffset + ?r) = uint lastEpochOffset + uint ?r" using uint_add_lem [of lastEpochOffset ?r] by simp
  then show ?thesis using r l n by (auto simp: start_offset_def Let_def intro!: exI [of _ "uint ?l"])
qed

lemma start_offset_in_file:
  assumes "lastEpochOffset < OsFileSize" "uint OsFileSize < 2 ^ 31" "4 dvd uint OsFileSize - uint lastEpochOffset"
  shows "lastEpochOffset \<le> start_offset lastEpochOffset OsFileSize k0 k1" "start_offset lastEpochOffset OsFileSize k0 k1 \<le> OsFileSize"
proof -
  obtain q where "uint OsFileSize - uint lastEpochOffset = 4 * q" using assms(3) by auto
  then have "(l + 3) div 4 * 4 \<le> uint OsFileSize - uint lastEpochOffset" if "l \<le> uint OsFileSize - uint lastEpochOffset" for l
    using that by presburger
  moreover have "uint OsFileSize + 3 < 2 ^ 32" using assms(2) by simp
  moreover note start_offset_value [OF assms(1) this, of k0 k1]
  ultimately have "uint lastEpochOffset \<le> uint (start_offset lastEpochOffset OsFileSize k0 k1) \<and>
    uint (start_offset lastEpochOffset OsFileSize k0 k1) \<le> uint OsFileSize"
    using assms(1) unfolding word_less_def by (elim disjE exE conjE) (simp_all add: pos_imp_zdiv_nonneg_iff, metis add.commute le_diff_eq)
  then show "lastEpochOffset \<le> start_offset lastEpochOffset OsFileSize k0 k1" "start_offset lastEpochOffset OsFileSize k0 k1 \<le> OsFileSize"
    by (simp_all add: word_le_def)
qed

lemma write_at_inside:
  assumes "i + length bs \<le> length f"
  shows "length (write_at f i bs) = length f" "take i (write_at f i bs) = take i f"
    "drop (i + length bs) (write_at f i bs) = drop (i + length bs) f"
  using assms by (simp_all add: write_at_def)

text \<open>
  C30: if the distance from the last epoch record to the end of the file is a multiple of the
  granularity, the program either leaves the file alone or overwrites a piece of it that lies
  between the two: the file keeps its size and everything outside of the piece, and the run is
  never given up because the piece would reach behind the end.
\<close>

theorem corruption_stays_inside:
  assumes "lastEpochOffset < OsFileSize" "uint OsFileSize < 2 ^ 31" "4 dvd uint OsFileSize - uint lastEpochOffset"
    and "length f = unat OsFileSize"
  shows "\<exists>e f'. corrupt_file ks lastEpochOffset OsFileSize open_ok lseek_ok write_ok f = Inr (e, f') \<and> e \<noteq> SkipTail \<and> length f' = length f \<and>
    (case e of
       Corrupted off len \<Rightarrow> unat lastEpochOffset \<le> unat off \<and> unat off + unat len \<le> length f \<and>
         take (unat off) f' = take (unat off) f \<and> drop (unat off + unat len) f' = drop (unat off + unat len) f
     | _ \<Rightarrow> f' = f)"
proof -
  let ?off = "start_offset lastEpochOffset OsFileSize (ks 0) (ks 1)"
  let ?len = "part_of (OsFileSize - ?off) (ks 2)"
  note off = start_offset_in_file [OF assms(1-3), of "ks 0" "ks 1"]
  have le: "uint ?len \<le> uint OsFileSize - uint ?off"
    using part_of_le(2) [of "OsFileSize - ?off" "ks 2"] off(2) uint_sub_lem [of ?off OsFileSize] by (simp add: word_le_def)
  moreover have "uint OsFileSize < 2 ^ 32" using assms(2) by simp
  ultimately have sum: "uint (?off + ?len) = uint ?off + uint ?len" using uint_add_lem [of ?off ?len] by simp
  then have no_tail: "\<not> OsFileSize < ?off + ?len" using le by (simp add: word_less_def)
  have "int (unat ?off + unat ?len) \<le> int (unat OsFileSize)" "int (unat lastEpochOffset) \<le> int (unat ?off)"
    using le off(1) by (simp_all add: word_le_def)
  then have nat: "unat ?off + unat ?len \<le> length f" "unat lastEpochOffset \<le> unat ?off" using assms(4) by linarith+
  have small: "\<not> 2 ^ 31 \<le> uint ?len" using le assms(2) uint_ge_0 [of ?off] by linarith
  let ?buff = "List.map (\<lambda>i. word_of_int (scaled 255 (ks (3 + i)))) [0..<unat ?len] :: mem"
  have data: "random_data ks ?len = Inr ?buff" using small by (simp add: random_data_def)
  have "length ?buff = unat ?len" by simp
  note w = write_at_inside [of "unat ?off" ?buff f, unfolded this, OF nat(1)]
  show ?thesis
    using assms(1) no_tail data w nat by (cases open_ok; cases lseek_ok; cases write_ok; simp add: corrupt_file_def Let_def)
qed

lemma corruption_stays_inside_witness:
  "\<exists>e f'. corrupt_file (\<lambda>i. 2 ^ 47 + i) 4 12 True True True [0, 1, 2, 3, 4, 5, 6, 7, 8, 9, 10, 11] = Inr (e, f') \<and> e \<noteq> SkipTail \<and> length f' = 12"
  using corruption_stays_inside [of 4 12 "[0, 1, 2, 3, 4, 5, 6, 7, 8, 9, 10, 11]" "\<lambda>i. 2 ^ 47 + i" True True True] by auto

text \<open>
  With any other distance the offset can come to lie behind the end of the file. The
  remaining size then wraps around, and the program goes wrong: whatever else it draws, it
  does not corrupt a piece of the file, and if the check of the length wraps too, it runs out
  of its buffer.
\<close>

theorem offset_behind_end:
  assumes "OsFileSize < start_offset lastEpochOffset OsFileSize (ks 0) (ks 1)" "lastEpochOffset < OsFileSize" "uint OsFileSize < 2 ^ 31 - 4"
  shows "corrupt_file ks lastEpochOffset OsFileSize True True write_ok f \<in> {Inr (SkipTail, f), Inl OutOfBounds}"
proof -
  let ?off = "start_offset lastEpochOffset OsFileSize (ks 0) (ks 1)"
  let ?len = "part_of (OsFileSize - ?off) (ks 2)"
  have less: "uint OsFileSize < uint ?off" using assms(1) by (simp add: word_less_def)
  have "uint OsFileSize + 3 < 2 ^ 32" using assms(3) by simp
  from start_offset_value [OF assms(2) this, of "ks 0" "ks 1"] assms(2) have off: "uint ?off < 2 ^ 31 - 1"
    using assms(3) by (auto simp: word_less_def)
  show ?thesis
  proof (cases "OsFileSize < ?off + ?len")
    case True
    then show ?thesis using assms(2) by (simp add: corrupt_file_def Let_def)
  next
    case False
    have "uint (?off + ?len) \<noteq> uint ?off + uint ?len"
      using False [unfolded word_less_def] less uint_ge_0 [of ?len] by linarith
    then have "2 ^ 32 \<le> uint ?off + uint ?len" using uint_add_lem [of ?off ?len] by simp
    then have "random_data ks ?len = Inl OutOfBounds" using off by (simp add: random_data_def)
    then show ?thesis using False assms(2) by (simp add: corrupt_file_def Let_def)
  qed
qed

lemma offset_behind_end_witness:
  "corrupt_file (\<lambda>i. 2 ^ 47 + i) 1000 1002 True True True (replicate 1002 0) \<in> {Inr (SkipTail, replicate 1002 0), Inl OutOfBounds}"
proof (rule offset_behind_end)
  have "of_int 2 * drand48 (2 ^ 47) = of_int 1" by (simp add: drand48_def)
  then have "scaled 2 (2 ^ 47) = 1" using flt_int [of 1 53] by (simp add: scaled_def trunc_def)
  then have "part_of (1002 - 1000) (2 ^ 47) = 1" by (simp add: part_of_def)
  moreover have "\<not> drand48 (2 ^ 47 + 1) < 1 / 2" by (simp add: drand48_def)
  ultimately have "start_offset 1000 1002 (2 ^ 47 + 0) (2 ^ 47 + 1) = 1004" by (simp add: start_offset_def WRITE_GRANULARITY_def)
  then show "(1002 :: uint4) < start_offset 1000 1002 (2 ^ 47 + 0) (2 ^ 47 + 1)" by simp
qed simp_all

end
