(* ===== verification/RandomWalk.thy ===== *)
theory RandomWalk
  imports YdbProg CFloat
begin

text \<open>
  simpleapi/inref/randomWalk.c: processes that call random functions of the simple API on four
  variables, in nested transactions, until a time is over. The world of a process, with the
  database, the random numbers, the clock, its log file and the one setting it changes, is
  the state; what acts on it is a record of functions.
\<close>

section \<open>The world\<close>

text \<open>
  \<open>walk_rate\<close> and \<open>walk_set_rate\<close> read and write \<open>settings->nestedTpRate\<close>, memory that all
  calls of a process share.
\<close>

record 'w walk =
  walk_api :: "'w ydb"
  walk_rand :: "'w \<Rightarrow> int \<times> 'w"
  walk_time :: "'w \<Rightarrow> int"
  walk_log :: "string \<Rightarrow> 'w \<Rightarrow> 'w"
  walk_print :: "string \<Rightarrow> 'w \<Rightarrow> 'w"
  walk_rate :: "'w \<Rightarrow> rat"
  walk_set_rate :: "rat \<Rightarrow> 'w \<Rightarrow> 'w"
  ydb_node_next_s :: "'w \<Rightarrow> string \<Rightarrow> string list \<Rightarrow> int \<times> string list"
  ydb_node_previous_s :: "'w \<Rightarrow> string \<Rightarrow> string list \<Rightarrow> int \<times> string list"
  ydb_lock_s :: "'w \<Rightarrow> string list \<Rightarrow> int \<times> 'w"
  ydb_delete_node_s :: "'w \<Rightarrow> string \<Rightarrow> string list \<Rightarrow> int \<times> 'w"
  ydb_delete_excl_s :: "'w \<Rightarrow> string list \<Rightarrow> int \<times> 'w"
  ydb_str2zwr_s :: "'w \<Rightarrow> string \<Rightarrow> int \<times> string"
  ydb_zwr2str_s :: "'w \<Rightarrow> string \<Rightarrow> int \<times> string"
  ydb_encode_s :: "'w \<Rightarrow> string \<Rightarrow> string list \<Rightarrow> int \<times> string"
  ydb_decode_s :: "'w \<Rightarrow> string \<Rightarrow> string list \<Rightarrow> string \<Rightarrow> int \<times> 'w"
  ydb_exit :: "'w \<Rightarrow> int \<times> 'w"
  ydb_init :: "'w \<Rightarrow> int \<times> 'w"
  ydb_message :: "'w \<Rightarrow> int \<Rightarrow> int \<times> string"
  ydb_zstatus :: "'w \<Rightarrow> string"
  YDB_ERR_INVSVN :: int
  YDB_ERR_TPLOCK :: int
  YDB_ERR_INVYDBEXIT :: int
  YDB_ERR_INVSTRLEN :: int

definition RAND_MAX :: int where "RAND_MAX = 2147483647"

definition draw :: "'w walk \<Rightarrow> ('w, int) act" where
  "draw W db = (let (r, db') = walk_rand W db in ret r db')"

definition rand_between :: "'w walk \<Rightarrow> int \<Rightarrow> int \<Rightarrow> ('w, int) act" where
  "rand_between W a b = andThen (draw W) (\<lambda>r. ret (c_mod r (b - a + 1) + a))"

definition log_line :: "'w walk \<Rightarrow> string \<Rightarrow> ('w, unit) act" where
  "log_line W line db = ret () (walk_log W line db)"

definition say :: "'w walk \<Rightarrow> string \<Rightarrow> ('w, unit) act" where
  "say W msg db = ret () (walk_print W msg db)"

definition run_call :: "('w \<Rightarrow> int \<times> 'w) \<Rightarrow> ('w, int) act" where
  "run_call f db = (let (status, db') = f db in ret status db')"

definition run_query :: "('w \<Rightarrow> int \<times> 'a) \<Rightarrow> ('w, int \<times> 'a) act" where
  "run_query f db = ret (f db) db"

section \<open>Names and the log\<close>

definition BASE_LEN :: nat where "BASE_LEN = 11"

definition SUB_LEN :: nat where "SUB_LEN = 5"

text \<open>The strings of a node, its name first, and how many of the five are in use.\<close>

record strArr =
  s_arr :: "string list"
  s_length :: nat

text \<open>
  The pointer that the code stores one place behind its five lies over \<open>length\<close>, which is
  set afterwards.
\<close>

definition genGlobalName :: "'w walk \<Rightarrow> ('w, strArr) act" where
  "genGlobalName W =
     andThen (draw W) (\<lambda>r1. andThen (draw W) (\<lambda>r2.
       let num_subs = nat (c_mod r1 5);
           base = [''^MyGlobal1'', ''^MyGlobal2'', ''MyLocal1xx'', ''MyLocal2xx''] ! nat (c_mod r2 4);
           subs = List.map (\<lambda>i. ''sub'' @ dec (int i)) [0..<num_subs]
       in ret \<lparr>s_arr = base # subs @ replicate (4 - num_subs) [], s_length = num_subs + 1\<rparr>))"

definition quoted :: "string \<Rightarrow> string" where
  "quoted s = CHR 0x22 # s @ [CHR 0x22]"

definition logprint :: "'w walk \<Rightarrow> string \<Rightarrow> strArr \<Rightarrow> string \<Rightarrow> ('w, unit) act" where
  "logprint W prefix var suffix = log_line W
     ('' '' @ prefix @ s_arr var ! 0 @
      (if 1 < s_length var then
         ''('' @ concat (List.map (\<lambda>i. quoted (s_arr var ! (i + 1)) @ '','') [0..<s_length var - 2]) @
         quoted (s_arr var ! (s_length var - 1)) @ '')''
       else []) @ suffix @ [CHR 0x0A])"

text \<open>The node a \<open>strArr\<close> names.\<close>

definition base_of :: "strArr \<Rightarrow> string" where "base_of t = s_arr t ! 0"

definition subs_of :: "strArr \<Rightarrow> string list" where "subs_of t = List.map (\<lambda>i. s_arr t ! (i + 1)) [0..<s_length t - 1]"

section \<open>Statuses\<close>

text \<open>What a test takes for a success, and what it complains about; the status it goes on with.\<close>

definition quiet :: "'w walk \<Rightarrow> int list" where
  "quiet W = [YDB_ERR_GVUNDEF (walk_api W), YDB_ERR_INVSVN W, YDB_ERR_LVUNDEF (walk_api W)]"

definition quiet_lock :: "'w walk \<Rightarrow> int list" where
  "quiet_lock W = quiet W @ [YDB_ERR_TPLOCK W]"

definition unexpected :: "'w walk \<Rightarrow> string \<Rightarrow> int \<Rightarrow> ('w, unit) act" where
  "unexpected W name status db = say W
     (''Unexpected return code ('' @ dec status @ '') issued from '' @ name @ ''! '' @ ydb_zstatus W db @ [CHR 0x0A]) db"

definition settle :: "'w walk \<Rightarrow> int list \<Rightarrow> string \<Rightarrow> int \<Rightarrow> ('w, int) act" where
  "settle W accepted name status =
     (if status = YDB_OK \<or> status \<in> set accepted then ret YDB_OK
      else if status = YDB_TP_RESTART (walk_api W) then ret status
      else andThen (unexpected W name status) (\<lambda>_. ret status))"

text \<open>After a walk: the end of the nodes is no reason to complain, but it stays the status.\<close>

definition settle_walk :: "'w walk \<Rightarrow> string \<Rightarrow> int \<Rightarrow> ('w, int) act" where
  "settle_walk W name status =
     (if status \<noteq> YDB_ERR_NODEEND (walk_api W) then settle W (quiet W) name status else ret status)"

text \<open>A status that must be the one wanted.\<close>

definition wanted :: "'w walk \<Rightarrow> string \<Rightarrow> int \<Rightarrow> int \<Rightarrow> ('w, unit) act" where
  "wanted W name want status = (if status \<noteq> want then unexpected W name status else ret ())"

text \<open>
  The library's answer into a buffer of \<open>n\<close> bytes: one that does not fit is an error, and the
  length of the buffer is the one that had been needed. After any other error a new
  buffer is still empty.
\<close>

definition fitted :: "'w walk \<Rightarrow> nat \<Rightarrow> int \<times> string \<Rightarrow> int \<times> string" where
  "fitted W n r = (if fst r = YDB_OK \<and> n < length (snd r) then (YDB_ERR_INVSTRLEN W, snd r) else r)"

definition answered :: "'w walk \<Rightarrow> string \<Rightarrow> int \<times> string \<Rightarrow> string" where
  "answered W before r = (if fst r = YDB_OK \<or> fst r = YDB_ERR_INVSTRLEN W then snd r else before)"

section \<open>The actions\<close>

definition do_set :: "'w walk \<Rightarrow> strArr \<Rightarrow> ('w, int) act" where
  "do_set W t =
     andThen (logprint W ''set '' t (''='' @ quoted ''MySecretValue'')) (\<lambda>_.
     andThen (run_call (\<lambda>db. ydb_set_s (walk_api W) db (base_of t) (subs_of t) ''MySecretValue'')) (\<lambda>status.
       settle W (quiet W) ''ydb_set_s()'' status))"

definition do_get :: "'w walk \<Rightarrow> strArr \<Rightarrow> ('w, int) act" where
  "do_get W t =
     andThen (logprint W ''set x=$get('' t '')'') (\<lambda>_.
     andThen (run_query (\<lambda>db. fitted W 16 (ydb_get_s (walk_api W) db (base_of t) (subs_of t)))) (\<lambda>(status, v).
       settle W (quiet W) ''ydb_get_s()'' status))"

definition do_data :: "'w walk \<Rightarrow> strArr \<Rightarrow> ('w, int) act" where
  "do_data W t =
     andThen (logprint W ''set x=$data('' t '')'') (\<lambda>_.
     andThen (run_query (\<lambda>db. ydb_data_s (walk_api W) db (base_of t) (subs_of t))) (\<lambda>(status, v).
       if status \<noteq> YDB_OK then settle W (quiet W) ''ydb_data_s()'' status
       else if v \<in> {0, 1, 10, 11} then ret YDB_OK
       else andThen (say W (''Unexpected data value issued!'' @ [CHR 0x0A])) (\<lambda>_. ret YDB_OK)))"

text \<open>\<open>strcpy\<close> of the strings found to the ones after the name.\<close>

definition put_subs :: "strArr \<Rightarrow> string list \<Rightarrow> strArr" where
  "put_subs t subs = t\<lparr>s_arr := take 1 (s_arr t) @ List.map c_str subs @ drop (1 + length subs) (s_arr t), s_length := length subs\<rparr>"

definition fitted_list :: "'w walk \<Rightarrow> int \<times> string list \<Rightarrow> int \<times> string list" where
  "fitted_list W r = (if fst r = YDB_OK \<and> (4 < length (snd r) \<or> (\<exists>s \<in> set (snd r). SUB_LEN < length s)) then (YDB_ERR_INVSTRLEN W, []) else r)"

text \<open>
  The loop ends with the first status that is not YDB_OK. \<open>fuel\<close> bounds it here and in \<open>subs_walk\<close>; theory RandomWalkProps
  shows that it ends, with more fuel than there are nodes and subscripts.
\<close>

fun node_walk :: "'w walk \<Rightarrow> nat \<Rightarrow> bool \<Rightarrow> string list \<Rightarrow> strArr \<Rightarrow> ('w, int) act" where
  "node_walk W 0 forward subs t = fault Unfinished"
| "node_walk W (Suc fuel) forward subs t =
     andThen (logprint W ''set x=$query('' t (if forward then '',1)'' else '',-1)'')) (\<lambda>_.
     andThen (run_query (\<lambda>db. fitted_list W
       ((if forward then ydb_node_next_s W else ydb_node_previous_s W) db (base_of t) subs))) (\<lambda>(status, found).
       if status \<noteq> YDB_OK then ret status
       else andThen (block (List.map (\<lambda>s. andThen (nul_ended SUB_LEN s) (\<lambda>_. ret ())) found)) (\<lambda>_.
            node_walk W fuel forward found (put_subs t found))))"

definition do_nodes :: "'w walk \<Rightarrow> nat \<Rightarrow> strArr \<Rightarrow> ('w, int) act" where
  "do_nodes W fuel t =
     andThen (draw W) (\<lambda>r.
     andThen (node_walk W fuel (r < RAND_MAX div 2) (subs_of t) t) (\<lambda>status. settle_walk W ''ydb_node_*_s()'' status))"

text \<open>
  The neighbour found replaces the last subscript, or the name if there is none; without
  one the buffer still has the neighbour before. The name and the subscripts in their
  buffers are arguments beside \<open>t\<close>, whose strings end at the first NUL.
\<close>

definition put_last :: "strArr \<Rightarrow> string \<Rightarrow> strArr" where
  "put_last t v = t\<lparr>s_arr := (s_arr t)[s_length t - 1 := c_str v]\<rparr>"

fun subs_walk :: "'w walk \<Rightarrow> nat \<Rightarrow> bool \<Rightarrow> string \<Rightarrow> string \<Rightarrow> string list \<Rightarrow> strArr \<Rightarrow> ('w, int) act" where
  "subs_walk W 0 forward retvalue basevar subs t = fault Unfinished"
| "subs_walk W (Suc fuel) forward retvalue basevar subs t =
     andThen (logprint W ''set x=$order('' t (if forward then '',1)'' else '',-1)'')) (\<lambda>_.
     andThen (run_query (\<lambda>db. fitted W 16
       ((if forward then ydb_subscript_next_s (walk_api W) else ydb_subscript_previous_s (walk_api W)) db basevar subs)))
       (\<lambda>(status, v).
         andThen (nul_ended (if s_length t = 1 then BASE_LEN else SUB_LEN) (answered W retvalue (status, v))) (\<lambda>next_value.
         if status \<noteq> YDB_OK then ret status
         else if s_length t = 1 then subs_walk W fuel forward next_value next_value subs (put_last t next_value)
         else subs_walk W fuel forward next_value basevar (butlast subs @ [next_value]) (put_last t next_value))))"

definition do_subs :: "'w walk \<Rightarrow> nat \<Rightarrow> strArr \<Rightarrow> ('w, int) act" where
  "do_subs W fuel t =
     andThen (draw W) (\<lambda>r.
     andThen (subs_walk W fuel (r < RAND_MAX div 2) [] (base_of t) (subs_of t) t) (\<lambda>status.
       settle_walk W ''ydb_subscript_*_s()'' status))"

definition do_incr :: "'w walk \<Rightarrow> strArr \<Rightarrow> ('w, int) act" where
  "do_incr W t =
     andThen (logprint W ''set x=$increment('' t '',$random(5))'') (\<lambda>_.
     andThen (draw W) (\<lambda>r.
     andThen (run_call (\<lambda>db. let (status, v, db') = ydb_incr_s (walk_api W) db (base_of t) (subs_of t) (Some (dec (c_div r (RAND_MAX div 5))))
                        in (fst (fitted W 16 (status, v)), db'))) (\<lambda>status.
       settle W [] ''ydb_incr_s()'' status)))"

text \<open>The last of the four calls gives the status, whatever the first three have answered.\<close>

definition do_locks :: "'w walk \<Rightarrow> int \<Rightarrow> strArr \<Rightarrow> ('w, int) act" where
  "do_locks W pid t = (let lockVar = ''^a'' @ dec pid in
     andThen (logprint W ''lock '' t []) (\<lambda>_.
     andThen (run_call (\<lambda>db. ydb_lock_s W db [lockVar])) (\<lambda>status.
     andThen (settle W (quiet_lock W) ''ydb_lock_s() 1'' status) (\<lambda>_.
     andThen (logprint W ''lock +'' t []) (\<lambda>_.
     andThen (run_call (\<lambda>db. ydb_lock_incr_s (walk_api W) db lockVar [])) (\<lambda>status.
     andThen (settle W (quiet_lock W) ''ydb_lock_incr_s()'' status) (\<lambda>_.
     andThen (logprint W ''lock -'' t []) (\<lambda>_.
     andThen (run_call (\<lambda>db. ydb_lock_decr_s (walk_api W) db lockVar [])) (\<lambda>status.
     andThen (settle W (quiet_lock W) ''ydb_lock_decr_s()'' status) (\<lambda>_.
     andThen (log_line W ('' lock'' @ [CHR 0x0A])) (\<lambda>_.
     andThen (run_call (\<lambda>db. ydb_lock_s W db [])) (\<lambda>status.
       settle W (quiet_lock W) ''ydb_lock_s() 1'' status))))))))))))"

definition plain_text :: string where
  "plain_text = ''a'' @ [CHR 0x0A] @ ''b'' @ [CHR 0x09] @ ''c''"

definition zwr_text :: string where
  "zwr_text = quoted ''a'' @ ''_$C(10)_'' @ quoted ''b'' @ ''_$C(9)_'' @ quoted ''c''"

text \<open>One text is converted into the other, in a buffer of 64 bytes, and ended by a NUL.\<close>

definition do_convert :: "'w walk \<Rightarrow> ('w \<Rightarrow> string \<Rightarrow> int \<times> string) \<Rightarrow> string \<Rightarrow> string \<Rightarrow> string \<Rightarrow> ('w, int) act" where
  "do_convert W conv name from_text to_text =
     andThen (run_query (\<lambda>db. fitted W 64 (conv db from_text))) (\<lambda>r.
     andThen (wanted W (name @ ''_s()'') YDB_OK (fst r)) (\<lambda>_.
     if 64 \<le> length (answered W [] r) then fault OutOfBounds
     else andThen (if c_str (answered W [] r) \<noteq> to_text
                   then say W (name @ '' did not return the right value'' @ [CHR 0x0A]) else ret ()) (\<lambda>_.
          ret (fst r))))"

definition do_exit :: "'w walk \<Rightarrow> ('w, int) act" where
  "do_exit W =
     andThen (run_call (ydb_exit W)) (\<lambda>status.
     andThen (wanted W ''ydb_exit()'' (- YDB_ERR_INVYDBEXIT W) status) (\<lambda>_. ret YDB_OK))"

definition do_init :: "'w walk \<Rightarrow> ('w, int) act" where
  "do_init W =
     andThen (run_call (ydb_init W)) (\<lambda>status. andThen (wanted W ''ydb_init()'' YDB_OK status) (\<lambda>_. ret status))"

definition do_message :: "'w walk \<Rightarrow> ('w, int) act" where
  "do_message W =
     andThen (run_query (\<lambda>db. fitted W 2048 (ydb_message W db (-1)))) (\<lambda>r.
     andThen (wanted W ''ydb_message()'' YDB_OK (fst r)) (\<lambda>_.
     andThen (if answered W [] r = []
              then say W (''ydb_message() did not correctly modify the buffer'' @ [CHR 0x0A]) else ret ()) (\<lambda>_.
       ret (fst r))))"

definition do_delete :: "'w walk \<Rightarrow> strArr \<Rightarrow> ('w, int) act" where
  "do_delete W t =
     andThen (draw W) (\<lambda>r.
     andThen (logprint W (if r < RAND_MAX div 2 then ''kill '' else ''zkill '') t []) (\<lambda>_.
     andThen (run_call (\<lambda>db. (if r < RAND_MAX div 2 then ydb_delete_s (walk_api W) else ydb_delete_node_s W) db (base_of t) (subs_of t)))
       (\<lambda>status. settle W [] ''ydb_delete_s()'' status)))"

definition do_delete_excl :: "'w walk \<Rightarrow> strArr \<Rightarrow> ('w, int) act" where
  "do_delete_excl W t =
     (if take 1 (base_of t) \<noteq> ''^'' then
        andThen (logprint W ''kill ('' (t\<lparr>s_length := 1\<rparr>) '')'') (\<lambda>_.
        andThen (run_call (\<lambda>db. ydb_delete_excl_s W db [base_of t])) (\<lambda>status. settle W [] ''ydb_delete_excl_s()'' status))
      else ret YDB_OK)"

definition json_name :: "strArr \<Rightarrow> int \<Rightarrow> strArr" where
  "json_name t r = t\<lparr>s_arr := (s_arr t)[0 := if c_mod r 2 \<noteq> 0 then ''^JsonDataS'' else ''JsonDataSX'']\<rparr>"

definition do_encode :: "'w walk \<Rightarrow> strArr \<Rightarrow> ('w, int) act" where
  "do_encode W t0 =
     andThen (draw W) (\<lambda>r. let t = json_name t0 r in
     andThen (logprint W ''encode '' t []) (\<lambda>_.
     andThen (run_query (\<lambda>db. ydb_encode_s W db (base_of t) (subs_of t))) (\<lambda>(status, v).
       settle W [YDB_ERR_GVUNDEF (walk_api W), YDB_ERR_LVUNDEF (walk_api W)] ''ydb_encode_s()'' status)))"

definition json_text :: string where
  "json_text =
     ''{'' @ quoted [] @ '': 15, '' @ quoted ''key'' @ '': '' @ quoted ''value'' @ '', '' @
     quoted ''anotherKey'' @ '': '' @ quoted ''anotherValue'' @ '', '' @ quoted ''array'' @ '': ['' @ quoted ''one'' @
     '', 2, null, 2.5, false, -3e2, true, '' @ quoted [] @ '', '' @ quoted ''null'' @ '']}''"

definition do_decode :: "'w walk \<Rightarrow> strArr \<Rightarrow> ('w, int) act" where
  "do_decode W t0 =
     andThen (draw W) (\<lambda>r. let t = json_name t0 r in
     andThen (logprint W ''decode '' t []) (\<lambda>_.
     andThen (run_call (\<lambda>db. ydb_decode_s W db (base_of t) (subs_of t) json_text)) (\<lambda>status.
       settle W [] ''ydb_decode_s()'' status)))"

end
