(* ===== verification/RandomWalkRun.thy ===== *)
theory RandomWalkRun
  imports RandomWalk
begin

text \<open>
  The rest of simpleapi/inref/randomWalk.c: which action a random number stands for, runProc
  and the transactions it nests, the driver of a process and the settings main draws.
\<close>

section \<open>The choice\<close>

datatype walk_action = Set | Get | Data | Nodes | Subs | Incr | Locks | Str2zwr | Zwr2str
  | Exit | Init | Message | Zstatus | Delete | DeleteExcl | Encode | Decode | Nest

text \<open>
  \<open>80 - 100 * rate\<close>, a double that becomes an int; \<open>20 + remaining * (k / 17.0f)\<close>, a float.
\<close>

definition remaining_odds :: "rat \<Rightarrow> int" where
  "remaining_odds rate = trunc (flt 53 (80 - flt 53 (100 * rate)))"

definition share_limit :: "int \<Rightarrow> nat \<Rightarrow> rat" where
  "share_limit remaining k = flt 24 (20 + flt 24 (flt 24 (of_int remaining) * flt 24 (of_nat k / 17)))"

text \<open>The actions after the first one, each with its share; the exit is not for the main level.\<close>

definition shares :: "(nat \<times> walk_action) list" where
  "shares =
     [(2, Get), (3, Data), (4, Nodes), (5, Subs), (6, Incr), (7, Locks), (8, Str2zwr), (9, Zwr2str), (10, Exit),
      (11, Init), (12, Message), (13, Zstatus), (14, Delete), (15, DeleteExcl), (16, Encode), (17, Decode)]"

definition walk_choice :: "int \<Rightarrow> int \<Rightarrow> int \<Rightarrow> walk_action" where
  "walk_choice remaining curDepth n =
     (if n < 20 then Set
      else case find (\<lambda>(k, a). of_int n < share_limit remaining k \<and> (a = Exit \<longrightarrow> 0 < curDepth)) shares of
        Some (_, a) \<Rightarrow> a
      | None \<Rightarrow> Nest)"

section \<open>One call\<close>

text \<open>
  What the actions other than the nested transaction do with the node \<open>t\<close>; \<open>fuel\<close> bounds the walks.
\<close>

fun do_action :: "'w walk \<Rightarrow> nat \<Rightarrow> int \<Rightarrow> strArr \<Rightarrow> walk_action \<Rightarrow> ('w, int) act" where
  "do_action W fuel pid t Set = do_set W t"
| "do_action W fuel pid t Get = do_get W t"
| "do_action W fuel pid t Data = do_data W t"
| "do_action W fuel pid t Nodes = do_nodes W fuel t"
| "do_action W fuel pid t Subs = do_subs W fuel t"
| "do_action W fuel pid t Incr = do_incr W t"
| "do_action W fuel pid t Locks = do_locks W pid t"
| "do_action W fuel pid t Str2zwr = do_convert W (ydb_str2zwr_s W) ''ydb_str2zwr'' plain_text zwr_text"
| "do_action W fuel pid t Zwr2str = do_convert W (ydb_zwr2str_s W) ''ydb_zwr2str'' zwr_text plain_text"
| "do_action W fuel pid t Exit = do_exit W"
| "do_action W fuel pid t Init = do_init W"
| "do_action W fuel pid t Message = do_message W"
| "do_action W fuel pid t Zstatus = ret YDB_OK"
| "do_action W fuel pid t Delete = do_delete W t"
| "do_action W fuel pid t DeleteExcl = do_delete_excl W t"
| "do_action W fuel pid t Encode = do_encode W t"
| "do_action W fuel pid t Decode = do_decode W t"
| "do_action W fuel pid t Nest = ret 1"

definition get_rate :: "'w walk \<Rightarrow> ('w, rat) act" where
  "get_rate W db = ret (walk_rate W db) db"

definition set_rate :: "'w walk \<Rightarrow> rat \<Rightarrow> ('w, unit) act" where
  "set_rate W r db = ret () (walk_set_rate W r db)"

definition tp_rate :: rat where "tp_rate = flt 53 (5 / 100)"

text \<open>
  The function that a transaction runs: up to 19 calls of \<open>run\<close>, until one does not return YDB_OK.
\<close>

fun tp_rounds :: "'w walk \<Rightarrow> ('w, int) act \<Rightarrow> nat \<Rightarrow> ('w, int) act" where
  "tp_rounds W run 0 = ret YDB_OK"
| "tp_rounds W run (Suc n) =
     andThen (set_rate W tp_rate) (\<lambda>_.
     andThen run (\<lambda>status. if status \<noteq> YDB_OK then ret status else tp_rounds W run n))"

definition tpHelper :: "'w walk \<Rightarrow> ('w, int) act \<Rightarrow> ('w, int) act" where
  "tpHelper W run = andThen (draw W) (\<lambda>r. tp_rounds W run (nat (c_mod r 20)))"

fun status_of :: "c_fault + int outcome \<times> 'w \<Rightarrow> c_fault + int \<times> 'w" where
  "status_of (Inl e) = Inl e"
| "status_of (Inr (Go status, db)) = Inr (status, db)"
| "status_of (Inr (Stop status, db)) = Inr (status, db)"

definition transaction :: "'w walk \<Rightarrow> ('w, int) act \<Rightarrow> ('w, int) act" where
  "transaction W body db =
     (case ydb_tp_s (walk_api W) (\<lambda>d. status_of (body d)) db of
        Inl e \<Rightarrow> Inl e
      | Inr (status, db') \<Rightarrow> ret status db')"

definition nested :: "'w walk \<Rightarrow> ('w, int) act \<Rightarrow> ('w, int) act" where
  "nested W run =
     andThen (log_line W ('' tstart ():(serial:transaction='' @ quoted ''BATCH'' @ '')'' @ [CHR 0x0A])) (\<lambda>_.
     andThen (transaction W (tpHelper W run)) (\<lambda>status.
     andThen (log_line W ('' tcommit'' @ [CHR 0x0A])) (\<lambda>_. ret status)))"

text \<open>
  At the greatest depth no transaction is begun, and the status is the one that the copy of
  the node's name into its buffer has left: \<open>TRUE\<close>, which is 1.
\<close>

function runProc :: "'w walk \<Rightarrow> nat \<Rightarrow> int \<Rightarrow> int \<Rightarrow> int \<Rightarrow> ('w, int) act" where
  "runProc W fuel pid maxDepth curDepth =
     andThen (get_rate W) (\<lambda>rate.
     andThen (genGlobalName W) (\<lambda>t.
     andThen (draw W) (\<lambda>r.
       let a = walk_choice (remaining_odds rate) curDepth (c_mod r 100)
       in if a \<noteq> Nest then do_action W fuel pid t a
          else if curDepth < maxDepth then
            nested W (runProc W fuel pid maxDepth (curDepth + 1))
          else ret 1)))"
  by pat_completeness auto
termination
  by (relation "measure (\<lambda>(W, fuel, pid, maxDepth, curDepth). nat (maxDepth - curDepth))") auto

declare runProc.simps [simp del]

section \<open>A process\<close>

fun repeated :: "nat \<Rightarrow> ('w, int) act \<Rightarrow> ('w, unit) act" where
  "repeated 0 run = ret ()"
| "repeated (Suc n) run = andThen run (\<lambda>_. repeated n run)"

definition elapsed :: "'w walk \<Rightarrow> int \<Rightarrow> ('w, int) act" where
  "elapsed W startTime db = ret (walk_time W db - startTime) db"

text \<open>At least five seconds are measured; the result is what has passed and the number of rounds.\<close>

fun estimate_loop :: "'w walk \<Rightarrow> nat \<Rightarrow> int \<Rightarrow> ('w, int) act \<Rightarrow> int \<Rightarrow> ('w, int \<times> int) act" where
  "estimate_loop W 0 startTime run estimateMult = fault Unfinished"
| "estimate_loop W (Suc fuel) startTime run estimateMult =
     andThen (repeated 100000 run) (\<lambda>_.
     andThen (elapsed W startTime) (\<lambda>estimate.
       if estimate < 5 then estimate_loop W fuel startTime run (estimateMult + 1) else ret (estimate, estimateMult + 1)))"

text \<open>The first product is one of ints, the second one of longs, as \<open>time_t\<close> is.\<close>

definition estimateRuns :: "int \<Rightarrow> int \<Rightarrow> int \<Rightarrow> int" where
  "estimateRuns timeout estimate estimateMult =
     trunc (flt 53 (flt 53 (of_int (int32 (100000 * estimateMult) * c_div timeout estimate)) * flt 53 (9 / 10)))"

fun until_timeout :: "'w walk \<Rightarrow> nat \<Rightarrow> int \<Rightarrow> int \<Rightarrow> ('w, int) act \<Rightarrow> ('w, unit) act" where
  "until_timeout W 0 startTime timeout run = fault Unfinished"
| "until_timeout W (Suc fuel) startTime timeout run =
     andThen (elapsed W startTime) (\<lambda>seconds.
       if seconds < timeout then andThen run (\<lambda>_. until_timeout W fuel startTime timeout run) else ret ())"

text \<open>The process leaves its number in the iteration of \<open>^pids\<close> that is the last.\<close>

definition storePID :: "'w walk \<Rightarrow> int \<Rightarrow> ('w, int) act" where
  "storePID W pid =
     andThen (run_query (\<lambda>db. fitted W 8 (ydb_subscript_previous_s (walk_api W) db ''^pids'' [[]]))) (\<lambda>(status, v).
     andThen (check (status = YDB_OK)) (\<lambda>_.
       if 8 \<le> length (dec pid) then fault OutOfBounds
       else run_call (\<lambda>db. ydb_set_s (walk_api W) db ''^pids'' [v, dec pid] (dec pid))))"

text \<open>
  With NO_PRINT the process stores its number and redirects its output to a file, whose
  name has 16 bytes; the log's name has as many.
\<close>

definition process_start :: "'w walk \<Rightarrow> bool \<Rightarrow> int \<Rightarrow> ('w, unit) act" where
  "process_start W no_print pid =
     (if 16 \<le> length (''pid'' @ dec pid @ ''.log'') then fault OutOfBounds
      else if no_print then
        andThen (storePID W pid) (\<lambda>status.
        andThen (check (status = YDB_OK)) (\<lambda>_.
          if 16 \<le> length (''child'' @ dec pid @ ''.log'') then fault OutOfBounds else ret ()))
      else ret ())"

record walk_settings =
  TEST_TIMEOUT :: int
  DRIVER_THREADS :: int
  MAX_DEPTH :: int
  TP_NEST_RATE :: rat

definition runProc_driver :: "'w walk \<Rightarrow> bool \<Rightarrow> nat \<Rightarrow> int \<Rightarrow> int \<Rightarrow> walk_settings \<Rightarrow> ('w, int) act" where
  "runProc_driver W no_print fuel pid startTime c = (let run = runProc W fuel pid (MAX_DEPTH c) 0 in
     andThen (process_start W no_print pid) (\<lambda>_.
     andThen (set_rate W (TP_NEST_RATE c)) (\<lambda>_.
     andThen (estimate_loop W fuel startTime run 0) (\<lambda>(estimate, estimateMult).
     andThen (repeated (nat (estimateRuns (TEST_TIMEOUT c) estimate estimateMult)) run) (\<lambda>_.
     andThen (until_timeout W fuel startTime (TEST_TIMEOUT c) run) (\<lambda>_. ret 0))))))"

text \<open>The settings; every process starts with a copy of them.\<close>

definition walk_main :: "'w walk \<Rightarrow> ('w, walk_settings) act" where
  "walk_main W =
     andThen (rand_between W 15 120) (\<lambda>timeout.
     andThen (rand_between W 2 10) (\<lambda>threads.
     andThen (rand_between W 2 20) (\<lambda>depth.
     andThen (rand_between W 0 20) (\<lambda>rate.
       ret \<lparr>TEST_TIMEOUT = timeout, DRIVER_THREADS = threads, MAX_DEPTH = depth, TP_NEST_RATE = flt 24 (of_int rate / 100)\<rparr>))))"

end
