(* ===== verification/RandomWalkProps.thy ===== *)
theory RandomWalkProps
  imports RandomWalkRun
begin

text \<open>
  What holds for the random walk: the odds of a nested transaction, the calls that end the
  transaction they run in, and the setting that a first transaction changes for good.
\<close>

section \<open>The odds\<close>

lemma share_at_most:
  assumes "k \<le> 17" "0 \<le> r" "r \<le> 80"
  shows "share_limit r k \<le> of_int (20 + r)"
proof -
  let ?q = "flt 24 (of_nat k / 17)"
  have q: "?q \<le> of_int 1" by (rule flt_le) (use assms in \<open>simp_all add: divide_le_eq\<close>)
  have r: "flt 24 (of_int r) = of_int r" by (rule flt_int) (use assms in simp_all)
  have "of_int r * ?q \<le> (of_int r :: rat)" using mult_left_mono [OF q, of "of_int r"] assms by simp
  then have "flt 24 (of_int r * ?q) \<le> of_int r" by (rule flt_le) (use assms in simp_all)
  then show ?thesis unfolding share_limit_def r by (intro flt_le) (use assms in simp_all)
qed

lemma share_full: "0 \<le> r \<Longrightarrow> r \<le> 80 \<Longrightarrow> share_limit r 17 = of_int (20 + r)"
  using flt_int [of r 24] flt_int [of "20 + r" 24] flt_int [of 1 24] by (simp add: share_limit_def)

lemma nest_chosen:
  assumes "0 \<le> r" "r \<le> 80"
  shows "walk_choice r d n = Nest \<longleftrightarrow> 20 + r \<le> n"
proof
  assume nest: "walk_choice r d n = Nest"
  show "20 + r \<le> n"
  proof (rule ccontr)
    assume "\<not> 20 + r \<le> n"
    then have n: "of_int n < share_limit r 17" unfolding share_full [OF assms] of_int_less_iff by simp
    let ?P = "\<lambda>(k, a). of_int n < share_limit r k \<and> (a = Exit \<longrightarrow> 0 < d)"
    have "(17, Decode) \<in> {x \<in> List.set shares. ?P x}" using n by (simp add: shares_def)
    then obtain k a where found: "find ?P shares = Some (k, a)" by (cases "find ?P shares") (auto simp: find_None_iff)
    then have "(k, a) \<in> List.set shares" by (auto simp: find_Some_iff in_set_conv_nth)
    then have "a \<noteq> Nest" by (auto simp: shares_def)
    with nest found show False by (simp add: walk_choice_def split: if_splits)
  qed
next
  assume n: "20 + r \<le> n"
  have "\<not> of_int n < share_limit r k" if "(k, a) \<in> List.set shares" for k a
  proof -
    have "k \<le> 17" using that by (auto simp: shares_def)
    then have "share_limit r k \<le> of_int n" using share_at_most [OF _ assms] n by (meson of_int_le_iff order_trans)
    then show ?thesis by simp
  qed
  then have "find (\<lambda>(k, a). of_int n < share_limit r k \<and> (a = Exit \<longrightarrow> 0 < d)) shares = None" by (auto simp: find_None_iff)
  then show "walk_choice r d n = Nest" using n assms by (simp add: walk_choice_def)
qed

lemma remaining_near:
  assumes "0 \<le> n" "n \<le> 20" "p = 24 \<or> p = 53"
  shows "remaining_odds (flt p (of_int n / 100)) \<in> {79 - n, 80 - n}"
proof (cases "n = 0")
  case True
  have "flt q 0 = 0" for q using flt_int [of 0 q] by simp
  then show ?thesis using True flt_int [of 80 53] by (simp add: remaining_odds_def trunc_def)
next
  case False
  let ?x = "of_int n / 100 :: rat" and ?e = "1 / 1000000 :: rat"
  have n: "1 \<le> (of_int n :: rat)" "of_int n \<le> (20 :: rat)" using False assms by simp_all
  have "(2 :: rat) ^ 24 \<le> 2 ^ p" using assms(3) by auto
  then have "?x / 2 ^ p \<le> ?x / 2 ^ 24" using n by (intro divide_left_mono) simp_all
  then have a: "\<bar>flt p ?x - ?x\<bar> \<le> ?e" using flt_near [of ?x p] n by simp
  let ?y = "100 * flt p ?x"
  have y: "\<bar>?y - of_int n\<bar> \<le> 100 * ?e" using a by linarith
  then have "1 / 2 \<le> ?y" "?y \<le> 21" using n by linarith+
  then have b: "\<bar>flt 53 ?y - ?y\<bar> \<le> ?e" using flt_near [of ?y 53] by simp
  let ?z = "80 - flt 53 ?y"
  have z: "\<bar>?z - (80 - of_int n)\<bar> \<le> 101 * ?e" using b y by linarith
  then have "1 / 2 \<le> ?z" "?z \<le> 81" using n by linarith+
  then have c: "\<bar>flt 53 ?z - ?z\<bar> \<le> ?e" using flt_near [of ?z 53] by simp
  have "\<bar>flt 53 ?z - (80 - of_int n)\<bar> \<le> 102 * ?e" using c z by linarith
  then have "of_int (79 - n) \<le> flt 53 ?z" "flt 53 ?z < of_int (81 - n)" by (simp_all, linarith+)
  then have "79 - n \<le> trunc (flt 53 ?z)" "trunc (flt 53 ?z) < 81 - n" unfolding trunc_def by (simp_all add: le_floor_iff floor_less_iff)
  then show ?thesis unfolding remaining_odds_def by auto
qed

text \<open>
  For a nesting rate of n hundredths, as a float or as a double, n or n + 1 of the hundred
  numbers begin a nested transaction.
\<close>

theorem nest_odds:
  assumes "0 \<le> n" "n \<le> 20" "p = 24 \<or> p = 53"
  shows "card {a \<in> {0..99}. walk_choice (remaining_odds (flt p (of_int n / 100))) curDepth a = Nest} \<in> {nat n, nat n + 1}"
proof -
  let ?r = "remaining_odds (flt p (of_int n / 100))"
  have r: "?r = 79 - n \<or> ?r = 80 - n" using remaining_near [OF assms] by simp
  then have "{a \<in> {0..99}. walk_choice ?r curDepth a = Nest} = {20 + ?r..99}" using assms by (auto simp: nest_chosen)
  then show ?thesis using r assms by auto
qed

theorem nest_odds_witness:
  "card {a \<in> {0..99}. walk_choice (remaining_odds (flt 53 (of_int 5 / 100))) 1 a = Nest} \<in> {nat 5, nat 5 + 1}"
  by (rule nest_odds) simp_all

section \<open>Calls that end their transaction\<close>

text \<open>What the next call of runProc does, from the random numbers it is going to draw.\<close>

definition next_action :: "'w walk \<Rightarrow> int \<Rightarrow> 'w \<Rightarrow> walk_action" where
  "next_action W curDepth db =
     (let d = snd (walk_rand W (snd (walk_rand W db)))
      in walk_choice (remaining_odds (walk_rate W db)) curDepth (c_mod (fst (walk_rand W d)) 100))"

text \<open>One question of a walk, in one of its two directions.\<close>

definition node_asked :: "'w walk \<Rightarrow> bool \<Rightarrow> 'w \<Rightarrow> string \<Rightarrow> string list \<Rightarrow> int \<times> string list" where
  "node_asked W forward = (if forward then ydb_node_next_s W else ydb_node_previous_s W)"

definition sub_asked :: "'w walk \<Rightarrow> bool \<Rightarrow> 'w \<Rightarrow> string \<Rightarrow> string list \<Rightarrow> int \<times> string" where
  "sub_asked W forward = (if forward then ydb_subscript_next_s (walk_api W) else ydb_subscript_previous_s (walk_api W))"

text \<open>A path is a name and the subscripts below it; a walk goes up or down in the order of the paths.\<close>

definition passes :: "(string list \<Rightarrow> string list \<Rightarrow> bool) \<Rightarrow> bool \<Rightarrow> string list \<Rightarrow> string list \<Rightarrow> bool" where
  "passes before forward p q = (if forward then before p q else before q p)"

text \<open>
  What the walks rely on: the database has finitely many paths, each as short as the names and
  subscripts of the test are, and what is found is one of them and beyond what was asked for; any
  other status is none that the test accepts. The log, the random numbers and the setting are not in the database.
\<close>

definition paths_law :: "'w walk \<Rightarrow> ('w \<Rightarrow> string list set) \<Rightarrow> bool" where
  "paths_law W paths \<longleftrightarrow> (\<forall>db. finite (paths db) \<and> (\<forall>l. paths (walk_log W l db) = paths db) \<and>
     paths (snd (walk_rand W db)) = paths db \<and> (\<forall>r. paths (walk_set_rate W r db) = paths db) \<and>
     (\<forall>p \<in> paths db. p \<noteq> [] \<and> length p \<le> 5 \<and> length (hd p) < BASE_LEN \<and> (\<forall>s \<in> List.set (tl p). length s < SUB_LEN)))"

definition walks_law :: "'w walk \<Rightarrow> ('w \<Rightarrow> string list set) \<Rightarrow> (string list \<Rightarrow> string list \<Rightarrow> bool) \<Rightarrow> bool" where
  "walks_law W paths before \<longleftrightarrow> irreflp before \<and> transp before \<and>
     (\<forall>forward db g s status found. node_asked W forward db g s = (status, found) \<longrightarrow>
        (if status = YDB_OK then g # found \<in> paths db \<and> passes before forward (g # s) (g # found)
         else status \<notin> List.set (YDB_ERR_INVSTRLEN W # quiet W))) \<and>
     (\<forall>forward db g s status v. sub_asked W forward db g s = (status, v) \<longrightarrow>
        (if status = YDB_OK then butlast (g # s) @ [v] \<in> paths db \<and> passes before forward (g # s) (butlast (g # s) @ [v])
         else status \<notin> List.set (YDB_ERR_INVSTRLEN W # quiet W)))"

text \<open>How many paths a walk still has before it.\<close>

definition still :: "('w \<Rightarrow> string list set) \<Rightarrow> (string list \<Rightarrow> string list \<Rightarrow> bool) \<Rightarrow> bool \<Rightarrow> 'w \<Rightarrow> string list \<Rightarrow> nat" where
  "still paths before forward db p = card {q \<in> paths db. passes before forward p q}"

lemma still_less:
  assumes "paths_law W paths" "walks_law W paths before" "q \<in> paths db" "passes before forward p q"
  shows "still paths before forward db q < still paths before forward db p"
proof -
  have order: "irreflp before" "transp before" using assms(2) by (simp_all add: walks_law_def)
  have "{r \<in> paths db. passes before forward q r} \<subset> {r \<in> paths db. passes before forward p r}"
    using assms(3,4) order unfolding passes_def
    by (intro psubsetI) (auto dest: transpD irreflpD split: if_splits)
  then show ?thesis unfolding still_def using assms(1) by (intro psubset_card_mono) (simp_all add: paths_law_def)
qed

lemma still_most: "paths_law W paths \<Longrightarrow> still paths before forward db p \<le> card (paths db)"
  unfolding still_def by (intro card_mono) (auto simp: paths_law_def)

lemma still_log: "paths_law W paths \<Longrightarrow> still paths before forward (walk_log W l db) p = still paths before forward db p"
  by (simp add: still_def paths_law_def)

lemma path_walk_found:
  assumes "walks_law W paths before"
  shows "node_asked W forward db g s = (YDB_OK, found) \<Longrightarrow>
      g # found \<in> paths db \<and> passes before forward (g # s) (g # found)"
    "sub_asked W forward db g s = (YDB_OK, v) \<Longrightarrow>
      butlast (g # s) @ [v] \<in> paths db \<and> passes before forward (g # s) (butlast (g # s) @ [v])"
    "node_asked W forward db g s = (status, found) \<Longrightarrow> status \<noteq> YDB_OK \<Longrightarrow> status \<notin> List.set (YDB_ERR_INVSTRLEN W # quiet W)"
    "sub_asked W forward db g s = (status, v) \<Longrightarrow> status \<noteq> YDB_OK \<Longrightarrow> status \<notin> List.set (YDB_ERR_INVSTRLEN W # quiet W)"
  using assms unfolding walks_law_def by metis+

text \<open>An action that comes to its end with a status that is neither a success nor taken for one.\<close>

definition gives_up :: "'w walk \<Rightarrow> ('w, int) act \<Rightarrow> 'w \<Rightarrow> bool" where
  "gives_up W m db \<longleftrightarrow> (\<exists>s db'. m db = Inr (Go s, db') \<and> s \<noteq> YDB_OK \<and> s \<notin> List.set (quiet W))"

lemma block_ends: "(\<And>s. s \<in> List.set found \<Longrightarrow> length s < n) \<Longrightarrow>
    block (List.map (\<lambda>s. andThen (nul_ended n s) (\<lambda>_. ret ())) found) db = Inr (Go (), db)"
  by (induction found) (simp_all add: nul_ended_def)

lemma node_walk_ends:
  assumes law: "paths_law W paths" "walks_law W paths before"
    and "s_arr t \<noteq> []" "still paths before forward db (base_of t # subs) < fuel"
  shows "gives_up W (node_walk W fuel forward subs t) db"
  using assms(3,4)
proof (induction fuel arbitrary: subs t db)
  case (Suc fuel)
  obtain l where log: "logprint W ''set x=$query('' t (if forward then '',1)'' else '',-1)'') db = Inr (Go (), walk_log W l db)"
    by (simp add: logprint_def log_line_def)
  let ?db = "walk_log W l db"
  obtain status found where asked: "node_asked W forward ?db (base_of t) subs = (status, found)" by fastforce
  show ?case
  proof (cases "status = YDB_OK")
    case True
    have path: "base_of t # found \<in> paths ?db" "passes before forward (base_of t # subs) (base_of t # found)"
      using path_walk_found(1) [OF law(2)] asked True by auto
    have short: "length found \<le> 4" "\<And>s. s \<in> List.set found \<Longrightarrow> length s < SUB_LEN"
      using law(1) path(1) unfolding paths_law_def by fastforce+
    have base: "base_of (put_subs t found) = base_of t" "s_arr (put_subs t found) \<noteq> []"
      using Suc.prems(1) by (cases "s_arr t"; simp add: base_of_def put_subs_def)+
    have "still paths before forward ?db (base_of t # found) < fuel"
      using still_less [OF law path] Suc.prems(2) still_log [OF law(1), of before forward l db "base_of t # subs"] by linarith
    then have "gives_up W (node_walk W fuel forward found (put_subs t found)) ?db" using Suc.IH base by simp
    then show ?thesis
      using log asked True short
      by (auto simp: gives_up_def node_asked_def run_query_def fitted_list_def block_ends less_imp_le_nat leD dest: leD)
  next
    case False
    then have "status \<notin> List.set (quiet W)" using path_walk_found(3) [OF law(2) asked] by simp
    then show ?thesis using log asked False by (simp add: gives_up_def node_asked_def run_query_def fitted_list_def)
  qed
qed simp

text \<open>The subscripts in the buffers are as many as the length of the names in \<open>t\<close> says.\<close>

lemma subs_walk_ends:
  assumes law: "paths_law W paths" "walks_law W paths before"
    and "s_length t = Suc (length subs)" "length v < (if subs = [] then BASE_LEN else SUB_LEN)"
      "still paths before forward db (base # subs) < fuel"
  shows "gives_up W (subs_walk W fuel forward v base subs t) db"
  using assms(3-5)
proof (induction fuel arbitrary: v base subs t db)
  case (Suc fuel)
  obtain l where log: "logprint W ''set x=$order('' t (if forward then '',1)'' else '',-1)'') db = Inr (Go (), walk_log W l db)"
    by (simp add: logprint_def log_line_def)
  let ?db = "walk_log W l db"
  obtain status w where asked: "sub_asked W forward ?db base subs = (status, w)" by fastforce
  show ?case
  proof (cases "status = YDB_OK")
    case True
    let ?p = "butlast (base # subs) @ [w]"
    have path: "?p \<in> paths ?db" "passes before forward (base # subs) ?p"
      using path_walk_found(2) [OF law(2)] asked True by blast+
    have short: "length w < (if subs = [] then BASE_LEN else SUB_LEN)"
      using law(1) path(1) unfolding paths_law_def by (cases subs rule: rev_cases) (fastforce simp: butlast_append)+
    have less: "still paths before forward ?db ?p < fuel"
      using still_less [OF law path] Suc.prems(3) still_log [OF law(1), of before forward l db "base # subs"] by linarith
    have "length w < 16" using short by (auto simp: BASE_LEN_def SUB_LEN_def split: if_splits)
    moreover have "gives_up W (subs_walk W fuel forward w w [] (put_last t w)) ?db" if "subs = []"
      using Suc.IH [of "put_last t w" "[]" w ?db w] Suc.prems(1) short less that by (simp add: put_last_def)
    moreover have "gives_up W (subs_walk W fuel forward w base (butlast subs @ [w]) (put_last t w)) ?db" if "subs \<noteq> []"
      using Suc.IH [of "put_last t w" "butlast subs @ [w]" w ?db base] Suc.prems(1) short less that by (simp add: put_last_def)
    ultimately show ?thesis
      using log asked True short Suc.prems(1)
      by (cases "subs = []") (simp_all add: gives_up_def sub_asked_def run_query_def fitted_def answered_def nul_ended_def)
  next
    case False
    then have "status \<notin> List.set (quiet W)" "status \<noteq> YDB_ERR_INVSTRLEN W"
      using path_walk_found(4) [OF law(2) asked] by simp_all
    then show ?thesis
      using log asked False Suc.prems(1,2)
      by (cases "subs = []") (simp_all add: gives_up_def sub_asked_def run_query_def fitted_def answered_def nul_ended_def)
  qed
qed simp

lemma settle_walk_keeps: "s \<noteq> YDB_OK \<Longrightarrow> s \<notin> List.set (quiet W) \<Longrightarrow> \<exists>db'. settle_walk W name s db = Inr (Go s, db')"
  by (simp add: settle_walk_def settle_def unexpected_def say_def)

text \<open>The names that the program makes up.\<close>

lemma name_made:
  "\<exists>t. genGlobalName W db = Inr (Go t, snd (walk_rand W (snd (walk_rand W db)))) \<and>
     s_arr t \<noteq> [] \<and> s_length t = Suc (length (subs_of t))"
  by (simp add: genGlobalName_def draw_def Let_def case_prod_beta subs_of_def)

lemma walks_end:
  assumes law: "paths_law W paths" "walks_law W paths before"
    and t: "s_arr t \<noteq> []" "s_length t = Suc (length (subs_of t))" and "card (paths db) < fuel" "a \<in> {Nodes, Subs}"
  shows "\<exists>s db'. do_action W fuel pid t a db = Inr (Go s, db') \<and> s \<noteq> YDB_OK"
proof -
  let ?d = "snd (walk_rand W db)" and ?up = "fst (walk_rand W db) < RAND_MAX div 2"
  have left: "still paths before ?up ?d p < fuel" for p
    using still_most [OF law(1), of before ?up ?d p] law(1) assms(5) by (simp add: paths_law_def)
  have "gives_up W (node_walk W fuel ?up (subs_of t) t) ?d" by (rule node_walk_ends [OF law t(1) left])
  moreover have "gives_up W (subs_walk W fuel ?up [] (base_of t) (subs_of t) t) ?d"
    by (rule subs_walk_ends [OF law t(2) _ left]) (simp add: BASE_LEN_def SUB_LEN_def)
  ultimately show ?thesis
    using assms(6) settle_walk_keeps [of _ W]
    by (auto simp: do_nodes_def do_subs_def draw_def case_prod_beta gives_up_def) (metis continue.simps(2))+
qed

text \<open>A call of runProc, with its choice.\<close>

lemma runProc_runs:
  "\<exists>t. s_arr t \<noteq> [] \<and> s_length t = Suc (length (subs_of t)) \<and> runProc W fuel pid maxDepth curDepth db =
     (let d = snd (walk_rand W (snd (walk_rand W (snd (walk_rand W db))))); a = next_action W curDepth db
      in if a \<noteq> Nest then do_action W fuel pid t a d
         else if curDepth < maxDepth then
           nested W (runProc W fuel pid maxDepth (curDepth + 1)) d
         else ret 1 d)"
proof -
  obtain t where t: "genGlobalName W db = Inr (Go t, snd (walk_rand W (snd (walk_rand W db))))" "s_arr t \<noteq> []"
      "s_length t = Suc (length (subs_of t))" using name_made [of W db] by blast
  show ?thesis
    by (intro exI [of _ t] conjI t(2,3), subst runProc.simps)
      (simp add: get_rate_def t(1) draw_def next_action_def Let_def case_prod_beta)
qed

text \<open>
  C31: the first call in a transaction that walks along nodes or subscripts, or that would nest
  one more transaction at the greatest depth, is the last one of it: where the library's walks go
  along finitely many paths in an order, and end with a status the test does not take for a success, the call
  returns, with a status that is not YDB_OK, and the transaction's function returns that status. The names and subscripts found fit the buffers,
  and \<open>fuel\<close> is more than the paths there are.
\<close>

theorem walk_ends_transaction:
  assumes "paths_law W paths" "walks_law W paths before" "card (paths db) < fuel"
    and "next_action W depth (walk_set_rate W tp_rate db) \<in> {Nodes, Subs} \<or>
         next_action W depth (walk_set_rate W tp_rate db) = Nest \<and> maxDepth \<le> depth"
  shows "\<exists>s db'. runProc W fuel pid maxDepth depth (walk_set_rate W tp_rate db) = Inr (Go s, db') \<and> s \<noteq> YDB_OK \<and>
    (\<forall>n. tp_rounds W (runProc W fuel pid maxDepth depth) (Suc n) db = Inr (Go s, db'))"
proof -
  let ?db = "walk_set_rate W tp_rate db"
  let ?d = "snd (walk_rand W (snd (walk_rand W (snd (walk_rand W ?db)))))"
  obtain t where t: "s_arr t \<noteq> []" "s_length t = Suc (length (subs_of t))"
    and run: "runProc W fuel pid maxDepth depth ?db =
      (let d = ?d; a = next_action W depth ?db
       in if a \<noteq> Nest then do_action W fuel pid t a d
          else if depth < maxDepth then nested W (runProc W fuel pid maxDepth (depth + 1)) d
          else ret 1 d)"
    using runProc_runs [of W fuel pid maxDepth depth ?db] by blast
  have "card (paths ?d) < fuel" using assms(1,3) by (simp add: paths_law_def)
  then have "\<exists>s db'. do_action W fuel pid t a ?d = Inr (Go s, db') \<and> s \<noteq> YDB_OK" if "a \<in> {Nodes, Subs}" for a
    using walks_end [OF assms(1,2) t _ that] by blast
  then have "\<exists>s db'. runProc W fuel pid maxDepth depth ?db = Inr (Go s, db') \<and> s \<noteq> YDB_OK"
    using assms(4) unfolding run Let_def by (elim disjE) (auto simp: YDB_OK_def)
  then obtain s db' where s: "runProc W fuel pid maxDepth depth ?db = Inr (Go s, db')" "s \<noteq> YDB_OK" by blast
  then have "tp_rounds W (runProc W fuel pid maxDepth depth) (Suc n) db = Inr (Go s, db')" for n
    by (simp add: set_rate_def del: Suc_eq_plus1)
  with s show ?thesis by blast
qed

section \<open>The shared setting\<close>

text \<open>
  Nothing the process calls touches its setting, which only \<open>walk_set_rate\<close> changes; a transaction
  calls its function any number of times, and what the calls do to the setting is
  all it does to it.
\<close>

definition rate_law :: "'w walk \<Rightarrow> bool" where
  "rate_law W \<longleftrightarrow> (\<forall>db.
     (\<forall>r. walk_rate W (walk_set_rate W r db) = r) \<and> walk_rate W (snd (walk_rand W db)) = walk_rate W db \<and>
     (\<forall>l. walk_rate W (walk_log W l db) = walk_rate W db \<and> walk_rate W (walk_print W l db) = walk_rate W db) \<and>
     (\<forall>g s v. walk_rate W (snd (ydb_set_s (walk_api W) db g s v)) = walk_rate W db) \<and>
     (\<forall>g s b. walk_rate W (snd (snd (ydb_incr_s (walk_api W) db g s b))) = walk_rate W db) \<and>
     (\<forall>g s. walk_rate W (snd (ydb_delete_s (walk_api W) db g s)) = walk_rate W db \<and>
        walk_rate W (snd (ydb_delete_node_s W db g s)) = walk_rate W db \<and>
        walk_rate W (snd (ydb_lock_incr_s (walk_api W) db g s)) = walk_rate W db \<and>
        walk_rate W (snd (ydb_lock_decr_s (walk_api W) db g s)) = walk_rate W db) \<and>
     (\<forall>l. walk_rate W (snd (ydb_lock_s W db l)) = walk_rate W db \<and>
        walk_rate W (snd (ydb_delete_excl_s W db l)) = walk_rate W db) \<and>
     (\<forall>g s j. walk_rate W (snd (ydb_decode_s W db g s j)) = walk_rate W db) \<and>
     walk_rate W (snd (ydb_exit W db)) = walk_rate W db \<and> walk_rate W (snd (ydb_init W db)) = walk_rate W db)"

definition tp_law :: "'w walk \<Rightarrow> bool" where
  "tp_law W \<longleftrightarrow> (\<forall>R f db s db'.
     reflp R \<longrightarrow> transp R \<longrightarrow> (\<forall>d q d'. f d = Inr (q, d') \<longrightarrow> R (walk_rate W d) (walk_rate W d')) \<longrightarrow>
     ydb_tp_s (walk_api W) f db = Inr (s, db') \<longrightarrow> R (walk_rate W db) (walk_rate W db'))"

definition kept_or_tp :: "rat \<Rightarrow> rat \<Rightarrow> bool" where
  "kept_or_tp r r' \<longleftrightarrow> r' = r \<or> r' = tp_rate"

definition settles :: "'w walk \<Rightarrow> ('w, 'a) act \<Rightarrow> bool" where
  "settles W m \<longleftrightarrow> (\<forall>db r db'. m db = Inr (r, db') \<longrightarrow> kept_or_tp (walk_rate W db) (walk_rate W db'))"

lemma settles_then:
  assumes "settles W m" "\<And>x. settles W (k x)"
  shows "settles W (andThen m k)"
  unfolding settles_def
proof (intro allI impI)
  fix db r db' assume run: "andThen m k db = Inr (r, db')"
  then obtain q d where m: "m db = Inr (q, d)" by (cases "m db") auto
  then have d: "kept_or_tp (walk_rate W db) (walk_rate W d)" using assms(1) by (simp add: settles_def)
  show "kept_or_tp (walk_rate W db) (walk_rate W db')"
  proof (cases q)
    case (Go x)
    then have "k x d = Inr (r, db')" using run m by simp
    then have "kept_or_tp (walk_rate W d) (walk_rate W db')" using assms(2) [of x] by (simp add: settles_def)
    with d show ?thesis by (auto simp: kept_or_tp_def)
  next
    case (Stop status)
    then show ?thesis using run m d by simp
  qed
qed

lemma settles_pure [simp]:
  "settles W (ret x)" "settles W (fault e)" "settles W (run_query q)" "settles W (nul_ended n v)" "settles W (get_rate W)"
  by (auto simp: settles_def run_query_def nul_ended_def get_rate_def kept_or_tp_def split: if_splits)

lemma settles_if: "settles W a \<Longrightarrow> settles W b \<Longrightarrow> settles W (if c then a else b)"
  by simp

lemma settles_pair: "(\<And>a b. settles W (k a b)) \<Longrightarrow> settles W (case p of (a, b) \<Rightarrow> k a b)"
  by (cases p) simp

lemma settles_call: "(\<And>db. walk_rate W (snd (f db)) = walk_rate W db) \<Longrightarrow> settles W (run_call f)"
  by (auto simp: settles_def run_call_def kept_or_tp_def case_prod_beta)

lemma settles_block: "(\<And>a. a \<in> List.set as \<Longrightarrow> settles W a) \<Longrightarrow> settles W (block as)"
  by (induction as) (auto intro!: settles_then)

lemma settles_world:
  assumes "rate_law W"
  shows "settles W (draw W)" "settles W (log_line W l)" "settles W (say W l)" "settles W (set_rate W tp_rate)"
    "settles W (unexpected W name status)" "settles W (logprint W a t b)"
  using assms
  by (auto simp: settles_def rate_law_def draw_def log_line_def say_def set_rate_def unexpected_def logprint_def kept_or_tp_def
      case_prod_beta)

lemma settles_statuses:
  assumes "rate_law W"
  shows "settles W (settle W acc name status)" "settles W (settle_walk W name status)" "settles W (wanted W name want status)"
  unfolding settle_walk_def settle_def wanted_def
  by (intro settles_if settles_then settles_world [OF assms] settles_pure)+

lemmas settles_rules = settles_if settles_then settles_pair settles_pure settles_call settles_world settles_statuses

lemma settles_walks:
  assumes "rate_law W"
  shows "settles W (node_walk W fuel forward subs t)" "settles W (subs_walk W fuel forward v base subs t)"
proof -
  show "settles W (node_walk W fuel forward subs t)"
    by (induction fuel arbitrary: subs t; simp only: node_walk.simps; intro settles_rules assms settles_block)
      (auto intro!: settles_then)
  show "settles W (subs_walk W fuel forward v base subs t)"
    by (induction fuel arbitrary: v base subs t; simp only: subs_walk.simps; intro settles_rules assms) auto
qed

lemma settles_name: "rate_law W \<Longrightarrow> settles W (genGlobalName W)"
  unfolding genGlobalName_def Let_def by (intro settles_rules)

lemma settles_actions:
  assumes "rate_law W"
  shows "settles W (do_action W fuel pid t a)"
proof -
  have law: "walk_rate W (snd (ydb_set_s (walk_api W) db g s v)) = walk_rate W db"
    "walk_rate W (snd (snd (ydb_incr_s (walk_api W) db g s b))) = walk_rate W db"
    "walk_rate W (snd (ydb_delete_s (walk_api W) db g s)) = walk_rate W db"
    "walk_rate W (snd (ydb_delete_node_s W db g s)) = walk_rate W db"
    "walk_rate W (snd (ydb_lock_incr_s (walk_api W) db g s)) = walk_rate W db"
    "walk_rate W (snd (ydb_lock_decr_s (walk_api W) db g s)) = walk_rate W db"
    "walk_rate W (snd (ydb_lock_s W db l)) = walk_rate W db"
    "walk_rate W (snd (ydb_delete_excl_s W db l)) = walk_rate W db"
    "walk_rate W (snd (ydb_decode_s W db g s j)) = walk_rate W db"
    "walk_rate W (snd (ydb_exit W db)) = walk_rate W db" "walk_rate W (snd (ydb_init W db)) = walk_rate W db" for db g s v b l j
    using assms by (simp_all add: rate_law_def)
  show ?thesis
    by (cases a; simp only: do_action.simps do_set_def do_get_def do_data_def do_nodes_def do_subs_def do_incr_def do_locks_def
        do_convert_def do_exit_def do_init_def do_message_def do_delete_def do_delete_excl_def do_encode_def do_decode_def
        Let_def; intro settles_rules settles_walks assms; simp add: law case_prod_beta)
qed

lemma settles_rounds:
  assumes "rate_law W" "settles W run"
  shows "settles W (tp_rounds W run n)"
  by (induction n; simp only: tp_rounds.simps; intro settles_rules assms) simp

lemma settles_tp: "rate_law W \<Longrightarrow> settles W run \<Longrightarrow> settles W (tpHelper W run)"
  unfolding tpHelper_def by (intro settles_then settles_world settles_rounds)

lemma settles_transaction:
  assumes "tp_law W" "settles W body"
  shows "settles W (transaction W body)"
  unfolding settles_def
proof (intro allI impI)
  fix db r db' assume run: "transaction W body db = Inr (r, db')"
  obtain s where tp: "ydb_tp_s (walk_api W) (\<lambda>d. status_of (body d)) db = Inr (s, db')"
    using run by (auto simp: transaction_def split: sum.splits prod.splits)
  have pre: "reflp kept_or_tp" "transp kept_or_tp" by (auto simp: kept_or_tp_def intro!: reflpI transpI)
  have "kept_or_tp (walk_rate W d) (walk_rate W d')" if st: "status_of (body d) = Inr (q, d')" for d q d'
  proof -
    obtain r' where "body d = Inr (r', d')" using st by (cases "body d" rule: status_of.cases) auto
    then show ?thesis using assms(2) by (simp add: settles_def)
  qed
  then show "kept_or_tp (walk_rate W db) (walk_rate W db')"
    using assms(1) [unfolded tp_law_def, rule_format, OF pre _ tp] by blast
qed

lemma settles_runProc:
  assumes "rate_law W" "tp_law W"
  shows "settles W (runProc W fuel pid maxDepth curDepth)"
proof (induction "nat (maxDepth - curDepth)" arbitrary: curDepth rule: less_induct)
  case less
  have nest: "settles W (nested W (runProc W fuel pid maxDepth (curDepth + 1)))" if "curDepth < maxDepth"
    unfolding nested_def using that
    by (intro settles_then settles_world [OF assms(1)] settles_pure settles_transaction [OF assms(2)] settles_tp [OF assms(1)] less)
      simp
  show ?case
  proof (subst runProc.simps, unfold Let_def, intro settles_then settles_pure settles_name settles_world assms)
    fix rate t r
    show "settles W (if walk_choice (remaining_odds rate) curDepth (c_mod r 100) \<noteq> Nest
        then do_action W fuel pid t (walk_choice (remaining_odds rate) curDepth (c_mod r 100))
        else if curDepth < maxDepth then nested W (runProc W fuel pid maxDepth (curDepth + 1)) else ret 1)"
      using nest settles_actions [OF assms(1)] by simp
  qed
qed

text \<open>
  C32: the first round of a transaction sets the rate of nested transactions to five hundredths, and it
  stays that, whatever the transaction's other rounds do and however many more calls the process makes
  afterwards: the rate that was drawn for the process never comes back.
\<close>

theorem rate_settles:
  assumes "rate_law W" "tp_law W" "0 < c_mod (fst (walk_rand W db)) 20"
    and "tpHelper W (runProc W fuel pid maxDepth depth) db = Inr (r, db1)"
    and "repeated m (runProc W fuel pid maxDepth 0) db1 = Inr (r', db2)"
  shows "walk_rate W db1 = tp_rate \<and> walk_rate W db2 = tp_rate"
proof -
  let ?run = "runProc W fuel pid maxDepth depth" and ?d = "snd (walk_rand W db)"
  obtain n where n: "nat (c_mod (fst (walk_rand W db)) 20) = Suc n"
    using assms(3) by (metis zero_less_nat_eq gr0_conv_Suc)
  let ?rest = "andThen ?run (\<lambda>status. if status \<noteq> YDB_OK then ret status else tp_rounds W ?run n)"
  have run: "settles W (runProc W fuel pid maxDepth k)" for k by (rule settles_runProc [OF assms(1,2)])
  have "settles W ?rest" by (intro settles_then settles_if settles_pure run settles_rounds assms(1))
  moreover have "?rest (walk_set_rate W tp_rate ?d) = Inr (r, db1)"
    using assms(4) by (simp add: tpHelper_def draw_def case_prod_beta n set_rate_def)
  ultimately have "kept_or_tp (walk_rate W (walk_set_rate W tp_rate ?d)) (walk_rate W db1)" unfolding settles_def by blast
  then have one: "walk_rate W db1 = tp_rate" using assms(1) by (simp add: rate_law_def kept_or_tp_def)
  have "settles W (repeated m (runProc W fuel pid maxDepth 0))"
    by (induction m) (simp_all only: repeated.simps settles_pure settles_then run)
  then have "kept_or_tp (walk_rate W db1) (walk_rate W db2)" using assms(5) unfolding settles_def by blast
  then show ?thesis using one by (simp add: kept_or_tp_def)
qed

section \<open>An idle library\<close>

text \<open>
  A library with one local variable, of one node, with a random generator that always gives the same number;
  its state is the setting and that number.
\<close>

definition idle_ydb :: "(rat \<times> int) ydb" where
  "idle_ydb = \<lparr>ydb_get_s = \<lambda>db g s. (-2, []), ydb_set_s = \<lambda>db g s v. (0, db), ydb_data_s = \<lambda>db g s. (0, 0),
     ydb_incr_s = \<lambda>db g s b. (0, ''1'', db), ydb_delete_s = \<lambda>db g s. (0, db),
     ydb_subscript_next_s = \<lambda>db g s. (-1, []), ydb_subscript_previous_s = \<lambda>db g s. (-1, []),
     ydb_tp_s = \<lambda>f db. f db, ydb_cip = \<lambda>db name. (0, db),
     ydb_lock_incr_s = \<lambda>db g s. (0, db), ydb_lock_decr_s = \<lambda>db g s. (0, db),
     YDB_TP_RESTART = 5, YDB_TP_ROLLBACK = 6, YDB_ERR_GVUNDEF = -3, YDB_ERR_LVUNDEF = -2, YDB_ERR_NODEEND = -1,
     YDB_ERR_JNLEXTEND = -4, YDB_ERR_JNLSWITCHFAIL = -5\<rparr>"

definition idle_walk :: "(rat \<times> int) walk" where
  "idle_walk = \<lparr>walk_api = idle_ydb, walk_rand = \<lambda>db. (snd db, db), walk_time = \<lambda>db. 0, walk_log = \<lambda>l db. db,
     walk_print = \<lambda>l db. db, walk_rate = fst, walk_set_rate = \<lambda>r db. (r, snd db),
     ydb_node_next_s = \<lambda>db g s. if g = ''MyLocal2xx'' \<and> s = [] then (0, [''sub0'']) else (-1, []), ydb_node_previous_s = \<lambda>db g s. (-1, []),
     ydb_lock_s = \<lambda>db l. (0, db), ydb_delete_node_s = \<lambda>db g s. (0, db), ydb_delete_excl_s = \<lambda>db l. (0, db),
     ydb_str2zwr_s = \<lambda>db s. (0, s), ydb_zwr2str_s = \<lambda>db s. (0, s),
     ydb_encode_s = \<lambda>db g s. (-2, []), ydb_decode_s = \<lambda>db g s j. (0, db),
     ydb_exit = \<lambda>db. (7, db), ydb_init = \<lambda>db. (0, db), ydb_message = \<lambda>db n. (0, ''OK''), ydb_zstatus = \<lambda>db. [],
     YDB_ERR_INVSVN = -8, YDB_ERR_TPLOCK = -9, YDB_ERR_INVYDBEXIT = -7, YDB_ERR_INVSTRLEN = -10\<rparr>"

lemma idle_laws: "rate_law idle_walk" "tp_law idle_walk"
  by (simp_all add: rate_law_def tp_law_def idle_walk_def idle_ydb_def)

definition idle_paths :: "rat \<times> int \<Rightarrow> string list set" where
  "idle_paths db = {[''MyLocal2xx'', ''sub0'']}"

definition shorter :: "string list \<Rightarrow> string list \<Rightarrow> bool" where
  "shorter p q \<longleftrightarrow> length p < length q"

lemma idle_paths_laws: "paths_law idle_walk idle_paths" "walks_law idle_walk idle_paths shorter"
  by (auto simp: paths_law_def walks_law_def idle_walk_def idle_ydb_def idle_paths_def shorter_def quiet_def YDB_OK_def node_asked_def
      sub_asked_def passes_def BASE_LEN_def SUB_LEN_def irreflp_def transp_def split: if_splits)

text \<open>With the rate of five hundredths the number 35 asks for the walk along the nodes.\<close>

lemma choice_35:
  assumes "r = 74 \<or> r = 75"
  shows "walk_choice r d 35 = Nodes"
proof -
  have near: "\<bar>flt 24 x - x\<bar> \<le> x / 2 ^ 24" if "1 \<le> x" for x :: rat
    by (rule flt_near) (rule order_trans [OF _ that], simp)
  have r: "flt 24 (of_int r) = (of_int r :: rat)" by (rule flt_int) (use assms in auto)
  have lim: "20 + of_int r * of_nat k / 17 - 1 / 1000 \<le> share_limit r k \<and> share_limit r k \<le> 20 + of_int r * of_nat k / 17 + 1 / 1000" if k: "2 \<le> k" "k \<le> 4" for k
  proof -
    have k': "2 \<le> (of_nat k :: rat)" "(of_nat k :: rat) \<le> 4" and r': "74 \<le> (of_int r :: rat)" "(of_int r :: rat) \<le> 75"
      using k assms by auto
    let ?q = "flt 24 (of_nat k / 17)" and ?e = "1 / 16777216 :: rat"
    have "1 / 2 ^ 100 \<le> (2 / 17 :: rat)" by simp
    also have "\<dots> \<le> of_nat k / 17" using k' by simp
    finally have q: "\<bar>?q - of_nat k / 17\<bar> \<le> ?e" using flt_near [of "of_nat k / 17" 24] k' by simp
    have m: "\<bar>of_int r * ?q - of_int r * of_nat k / 17\<bar> \<le> 75 * ?e"
    proof -
      have "\<bar>of_int r * ?q - of_int r * of_nat k / 17\<bar> = of_int r * \<bar>?q - of_nat k / 17\<bar>"
        using r' by (subst abs_of_nonneg [symmetric, of "of_int r"], simp, subst abs_mult [symmetric], simp add: field_simps)
      also have "\<dots> \<le> 75 * ?e" using q r' by (intro mult_mono) simp_all
      finally show ?thesis .
    qed
    have b: "148 / 17 \<le> of_int r * of_nat k / (17 :: rat)" "of_int r * of_nat k / (17 :: rat) \<le> 300 / 17"
      using mult_mono [OF r'(1) k'(1)] mult_mono [OF r'(2) k'(2)] r' k' by simp_all
    define m where "m = of_int r * ?q"
    have m1: "1 \<le> m" "m \<le> 20" using m b unfolding m_def [symmetric] abs_le_iff by linarith+
    have n: "\<bar>flt 24 m - m\<bar> \<le> 20 * ?e" using near [OF m1(1)] m1 by simp
    define z where "z = 20 + flt 24 m"
    have z: "1 \<le> z" "z \<le> 50" using n m1 unfolding z_def abs_le_iff by linarith+
    have "\<bar>flt 24 z - z\<bar> \<le> 50 * ?e" using near [OF z(1)] z by simp
    then show ?thesis
      unfolding share_limit_def r m_def [symmetric] z_def [symmetric] using m n unfolding m_def [symmetric] abs_le_iff z_def [symmetric]
      using z_def by linarith
  qed
  have "\<not> 35 < share_limit r 2" "\<not> 35 < share_limit r 3" "35 < share_limit r 4"
    using lim [of 2] lim [of 3] lim [of 4] assms by auto
  then show ?thesis by (simp add: walk_choice_def shares_def)
qed

lemma idle_simps:
  "walk_rate idle_walk = fst" "walk_set_rate idle_walk = (\<lambda>r db. (r, snd db))" "walk_rand idle_walk = (\<lambda>db. (snd db, db))"
  "walk_log idle_walk = (\<lambda>l db. db)" "walk_api idle_walk = idle_ydb" "ydb_node_next_s idle_walk = (\<lambda>db g s. if g = ''MyLocal2xx'' \<and> s = [] then (0, [''sub0'']) else (-1, []))"
  "YDB_ERR_NODEEND idle_ydb = -1"
  by (simp_all add: idle_walk_def idle_ydb_def)

lemma idle_choice: "walk_choice (remaining_odds tp_rate) d 35 = Nodes"
proof -
  have "remaining_odds tp_rate \<in> {74, 75}" using remaining_near [of 5 53] by (simp add: tp_rate_def)
  then show ?thesis using choice_35 by auto
qed

lemma idle_chooses: "next_action idle_walk d (tp_rate, 35) = Nodes"
  using idle_choice by (simp add: next_action_def idle_simps c_mod_def c_div_def)

theorem walk_ends_transaction_witness:
  "\<exists>s db'. runProc idle_walk 2 7 3 1 (walk_set_rate idle_walk tp_rate (1 / 5, 35)) = Inr (Go s, db') \<and> s \<noteq> YDB_OK \<and>
     (\<forall>n. tp_rounds idle_walk (runProc idle_walk 2 7 3 1) (Suc n) (1 / 5, 35) = Inr (Go s, db'))"
  by (rule walk_ends_transaction [OF idle_paths_laws]) (simp_all add: idle_paths_def idle_simps idle_chooses)

text \<open>The walk of the witness takes one step, to the node there is, and the next one finds the end.\<close>

lemma idle_walks: "runProc idle_walk 2 7 3 1 (tp_rate, 35) = Inr (Go (- 1), (tp_rate, 35))"
  using idle_choice
  by (subst runProc.simps)
    (simp add: get_rate_def genGlobalName_def draw_def idle_simps c_mod_def c_div_def do_nodes_def RAND_MAX_def subs_of_def
      logprint_def log_line_def run_query_def fitted_list_def YDB_OK_def settle_walk_def numeral_2_eq_2 base_of_def put_subs_def
      nul_ended_def SUB_LEN_def)

text \<open>The number 99 asks for a nested transaction.\<close>

lemma idle_nests: "walk_choice (remaining_odds tp_rate) d 99 = Nest"
proof -
  have "remaining_odds tp_rate \<in> {74, 75}" using remaining_near [of 5 53] by (simp add: tp_rate_def)
  then show ?thesis by (subst nest_chosen) auto
qed

lemma idle_runs:
  "tpHelper idle_walk (runProc idle_walk (Suc 0) 7 1 1) (1 / 5, 99) = Inr (Go 1, (tp_rate, 99))"
  "repeated (Suc 0) (runProc idle_walk (Suc 0) 7 1 0) (tp_rate, 99) = Inr (Go (), (tp_rate, 99))"
proof -
  have deep: "runProc idle_walk (Suc 0) 7 1 1 (tp_rate, 99) = Inr (Go 1, (tp_rate, 99))"
    using idle_nests
    by (subst runProc.simps) (simp add: get_rate_def genGlobalName_def draw_def idle_simps c_mod_def c_div_def)
  have rounds: "tp_rounds idle_walk (runProc idle_walk (Suc 0) 7 1 1) 19 (r, 99) = Inr (Go 1, (tp_rate, 99))" for r
    using deep by (simp add: numeral_eq_Suc set_rate_def idle_simps YDB_OK_def)
  then show "tpHelper idle_walk (runProc idle_walk (Suc 0) 7 1 1) (1 / 5, 99) = Inr (Go 1, (tp_rate, 99))"
    by (simp add: tpHelper_def draw_def idle_simps c_mod_def c_div_def)
  have "nested idle_walk (runProc idle_walk (Suc 0) 7 1 1) (tp_rate, 99) = Inr (Go 1, (tp_rate, 99))"
    using rounds
    by (simp add: nested_def log_line_def transaction_def tpHelper_def draw_def idle_simps idle_ydb_def c_mod_def c_div_def)
  then show "repeated (Suc 0) (runProc idle_walk (Suc 0) 7 1 0) (tp_rate, 99) = Inr (Go (), (tp_rate, 99))"
    using idle_nests
    by (simp, subst runProc.simps) (simp add: get_rate_def genGlobalName_def draw_def idle_simps c_mod_def c_div_def)
qed

lemma tp_rate_small: "tp_rate < 1 / 5"
proof -
  have "\<bar>tp_rate - 5 / 100\<bar> \<le> 5 / 100 / 2 ^ 53" unfolding tp_rate_def by (rule flt_near) simp
  also have "\<dots> < 1 / 10" by simp
  finally show ?thesis unfolding abs_less_iff by linarith
qed

theorem rate_settles_witness:
  "\<exists>db1 db2. tpHelper idle_walk (runProc idle_walk (Suc 0) 7 1 1) (1 / 5, 99) = Inr (Go 1, db1) \<and>
     repeated (Suc 0) (runProc idle_walk (Suc 0) 7 1 0) db1 = Inr (Go (), db2) \<and>
     walk_rate idle_walk (1 / 5, 99) \<noteq> tp_rate \<and> walk_rate idle_walk db1 = tp_rate \<and> walk_rate idle_walk db2 = tp_rate"
proof -
  have "0 < c_mod (fst (walk_rand idle_walk (1 / 5, 99))) 20" by (simp add: idle_simps c_mod_def c_div_def)
  note rate_settles [OF idle_laws this idle_runs]
  then show ?thesis using idle_runs tp_rate_small by (metis fst_conv idle_simps(1) less_irrefl)
qed

end
