(* ===== verification/Murmur.thy ===== *)
theory Murmur
  imports Prelude "HOL-Library.Word"
begin

unbundle bit_operations_syntax

text \<open>
  v62002/inref/gtm8087xcalls2.c: the MurmurHash3 functions YottaDB hashes its routines with,
  and the progressive hash of 128 bits that takes its input in pieces. Keys are lists of bytes;
  the code is the one for little-endian machines. Words of 32 and 64 bits are \<open>32 word\<close> and
  \<open>64 word\<close>, which wrap as \<open>uint4\<close> and \<open>gtm_uint8\<close> do.
\<close>

section \<open>Words\<close>

text \<open>A word loaded from the bytes at its address, the lowest byte first.\<close>

primrec le_word :: "byte list \<Rightarrow> 'a :: len word" where
  "le_word [] = 0"
| "le_word (b # bs) = ucast b OR push_bit 8 (le_word bs)"

definition ROTL32 :: "32 word \<Rightarrow> nat \<Rightarrow> 32 word" where
  "ROTL32 x y = push_bit y x OR drop_bit (32 - y) x"

definition ROTL64 :: "64 word \<Rightarrow> nat \<Rightarrow> 64 word" where
  "ROTL64 x y = push_bit y x OR drop_bit (64 - y) x"

definition fmix :: "32 word \<Rightarrow> 32 word" where
  "fmix h0 =
     (let h = h0 XOR drop_bit 16 h0; h = h * 0x85ebca6b; h = h XOR drop_bit 13 h; h = h * 0xc2b2ae35
      in h XOR drop_bit 16 h)"

definition fmix64 :: "64 word \<Rightarrow> 64 word" where
  "fmix64 k0 =
     (let k = k0 XOR drop_bit 33 k0; k = k * 0xff51afd7ed558ccd; k = k XOR drop_bit 33 k; k = k * 0xc4ceb9fe1a85ec53
      in k XOR drop_bit 33 k)"

text \<open>
  The switch on the length of the tail: it falls through from the last byte to byte \<open>a\<close>, and each
  case puts a byte at its place in the word, if there is one.
\<close>

definition xor_tail :: "byte list \<Rightarrow> nat \<Rightarrow> nat \<Rightarrow> 'a :: len word" where
  "xor_tail tail a n = fold (\<lambda>i k. k XOR push_bit (8 * (i - a)) (ucast (tail ! i))) (rev [a..<min n (length tail)]) 0"

text \<open>All blocks of \<open>n\<close> bytes, and what is left.\<close>

function blocks_loop :: "nat \<Rightarrow> ('h \<Rightarrow> byte list \<Rightarrow> 'h) \<Rightarrow> 'h \<Rightarrow> byte list \<Rightarrow> 'h \<times> byte list" where
  "blocks_loop n step h data =
     (if 0 < n \<and> n \<le> length data then blocks_loop n step (step h (take n data)) (drop n data) else (h, data))"
  by pat_completeness auto
termination by (relation "measure (\<lambda>(n, step, h, data). length data)") auto

declare blocks_loop.simps [simp del]

section \<open>The functions on a whole key\<close>

definition x86_32_mix :: "32 word \<Rightarrow> 32 word" where
  "x86_32_mix k1 = ROTL32 (k1 * 0xcc9e2d51) 15 * 0x1b873593"

definition x86_32_block :: "32 word \<Rightarrow> byte list \<Rightarrow> 32 word" where
  "x86_32_block h1 block = ROTL32 (h1 XOR x86_32_mix (le_word block)) 13 * 5 + 0xe6546b64"

definition MurmurHash3_x86_32 :: "byte list \<Rightarrow> 32 word \<Rightarrow> 32 word" where
  "MurmurHash3_x86_32 key seed =
     (let (h1, tail) = blocks_loop 4 x86_32_block seed key;
          h1 = (if tail = [] then h1 else h1 XOR x86_32_mix (xor_tail tail 0 3))
      in fmix (h1 XOR of_nat (length key)))"

type_synonym h128_32 = "32 word \<times> 32 word \<times> 32 word \<times> 32 word"

definition x86_c1 :: "32 word" where "x86_c1 = 0x239b961b"
definition x86_c2 :: "32 word" where "x86_c2 = 0xab0e9789"
definition x86_c3 :: "32 word" where "x86_c3 = 0x38b34ae5"
definition x86_c4 :: "32 word" where "x86_c4 = 0xa1e38b93"

definition x86_k1 :: "32 word \<Rightarrow> 32 word" where "x86_k1 k = ROTL32 (k * x86_c1) 15 * x86_c2"
definition x86_k2 :: "32 word \<Rightarrow> 32 word" where "x86_k2 k = ROTL32 (k * x86_c2) 16 * x86_c3"
definition x86_k3 :: "32 word \<Rightarrow> 32 word" where "x86_k3 k = ROTL32 (k * x86_c3) 17 * x86_c4"
definition x86_k4 :: "32 word \<Rightarrow> 32 word" where "x86_k4 k = ROTL32 (k * x86_c4) 18 * x86_c1"

definition x86_128_block :: "h128_32 \<Rightarrow> byte list \<Rightarrow> h128_32" where
  "x86_128_block h block =
     (let (h1, h2, h3, h4) = h;
          h1 = h1 XOR x86_k1 (le_word (take 4 block)); h1 = ROTL32 h1 19 + h2; h1 = h1 * 5 + 0x561ccd1b;
          h2 = h2 XOR x86_k2 (le_word (take 4 (drop 4 block))); h2 = ROTL32 h2 17 + h3; h2 = h2 * 5 + 0x0bcaa747;
          h3 = h3 XOR x86_k3 (le_word (take 4 (drop 8 block))); h3 = ROTL32 h3 15 + h4; h3 = h3 * 5 + 0x96cd1c35;
          h4 = h4 XOR x86_k4 (le_word (drop 12 block)); h4 = ROTL32 h4 13 + h1; h4 = h4 * 5 + 0x32ac3b17
      in (h1, h2, h3, h4))"

definition MurmurHash3_x86_128 :: "byte list \<Rightarrow> 32 word \<Rightarrow> h128_32" where
  "MurmurHash3_x86_128 key seed =
     (let ((h1, h2, h3, h4), tail) = blocks_loop 16 x86_128_block (seed, seed, seed, seed) key; n = length tail;
          h4 = (if 12 < n then h4 XOR x86_k4 (xor_tail tail 12 15) else h4);
          h3 = (if 8 < n then h3 XOR x86_k3 (xor_tail tail 8 12) else h3);
          h2 = (if 4 < n then h2 XOR x86_k2 (xor_tail tail 4 8) else h2);
          h1 = (if 0 < n then h1 XOR x86_k1 (xor_tail tail 0 4) else h1);
          len = of_nat (length key);
          h1 = h1 XOR len; h2 = h2 XOR len; h3 = h3 XOR len; h4 = h4 XOR len;
          h1 = h1 + h2 + h3 + h4; h2 = h2 + h1; h3 = h3 + h1; h4 = h4 + h1;
          h1 = fmix h1; h2 = fmix h2; h3 = fmix h3; h4 = fmix h4;
          h1 = h1 + h2 + h3 + h4; h2 = h2 + h1; h3 = h3 + h1; h4 = h4 + h1
      in (h1, h2, h3, h4))"

type_synonym h128 = "64 word \<times> 64 word"

definition C1 :: "64 word" where "C1 = 0x87c37b91114253d5"
definition C2 :: "64 word" where "C2 = 0x4cf5ad432745937f"
definition M1 :: "64 word" where "M1 = 0x52dce729"
definition M2 :: "64 word" where "M2 = 0x38495ab5"

text \<open>The second half of \<open>k1\<close> and \<open>k2\<close>, and the end that all functions of 128 bits share.\<close>

definition INTEGRATE_K1 :: "64 word \<Rightarrow> 64 word \<Rightarrow> 64 word" where
  "INTEGRATE_K1 k1 h1 = h1 XOR ROTL64 (k1 * C1) 31 * C2"

definition INTEGRATE_K2 :: "64 word \<Rightarrow> 64 word \<Rightarrow> 64 word" where
  "INTEGRATE_K2 k2 h2 = h2 XOR ROTL64 (k2 * C2) 33 * C1"

definition PROCESS_BLOCK :: "64 word \<Rightarrow> 64 word \<Rightarrow> h128 \<Rightarrow> h128" where
  "PROCESS_BLOCK k1 k2 h =
     (let (h1, h2) = h;
          h1 = INTEGRATE_K1 k1 h1; h1 = ROTL64 h1 27; h1 = h1 + h2; h1 = h1 * 5 + M1;
          h2 = INTEGRATE_K2 k2 h2; h2 = ROTL64 h2 31; h2 = h2 + h1; h2 = h2 * 5 + M2
      in (h1, h2))"

text \<open>\<open>MurmurHash3_x64_128\<close> writes the same steps without the macros.\<close>

definition x64_128_block :: "h128 \<Rightarrow> byte list \<Rightarrow> h128" where
  "x64_128_block h block =
     (let (h1, h2) = h; k1 = le_word (take 8 block); k2 = le_word (drop 8 block);
          k1 = k1 * 0x87c37b91114253d5; k1 = ROTL64 k1 31; k1 = k1 * 0x4cf5ad432745937f; h1 = h1 XOR k1;
          h1 = ROTL64 h1 27; h1 = h1 + h2; h1 = h1 * 5 + 0x52dce729;
          k2 = k2 * 0x4cf5ad432745937f; k2 = ROTL64 k2 33; k2 = k2 * 0x87c37b91114253d5; h2 = h2 XOR k2;
          h2 = ROTL64 h2 31; h2 = h2 + h1; h2 = h2 * 5 + 0x38495ab5
      in (h1, h2))"

definition x64_128_final :: "64 word \<Rightarrow> h128 \<Rightarrow> h128" where
  "x64_128_final len h =
     (let (h1, h2) = h; h1 = h1 XOR len; h2 = h2 XOR len; h1 = h1 + h2; h2 = h2 + h1;
          h1 = fmix64 h1; h2 = fmix64 h2; h1 = h1 + h2; h2 = h2 + h1
      in (h1, h2))"

definition MurmurHash3_x64_128 :: "byte list \<Rightarrow> 32 word \<Rightarrow> h128" where
  "MurmurHash3_x64_128 key seed =
     (let ((h1, h2), tail) = blocks_loop 16 x64_128_block (ucast seed, ucast seed) key; n = length tail;
          k2 = xor_tail tail 8 15; k1 = xor_tail tail 0 8;
          h2 = (if 8 < n then h2 XOR ROTL64 (k2 * 0x4cf5ad432745937f) 33 * 0x87c37b91114253d5 else h2);
          h1 = (if 0 < n then h1 XOR ROTL64 (k1 * 0x87c37b91114253d5) 31 * 0x4cf5ad432745937f else h1)
      in x64_128_final (of_nat (length key)) (h1, h2))"

section \<open>The progressive hash\<close>

record hash128_state =
  carry_bytes :: nat
  c_one :: "64 word"
  c_two :: "64 word"
  h_one :: "64 word"
  h_two :: "64 word"

text \<open>
  The two loops of \<open>ADD_BYTES\<close> go back from the last byte; their argument is the reversed list of
  the bytes still to be added, and \<open>offset\<close> the place behind the next one.
\<close>

fun add_second :: "byte list \<Rightarrow> nat \<Rightarrow> 64 word \<Rightarrow> 64 word \<times> byte list \<times> nat" where
  "add_second [] offset c2 = (c2, [], offset)"
| "add_second (b # bs) offset c2 =
     (if 8 < offset then add_second bs (offset - 1) (c2 OR push_bit (8 * (offset - 9)) (ucast b)) else (c2, b # bs, offset))"

fun add_first :: "byte list \<Rightarrow> nat \<Rightarrow> 64 word \<Rightarrow> 64 word" where
  "add_first [] offset c1 = c1"
| "add_first (b # bs) offset c1 = add_first bs (offset - 1) (c1 OR push_bit (8 * (offset - 1)) (ucast b))"

definition ADD_BYTES :: "hash128_state \<Rightarrow> byte list \<Rightarrow> c_fault + hash128_state" where
  "ADD_BYTES st key =
     bindE (assertE (carry_bytes st + length key \<le> 16)) (\<lambda>_.
     bindE (assertE (carry_bytes st \<noteq> 0 \<or> c_one st = 0 \<and> c_two st = 0)) (\<lambda>_.
     let (c2, left, offset) = add_second (rev key) (carry_bytes st + length key) (c_two st);
         c1 = add_first left offset (c_one st)
     in bindE (assertE (carry_bytes st + length key \<noteq> 0 \<or> c1 = 0 \<and> c2 = 0)) (\<lambda>_.
        bindE (assertE (length key \<noteq> 0 \<or> c_one st = c1 \<and> c_two st = c2)) (\<lambda>_.
          Inr (st\<lparr>c_one := c1, c_two := c2, carry_bytes := carry_bytes st + length key\<rparr>)))))"

text \<open>
  The next block: the bytes carried over and the first of the 16 at the key; the others are
  carried over. The result has the block's two words.
\<close>

definition GET_BLOCK :: "hash128_state \<Rightarrow> byte list \<Rightarrow> c_fault + (64 word \<times> 64 word) \<times> hash128_state" where
  "GET_BLOCK st key =
     bindE (assertE (carry_bytes st \<noteq> 0 \<or> c_one st = 0 \<and> c_two st = 0)) (\<lambda>_.
     bindE (assertE (carry_bytes st < 16)) (\<lambda>_.
     let n = carry_bytes st; m1 = le_word (take 8 key); m2 = le_word (take 8 (drop 8 key))
     in if n = 0 then Inr ((m1, m2), st)
        else if n = 8 then
          bindE (assertE (c_two st = 0)) (\<lambda>_. Inr ((c_one st, m1), st\<lparr>c_one := m2\<rparr>))
        else if n < 8 then
          bindE (assertE (c_two st = 0)) (\<lambda>_.
            Inr ((c_one st OR push_bit (8 * n) m1, drop_bit (8 * (8 - n)) m1 OR push_bit (8 * n) m2),
              st\<lparr>c_one := drop_bit (8 * (8 - n)) m2\<rparr>))
        else
          Inr ((c_one st, c_two st OR push_bit (8 * (n - 8)) m1),
            st\<lparr>c_one := drop_bit (8 * (16 - n)) m1 OR push_bit (8 * (n - 8)) m2, c_two := drop_bit (8 * (16 - n)) m2\<rparr>)))"

definition process_carry :: "64 word \<Rightarrow> 64 word \<Rightarrow> hash128_state \<Rightarrow> hash128_state" where
  "process_carry k1 k2 st = (let (h1, h2) = PROCESS_BLOCK k1 k2 (h_one st, h_two st) in st\<lparr>h_one := h1, h_two := h2\<rparr>)"

definition PROCESS_BYTES :: "hash128_state \<Rightarrow> byte list \<Rightarrow> c_fault + hash128_state" where
  "PROCESS_BYTES st key =
     bindE (assertE (length key < 16)) (\<lambda>_.
     if 16 \<le> carry_bytes st + length key then
       let pb_carry_fill = 16 - carry_bytes st
       in bindE (ADD_BYTES st (take pb_carry_fill key)) (\<lambda>st.
          bindE (assertE (carry_bytes st = 16)) (\<lambda>_.
            ADD_BYTES ((process_carry (c_one st) (c_two st) st)\<lparr>c_one := 0, c_two := 0, carry_bytes := 0\<rparr>)
              (drop pb_carry_fill key)))
     else ADD_BYTES st key)"

function ingest_loop :: "hash128_state \<Rightarrow> byte list \<Rightarrow> c_fault + hash128_state \<times> byte list" where
  "ingest_loop st key =
     (if 16 \<le> length key then
        (case GET_BLOCK st key of
           Inl e \<Rightarrow> Inl e
         | Inr ((k1, k2), st') \<Rightarrow> ingest_loop (process_carry k1 k2 st') (drop 16 key))
      else Inr (st, key))"
  by pat_completeness auto
termination by (relation "measure (\<lambda>(st, key). length key)") auto

declare ingest_loop.simps [simp del]

text \<open>
  \<open>align\<close> is the number of bytes up to the next multiple of 8 on a machine that must not load
  words from other addresses, and 0 on one that may.
\<close>

definition ydb_mmrhash_128_ingest :: "nat \<Rightarrow> hash128_state \<Rightarrow> byte list \<Rightarrow> c_fault + hash128_state" where
  "ydb_mmrhash_128_ingest align st key =
     (if key = [] then Inr st
      else let i = min align (length key) in
        bindE (if 0 < i then PROCESS_BYTES st (take i key) else Inr st) (\<lambda>st.
        bindE (ingest_loop st (drop i key)) (\<lambda>(st, rest).
          if rest \<noteq> [] then PROCESS_BYTES st rest else Inr st)))"

definition ydb_mmrhash_128_result :: "hash128_state \<Rightarrow> 32 word \<Rightarrow> h128" where
  "ydb_mmrhash_128_result st total_len =
     (let k1 = c_one st; k2 = c_two st; h1 = h_one st; h2 = h_two st;
          h2 = (if carry_bytes st \<noteq> 0 \<and> 8 < carry_bytes st then INTEGRATE_K2 k2 h2 else h2);
          h1 = (if carry_bytes st \<noteq> 0 then INTEGRATE_K1 k1 h1 else h1)
      in x64_128_final (ucast total_len) (h1, h2))"

text \<open>\<open>HASH128_STATE_INIT\<close> is a macro of YottaDB's mmrhash.h, and here the function \<open>init\<close>.\<close>

definition ydb_mmrhash_128 :: "(32 word \<Rightarrow> hash128_state) \<Rightarrow> nat \<Rightarrow> byte list \<Rightarrow> 32 word \<Rightarrow> c_fault + h128" where
  "ydb_mmrhash_128 init align key seed =
     (let st = init seed in
      bindE (assertE (carry_bytes st = 0 \<and> c_one st = 0 \<and> c_two st = 0)) (\<lambda>_.
      bindE (ydb_mmrhash_128_ingest align st key) (\<lambda>st. Inr (ydb_mmrhash_128_result st (of_nat (length key))))))"

definition ydb_mmrhash_32 :: "(32 word \<Rightarrow> hash128_state) \<Rightarrow> nat \<Rightarrow> byte list \<Rightarrow> 32 word \<Rightarrow> c_fault + 32 word" where
  "ydb_mmrhash_32 init align key seed = bindE (ydb_mmrhash_128 init align key seed) (\<lambda>(one, two). Inr (ucast one))"

section \<open>The hash as text\<close>

definition word_bytes :: "64 word \<Rightarrow> byte list" where
  "word_bytes w = List.map (\<lambda>i. ucast (drop_bit (8 * i) w)) [0..<8]"

definition ydb_mmrhash_128_bytes :: "h128 \<Rightarrow> byte list" where
  "ydb_mmrhash_128_bytes hash = word_bytes (fst hash) @ word_bytes (snd hash)"

definition hex_digit :: "byte \<Rightarrow> byte" where
  "hex_digit n = (if n < 10 then n + 48 else n - 10 + 97)"

definition ydb_mmrhash_128_hex :: "h128 \<Rightarrow> byte list" where
  "ydb_mmrhash_128_hex hash =
     concat (List.map (\<lambda>b. [hex_digit (drop_bit 4 b AND 0xf), hex_digit (b AND 0xf)]) (ydb_mmrhash_128_bytes hash))"

end
