(* ===== verification/MurmurProps.thy ===== *)
theory MurmurProps
  imports Murmur
begin

text \<open>
  The progressive hash computes the hash of the whole key, in whatever pieces the key arrives.
\<close>

section \<open>Words and their bytes\<close>

lemma bit_le_word:
  "bit (le_word bs :: 'a :: len word) n \<longleftrightarrow> n < LENGTH('a) \<and> n < 8 * length bs \<and> bit (bs ! (n div 8)) (n mod 8)"
proof (induction bs arbitrary: n)
  case (Cons b bs)
  show ?case
  proof (cases "n < 8")
    case True
    then show ?thesis by (auto simp: bit_simps)
  next
    case False
    then have "n div 8 = Suc ((n - 8) div 8)" "n mod 8 = (n - 8) mod 8" by (simp_all add: le_div_geq le_mod_geq)
    moreover have "\<not> bit b n" using False bit_imp_le_length [of b n] by auto
    ultimately show ?thesis using False Cons [of "n - 8"] by (auto simp: bit_simps)
  qed
qed simp

lemma le_word_append: "(le_word (xs @ ys) :: 'a :: len word) = le_word xs OR push_bit (8 * length xs) (le_word ys)"
  by (induction xs) (simp_all add: push_bit_or ac_simps)

lemma le_word_take: "LENGTH('a) \<le> 8 * n \<Longrightarrow> (le_word (take n xs) :: 'a :: len word) = le_word xs"
  by (rule bit_word_eqI) (auto simp: bit_le_word)

lemma le_word_drop:
  assumes "8 * length xs \<le> LENGTH('a)"
  shows "drop_bit (8 * n) (le_word xs :: 'a :: len word) = le_word (drop n xs)"
proof (rule bit_word_eqI)
  fix m
  have "(8 * n + m) div 8 = n + m div 8" "(8 * n + m) mod 8 = m mod 8" by simp_all
  then show "bit (drop_bit (8 * n) (le_word xs :: 'a word)) m \<longleftrightarrow> bit (le_word (drop n xs) :: 'a word) m"
    using assms by (auto simp: bit_drop_bit_eq bit_le_word nth_drop)
qed

text \<open>The switch over a tail collects its bytes.\<close>

lemma or_is_xor: "(\<And>n. \<not> (bit a n \<and> bit b n)) \<Longrightarrow> a OR b = a XOR (b :: 'a :: len word)"
  by (rule bit_word_eqI) (auto simp: bit_simps)

lemma xor_bytes:
  assumes "m \<le> length tail" "a \<le> m"
  shows "fold (\<lambda>i k. k XOR push_bit (8 * (i - a)) (ucast (tail ! i))) (rev [a..<m]) (w :: 'a :: len word) =
    w XOR le_word (take (m - a) (drop a tail))"
  using assms
proof (induction m arbitrary: w)
  case (Suc m)
  show ?case
  proof (cases "a = Suc m")
    case False
    then have am: "a \<le> m" using Suc.prems by simp
    let ?low = "le_word (take (m - a) (drop a tail)) :: 'a word"
      and ?high = "push_bit (8 * (m - a)) (ucast (tail ! m)) :: 'a word"
    have "take (Suc m - a) (drop a tail) = take (m - a) (drop a tail) @ [tail ! m]"
      using am Suc.prems by (simp add: Suc_diff_le take_Suc_conv_app_nth)
    then have "le_word (take (Suc m - a) (drop a tail)) = ?low OR ?high"
      using am Suc.prems by (simp add: le_word_append)
    also have "\<dots> = ?low XOR ?high"
      by (rule or_is_xor) (auto simp: bit_le_word bit_push_bit_iff)
    finally show ?thesis using Suc.IH [of "w XOR ?high"] am Suc.prems by (simp add: ac_simps)
  qed simp
qed simp

lemma xor_tail_word: "a \<le> length tail \<Longrightarrow> a \<le> n \<Longrightarrow> xor_tail tail a n = le_word (take (n - a) (drop a tail))"
  using xor_bytes [of "min n (length tail)" tail a 0]
  by (cases "n \<le> length tail") (simp_all add: xor_tail_def)

lemma xor_tail_short: "length tail < a \<Longrightarrow> xor_tail tail a n = 0"
  by (simp add: xor_tail_def)

section \<open>The state after some bytes\<close>

text \<open>
  What \<open>HASH128_STATE_INIT\<close> of mmrhash.h, which is not in the repository, is taken to leave: nothing is carried,
  and both halves are the seed, as at the start of \<open>MurmurHash3_x64_128\<close>. What the state of the progressive hash must be
  after the bytes \<open>bs\<close>.
\<close>

definition hash_start :: "32 word \<Rightarrow> hash128_state" where
  "hash_start seed = \<lparr>carry_bytes = 0, c_one = 0, c_two = 0, h_one = ucast seed, h_two = ucast seed\<rparr>"

definition carrying :: "h128 \<Rightarrow> byte list \<Rightarrow> hash128_state" where
  "carrying h bs = \<lparr>carry_bytes = length bs, c_one = le_word (take 8 bs), c_two = le_word (drop 8 bs), h_one = fst h, h_two = snd h\<rparr>"

definition hash_of :: "h128 \<Rightarrow> byte list \<Rightarrow> hash128_state" where
  "hash_of h bs = (case blocks_loop 16 x64_128_block h bs of (h', rest) \<Rightarrow> carrying h' rest)"

lemma blocks_loop_short: "length bs < 16 \<Longrightarrow> blocks_loop 16 f h bs = (h, bs)"
  by (subst blocks_loop.simps) simp

lemma blocks_loop_long: "16 \<le> length bs \<Longrightarrow> blocks_loop 16 f h bs = blocks_loop 16 f (f h (take 16 bs)) (drop 16 bs)"
  by (subst blocks_loop.simps) simp

lemma blocks_loop_rest: "length (snd (blocks_loop 16 f h bs)) < 16"
proof (induction bs arbitrary: h rule: length_induct)
  case (1 bs)
  show ?case
  proof (cases "16 \<le> length bs")
    case True
    then have "length (drop 16 bs) < length bs" by simp
    with 1 show ?thesis unfolding blocks_loop_long [OF True] by blast
  qed (simp add: blocks_loop_short)
qed

text \<open>More bytes after some: the rest of the first goes before them.\<close>

lemma blocks_loop_append:
  "blocks_loop 16 f h (bs @ xs) = (case blocks_loop 16 f h bs of (h', rest) \<Rightarrow> blocks_loop 16 f h' (rest @ xs))"
proof (induction bs arbitrary: h rule: length_induct)
  case (1 bs)
  show ?case
  proof (cases "16 \<le> length bs")
    case True
    then have less: "length (drop 16 bs) < length bs" and long: "16 \<le> length (bs @ xs)"
      and pieces: "take 16 (bs @ xs) = take 16 bs" "drop 16 (bs @ xs) = drop 16 bs @ xs" by simp_all
    show ?thesis
      unfolding blocks_loop_long [OF True] blocks_loop_long [OF long] pieces using 1 less by blast
  qed (simp add: blocks_loop_short)
qed

lemma carrying_fields [simp]:
  "carry_bytes (carrying h bs) = length bs" "c_one (carrying h bs) = le_word (take 8 bs)"
  "c_two (carrying h bs) = le_word (drop 8 bs)" "h_one (carrying h bs) = fst h" "h_two (carrying h bs) = snd h"
  by (simp_all add: carrying_def)

lemma hash_of_append:
  assumes "blocks_loop 16 x64_128_block h bs = (h', rest)"
  shows "hash_of h (bs @ xs) = hash_of h' (rest @ xs)"
  unfolding hash_of_def blocks_loop_append [of x64_128_block h bs xs] assms by simp

lemma hash_of_short: "length bs < 16 \<Longrightarrow> hash_of h bs = carrying h bs"
  by (simp add: hash_of_def blocks_loop_short)

lemma hash_of_block: "16 \<le> length bs \<Longrightarrow> hash_of h bs = hash_of (x64_128_block h (take 16 bs)) (drop 16 bs)"
  by (simp add: hash_of_def blocks_loop_long)

lemma hash_of_cases:
  obtains h' rest where "hash_of h bs = carrying h' rest" "length rest < 16" "\<And>xs. hash_of h (bs @ xs) = hash_of h' (rest @ xs)"
proof -
  obtain h' rest where r: "blocks_loop 16 x64_128_block h bs = (h', rest)" by fastforce
  then show ?thesis
    using that [of h' rest] hash_of_append [OF r] blocks_loop_rest [of x64_128_block h bs] by (simp add: hash_of_def)
qed

lemma process_block_words: "PROCESS_BLOCK (le_word (take 8 b)) (le_word (drop 8 b)) h = x64_128_block h b"
  by (simp add: PROCESS_BLOCK_def x64_128_block_def INTEGRATE_K1_def INTEGRATE_K2_def C1_def C2_def M1_def M2_def Let_def
      split: prod.splits)

section \<open>Adding bytes\<close>

lemma add_first_word: "add_first (rev xs) (n + length xs) c1 = c1 OR push_bit (8 * n) (le_word xs)"
proof (induction xs arbitrary: c1 rule: rev_induct)
  case (snoc y ys)
  then show ?case
    by (simp add: le_word_append push_bit_or ac_simps distrib_left)
qed simp

lemma add_second_word:
  "add_second (rev xs) (n + length xs) c2 =
     (c2 OR push_bit (8 * (n + (8 - n) - 8)) (le_word (drop (8 - n) xs)), rev (take (8 - n) xs), n + length (take (8 - n) xs))"
proof (induction xs arbitrary: c2 rule: rev_induct)
  case (snoc y ys)
  show ?case
  proof (cases "8 - n \<le> length ys")
    case True
    then have d: "drop (8 - n) (ys @ [y]) = drop (8 - n) ys @ [y]" "take (8 - n) (ys @ [y]) = take (8 - n) ys" by simp_all
    have e: "8 * (n + length ys - 8) = 8 * (n + (8 - n) - 8) + 8 * (length ys - (8 - n))" using True by simp
    have "8 < n + length (ys @ [y])" using True by simp
    then have "add_second (rev (ys @ [y])) (n + length (ys @ [y])) c2 =
        add_second (rev ys) (n + length ys) (c2 OR push_bit (8 * (n + length ys - 8)) (ucast y))"
      by simp
    also have "\<dots> = ((c2 OR push_bit (8 * (n + length ys - 8)) (ucast y)) OR push_bit (8 * (n + (8 - n) - 8)) (le_word (drop (8 - n) ys)),
        rev (take (8 - n) ys), n + length (take (8 - n) ys))"
      by (rule snoc)
    finally show ?thesis unfolding d e by (simp add: le_word_append push_bit_or ac_simps)
  next
    case False
    then have "\<not> 7 < n + length ys" by simp
    with False show ?thesis by simp
  qed
qed simp

lemma add_bytes:
  assumes "length rest + length key \<le> 16"
  shows "ADD_BYTES (carrying h rest) key = Inr (carrying h (rest @ key))"
proof -
  let ?n = "length rest"
  have two: "le_word (drop 8 rest) OR push_bit (8 * (?n + (8 - ?n) - 8)) (le_word (drop (8 - ?n) key)) =
      (le_word (drop 8 (rest @ key)) :: 64 word)"
    by (cases "?n \<le> 8") (simp_all add: le_word_append)
  have one: "le_word (take 8 rest) OR push_bit (8 * ?n) (le_word (take (8 - ?n) key)) = (le_word (take 8 (rest @ key)) :: 64 word)"
    by (cases "?n \<le> 8") (simp_all add: le_word_append)
  have zero: "rest @ key = [] \<Longrightarrow> le_word (take 8 (rest @ key)) = (0 :: 64 word) \<and> le_word (drop 8 (rest @ key)) = (0 :: 64 word)"
    by simp
  have "add_second (rev key) (?n + length key) (le_word (drop 8 rest)) =
      (le_word (drop 8 (rest @ key)), rev (take (8 - ?n) key), ?n + length (take (8 - ?n) key))"
    unfolding add_second_word two ..
  moreover have "add_first (rev (take (8 - ?n) key)) (?n + length (take (8 - ?n) key)) (le_word (take 8 rest)) =
      le_word (take 8 (rest @ key))"
    unfolding add_first_word one ..
  ultimately show ?thesis using assms
    by (simp add: ADD_BYTES_def carrying_def assertE_def Let_def del: take_append drop_append)
qed

lemma get_block:
  assumes "length rest < 16" "length a = 8" "length b = 8"
  shows "GET_BLOCK (carrying h rest) (a @ b @ later) =
     (let all = rest @ a @ b; bl = take 16 all
      in Inr ((le_word (take 8 bl), le_word (drop 8 bl)), carrying h (drop 16 all)))"
proof -
  let ?n = "length rest"
  have m: "drop_bit (8 * k) (le_word a) = (le_word (drop k a) :: 64 word)" "drop_bit (8 * k) (le_word b) = (le_word (drop k b) :: 64 word)" for k
    using assms by (simp_all add: le_word_drop)
  have t: "(le_word (take 8 xs) :: 64 word) = le_word xs" for xs by (rule le_word_take) simp
  consider "?n = 0" | "0 < ?n" "?n < 8" | "?n = 8" | "8 < ?n" by linarith
  then show ?thesis
  proof cases
    case 2
    have join: "le_word (drop (8 - ?n) xs) OR push_bit (8 * ?n) (le_word ys) = (le_word (drop (8 - ?n) xs @ ys) :: 64 word)"
      if "length xs = 8" for xs ys using that 2 by (simp add: le_word_append)
    have first: "le_word rest OR push_bit (8 * ?n) (le_word a) = (le_word (rest @ take (8 - ?n) a) :: 64 word)"
      using t [of "rest @ a"] 2 by (simp add: le_word_append)
    have second: "le_word (drop (8 - ?n) a) OR push_bit (8 * ?n) (le_word b) =
        (le_word (drop (8 - ?n) a @ take (8 - ?n) b) :: 64 word)"
      using t [of "drop (8 - ?n) a @ b"] 2 assms by (simp add: join)
    show ?thesis
      using 2 assms by (simp add: GET_BLOCK_def carrying_def assertE_def Let_def m first second)
  next
    case 4
    have first: "le_word (drop 8 rest) OR push_bit (8 * (?n - 8)) (le_word a) =
        (le_word (drop 8 rest @ take (16 - ?n) a) :: 64 word)"
      using t [of "drop 8 rest @ a"] 4 assms by (simp add: le_word_append min_absorb1)
    have "length (drop (16 - ?n) a) = ?n - 8" using 4 assms by simp
    then have second: "le_word (drop (16 - ?n) a) OR push_bit (8 * (?n - 8)) (le_word b) =
        (le_word (drop (16 - ?n) a @ take (16 - ?n) b) :: 64 word)"
      using t [of "drop (16 - ?n) a @ b"] 4 assms le_word_append [of "drop (16 - ?n) a" b, where 'a = 64] by simp
    have "rest \<noteq> []" using 4 by auto
    then show ?thesis
      using 4 assms by (simp add: GET_BLOCK_def carrying_def assertE_def Let_def m first second)
  qed (use assms in \<open>simp_all add: GET_BLOCK_def carrying_def assertE_def Let_def\<close>)
qed

section \<open>Pieces of a key\<close>

lemma process_carry_words:
  "process_carry (le_word (take 8 bl)) (le_word (drop 8 bl)) (carrying h rest) = carrying (x64_128_block h bl) rest"
  using process_block_words [of bl h] by (simp add: process_carry_def carrying_def split: prod.splits)

lemma process_bytes:
  assumes "length rest < 16" "length key < 16"
  shows "PROCESS_BYTES (carrying h rest) key = Inr (hash_of h (rest @ key))"
proof (cases "16 \<le> length rest + length key")
  case True
  let ?fill = "16 - length rest" and ?bl = "rest @ take (16 - length rest) key"
  have bl: "length ?bl = 16" using assms True by simp
  have split: "take 16 (rest @ key) = ?bl" "drop 16 (rest @ key) = drop ?fill key" using assms True by simp_all
  have add: "ADD_BYTES (carrying h rest) (take ?fill key) = Inr (carrying h ?bl)"
    using assms bl by (intro add_bytes) simp
  have zero: "(carrying h' bl)\<lparr>c_one := 0, c_two := 0, carry_bytes := 0\<rparr> = carrying h' []" for h' bl
    by (simp add: carrying_def)
  have "PROCESS_BYTES (carrying h rest) key = ADD_BYTES (carrying (x64_128_block h ?bl) []) (drop ?fill key)"
    using True assms(2) bl
    by (simp add: PROCESS_BYTES_def assertE_def Let_def add process_carry_words zero del: take_append drop_append)
  also have "\<dots> = Inr (carrying (x64_128_block h ?bl) (drop ?fill key))" using assms by (subst add_bytes) simp_all
  also have "\<dots> = Inr (hash_of h (rest @ key))"
    using True assms hash_of_block [of "rest @ key" h] by (simp only: split) (simp add: hash_of_short)
  finally show ?thesis .
next
  case False
  then show ?thesis using assms(2) add_bytes [of rest key h] by (simp add: PROCESS_BYTES_def assertE_def hash_of_short)
qed

lemma ingest_blocks:
  assumes "length rest < 16"
  shows "\<exists>h' rest' left. ingest_loop (carrying h rest) key = Inr (carrying h' rest', left) \<and>
     length rest' < 16 \<and> length left < 16 \<and> hash_of h (rest @ key) = hash_of h' (rest' @ left)"
  using assms
proof (induction key arbitrary: h rest rule: length_induct)
  case (1 key)
  show ?case
  proof (cases "16 \<le> length key")
    case True
    let ?a = "take 8 key" and ?b = "take 8 (drop 8 key)" and ?later = "drop 16 key"
    have "key = ?a @ drop 8 key" "drop 8 key = ?b @ drop 8 (drop 8 key)" by (rule append_take_drop_id [symmetric])+
    then have key: "key = ?a @ ?b @ ?later" by simp
    let ?all = "rest @ ?a @ ?b"
    have len: "length ?a = 8" "length ?b = 8" using True by simp_all
    let ?h = "x64_128_block h (take 16 ?all)" and ?r = "drop 16 ?all"
    have get: "GET_BLOCK (carrying h rest) key =
        Inr ((le_word (take 8 (take 16 ?all)), le_word (drop 8 (take 16 ?all))), carrying h ?r)"
      using get_block [OF 1(2) len, of h ?later] key unfolding Let_def by simp
    have loop: "ingest_loop (carrying h rest) key = ingest_loop (carrying ?h ?r) ?later"
      by (subst ingest_loop.simps) (simp only: True get if_True sum.case prod.case process_carry_words)
    have r: "length ?r < 16" using 1(2) len by simp
    have "16 \<le> length (rest @ key)" using True by simp
    moreover have "take 16 (rest @ key) = take 16 ?all" "drop 16 (rest @ key) = ?r @ ?later"
      using len arg_cong [OF key, of "\<lambda>k. take 16 (rest @ k)"] arg_cong [OF key, of "\<lambda>k. drop 16 (rest @ k)"] by simp_all
    ultimately have "hash_of h (rest @ key) = hash_of ?h (?r @ ?later)" by (simp only: hash_of_block)
    moreover have "length ?later < length key" using True by simp
    ultimately show ?thesis using 1(1) r unfolding loop by metis
  next
    case False
    then show ?thesis using 1(2)
      by (intro exI [of _ h] exI [of _ rest] exI [of _ key]) (subst ingest_loop.simps, simp)
  qed
qed

lemma ingest_carrying:
  assumes "length rest < 16"
  shows "bindE (ingest_loop (carrying h rest) key) (\<lambda>(st, left). if left \<noteq> [] then PROCESS_BYTES st left else Inr st) =
    Inr (hash_of h (rest @ key))"
proof -
  obtain h' rest' left where loop: "ingest_loop (carrying h rest) key = Inr (carrying h' rest', left)"
    "length rest' < 16" "length left < 16" "hash_of h (rest @ key) = hash_of h' (rest' @ left)"
    using ingest_blocks [OF assms] by blast
  then show ?thesis using process_bytes [OF loop(2,3)] by (simp add: hash_of_short)
qed

lemma ingest_more:
  assumes "align < 16"
  shows "ydb_mmrhash_128_ingest align (hash_of h bs) key = Inr (hash_of h (bs @ key))"
proof (cases "key = []")
  case False
  let ?i = "min align (length key)"
  obtain h1 r1 where c1: "hash_of h bs = carrying h1 r1" "length r1 < 16" "\<And>xs. hash_of h (bs @ xs) = hash_of h1 (r1 @ xs)"
    by (rule hash_of_cases [of h bs]) blast
  obtain h2 r2 where c2: "hash_of h (bs @ take ?i key) = carrying h2 r2" "length r2 < 16"
    "\<And>xs. hash_of h ((bs @ take ?i key) @ xs) = hash_of h2 (r2 @ xs)"
    by (rule hash_of_cases [of h "bs @ take ?i key"]) blast
  have "(if 0 < ?i then PROCESS_BYTES (hash_of h bs) (take ?i key) else Inr (hash_of h bs)) = Inr (carrying h2 r2)"
  proof (cases "0 < ?i")
    case True
    have "PROCESS_BYTES (carrying h1 r1) (take ?i key) = Inr (hash_of h1 (r1 @ take ?i key))"
      using assms by (intro process_bytes c1(2)) simp
    then show ?thesis using True c1(1) c1(3) [of "take ?i key"] c2(1) by simp
  next
    case False
    then have "?i = 0" by linarith
    then have "hash_of h bs = carrying h2 r2" using c2(1) by (simp only: take_0 append_Nil2)
    then show ?thesis using False by (simp only: if_False)
  qed
  then have "ydb_mmrhash_128_ingest align (hash_of h bs) key = Inr (hash_of h2 (r2 @ drop ?i key))"
    using False ingest_carrying [OF c2(2), of h2 "drop ?i key"] by (simp add: ydb_mmrhash_128_ingest_def Let_def)
  also have "hash_of h2 (r2 @ drop ?i key) = hash_of h (bs @ key)"
    using c2(3) [of "drop ?i key"] by (metis append_assoc append_take_drop_id)
  finally show ?thesis .
qed (simp add: ydb_mmrhash_128_ingest_def)

lemma result_hash:
  assumes "length key < 2 ^ 31"
  shows "ydb_mmrhash_128_result (hash_of (ucast seed, ucast seed) key) (of_nat (length key)) = MurmurHash3_x64_128 key seed"
proof -
  obtain h1 h2 tail where loop: "blocks_loop 16 x64_128_block (ucast seed, ucast seed) key = ((h1, h2), tail)" by (metis prod.exhaust)
  have n: "length tail < 16" using blocks_loop_rest [of x64_128_block "(ucast seed, ucast seed)" key] loop by simp
  have k1: "(xor_tail tail 0 8 :: 64 word) = le_word (take 8 tail)" by (simp add: xor_tail_word)
  have k2: "(xor_tail tail 8 15 :: 64 word) = le_word (drop 8 tail)"
  proof (cases "8 \<le> length tail")
    case True
    then show ?thesis using n by (simp add: xor_tail_word)
  qed (simp add: xor_tail_short)
  have len: "ucast (of_nat (length key) :: 32 word) = (of_nat (length key) :: 64 word)"
    using assms by (simp add: unsigned_of_nat take_bit_nat_eq_self)
  show ?thesis
    by (simp add: ydb_mmrhash_128_result_def MurmurHash3_x64_128_def hash_of_def loop Let_def len k1 k2 carrying_def
        INTEGRATE_K1_def INTEGRATE_K2_def C1_def C2_def)
qed

lemma hash_start_of: "hash_start seed = hash_of (ucast seed, ucast seed) []"
  by (simp add: hash_start_def hash_of_short carrying_def)

text \<open>A key in pieces, each with its alignment.\<close>

fun ingest_pieces :: "hash128_state \<Rightarrow> (nat \<times> byte list) list \<Rightarrow> c_fault + hash128_state" where
  "ingest_pieces st [] = Inr st"
| "ingest_pieces st ((align, key) # ps) = bindE (ydb_mmrhash_128_ingest align st key) (\<lambda>st. ingest_pieces st ps)"

lemma ingest_pieces_hash:
  "\<forall>(align, key) \<in> set ps. align < 8 \<Longrightarrow> ingest_pieces (hash_of h bs) ps = Inr (hash_of h (bs @ concat (List.map snd ps)))"
proof (induction ps arbitrary: bs)
  case (Cons p ps)
  obtain align key where p: "p = (align, key)" by fastforce
  then have "align < 16" using Cons.prems by simp
  then show ?case using Cons.IH [of "bs @ key"] Cons.prems p by (simp add: ingest_more)
qed simp

text \<open>
  C33: however a key is cut into pieces and wherever the pieces lie in memory, the progressive hash
  takes them without a failed assertion, and its result is the hash that
  \<open>MurmurHash3_x64_128\<close> computes from the whole key.
\<close>

theorem pieces_hash_whole:
  assumes "\<forall>(align, key) \<in> set ps. align < 8" "length (concat (List.map snd ps)) < 2 ^ 31"
  shows "\<exists>st. ingest_pieces (hash_start seed) ps = Inr st \<and>
    ydb_mmrhash_128_result st (of_nat (length (concat (List.map snd ps)))) = MurmurHash3_x64_128 (concat (List.map snd ps)) seed"
  using ingest_pieces_hash [OF assms(1), of "(ucast seed, ucast seed)" "[]"] result_hash [OF assms(2), of seed]
  by (simp add: hash_start_of)

theorem pieces_hash_whole_witness:
  "\<exists>st. ingest_pieces (hash_start 1) [(3, [1, 2, 3, 4, 5]), (0, replicate 20 7)] = Inr st \<and>
    ydb_mmrhash_128_result st 25 = MurmurHash3_x64_128 ([1, 2, 3, 4, 5] @ replicate 20 7) 1"
  using pieces_hash_whole [of "[(3, [1, 2, 3, 4, 5]), (0, replicate 20 7)]" 1] by simp

text \<open>
  C34: \<open>ydb_mmrhash_128\<close> and \<open>MurmurHash3_x64_128\<close> compute the same hash of every key, and \<open>ydb_mmrhash_32\<close> the
  low 32 bits of its first word, with no failed assertion, if the state is initialized with the seed in both
  halves of the hash and nothing carried.
\<close>

theorem mmrhash_is_x64_128:
  assumes "init = hash_start" "align < 8" "length key < 2 ^ 31"
  shows "ydb_mmrhash_128 init align key seed = Inr (MurmurHash3_x64_128 key seed) \<and>
    ydb_mmrhash_32 init align key seed = Inr (ucast (fst (MurmurHash3_x64_128 key seed) AND mask 32))"
proof -
  have "ydb_mmrhash_128_ingest align (hash_start seed) key = Inr (hash_of (ucast seed, ucast seed) key)"
    using ingest_more [of align "(ucast seed, ucast seed)" "[]" key] assms(2) by (simp add: hash_start_of)
  then have all: "ydb_mmrhash_128 init align key seed = Inr (MurmurHash3_x64_128 key seed)" using result_hash [OF assms(3), of seed]
    by (simp add: ydb_mmrhash_128_def assms(1) assertE_def Let_def) (simp add: hash_start_def)
  have "ucast (w AND mask 32) = (ucast w :: 32 word)" for w :: "64 word"
    by (rule bit_word_eqI) (simp add: bit_simps)
  then show ?thesis by (simp add: all ydb_mmrhash_32_def case_prod_beta)
qed

theorem mmrhash_is_x64_128_witness:
  "ydb_mmrhash_128 hash_start 5 [104, 101, 108, 108, 111] 0 = Inr (MurmurHash3_x64_128 [104, 101, 108, 108, 111] 0) \<and>
   ydb_mmrhash_32 hash_start 5 [104, 101, 108, 108, 111] 0 = Inr (ucast (fst (MurmurHash3_x64_128 [104, 101, 108, 108, 111] 0) AND mask 32))"
  by (rule mmrhash_is_x64_128) simp_all

section \<open>The hexadecimal text\<close>

definition hex_value :: "byte \<Rightarrow> byte" where
  "hex_value c = (if c < 58 then c - 48 else c - 87)"

fun read_hex :: "byte list \<Rightarrow> byte list" where
  "read_hex (c # d # cs) = (push_bit 4 (hex_value c) OR hex_value d) # read_hex cs"
| "read_hex cs = []"

lemma nibble_cases:
  assumes "n < (16 :: byte)"
  obtains k where "n = of_nat k" "k \<in> {0, 1, 2, 3, 4, 5, 6, 7, 8, 9, 10, 11, 12, 13, 14, 15}"
proof
  have "unat n < 16" using assms by (simp add: word_less_nat_alt)
  then show "unat n \<in> {0, 1, 2, 3, 4, 5, 6, 7, 8, 9, 10, 11, 12, 13, 14, 15}" by simp presburger
qed simp

lemma hex_digit_value: "n < 16 \<Longrightarrow> hex_value (hex_digit n) = n"
  by (erule nibble_cases) (auto simp: hex_value_def hex_digit_def)

lemma hex_digit_range: "n < 16 \<Longrightarrow> hex_digit n \<in> {48..57} \<union> {97..102}"
  by (erule nibble_cases) (auto simp: hex_digit_def)

lemma nibbles: "drop_bit 4 b AND 0xf < (16 :: byte)" "b AND 0xf < (16 :: byte)"
proof -
  have "x AND 0xf \<le> (0xf :: byte)" for x by (rule word_and_le1)
  then have "x AND 0xf < (16 :: byte)" for x by (rule le_less_trans) simp
  then show "drop_bit 4 b AND 0xf < (16 :: byte)" "b AND 0xf < (16 :: byte)" by simp_all
qed

lemma nibbles_join: "push_bit 4 (drop_bit 4 b AND 0xf) OR (b AND 0xf) = (b :: byte)"
proof -
  have mask: "(0xf :: byte) = mask 4" by (simp add: mask_eq_exp_minus_1)
  show ?thesis
  proof (rule bit_word_eqI)
    fix n assume "n < LENGTH(8)"
    then show "bit (push_bit 4 (drop_bit 4 b AND 0xf) OR (b AND 0xf)) n \<longleftrightarrow> bit b n"
      unfolding mask by (auto simp: bit_simps)
  qed
qed

lemma word_bytes_word: "le_word (word_bytes w) = w"
proof (rule bit_word_eqI)
  fix n assume "n < LENGTH(64)"
  then have n: "n < 64" "n div 8 < 8" by simp_all
  then show "bit (le_word (word_bytes w) :: 64 word) n \<longleftrightarrow> bit w n"
    by (simp add: bit_le_word word_bytes_def bit_ucast_iff bit_drop_bit_eq)
qed

text \<open>
  The text of a hash has 32 characters, all of them digits or small letters up to f, and
  the bytes of the hash, from which its two words follow, can be read from it.
\<close>

theorem hex_readable:
  "length (ydb_mmrhash_128_hex hash) = 32 \<and> set (ydb_mmrhash_128_hex hash) \<subseteq> {48..57} \<union> {97..102} \<and>
   read_hex (ydb_mmrhash_128_hex hash) = ydb_mmrhash_128_bytes hash \<and>
   (le_word (take 8 (ydb_mmrhash_128_bytes hash)), le_word (drop 8 (ydb_mmrhash_128_bytes hash))) = hash"
proof (intro conjI)
  let ?f = "\<lambda>b. [hex_digit (drop_bit 4 b AND 0xf), hex_digit (b AND 0xf)]"
  have len: "length (concat (List.map ?f bs)) = 2 * length bs" for bs by (induction bs) simp_all
  have read: "read_hex (concat (List.map ?f bs)) = bs" for bs
    by (induction bs) (simp_all add: hex_digit_value [OF nibbles(1)] hex_digit_value [OF nibbles(2)] nibbles_join [simplified])
  show "length (ydb_mmrhash_128_hex hash) = 32"
    unfolding ydb_mmrhash_128_hex_def len by (simp add: ydb_mmrhash_128_bytes_def word_bytes_def)
  show "set (ydb_mmrhash_128_hex hash) \<subseteq> {48..57} \<union> {97..102}"
  proof
    fix c assume "c \<in> set (ydb_mmrhash_128_hex hash)"
    then obtain b where "c = hex_digit (drop_bit 4 b AND 0xf) \<or> c = hex_digit (b AND 0xf)"
      unfolding ydb_mmrhash_128_hex_def set_concat set_map by auto
    then show "c \<in> {48..57} \<union> {97..102}"
      using hex_digit_range [OF nibbles(1) [of b]] hex_digit_range [OF nibbles(2) [of b]] by blast
  qed
  show "read_hex (ydb_mmrhash_128_hex hash) = ydb_mmrhash_128_bytes hash" unfolding ydb_mmrhash_128_hex_def by (rule read)
  have "length (word_bytes w) = 8" for w by (simp add: word_bytes_def)
  then show "(le_word (take 8 (ydb_mmrhash_128_bytes hash)), le_word (drop 8 (ydb_mmrhash_128_bytes hash))) = hash"
    by (simp add: ydb_mmrhash_128_bytes_def word_bytes_word)
qed

section \<open>The end of the hash\<close>

lemma xor_shift:
  assumes "LENGTH('a) \<le> 2 * n"
  shows "(w XOR drop_bit n w) XOR drop_bit n (w XOR drop_bit n w) = (w :: 'a :: len word)"
proof (rule bit_word_eqI)
  fix m
  have "\<not> bit w (n + n + m)" using assms bit_imp_le_length [of w "n + n + m"] by auto
  then show "bit ((w XOR drop_bit n w) XOR drop_bit n (w XOR drop_bit n w)) m \<longleftrightarrow> bit w m"
    by (auto simp: bit_simps add.assoc)
qed

lemma xor_shift_inj: "LENGTH('a) \<le> 2 * n \<Longrightarrow> v XOR drop_bit n v = w XOR drop_bit n w \<longleftrightarrow> v = (w :: 'a :: len word)"
  using xor_shift [of n v] xor_shift [of n w] by metis

lemma mult_inj: "c * d = (1 :: 'a :: len word) \<Longrightarrow> v * c = w * c \<longleftrightarrow> v = w"
  by (metis mult.assoc mult.right_neutral)

lemma fmix64_inj: "fmix64 v = fmix64 w \<longleftrightarrow> v = w"
proof -
  have "0xff51afd7ed558ccd * 5725274745694666757 = (1 :: 64 word)" "0xc4ceb9fe1a85ec53 * 11291846944257947611 = (1 :: 64 word)" by simp_all
  note mult = this [THEN mult_inj]
  have shift: "v XOR drop_bit 33 v = w XOR drop_bit 33 w \<longleftrightarrow> v = w" for v w :: "64 word"
    by (rule xor_shift_inj) simp
  show ?thesis unfolding fmix64_def Let_def by (simp only: shift mult)
qed

lemma sums_inj: "x + y = x' + y' \<Longrightarrow> y + (x + y) = y' + (x' + y') \<Longrightarrow> x = x' \<and> y = (y' :: 'a :: len word)"
  by (metis add_right_cancel)

text \<open>
  The end of the 128-bit hash loses nothing: keys of one length have the same hash only if the
  two words before the end are the same.
\<close>

theorem final_injective: "x64_128_final len h = x64_128_final len h' \<longleftrightarrow> h = h'"
proof
  assume eq: "x64_128_final len h = x64_128_final len h'"
  obtain a b a' b' where h: "h = (a, b)" "h' = (a', b')" by fastforce
  let ?p = "a XOR len" and ?q = "b XOR len" and ?p' = "a' XOR len" and ?q' = "b' XOR len"
  have "fmix64 (?p + ?q) = fmix64 (?p' + ?q') \<and> fmix64 (?q + (?p + ?q)) = fmix64 (?q' + (?p' + ?q'))"
    using eq unfolding h x64_128_final_def Let_def prod.case prod.inject by (intro sums_inj) blast+
  then have "?p = ?p' \<and> ?q = ?q'" unfolding fmix64_inj by (intro sums_inj) blast+
  then have "(a XOR len) XOR len = (a' XOR len) XOR len" "(b XOR len) XOR len = (b' XOR len) XOR len" by simp_all
  then show "h = h'" unfolding h by (simp add: xor.assoc)
qed simp

end
