(* ===== verification/CrcTable.thy ===== *)
theory CrcTable
  imports Prelude "HOL-Library.Word"
begin

unbundle bit_operations_syntax

text \<open>
  v55000/inref/comp_tab.c: the generation of the four tables of the CRC-32C checksum of journal
  records, and the comparison with the tables built into YottaDB (\<open>csum_table\<close>, a parameter).
\<close>

section \<open>The program\<close>

definition TABLE_SIZE :: nat where "TABLE_SIZE = 256"

definition SLICE_BY :: nat where "SLICE_BY = 4"

definition Poly :: "32 word" where "Poly = 0x1EDC6F41"

definition BITMASK :: "nat \<Rightarrow> 32 word" where "BITMASK x = push_bit x 1"

definition TOPBIT :: "32 word" where "TOPBIT = push_bit 31 1"

fun reflect_loop :: "nat list \<Rightarrow> nat \<Rightarrow> 32 word \<Rightarrow> 32 word \<Rightarrow> 32 word" where
  "reflect_loop [] len tmp num = num"
| "reflect_loop (i # is) len tmp num =
     reflect_loop is len (drop_bit 1 tmp)
       (if tmp AND 1 \<noteq> 0 then num OR BITMASK (len - 1 - i) else num AND NOT (BITMASK (len - 1 - i)))"

definition reflect :: "32 word \<Rightarrow> nat \<Rightarrow> 32 word" where
  "reflect num len = reflect_loop [0..<len] len num num"

definition shift_out :: "32 word \<Rightarrow> 32 word" where
  "shift_out checksum = (if checksum AND TOPBIT \<noteq> 0 then push_bit 1 checksum XOR Poly else push_bit 1 checksum)"

type_synonym table = "32 word list list"

text \<open>The first table; its entry 0 is not computed and still 0. Each other table comes from the one before.\<close>

definition first_row :: "32 word list" where
  "first_row = 0 # List.map (\<lambda>i. reflect ((shift_out ^^ 8) (reflect (of_nat i) 32)) 32) [1..<TABLE_SIZE]"

definition next_row :: "32 word list \<Rightarrow> 32 word list \<Rightarrow> 32 word list" where
  "next_row row0 row = List.map (\<lambda>i. drop_bit 8 (row ! i) XOR row0 ! unat (row ! i AND 0xFF)) [0..<TABLE_SIZE]"

definition gentab :: table where
  "gentab =
     (let row0 = first_row; row1 = next_row row0 row0; row2 = next_row row0 row1; row3 = next_row row0 row2
      in [row0, row1, row2, row3])"

definition swap_bytes :: "32 word \<Rightarrow> 32 word" where
  "swap_bytes w =
     (push_bit 24 w AND 0xFF000000) OR (push_bit 8 w AND 0x00FF0000) OR
     (drop_bit 8 w AND 0x0000FF00) OR (drop_bit 24 w AND 0x000000FF)"

definition table_swap :: "table \<Rightarrow> table" where
  "table_swap t = List.map (List.map swap_bytes) t"

text \<open>The bytes of a table as they lie in memory.\<close>

definition word_memory :: "bool \<Rightarrow> 32 word \<Rightarrow> mem" where
  "word_memory big w = List.map (\<lambda>i. ucast (drop_bit (8 * i) w)) (if big then [3, 2, 1, 0] else [0, 1, 2, 3])"

definition table_memory :: "bool \<Rightarrow> table \<Rightarrow> mem" where
  "table_memory big t = concat (List.map (word_memory big) (concat t))"

definition memcmp_equal :: "mem \<Rightarrow> mem \<Rightarrow> nat \<Rightarrow> bool" where
  "memcmp_equal a b n = (take n a = take n b)"

text \<open>\<open>endianness\<close> is an argument: the machine is big-endian or not.\<close>

definition comp_tab_main :: "bool \<Rightarrow> table \<Rightarrow> string" where
  "comp_tab_main big csum_table =
     (let csum_table_test = (if big then table_swap gentab else gentab)
      in if memcmp_equal (table_memory big csum_table_test) (table_memory big csum_table) (SLICE_BY * TABLE_SIZE)
         then ''TABLE-MATCH'' else ''TABLE-MISMATCH'')"

section \<open>Reflection\<close>

lemma bit_BITMASK: "bit (BITMASK x) n \<longleftrightarrow> n = x \<and> x < 32"
  by (auto simp: BITMASK_def bit_exp_iff)

lemma reflect_loop_bits:
  assumes "is = [k..<32]" "k \<le> 32" "\<And>n. bit tmp n = bit w (n + k)" "m < 32"
  shows "bit (reflect_loop is 32 tmp num) m = (if m < 32 - k then bit w (31 - m) else bit num m)"
  using assms
proof (induction "32 - k" arbitrary: "is" k tmp num)
  case 0
  then show ?case by simp
next
  case (Suc d)
  then have k: "k < 32" by simp
  let ?num = "if tmp AND 1 \<noteq> 0 then num OR BITMASK (32 - 1 - k) else num AND NOT (BITMASK (32 - 1 - k))"
  have low: "tmp AND 1 \<noteq> 0 \<longleftrightarrow> bit w k"
    using Suc.prems(3) [of 0] by (simp add: and_one_eq odd_iff_mod_2_eq_one bit_0)
  have num: "bit ?num m = (if m = 31 - k then bit w k else bit num m)"
    using Suc.prems(4) k by (auto simp: low bit_simps bit_BITMASK)
  have "is = k # [Suc k..<32]" using Suc.prems(1) k by (simp add: upt_conv_Cons)
  moreover have "bit (reflect_loop [Suc k..<32] 32 (drop_bit 1 tmp) ?num) m =
      (if m < 32 - Suc k then bit w (31 - m) else bit ?num m)"
    using Suc.hyps(2) k Suc.prems(3,4) by (intro Suc.hyps(1)) (auto simp: bit_drop_bit_eq)
  ultimately show ?case using num k by (auto simp: less_diff_conv)
qed

lemma bit_reflect: "bit (reflect w 32) m \<longleftrightarrow> m < 32 \<and> bit w (31 - m)"
proof (cases "m < 32")
  case True
  then show ?thesis using reflect_loop_bits [of "[0..<32]" 0 w w m w] by (simp add: reflect_def)
next
  case False
  then show ?thesis using bit_imp_le_length [of "reflect w 32" m] by auto
qed

section \<open>The bit-serial checksum\<close>

text \<open>
  The checksum the tables are for works on reflected words: one bit leaves at the low end, and \<open>Crc\<close>,
  the reflection of \<open>Poly\<close>, is added if it was set. \<open>crc_bytes k\<close> lets \<open>k\<close> bytes leave.
\<close>

definition Crc :: "32 word" where "Crc = 0x82F63B78"

definition crc_bit :: "32 word \<Rightarrow> 32 word" where
  "crc_bit c = (if bit c 0 then drop_bit 1 c XOR Crc else drop_bit 1 c)"

definition crc_bytes :: "nat \<Rightarrow> 32 word \<Rightarrow> 32 word" where
  "crc_bytes k = crc_bit ^^ (8 * k)"

lemma reflect_Poly: "bit Poly (31 - m) \<longleftrightarrow> bit Crc m" if "m < 32"
proof -
  have "\<forall>m \<in> set [0..<32]. bit Poly (31 - m) \<longleftrightarrow> bit Crc m"
    by (simp add: Poly_def Crc_def upt_rec)
  then show ?thesis using that by simp
qed

lemma reflect_shift: "reflect (shift_out c) 32 = crc_bit (reflect c 32)"
proof (rule bit_word_eqI)
  fix m assume "m < LENGTH(32)"
  then have m: "m < 32" by simp
  have top: "c AND TOPBIT \<noteq> 0 \<longleftrightarrow> bit c 31"
    by (simp add: TOPBIT_def bit_iff_and_push_bit_not_eq_0)
  have up: "bit (c * 2) (31 - m) \<longleftrightarrow> m < 31 \<and> bit c (30 - m)"
    using bit_push_bit_iff [of 1 c "31 - m"] m by auto
  have poly: "bit Poly (31 - m) \<longleftrightarrow> bit Crc m" by (rule reflect_Poly [OF m])
  show "bit (reflect (shift_out c) 32) m \<longleftrightarrow> bit (crc_bit (reflect c 32)) m"
    using m by (cases "bit c 31") (auto simp: shift_out_def top crc_bit_def bit_reflect up bit_drop_bit_eq bit_xor_iff poly)
qed

lemma reflect_shifts: "reflect ((shift_out ^^ n) c) 32 = (crc_bit ^^ n) (reflect c 32)"
  by (induction n) (simp_all add: reflect_shift)

lemma reflect_twice: "reflect (reflect c 32) 32 = c"
  by (rule bit_word_eqI) (auto simp: bit_reflect)

lemma crc_bit_xor: "crc_bit (a XOR b) = crc_bit a XOR crc_bit b"
  by (auto simp: crc_bit_def bit_simps drop_bit_xor ac_simps)

lemma crc_bytes_xor: "crc_bytes k (a XOR b) = crc_bytes k a XOR crc_bytes k b"
proof -
  have "(crc_bit ^^ n) (a XOR b) = (crc_bit ^^ n) a XOR (crc_bit ^^ n) b" for n
    by (induction n) (simp_all add: crc_bit_xor)
  then show ?thesis by (simp add: crc_bytes_def)
qed

lemma crc_bytes_Suc: "crc_bytes (Suc k) c = crc_bytes 1 (crc_bytes k c)"
proof -
  have "8 * Suc k = 8 + 8 * k" by simp
  then show ?thesis unfolding crc_bytes_def by (simp only: funpow_add mult_1_right comp_apply)
qed

text \<open>Zeros leave without a trace.\<close>

lemma crc_zeros: "(\<And>i. i < n \<Longrightarrow> \<not> bit c i) \<Longrightarrow> (crc_bit ^^ n) c = drop_bit n c"
proof (induction n)
  case (Suc n)
  then have "(crc_bit ^^ n) c = drop_bit n c" "\<not> bit c n" by simp_all
  moreover from this have "crc_bit (drop_bit n c) = drop_bit (Suc n) c" by (simp add: crc_bit_def bit_drop_bit_eq)
  ultimately show ?case by simp
qed simp

section \<open>The tables\<close>

lemma first_row_entry: "i < 256 \<Longrightarrow> first_row ! i = crc_bytes 1 (of_nat i)"
proof (cases i)
  case 0
  have "(crc_bit ^^ 8) 0 = (0 :: 32 word)" using crc_zeros [of 8 0] by simp
  then show ?thesis using 0 by (simp add: first_row_def crc_bytes_def)
next
  case (Suc j)
  assume "i < 256"
  then have "first_row ! i = reflect ((shift_out ^^ 8) (reflect (of_nat i) 32)) 32"
    using Suc by (simp add: first_row_def TABLE_SIZE_def)
  then show ?thesis by (simp add: reflect_shifts reflect_twice crc_bytes_def)
qed

lemma low_byte: "unat ((c :: 32 word) AND mask 8) < 256"
proof -
  have "c AND mask 8 \<le> mask 8" by (rule word_and_le1)
  then have "unat (c AND mask 8) \<le> unat (mask 8 :: 32 word)" by (simp add: word_le_nat_alt)
  then show ?thesis by (simp add: mask_eq_exp_minus_1)
qed

lemma first_row_step: "crc_bytes 1 c = drop_bit 8 c XOR first_row ! unat (c AND 0xFF)"
proof -
  have mask: "(0xFF :: 32 word) = mask 8" by (simp add: mask_eq_exp_minus_1)
  have split: "c = (c AND NOT (mask 8)) XOR (c AND mask 8)"
    by (rule bit_word_eqI) (auto simp: bit_simps)
  have high: "crc_bytes 1 (c AND NOT (mask 8)) = drop_bit 8 c"
  proof -
    have "crc_bytes 1 (c AND NOT (mask 8)) = drop_bit 8 (c AND NOT (mask 8))"
      unfolding crc_bytes_def mult_1_right by (rule crc_zeros) (auto simp: bit_simps)
    also have "\<dots> = drop_bit 8 c" by (rule bit_word_eqI) (auto simp: bit_simps dest: bit_imp_le_length)
    finally show ?thesis .
  qed
  have low: "first_row ! unat (c AND mask 8) = crc_bytes 1 (c AND mask 8)"
    using first_row_entry [OF low_byte [of c]] by simp
  show ?thesis unfolding mask low high [symmetric] crc_bytes_xor [symmetric] split [symmetric] ..
qed

lemma next_row_entry:
  assumes "\<And>i. i < 256 \<Longrightarrow> row ! i = crc_bytes k (of_nat i)" "i < 256"
  shows "next_row first_row row ! i = crc_bytes (Suc k) (of_nat i)"
proof -
  have "next_row first_row row ! i = drop_bit 8 (row ! i) XOR first_row ! unat (row ! i AND 0xFF)"
    using assms(2) by (simp add: next_row_def TABLE_SIZE_def)
  then show ?thesis using assms(1) [OF assms(2)] first_row_step [of "row ! i"] by (simp add: crc_bytes_Suc [of k])
qed

lemma gentab_entry: "k < 4 \<Longrightarrow> i < 256 \<Longrightarrow> gentab ! k ! i = crc_bytes (Suc k) (of_nat i)"
proof -
  assume k: "k < 4" and i: "i < 256"
  let ?r1 = "next_row first_row first_row" and ?r2 = "next_row first_row (next_row first_row first_row)"
  have r0: "first_row ! i = crc_bytes (Suc 0) (of_nat i)" if "i < 256" for i using first_row_entry [OF that] by simp
  have r1: "?r1 ! i = crc_bytes (Suc (Suc 0)) (of_nat i)" if "i < 256" for i by (rule next_row_entry [OF r0 that])
  have r2: "?r2 ! i = crc_bytes (Suc (Suc (Suc 0))) (of_nat i)" if "i < 256" for i by (rule next_row_entry [OF r1 that])
  have r3: "next_row first_row ?r2 ! i = crc_bytes (Suc (Suc (Suc (Suc 0)))) (of_nat i)" if "i < 256" for i
    by (rule next_row_entry [OF r2 that])
  have "k = 0 \<or> k = Suc 0 \<or> k = Suc (Suc 0) \<or> k = Suc (Suc (Suc 0))" using k by linarith
  then show ?thesis using r0 [OF i] r1 [OF i] r2 [OF i] r3 [OF i] by (auto simp: gentab_def Let_def)
qed

section \<open>Slicing by four\<close>

lemma crc_bytes_add: "crc_bytes (a + b) c = crc_bytes a (crc_bytes b c)"
  by (simp add: crc_bytes_def distrib_left funpow_add)

lemma crc_shifted:
  assumes "b AND mask 8 = b" "j \<le> 3"
  shows "crc_bytes 4 (push_bit (8 * j) b) = crc_bytes (4 - j) b"
proof -
  have high: "bit b n \<Longrightarrow> n < 8" for n
    using assms(1) by (metis bit_and_iff bit_mask_iff)
  have "crc_bytes j (push_bit (8 * j) b) = drop_bit (8 * j) (push_bit (8 * j) b)"
    unfolding crc_bytes_def by (rule crc_zeros) (auto simp: bit_push_bit_iff)
  also have "\<dots> = b"
  proof (rule bit_word_eqI)
    fix n
    show "bit (drop_bit (8 * j) (push_bit (8 * j) b)) n \<longleftrightarrow> bit b n"
      using assms(2) high [of n] by (auto simp: bit_drop_bit_eq bit_push_bit_iff)
  qed
  finally have "crc_bytes j (push_bit (8 * j) b) = b" .
  then show ?thesis using crc_bytes_add [of "4 - j" j "push_bit (8 * j) b"] assms(2) by simp
qed

text \<open>
  C35: the four tables do what slicing by four needs: for every checksum the four bytes that leave it
  one after the other, bit by bit, can be looked up at once, the first in the last table. The
  bit-serial checksum on reflected words is the one the first table is defined by.
\<close>

theorem slicing_by_four:
  "crc_bytes 4 c =
     gentab ! 3 ! unat (c AND 0xFF) XOR gentab ! 2 ! unat (drop_bit 8 c AND 0xFF) XOR
     gentab ! 1 ! unat (drop_bit 16 c AND 0xFF) XOR gentab ! 0 ! unat (drop_bit 24 c AND 0xFF)"
proof -
  have mask: "(0xFF :: 32 word) = mask 8" by (simp add: mask_eq_exp_minus_1)
  define b where "b j = drop_bit (8 * j) c AND mask 8" for j
  have small: "unat (b j) < 256" for j unfolding b_def by (rule low_byte)
  have byte: "b j AND mask 8 = b j" for j unfolding b_def by (rule bit_word_eqI) (auto simp: bit_simps)
  have split: "c = push_bit (8 * 0) (b 0) XOR push_bit (8 * 1) (b 1) XOR push_bit (8 * 2) (b 2) XOR push_bit (8 * 3) (b 3)"
  proof (rule bit_word_eqI)
    fix n assume "n < LENGTH(32)"
    then have "n < 8 \<or> 8 \<le> n \<and> n < 16 \<or> 16 \<le> n \<and> n < 24 \<or> 24 \<le> n \<and> n < 32" by auto
    then show "bit c n \<longleftrightarrow> bit (push_bit (8 * 0) (b 0) XOR push_bit (8 * 1) (b 1) XOR push_bit (8 * 2) (b 2) XOR push_bit (8 * 3) (b 3)) n"
      unfolding b_def by (elim disjE) (auto simp: bit_xor_iff bit_push_bit_iff bit_and_iff bit_drop_bit_eq bit_mask_iff)
  qed
  have "crc_bytes 4 c = crc_bytes 4 (push_bit (8 * 0) (b 0)) XOR crc_bytes 4 (push_bit (8 * 1) (b 1)) XOR
      crc_bytes 4 (push_bit (8 * 2) (b 2)) XOR crc_bytes 4 (push_bit (8 * 3) (b 3))"
    by (subst split) (simp only: crc_bytes_xor)
  also have "\<dots> = crc_bytes 4 (b 0) XOR crc_bytes 3 (b 1) XOR crc_bytes 2 (b 2) XOR crc_bytes 1 (b 3)"
    by (simp only: crc_shifted [OF byte]) simp
  also have "\<dots> = gentab ! 3 ! unat (b 0) XOR gentab ! 2 ! unat (b 1) XOR gentab ! 1 ! unat (b 2) XOR gentab ! 0 ! unat (b 3)"
    using small by (simp add: gentab_entry numeral_eq_Suc)
  finally show ?thesis by (simp add: mask b_def)
qed

section \<open>The comparison\<close>

lemma length_word_memory [simp]: "length (word_memory big w) = 4"
  by (simp add: word_memory_def)

lemma word_memory_inject: "word_memory big v = word_memory big w \<longleftrightarrow> v = w"
proof
  assume eq: "word_memory big v = word_memory big w"
  show "v = w"
  proof (rule bit_word_eqI)
    fix n assume "n < LENGTH(32)"
    then have n: "n div 8 \<in> {0, 1, 2, 3}" "n mod 8 < 8" "n = 8 * (n div 8) + n mod 8" by auto
    have "(ucast (drop_bit (8 * i) v) :: byte) = ucast (drop_bit (8 * i) w)" if "i \<in> {0, 1, 2, 3}" for i
      using eq that by (cases big) (auto simp: word_memory_def)
    then have "bit (ucast (drop_bit (8 * (n div 8)) v) :: byte) (n mod 8) \<longleftrightarrow>
        bit (ucast (drop_bit (8 * (n div 8)) w) :: byte) (n mod 8)"
      using n(1) by simp
    then show "bit v n \<longleftrightarrow> bit w n"
      using n(2,3) by (simp add: bit_ucast_iff bit_drop_bit_eq)
  qed
qed simp

lemma concat_memory_inject:
  "length vs = length ws \<Longrightarrow>
     concat (List.map (word_memory big) vs) = concat (List.map (word_memory big) ws) \<longleftrightarrow> vs = ws"
proof (induction vs ws rule: list_induct2)
  case (Cons v vs w ws)
  then show ?case by (simp add: word_memory_inject)
qed simp

lemma length_concat_memory: "length (concat (List.map (word_memory big) ws)) = 4 * length ws"
  by (induction ws) auto

lemma first_row_memory:
  assumes "length row = 256"
  shows "take (SLICE_BY * TABLE_SIZE) (table_memory big (row # rows)) = concat (List.map (word_memory big) row)"
  using assms by (simp add: table_memory_def SLICE_BY_def TABLE_SIZE_def length_concat_memory)

lemma length_first_row: "length first_row = 256"
  by (simp add: first_row_def TABLE_SIZE_def)

text \<open>
  C36: the program says the built-in table matches exactly when its first row does: the length it
  hands to \<open>memcmp\<close> is the number of entries of the four rows, but \<open>memcmp\<close> counts bytes, and those
  are the entries of one row. Whatever the other three rows hold is accepted.
\<close>

theorem only_first_row_compared:
  assumes "csum_table = row # rows" "length row = 256"
  shows "comp_tab_main big csum_table = ''TABLE-MATCH'' \<longleftrightarrow>
    (\<forall>i < 256. row ! i = (if big then swap_bytes (first_row ! i) else first_row ! i))"
proof -
  let ?row = "if big then List.map swap_bytes first_row else first_row"
  obtain more_rows where test: "(if big then table_swap gentab else gentab) = ?row # more_rows"
    by (cases big) (simp_all add: gentab_def table_swap_def Let_def)
  have len: "length ?row = 256" by (simp add: length_first_row)
  have "comp_tab_main big csum_table = ''TABLE-MATCH'' \<longleftrightarrow>
      concat (List.map (word_memory big) ?row) = concat (List.map (word_memory big) row)"
    unfolding comp_tab_main_def Let_def memcmp_equal_def test assms(1)
    by (simp only: first_row_memory [OF len] first_row_memory [OF assms(2)]) simp
  also have "\<dots> \<longleftrightarrow> ?row = row" using len assms(2) by (intro concat_memory_inject) simp
  also have "\<dots> \<longleftrightarrow> (\<forall>i < 256. row ! i = (if big then swap_bytes (first_row ! i) else first_row ! i))"
    using assms(2) by (auto simp: list_eq_iff_nth_eq length_first_row)
  finally show ?thesis .
qed

lemma only_first_row_compared_witness:
  "comp_tab_main False [first_row, [], [0]] = ''TABLE-MATCH'' \<and>
   comp_tab_main False [replicate 256 1] \<noteq> ''TABLE-MATCH''"
proof
  show "comp_tab_main False [first_row, [], [0]] = ''TABLE-MATCH''"
    using only_first_row_compared [OF refl length_first_row, of False "[[], [0]]"] by simp
  have "first_row ! 0 = 0" by (simp add: first_row_def)
  then have "\<not> (\<forall>i < 256. replicate 256 (1 :: 32 word) ! i = first_row ! i)"
    by (intro notI) (drule spec [of _ 0], simp)
  then show "comp_tab_main False [replicate 256 1] \<noteq> ''TABLE-MATCH''"
    using only_first_row_compared [OF refl, of "replicate 256 1" False "[]"] by simp
qed

end
