(* ===== verification/Zwrite.thy ===== *)
theory Zwrite
  imports YdbOrder
begin

text \<open>
  simpleapi/inref/glvnZWRITE.c: the listing of all variables of a process or of the database that
  the tests of the simple API print. It goes through the names, and below each name through its
  nodes in one of two ways, drawn at random: subscript by subscript, or node by node.
\<close>

section \<open>What it calls\<close>

text \<open>
  The calls that are not in theory YdbApi: \<open>ydb_subscript_next_s\<close> and \<open>ydb_subscript_previous_s\<close> of
  a name without subscripts, \<open>ydb_node_next_s\<close> and \<open>ydb_str2zwr_s\<close>.
\<close>

record 'db zwrite_api =
  next_name :: "'db \<Rightarrow> string \<Rightarrow> int \<times> string"
  previous_name :: "'db \<Rightarrow> string \<Rightarrow> int \<times> string"
  node_next :: "'db \<Rightarrow> string \<Rightarrow> string list \<Rightarrow> int \<times> string list"
  str2zwr :: "string \<Rightarrow> int \<times> string"

definition BUFFALLOCLEN :: nat where "BUFFALLOCLEN = 64"
definition YDB_MAX_SUBS :: nat where "YDB_MAX_SUBS = 31"
definition STRBUFF :: nat where "STRBUFF = 1024"

definition LASTLVNAME :: string where "LASTLVNAME = replicate 31 CHR ''z''"
definition LASTGVNAME :: string where "LASTGVNAME = CHR ''^'' # replicate 30 CHR ''z''"

section \<open>One node\<close>

text \<open>The line grows in \<open>strbuff\<close>, which nothing checks.\<close>

definition put_text :: "string \<Rightarrow> string \<Rightarrow> c_fault + string" where
  "put_text strbuff t = (if length strbuff + length t \<le> STRBUFF then Inr (strbuff @ t) else Inl OutOfBounds)"

definition zwr_of :: "'db zwrite_api \<Rightarrow> string \<Rightarrow> c_fault + string" where
  "zwr_of Z t =
     (let (status, zwr) = str2zwr Z t
      in bindE (assertE (status = YDB_OK \<and> length zwr \<le> STRBUFF)) (\<lambda>_. Inr zwr))"

fun zwr_subs :: "'db zwrite_api \<Rightarrow> string \<Rightarrow> string list \<Rightarrow> c_fault + string" where
  "zwr_subs Z strbuff [] = Inr strbuff"
| "zwr_subs Z strbuff (x # xs) =
     bindE (zwr_of Z x) (\<lambda>zwr.
     bindE (put_text strbuff zwr) (\<lambda>strbuff.
     bindE (put_text strbuff (if xs \<noteq> [] then '','' else '')'')) (\<lambda>strbuff. zwr_subs Z strbuff xs)))"

definition glvnPrintNodeIfExists ::
    "'db ydb \<Rightarrow> 'db zwrite_api \<Rightarrow> 'db \<Rightarrow> string \<Rightarrow> string list \<Rightarrow> bool \<Rightarrow> c_fault + string list" where
  "glvnPrintNodeIfExists Y Z db basevar subscr node_must_exist =
     (let (status, retvalue) = ydb_get_s Y db basevar subscr
      in if take 1 basevar \<noteq> ''^'' \<and> status = YDB_ERR_LVUNDEF Y \<or> take 1 basevar = ''^'' \<and> status = YDB_ERR_GVUNDEF Y
         then bindE (assertE (\<not> node_must_exist)) (\<lambda>_. Inr [])
         else
           bindE (assertE (status = YDB_OK \<and> length retvalue \<le> BUFFALLOCLEN)) (\<lambda>_.
           bindE (put_text [] basevar) (\<lambda>strbuff.
           bindE (if subscr \<noteq> []
                  then bindE (put_text strbuff ''('') (\<lambda>strbuff. zwr_subs Z strbuff subscr)
                  else Inr strbuff) (\<lambda>strbuff.
           bindE (put_text strbuff ''='') (\<lambda>strbuff.
           bindE (zwr_of Z retvalue) (\<lambda>zwr.
           bindE (put_text strbuff zwr) (\<lambda>strbuff.
           bindE (put_text strbuff [NUL]) (\<lambda>strbuff. Inr [c_str strbuff]))))))))"

section \<open>The nodes of a variable\<close>

text \<open>
  Subscript by subscript. A call that finds no subscript is taken for an empty one; a subscript
  that does not fit into its buffer is an error of the call. \<open>fuel\<close> bounds the loops.
\<close>

definition beside_or_empty :: "'db ydb \<Rightarrow> int \<times> string \<Rightarrow> c_fault + string" where
  "beside_or_empty Y r =
     (let (status, u) = r
      in if status = YDB_ERR_NODEEND Y then Inr []
         else bindE (assertE (status = YDB_OK \<and> length u \<le> BUFFALLOCLEN)) (\<lambda>_. Inr u))"

fun zwrite_subtree :: "'db ydb \<Rightarrow> 'db zwrite_api \<Rightarrow> 'db \<Rightarrow> string \<Rightarrow> nat \<Rightarrow> string list \<Rightarrow> c_fault + string list"
  and zwrite_subs :: "'db ydb \<Rightarrow> 'db zwrite_api \<Rightarrow> 'db \<Rightarrow> string \<Rightarrow> nat \<Rightarrow> string list \<Rightarrow> string \<Rightarrow> c_fault + string list" where
  "zwrite_subtree Y Z db basevar 0 subscr = Inl Unfinished"
| "zwrite_subtree Y Z db basevar (Suc fuel) subscr =
     bindE (glvnPrintNodeIfExists Y Z db basevar subscr False) (\<lambda>here.
     if length subscr = YDB_MAX_SUBS then Inr here
     else
       bindE (if snd (ydb_data_s Y db basevar (subscr @ [[]])) \<noteq> 0
              then zwrite_subtree Y Z db basevar fuel (subscr @ [[]]) else Inr []) (\<lambda>null_sub.
       bindE (zwrite_subs Y Z db basevar fuel subscr []) (\<lambda>under. Inr (here @ null_sub @ under))))"
| "zwrite_subs Y Z db basevar 0 subscr cur = Inl Unfinished"
| "zwrite_subs Y Z db basevar (Suc fuel) subscr cur =
     bindE (beside_or_empty Y (ydb_subscript_next_s Y db basevar (subscr @ [cur]))) (\<lambda>retvalue.
     bindE (beside_or_empty Y (ydb_subscript_previous_s Y db basevar (subscr @ [retvalue]))) (\<lambda>tmpvalue.
     bindE (assertE (tmpvalue = cur)) (\<lambda>_.
       if retvalue = [] then Inr []
       else
         bindE (zwrite_subtree Y Z db basevar fuel (subscr @ [retvalue])) (\<lambda>tree.
         bindE (zwrite_subs Y Z db basevar fuel subscr retvalue) (\<lambda>others. Inr (tree @ others))))))"

text \<open>Node by node.\<close>

fun zwrite_nodes ::
    "'db ydb \<Rightarrow> 'db zwrite_api \<Rightarrow> 'db \<Rightarrow> string \<Rightarrow> nat \<Rightarrow> string list \<Rightarrow> bool \<Rightarrow> c_fault + string list" where
  "zwrite_nodes Y Z db basevar 0 src node_must_exist = Inl Unfinished"
| "zwrite_nodes Y Z db basevar (Suc fuel) src node_must_exist =
     bindE (glvnPrintNodeIfExists Y Z db basevar src node_must_exist) (\<lambda>here.
     let (status, dst) = node_next Z db basevar src
     in if status = YDB_ERR_NODEEND Y then Inr here
        else
          bindE (assertE (status = YDB_OK \<and> length dst \<le> YDB_MAX_SUBS + 1 \<and> list_all (\<lambda>u. length u \<le> BUFFALLOCLEN) dst)) (\<lambda>_.
          bindE (zwrite_nodes Y Z db basevar fuel dst True) (\<lambda>others. Inr (here @ others))))"

definition glvnZWRITEsubtree :: "'db ydb \<Rightarrow> 'db zwrite_api \<Rightarrow> int \<Rightarrow> nat \<Rightarrow> 'db \<Rightarrow> string \<Rightarrow> c_fault + string list" where
  "glvnZWRITEsubtree Y Z rand_value fuel db basevar =
     (if rand_value = 0 then zwrite_subtree Y Z db basevar fuel [] else zwrite_nodes Y Z db basevar fuel [] False)"

section \<open>The names\<close>

text \<open>
  A round of the loop: the name after \<open>basevar\<close>, or the last there can be; the name before that,
  in \<open>tmpvalue\<close>, whose buffer keeps what is behind a shorter name, and which a call that finds
  nothing leaves alone; and the comparison of the two.
\<close>

definition name_there :: "'db ydb \<Rightarrow> int \<times> string \<Rightarrow> c_fault + string option" where
  "name_there Y r =
     (let (status, g) = r
      in if status = YDB_ERR_NODEEND Y then Inr None
         else bindE (assertE (status = YDB_OK \<and> length g \<le> BUFFALLOCLEN)) (\<lambda>_. Inr (Some g)))"

fun zwrite_names ::
    "'db ydb \<Rightarrow> 'db zwrite_api \<Rightarrow> int \<Rightarrow> nat \<Rightarrow> 'db \<Rightarrow> nat \<Rightarrow> nat \<Rightarrow> string \<Rightarrow> string \<Rightarrow> string \<Rightarrow> c_fault + string list" where
  "zwrite_names Y Z rand_value fuel db 0 iters basevar tmpvalue tmpvaluebuff = Inl Unfinished"
| "zwrite_names Y Z rand_value fuel db (Suc rounds) iters basevar tmpvalue tmpvaluebuff =
     bindE (name_there Y (next_name Z db basevar)) (\<lambda>found.
     let retvalue = (case found of Some g \<Rightarrow> g | None \<Rightarrow> if take 1 basevar = ''^'' then LASTGVNAME else LASTLVNAME) in
     bindE (name_there Y (previous_name Z db retvalue)) (\<lambda>prev.
     let tmpvalue = (case prev of Some g \<Rightarrow> g | None \<Rightarrow> tmpvalue);
         tmpvaluebuff = (case prev of Some g \<Rightarrow> g @ drop (length g) tmpvaluebuff | None \<Rightarrow> tmpvaluebuff)
     in bindE (assertE (length tmpvalue = length basevar \<or> tmpvalue = [] \<and> iters = 0 \<or> tmpvalue = [] \<or>
          take (length basevar) tmpvaluebuff = basevar)) (\<lambda>_.
        if found = None then Inr []
        else
          bindE (glvnZWRITEsubtree Y Z rand_value fuel db retvalue) (\<lambda>tree.
          bindE (zwrite_names Y Z rand_value fuel db rounds (iters + 1) retvalue tmpvalue tmpvaluebuff) (\<lambda>others.
            Inr (tree @ others))))))"

definition glvnZWRITE ::
    "'db ydb \<Rightarrow> 'db zwrite_api \<Rightarrow> int \<Rightarrow> nat \<Rightarrow> string \<Rightarrow> 'db \<Rightarrow> string \<Rightarrow> c_fault + string list" where
  "glvnZWRITE Y Z rand_value fuel tmpvaluebuff db startname =
     bindE (if snd (ydb_data_s Y db startname []) \<noteq> 0 then glvnZWRITEsubtree Y Z rand_value fuel db startname else Inr []) (\<lambda>start.
     bindE (zwrite_names Y Z rand_value fuel db fuel 0 startname [] tmpvaluebuff) (\<lambda>others. Inr (start @ others)))"

definition lvnZWRITE :: "'db ydb \<Rightarrow> 'db zwrite_api \<Rightarrow> int \<Rightarrow> nat \<Rightarrow> string \<Rightarrow> 'db \<Rightarrow> c_fault + string list" where
  "lvnZWRITE Y Z rand_value fuel tmpvaluebuff db = glvnZWRITE Y Z rand_value fuel tmpvaluebuff db ''%''"

definition gvnZWRITE :: "'db ydb \<Rightarrow> 'db zwrite_api \<Rightarrow> int \<Rightarrow> nat \<Rightarrow> string \<Rightarrow> 'db \<Rightarrow> c_fault + string list" where
  "gvnZWRITE Y Z rand_value fuel tmpvaluebuff db = glvnZWRITE Y Z rand_value fuel tmpvaluebuff db ''^%''"

end
