(* ===== verification/ZwriteProps.thy ===== *)
theory ZwriteProps
  imports Zwrite
begin

text \<open>
  What simpleapi/inref/glvnZWRITE.c prints: the nodes in the order of their names and subscripts,
  each once, whichever way it goes. The locale \<open>zwrite_db\<close> adds the order of names and nodes to
  that of the subscripts.
\<close>

section \<open>Orders\<close>

text \<open>The next element of a set; nodes are ordered subscript by subscript, a node before those below it.\<close>

definition successor :: "('a \<Rightarrow> 'a \<Rightarrow> bool) \<Rightarrow> 'a set \<Rightarrow> 'a \<Rightarrow> 'a \<Rightarrow> bool" where
  "successor R A u v \<longleftrightarrow> v \<in> A \<and> R u v \<and> (\<forall>w \<in> A. R u w \<longrightarrow> w = v \<or> R v w)"

fun node_before :: "(string \<Rightarrow> string \<Rightarrow> bool) \<Rightarrow> string list \<Rightarrow> string list \<Rightarrow> bool" where
  "node_before before s [] \<longleftrightarrow> False"
| "node_before before [] (y # ys) \<longleftrightarrow> True"
| "node_before before (x # xs) (y # ys) \<longleftrightarrow> before x y \<or> x = y \<and> node_before before xs ys"

lemma node_before_order:
  assumes "irreflp before" "transp before"
  shows "irreflp (node_before before)" "transp (node_before before)"
proof -
  have "\<not> node_before before s s" for s using assms(1) by (induction s) (auto simp: irreflp_def)
  then show "irreflp (node_before before)" by (simp add: irreflp_def)
  have "node_before before s u" if "node_before before s t" "node_before before t u" for s t u
    using that
  proof (induction u arbitrary: s t)
    case (Cons z zs)
    then obtain y ys where t: "t = y # ys" by (cases t; cases s) auto
    show ?case
    proof (cases s)
      case (Cons x xs)
      then show ?thesis using Cons.prems t Cons.IH [of xs ys] assms(2) by (auto dest: transpD)
    qed simp
  qed simp
  then show "transp (node_before before)" unfolding transp_def by blast
qed

lemma node_before_append: "irreflp before \<Longrightarrow> node_before before (s @ t) (s @ u) \<longleftrightarrow> node_before before t u"
  by (induction s) (auto simp: irreflp_def)

lemma sorted_unique:
  assumes "irreflp R" "transp R"
  shows "sorted_wrt R xs \<Longrightarrow> sorted_wrt R ys \<Longrightarrow> set xs = set ys \<Longrightarrow> xs = ys"
proof (induction xs arbitrary: ys)
  case (Cons x xs)
  then obtain y ys' where ys: "ys = y # ys'" by (cases ys) auto
  have "x = y"
  proof (rule ccontr)
    assume "x \<noteq> y"
    then have "y \<in> set xs" "x \<in> set ys'" using Cons.prems(3) ys by auto
    then have "R x y" "R y x" using Cons.prems(1,2) ys by auto
    then show False using assms by (meson irreflpD transpD)
  qed
  moreover have "x \<notin> set xs" "y \<notin> set ys'"
    using Cons.prems(1,2) ys assms(1) by (auto simp: irreflp_def)
  ultimately have "set xs = set ys'" using Cons.prems(3) ys by (metis insert_ident list.simps(15))
  then show ?case using Cons.IH [of ys'] Cons.prems(1,2) ys \<open>x = y\<close> by simp
qed simp

lemma successor_sorted:
  assumes "irreflp R" "transp R" "sorted_wrt R (xs @ u # v # ys)" "A = set (xs @ u # v # ys)"
  shows "successor R A u v"
proof -
  have "\<not> R u x" if "x \<in> set xs" for x
    using assms(1-3) that by (auto simp: sorted_wrt_append irreflp_def dest: transpD)
  then show ?thesis using assms(1,3) unfolding successor_def assms(4) by (auto simp: sorted_wrt_append irreflp_def)
qed

lemma successor_last:
  assumes "irreflp R" "transp R" "sorted_wrt R (xs @ [u])" "A = set (xs @ [u])"
  shows "\<not> successor R A u v"
  using assms by (auto simp: successor_def sorted_wrt_append irreflp_def dest: transpD)

lemma successor_first:
  assumes "sorted_wrt R (v # ys)" "A = set (v # ys)" "R u v"
  shows "successor R A u v"
  using assms by (auto simp: successor_def)

lemma sorted_concat:
  assumes "irreflp R" "sorted_wrt R xs" "\<And>x. x \<in> set xs \<Longrightarrow> sorted_wrt Q (f x)"
    and "\<And>x y s t. x \<in> set xs \<Longrightarrow> y \<in> set xs \<Longrightarrow> R x y \<Longrightarrow> s \<in> set (f x) \<Longrightarrow> t \<in> set (f y) \<Longrightarrow> Q s t"
  shows "sorted_wrt Q (concat (List.map f xs))"
  using assms(2-4)
proof (induction xs)
  case (Cons x xs)
  have "Q s t" if "s \<in> set (f x)" "t \<in> set (concat (List.map f xs))" for s t
    using that Cons.prems(1) Cons.prems(3) [of x _ s t] by auto
  moreover have "sorted_wrt Q (concat (List.map f xs))"
  proof (rule Cons.IH)
    show "Q s t" if "a \<in> set xs" "b \<in> set xs" "R a b" "s \<in> set (f a)" "t \<in> set (f b)" for a b s t
      using that Cons.prems(3) [of a b s t] by simp
  qed (use Cons.prems(1,2) in auto)
  ultimately show ?case using Cons.prems(2) [of x] by (simp add: sorted_wrt_append)
qed simp

section \<open>The interface\<close>

definition nodes :: "'db ydb \<Rightarrow> 'db \<Rightarrow> string \<Rightarrow> string list set" where
  "nodes Y db g = {s. node Y db g s \<noteq> None}"

text \<open>The names of the globals, or of the locals, that have nodes.\<close>

definition names_like :: "'db ydb \<Rightarrow> 'db \<Rightarrow> string \<Rightarrow> string set" where
  "names_like Y db g = {g'. (take 1 g' = ''^'' \<longleftrightarrow> take 1 g = ''^'') \<and> nodes Y db g' \<noteq> {}}"

definition node_next_law :: "'db ydb \<Rightarrow> 'db zwrite_api \<Rightarrow> (string \<Rightarrow> string \<Rightarrow> bool) \<Rightarrow> bool" where
  "node_next_law Y Z before \<longleftrightarrow> (\<forall>db g s. finite (nodes Y db g) \<longrightarrow> (\<forall>t \<in> nodes Y db g. [] \<notin> set t) \<longrightarrow>
     (\<forall>t. successor (node_before before) (nodes Y db g) s t \<longrightarrow> node_next Z db g s = (YDB_OK, t)) \<and>
     ((\<forall>t. \<not> successor (node_before before) (nodes Y db g) s t) \<longrightarrow> node_next Z db g s = (YDB_ERR_NODEEND Y, [])))"

definition name_law :: "'db ydb \<Rightarrow> 'db zwrite_api \<Rightarrow> (string \<Rightarrow> string \<Rightarrow> bool) \<Rightarrow> bool" where
  "name_law Y Z nb \<longleftrightarrow> (\<forall>db g. finite (names_like Y db g) \<longrightarrow>
     (\<forall>g'. successor nb (names_like Y db g) g g' \<longrightarrow> next_name Z db g = (YDB_OK, g')) \<and>
     ((\<forall>g'. \<not> successor nb (names_like Y db g) g g') \<longrightarrow> next_name Z db g = (YDB_ERR_NODEEND Y, [])) \<and>
     (\<forall>g'. successor nb\<inverse>\<inverse> (names_like Y db g) g g' \<longrightarrow> previous_name Z db g = (YDB_OK, g')) \<and>
     ((\<forall>g'. \<not> successor nb\<inverse>\<inverse> (names_like Y db g) g g') \<longrightarrow> previous_name Z db g = (YDB_ERR_NODEEND Y, [])))"

text \<open>
  A variable that can be listed: finitely many nodes, no empty subscript, and nothing too long
  for a buffer.
\<close>

fun subs_text :: "'db zwrite_api \<Rightarrow> string list \<Rightarrow> string" where
  "subs_text Z [] = []"
| "subs_text Z (x # xs) = snd (str2zwr Z x) @ (if xs \<noteq> [] then '','' else '')'') @ subs_text Z xs"

definition node_text :: "'db zwrite_api \<Rightarrow> string \<Rightarrow> string list \<Rightarrow> string \<Rightarrow> string" where
  "node_text Z g s v = g @ (if s \<noteq> [] then ''('' @ subs_text Z s else []) @ ''='' @ snd (str2zwr Z v)"

definition has_room :: "'db zwrite_api \<Rightarrow> string \<Rightarrow> bool" where
  "has_room Z t \<longleftrightarrow> length t \<le> BUFFALLOCLEN \<and> fst (str2zwr Z t) = YDB_OK"

definition printable :: "'db ydb \<Rightarrow> 'db zwrite_api \<Rightarrow> 'db \<Rightarrow> string \<Rightarrow> bool" where
  "printable Y Z db g \<longleftrightarrow> finite (nodes Y db g) \<and> (\<forall>s v. node Y db g s = Some v \<longrightarrow>
     length s \<le> YDB_MAX_SUBS \<and> (\<forall>u \<in> set s. u \<noteq> [] \<and> has_room Z u) \<and> has_room Z v \<and> length (node_text Z g s v) < STRBUFF)"

definition line :: "'db ydb \<Rightarrow> 'db zwrite_api \<Rightarrow> 'db \<Rightarrow> string \<Rightarrow> string list \<Rightarrow> string" where
  "line Y Z db g s = c_str (node_text Z g s (the (node Y db g s)))"

lemma zwr_subs_text:
  assumes "\<forall>u \<in> set s. has_room Z u" "length (buf @ subs_text Z s) \<le> STRBUFF"
  shows "zwr_subs Z buf s = Inr (buf @ subs_text Z s)"
  using assms
proof (induction s arbitrary: buf)
  case (Cons x xs)
  let ?z = "snd (str2zwr Z x)" and ?sep = "if xs \<noteq> [] then '','' else '')''"
  have len: "length buf + length ?z + length ?sep + length (subs_text Z xs) \<le> STRBUFF"
    using Cons.prems(2) by simp
  have "zwr_of Z x = Inr ?z"
    using Cons.prems(1) len by (auto simp: zwr_of_def assertE_def has_room_def split: prod.splits)
  moreover have "zwr_subs Z ((buf @ ?z) @ ?sep) xs = Inr (((buf @ ?z) @ ?sep) @ subs_text Z xs)"
    using Cons.prems(1) len by (intro Cons.IH) auto
  ultimately show ?case using len by (auto simp: put_text_def)
qed simp

context ordered_db
begin

lemma prints:
  assumes "printable Y Z db g" "s \<notin> nodes Y db g \<Longrightarrow> \<not> must_exist"
  shows "glvnPrintNodeIfExists Y Z db g s must_exist = Inr (if s \<in> nodes Y db g then [line Y Z db g s] else [])"
proof (cases "node Y db g s")
  case None
  then have "fst (ydb_get_s Y db g s) = undef_status Y g" by (rule got_undef)
  then show ?thesis
    using None assms(2) by (cases "ydb_get_s Y db g s")
      (auto simp: glvnPrintNodeIfExists_def undef_status_def assertE_def nodes_def)
next
  case (Some v)
  have p: "\<forall>u \<in> set s. has_room Z u" "has_room Z v" "length (node_text Z g s v) < STRBUFF"
    using assms(1) Some by (auto simp: printable_def)
  have get: "ydb_get_s Y db g s = (YDB_OK, v)" using Some by (rule got)
  have zwr: "zwr_of Z v = Inr (snd (str2zwr Z v))"
    using p(2,3) by (auto simp: zwr_of_def assertE_def has_room_def node_text_def split: prod.splits)
  have subs: "zwr_subs Z (g @ ''('') s = Inr ((g @ ''('') @ subs_text Z s)" if "s \<noteq> []"
    using p(1,3) that by (intro zwr_subs_text) (auto simp: node_text_def)
  have "c_str (t @ [NUL]) = c_str t" for t by (induction t) (simp_all add: c_str_def)
  note nul = this [of "node_text Z g s v"]
  show ?thesis
  proof (cases "s = []")
    case True
    then show ?thesis
      using p zwr get Some nul
      by (simp add: glvnPrintNodeIfExists_def assertE_def has_room_def put_text_def node_text_def line_def nodes_def)
  next
    case False
    then show ?thesis
      using p subs [OF False] zwr get Some nul
      by (simp add: glvnPrintNodeIfExists_def assertE_def has_room_def put_text_def node_text_def line_def nodes_def)
  qed
qed

text \<open>The subscripts below a node, one after the other.\<close>

lemma loop_prints:
  assumes sorted: "sorted_wrt before (pre @ xs)" and S: "set (pre @ xs) = subscripts Y db g p"
    and S_ok: "[] \<notin> subscripts Y db g p" "\<forall>u \<in> subscripts Y db g p. length u \<le> BUFFALLOCLEN"
    and tree: "\<And>x f. x \<in> set xs \<Longrightarrow> F \<le> f \<Longrightarrow> zwrite_subtree Y Z db g f (p @ [x]) = Inr (out x)"
    and cur: "cur = (if pre = [] then [] else last pre)" and fuel: "F + length xs < fuel"
  shows "zwrite_subs Y Z db g fuel p cur = Inr (concat (List.map out xs))"
proof -
  have irr: "\<not> before v v" for v using before_order(1) by (simp add: irreflp_def)
  have asym: "before v w \<Longrightarrow> \<not> before w v" for v w using before_order(2) irr by (metis transpD)
  show ?thesis
    using sorted S tree cur fuel
proof (induction xs arbitrary: pre cur fuel)
  case Nil
  let ?S = "subscripts Y db g p"
  have fin: "finite ?S" using Nil.prems(2) by (metis List.finite_set)
  obtain f where f: "fuel = Suc f" using Nil.prems(5) by (cases fuel) auto
  have cur: "pre = [] \<and> cur = [] \<or> (\<exists>pre'. pre = pre' @ [cur])"
    using Nil.prems(4) by (cases pre rule: rev_cases) auto
  have "{v \<in> ?S. cur = [] \<or> before cur v} = {}"
  proof (cases "pre = []")
    case False
    then obtain pre' where pre: "pre = pre' @ [cur]" using cur by blast
    then have "cur \<noteq> []" using S_ok(1) Nil.prems(2) by auto
    moreover have "\<not> before cur v" if "v \<in> ?S" for v
      using that Nil.prems(1) irr asym unfolding Nil.prems(2) [symmetric] pre by (auto simp: sorted_wrt_append)
    ultimately show ?thesis by blast
  qed (use Nil.prems(2) in auto)
  then have nxt: "ydb_subscript_next_s Y db g (p @ [cur]) = (YDB_ERR_NODEEND Y, [])"
    by (intro next_none [OF _ S_ok(1) fin refl])
  have prev: "beside_or_empty Y (ydb_subscript_previous_s Y db g (p @ [[]])) = Inr cur"
  proof (cases "pre = []")
    case True
    then have "ydb_subscript_previous_s Y db g (p @ [[]]) = (YDB_ERR_NODEEND Y, [])"
      using Nil.prems(2) by (intro previous_none [OF _ S_ok(1) fin refl]) auto
    then show ?thesis using True cur by (simp add: beside_or_empty_def)
  next
    case False
    then obtain pre' where pre: "pre = pre' @ [cur]" using cur by blast
    then have "set (cur # rev pre') = {v \<in> ?S. [] = [] \<or> before v []}" "sorted_wrt before\<inverse>\<inverse> (cur # rev pre')"
      using Nil.prems(1,2) sorted_wrt_rev [of before pre] by (auto simp: conversep_iff sorted_wrt_append sorted_wrt_rev)
    then have "ydb_subscript_previous_s Y db g (p @ [[]]) = (YDB_OK, cur)"
      by (intro previous_found(1) [OF _ _ S_ok(1) fin refl])
    moreover have "length cur \<le> BUFFALLOCLEN" using S_ok(2) Nil.prems(2) pre by auto
    ultimately show ?thesis by (simp add: beside_or_empty_def assertE_def)
  qed
  show ?case using nxt prev f by (simp add: beside_or_empty_def assertE_def)
next
  case (Cons x xs)
  let ?S = "subscripts Y db g p"
  have fin: "finite ?S" using Cons.prems(2) by (metis List.finite_set)
  obtain f where f: "fuel = Suc f" "F + length xs < f" using Cons.prems(5) by (cases fuel) auto
  have cur: "pre = [] \<and> cur = [] \<or> (\<exists>pre'. pre = pre' @ [cur])"
    using Cons.prems(4) by (cases pre rule: rev_cases) auto
  have x: "x \<in> ?S" "x \<noteq> []" "length x \<le> BUFFALLOCLEN" using S_ok Cons.prems(2) by auto
  have sets: "?S = set pre \<union> set (x # xs)" using Cons.prems(2) by auto
  have after: "{v \<in> ?S. cur = [] \<or> before cur v} = set (x # xs)"
  proof (cases "pre = []")
    case False
    then obtain pre' where pre: "pre = pre' @ [cur]" using cur by blast
    then have "cur \<noteq> []" using S_ok(1) sets by auto
    moreover have "before cur v \<longleftrightarrow> v \<in> set (x # xs)" if "v \<in> ?S" for v
      using that Cons.prems(1) irr asym unfolding sets pre by (auto simp: sorted_wrt_append)
    ultimately show ?thesis using sets by blast
  qed (use sets cur in auto)
  have nxt: "ydb_subscript_next_s Y db g (p @ [cur]) = (YDB_OK, x)"
    using Cons.prems(1) by (intro next_found(1) [OF _ after [symmetric] S_ok(1) fin refl]) (simp add: sorted_wrt_append)
  have before_x: "{v \<in> ?S. x = [] \<or> before v x} = set pre"
    using Cons.prems(1) x(2) irr asym unfolding sets by (auto simp: sorted_wrt_append)
  have prev: "beside_or_empty Y (ydb_subscript_previous_s Y db g (p @ [x])) = Inr cur"
  proof (cases "pre = []")
    case True
    then have "ydb_subscript_previous_s Y db g (p @ [x]) = (YDB_ERR_NODEEND Y, [])"
      using before_x by (intro previous_none [OF _ S_ok(1) fin refl]) simp
    then show ?thesis using True cur by (simp add: beside_or_empty_def)
  next
    case False
    then obtain pre' where pre: "pre = pre' @ [cur]" using cur by blast
    have "set (cur # rev pre') = {v \<in> ?S. x = [] \<or> before v x}" unfolding before_x by (auto simp: pre)
    moreover have "sorted_wrt before\<inverse>\<inverse> (cur # rev pre')"
      using Cons.prems(1) by (auto simp: pre sorted_wrt_append sorted_wrt_rev conversep_iff)
    ultimately have "ydb_subscript_previous_s Y db g (p @ [x]) = (YDB_OK, cur)"
      by (intro previous_found(1) [OF _ _ S_ok(1) fin refl])
    moreover have "length cur \<le> BUFFALLOCLEN" using S_ok(2) sets pre by auto
    ultimately show ?thesis by (simp add: beside_or_empty_def assertE_def)
  qed
  have "zwrite_subs Y Z db g f p x = Inr (concat (List.map out xs))"
    using Cons.prems(1-3) f(2) by (intro Cons.IH [of "pre @ [x]"]) auto
  moreover have "zwrite_subtree Y Z db g f (p @ [x]) = Inr (out x)"
    using f(2) by (intro Cons.prems(3)) auto
  ultimately show ?case using nxt prev x f(1) by (simp add: beside_or_empty_def assertE_def)
qed
qed

lemma node_order: "irreflp (node_before before)" "transp (node_before before)"
  using node_before_order [OF before_order(1,2)] .

text \<open>The nodes from a node on, sorted: the node itself, and those below each of its subscripts.\<close>

definition from_node :: "'db \<Rightarrow> string \<Rightarrow> string list \<Rightarrow> string list set" where
  "from_node db g p = {s \<in> nodes Y db g. take (length p) s = p}"

lemma from_node_parts:
  assumes "sorted_wrt (node_before before) ns" "set ns = from_node db g p"
    and "sorted_wrt before xs" "set xs = subscripts Y db g p"
  shows "ns = (if p \<in> nodes Y db g then [p] else []) @
    concat (List.map (\<lambda>x. filter (\<lambda>s. take (Suc (length p)) s = p @ [x]) ns) xs)" (is "ns = ?here @ concat (List.map ?part xs)")
proof (rule sorted_unique [OF node_order assms(1)])
  have pre: "take (length p) s = p" if "take (Suc (length p)) s = p @ [x]" for s x
    using arg_cong [OF that, of "take (length p)"] by simp
  have part: "set (?part x) = from_node db g (p @ [x])" for x
    using assms(2) pre by (auto simp: from_node_def)
  have below_p: "\<exists>r. s = p @ x # r" if "s \<in> from_node db g (p @ [x])" for s x
  proof -
    have "s = (p @ [x]) @ drop (Suc (length p)) s"
      using that append_take_drop_id [of "Suc (length p)" s] by (simp add: from_node_def)
    then show ?thesis by auto
  qed
  show "sorted_wrt (node_before before) (?here @ concat (List.map ?part xs))"
    unfolding sorted_wrt_append
  proof (intro conjI ballI)
    show "sorted_wrt (node_before before) ?here" by simp
    show "sorted_wrt (node_before before) (concat (List.map ?part xs))"
    proof (rule sorted_concat [OF before_order(1) assms(3)])
      show "sorted_wrt (node_before before) (?part x)" for x using assms(1) by (rule sorted_wrt_filter)
      show "node_before before s t" if "before x y" "s \<in> set (?part x)" "t \<in> set (?part y)" for x y s t
        using below_p [of s x] below_p [of t y] that(1) that(2,3) [unfolded part] node_before_append [OF before_order(1)] by auto
    qed
    show "node_before before s t" if "s \<in> set ?here" "t \<in> set (concat (List.map ?part xs))" for s t
    proof -
      note here = that(1) and under = that(2)
      obtain x where "t \<in> set (?part x)" using under by auto
      then obtain r where "t = p @ x # r" using below_p part by blast
      then show ?thesis
        using here node_before_append [OF before_order(1), of p "[]" "x # r"] by (simp split: if_splits)
    qed
  qed
  show "set ns = set (?here @ concat (List.map ?part xs))"
  proof (intro set_eqI iffI)
    fix s assume s: "s \<in> set ns"
    then have s': "s \<in> nodes Y db g" "s = p @ drop (length p) s"
      using assms(2) by (auto simp: from_node_def) (metis append_take_drop_id)
    show "s \<in> set (?here @ concat (List.map ?part xs))"
    proof (cases "drop (length p) s")
      case Nil
      then show ?thesis using s' by simp
    next
      case (Cons x r)
      then have "s = p @ x # r" using s'(2) by simp
      then have "x \<in> set xs" "take (Suc (length p)) s = p @ [x]"
        using s'(1) assms(4) by (auto simp: nodes_def subscripts_def)
      then show ?thesis using s by auto
    qed
  next
    fix s assume "s \<in> set (?here @ concat (List.map ?part xs))"
    then consider "s = p" "p \<in> nodes Y db g" | x where "s \<in> set (?part x)" by (auto split: if_splits)
    then show "s \<in> set ns"
    proof cases
      case 1
      then show ?thesis unfolding assms(2) from_node_def by simp
    next
      case 2
      then show ?thesis by simp
    qed
  qed
qed

lemma subscripts_ok:
  assumes "printable Y Z db g"
  shows "[] \<notin> subscripts Y db g p" "\<forall>u \<in> subscripts Y db g p. length u \<le> BUFFALLOCLEN"
    "finite (subscripts Y db g p)" "card (subscripts Y db g p) \<le> card (nodes Y db g)"
    "snd (ydb_data_s Y db g (p @ [[]])) = 0"
proof -
  have ok: "u \<noteq> [] \<and> length u \<le> BUFFALLOCLEN" if "node Y db g s \<noteq> None" "u \<in> set s" for s u
    using assms that by (auto simp: printable_def has_room_def)
  show none: "[] \<notin> subscripts Y db g p" and "\<forall>u \<in> subscripts Y db g p. length u \<le> BUFFALLOCLEN"
    using ok by (fastforce simp: subscripts_def)+
  have fin: "finite (nodes Y db g)" using assms by (simp add: printable_def)
  have sub: "subscripts Y db g p \<subseteq> (\<lambda>s. s ! length p) ` nodes Y db g"
    by (force simp: subscripts_def nodes_def)
  then show "finite (subscripts Y db g p)" using fin finite_surj by blast
  have "card (subscripts Y db g p) \<le> card ((\<lambda>s. s ! length p) ` nodes Y db g)"
    using sub fin by (intro card_mono) auto
  also have "\<dots> \<le> card (nodes Y db g)" using fin by (rule card_image_le)
  finally show "card (subscripts Y db g p) \<le> card (nodes Y db g)" .
  have "node Y db g (p @ [[]]) = None" using none by (force simp: subscripts_def)
  moreover have "\<not> below Y db g (p @ [[]])" using none by (force simp: below_def subscripts_def)
  ultimately show "snd (ydb_data_s Y db g (p @ [[]])) = 0" using laws(4) by (simp add: ydb_data_law_def)
qed

lemma tree_prints:
  assumes "printable Y Z db g" "length p \<le> YDB_MAX_SUBS"
    and "sorted_wrt (node_before before) ns" "set ns = from_node db g p"
    and "(YDB_MAX_SUBS + 1 - length p) * (card (nodes Y db g) + 2) \<le> fuel"
  shows "zwrite_subtree Y Z db g fuel p = Inr (List.map (line Y Z db g) ns)"
  using assms(2-5)
proof (induction "YDB_MAX_SUBS - length p" arbitrary: p ns fuel)
  case 0
  then have p: "length p = YDB_MAX_SUBS" by simp
  then obtain f where f: "fuel = Suc f" using 0(5) by (cases fuel) auto
  have "s = p" if "s \<in> from_node db g p" for s
  proof -
    have "length s \<le> YDB_MAX_SUBS" "take (length p) s = p"
      using that assms(1) by (auto simp: from_node_def nodes_def printable_def)
    then show ?thesis using p by simp
  qed
  then have "from_node db g p = set (if p \<in> nodes Y db g then [p] else [])" by (auto simp: from_node_def)
  then have "ns = (if p \<in> nodes Y db g then [p] else [])"
    using 0(3,4) by (intro sorted_unique [OF node_order]) auto
  then show ?case using p f prints [OF assms(1), of p False] by simp
next
  case (Suc d)
  then have p: "length p \<noteq> YDB_MAX_SUBS" "length p < YDB_MAX_SUBS" by simp_all
  let ?K = "card (nodes Y db g)" and ?F = "(YDB_MAX_SUBS + 1 - Suc (length p)) * (card (nodes Y db g) + 2)"
  have "YDB_MAX_SUBS + 1 - length p = Suc (YDB_MAX_SUBS + 1 - Suc (length p))" using p(2) by simp
  then have "(YDB_MAX_SUBS + 1 - length p) * (?K + 2) = ?F + (?K + 2)" by (simp only: mult_Suc add.commute)
  then have "?F + ?K + 2 \<le> fuel" using Suc.prems(4) by linarith
  then obtain f where f: "fuel = Suc f" "?F + ?K < f" by (intro that [of "fuel - 1"]) linarith+
  note S = subscripts_ok [OF assms(1), of p]
  obtain xs where xs: "sorted_wrt before xs" "set xs = subscripts Y db g p" using sorted_subscripts [OF S(3)] by blast
  have "distinct xs" using xs(1) before_order(1) by (induction xs) (auto simp: irreflp_def)
  then have len: "length xs \<le> ?K" using S(4) xs(2) by (metis distinct_card)
  let ?part = "\<lambda>x. filter (\<lambda>s. take (Suc (length p)) s = p @ [x]) ns"
  have tree: "zwrite_subtree Y Z db g f' (p @ [x]) = Inr (List.map (line Y Z db g) (?part x))" if "?F \<le> f'" for x f'
  proof (rule Suc.hyps(1))
    show "sorted_wrt (node_before before) (?part x)" using Suc.prems(2) by (rule sorted_wrt_filter)
    have "take (length p) s = p" if "take (Suc (length p)) s = p @ [x]" for s
      using arg_cong [OF that, of "take (length p)"] by simp
    then show "set (?part x) = from_node db g (p @ [x])" using Suc.prems(3) by (auto simp: from_node_def)
  qed (use Suc.hyps(2) p that in auto)
  have "zwrite_subs Y Z db g f p [] = Inr (concat (List.map (\<lambda>x. List.map (line Y Z db g) (?part x)) xs))"
    using xs tree len f(2) by (intro loop_prints [where pre = "[]" and F = ?F] S(1,2)) auto
  then have "zwrite_subtree Y Z db g fuel p =
      Inr ((if p \<in> nodes Y db g then [line Y Z db g p] else []) @ concat (List.map (\<lambda>x. List.map (line Y Z db g) (?part x)) xs))"
    using p(1) f(1) S(5) prints [OF assms(1), of p False] by simp
  also have "\<dots> = Inr (List.map (line Y Z db g) ns)"
    by (subst (2) from_node_parts [OF Suc.prems(2,3) xs]) (simp add: map_concat comp_def)
  finally show ?case .
qed

end

definition last_name :: "string \<Rightarrow> string" where
  "last_name g = (if take 1 g = ''^'' then LASTGVNAME else LASTLVNAME)"

text \<open>The names have an order of their own. \<open>follows\<close> is the law of a walk over a sorted set.\<close>

locale zwrite_db = ordered_db Y before for Y :: "'db ydb" and before +
  fixes Z :: "'db zwrite_api" and nb :: "string \<Rightarrow> string \<Rightarrow> bool"
  assumes nodes_follow: "node_next_law Y Z before"
    and names_follow: "name_law Y Z nb" and name_order: "irreflp nb" "transp nb"
begin

lemma node_next_runs:
  assumes "printable Y Z db g"
  shows "successor (node_before before) (nodes Y db g) s t \<Longrightarrow> node_next Z db g s = (YDB_OK, t)"
    and "(\<And>t. \<not> successor (node_before before) (nodes Y db g) s t) \<Longrightarrow> node_next Z db g s = (YDB_ERR_NODEEND Y, [])"
proof -
  have "finite (nodes Y db g)" "\<forall>t \<in> nodes Y db g. [] \<notin> set t"
    using assms by (auto simp: printable_def nodes_def)
  then show "successor (node_before before) (nodes Y db g) s t \<Longrightarrow> node_next Z db g s = (YDB_OK, t)"
    and "(\<And>t. \<not> successor (node_before before) (nodes Y db g) s t) \<Longrightarrow> node_next Z db g s = (YDB_ERR_NODEEND Y, [])"
    using nodes_follow unfolding node_next_law_def by blast+
qed

lemma nodes_print:
  assumes "printable Y Z db g" "sorted_wrt (node_before before) ns" "set ns = nodes Y db g"
    and "s \<in> nodes Y db g \<and> ns = pre @ s # post \<or> s = [] \<and> s \<notin> nodes Y db g \<and> ns = post \<and> \<not> must"
    and "length post < fuel"
  shows "zwrite_nodes Y Z db g fuel s must =
    Inr ((if s \<in> nodes Y db g then [line Y Z db g s] else []) @ List.map (line Y Z db g) post)"
  using assms(4,5)
proof (induction post arbitrary: s pre must fuel)
  case Nil
  then obtain f where f: "fuel = Suc f" by (cases fuel) auto
  have "\<not> successor (node_before before) (nodes Y db g) s t" for t
  proof (cases "s \<in> nodes Y db g")
    case True
    then show ?thesis using Nil.prems(1) assms(2,3) by (intro successor_last [OF node_order, of pre]) auto
  next
    case False
    then show ?thesis using Nil.prems(1) assms(3) by (auto simp: successor_def)
  qed
  then have "node_next Z db g s = (YDB_ERR_NODEEND Y, [])" by (rule node_next_runs(2) [OF assms(1)])
  then show ?case using f prints [OF assms(1), of s must] Nil.prems(1) by auto
next
  case (Cons t post)
  then obtain f where f: "fuel = Suc f" "length post < f" by (cases fuel) auto
  have "successor (node_before before) (nodes Y db g) s t"
  proof (cases "s \<in> nodes Y db g")
    case True
    then show ?thesis using Cons.prems(1) assms(2,3) by (intro successor_sorted [OF node_order, of pre s t post]) auto
  next
    case False
    then have "t \<noteq> []" "ns = t # post" using Cons.prems(1) assms(3) by auto
    then show ?thesis using False Cons.prems(1) assms(2,3) by (intro successor_first [of _ t post]) (auto simp: neq_Nil_conv)
  qed
  then have nxt: "node_next Z db g s = (YDB_OK, t)" by (rule node_next_runs(1) [OF assms(1)])
  have "t \<in> set ns" using Cons.prems(1) by auto
  then have t: "t \<in> nodes Y db g" unfolding assms(3) .
  then have ok: "length t \<le> YDB_MAX_SUBS + 1" "list_all (\<lambda>u. length u \<le> BUFFALLOCLEN) t"
    using assms(1) by (force simp: printable_def nodes_def list_all_iff has_room_def)+
  have "zwrite_nodes Y Z db g f t True = Inr ((if t \<in> nodes Y db g then [line Y Z db g t] else []) @ List.map (line Y Z db g) post)"
  proof (rule Cons.IH [OF disjI1 f(2)])
    show "t \<in> nodes Y db g \<and> ns = (if s \<in> nodes Y db g then pre @ [s] else []) @ t # post"
      using Cons.prems(1) t by (simp split: if_splits) blast
  qed
  then show ?case
    using nxt ok t f(1) prints [OF assms(1), of s must] Cons.prems(1) by (auto simp: assertE_def)
qed

text \<open>Either way, the nodes of a variable in their order.\<close>

lemma subtree_prints:
  assumes "printable Y Z db g" "sorted_wrt (node_before before) ns" "set ns = nodes Y db g"
    and "(YDB_MAX_SUBS + 1) * (card (nodes Y db g) + 2) \<le> fuel"
  shows "glvnZWRITEsubtree Y Z rand_value fuel db g = Inr (List.map (line Y Z db g) ns)"
proof (cases "rand_value = 0")
  case True
  then show ?thesis
    using assms by (simp add: glvnZWRITEsubtree_def tree_prints from_node_def)
next
  case False
  have "distinct ns" using assms(2) node_order(1) by (induction ns) (auto simp: irreflp_def)
  then have "length ns = card (nodes Y db g)" using assms(3) by (metis distinct_card)
  then have fuel: "length ns < fuel" using assms(4) by (simp add: YDB_MAX_SUBS_def)
  show ?thesis
  proof (cases "[] \<in> nodes Y db g")
    case True
    then obtain pre post where ns: "ns = pre @ [] # post" using assms(3) by (metis split_list)
    have "pre = []"
    proof (rule ccontr)
      assume "pre \<noteq> []"
      then have "node_before before (hd pre) []" using assms(2) ns by (cases pre) (auto simp: sorted_wrt_append)
      then show False by (cases "hd pre") auto
    qed
    then show ?thesis
      using nodes_print [OF assms(1-3), of "[]" pre post False fuel] True False ns fuel
      by (simp add: glvnZWRITEsubtree_def \<open>rand_value \<noteq> 0\<close>)
  next
    case none: False
    then show ?thesis
      using nodes_print [OF assms(1-3), of "[]" "[]" ns False fuel] fuel False by (simp add: glvnZWRITEsubtree_def)
  qed
qed

lemma name_runs:
  assumes "finite (names_like Y db g)"
  shows "successor nb (names_like Y db g) g g' \<Longrightarrow> next_name Z db g = (YDB_OK, g')"
    and "(\<And>g'. \<not> successor nb (names_like Y db g) g g') \<Longrightarrow> next_name Z db g = (YDB_ERR_NODEEND Y, [])"
    and "successor nb\<inverse>\<inverse> (names_like Y db g) g g' \<Longrightarrow> previous_name Z db g = (YDB_OK, g')"
    and "(\<And>g'. \<not> successor nb\<inverse>\<inverse> (names_like Y db g) g g') \<Longrightarrow> previous_name Z db g = (YDB_ERR_NODEEND Y, [])"
  using names_follow [unfolded name_law_def, rule_format, OF assms] by blast+

lemma names_same: "take 1 g = ''^'' \<longleftrightarrow> take 1 g' = ''^'' \<Longrightarrow> names_like Y db g = names_like Y db g'"
  by (simp add: names_like_def)

lemma names_print:
  assumes sorted: "sorted_wrt nb xs" and A: "set xs = names_like Y db start"
    and between: "\<And>g. g \<in> set xs \<Longrightarrow> g \<noteq> start \<Longrightarrow> nb start g" "\<And>g. g \<in> set xs \<Longrightarrow> nb g (last_name start) \<and> length g \<le> BUFFALLOCLEN"
    and trees: "\<And>g. g \<in> set xs \<Longrightarrow> glvnZWRITEsubtree Y Z rand_value fuel db g = Inr (out g)"
    and at: "xs = pre @ base # post \<or> base = start \<and> start \<notin> set xs \<and> pre = [] \<and> xs = post \<and> tmp = []"
    and rounds: "length post < rounds"
  shows "zwrite_names Y Z rand_value fuel db rounds iters base tmp tmpbuff = Inr (concat (List.map out post))"
  using at rounds
proof (induction post arbitrary: pre base tmp tmpbuff rounds iters)
  case Nil
  let ?A = "names_like Y db start"
  obtain r where r: "rounds = Suc r" using Nil.prems(2) by (cases rounds) auto
  have fin: "finite ?A" using A by (metis List.finite_set)
  have caret: "take 1 base = ''^'' \<longleftrightarrow> take 1 start = ''^''"
  proof (cases "base = start")
    case False
    then have "base \<in> ?A" using Nil.prems(1) A by auto
    then show ?thesis by (simp add: names_like_def)
  qed simp
  have like: "names_like Y db base = ?A" "names_like Y db (last_name base) = ?A"
    using caret by (auto intro!: names_same simp: last_name_def LASTGVNAME_def LASTLVNAME_def)
  have "\<not> successor nb ?A base g'" for g'
  proof (cases "base \<in> set xs")
    case True
    then have "xs = pre @ [base]" using Nil.prems(1) by auto
    then show ?thesis using sorted by (intro successor_last [OF name_order, of pre]) (simp_all add: A [symmetric])
  next
    case False
    then have "?A = {}" using Nil.prems(1) unfolding A [symmetric] by auto
    then show ?thesis by (simp add: successor_def)
  qed
  then have nxt: "next_name Z db base = (YDB_ERR_NODEEND Y, [])" using name_runs(2) [of db base] fin like(1) by simp
  have last: "last_name base = last_name start" using caret by (simp add: last_name_def)
  have chk: "previous_name Z db (last_name base) = (YDB_OK, base) \<and> length base \<le> BUFFALLOCLEN \<or>
      previous_name Z db (last_name base) = (YDB_ERR_NODEEND Y, []) \<and> tmp = []"
  proof (cases "base \<in> set xs")
    case True
    then have xs: "xs = pre @ [base]" using Nil.prems(1) by auto
    have "successor nb\<inverse>\<inverse> ?A (last_name base) base"
      unfolding A [symmetric] successor_def last
      using between(2) True sorted unfolding xs by (auto simp: sorted_wrt_append)
    then show ?thesis using name_runs(3) [of db "last_name base"] fin like(2) between(2) [OF True] by simp
  next
    case False
    then have "?A = {}" "tmp = []" using Nil.prems(1) unfolding A [symmetric] by auto
    then show ?thesis using name_runs(4) [of db "last_name base"] fin like(2) by (simp add: successor_def)
  qed
  then show ?case
    using nxt r by (auto simp: name_there_def assertE_def last_name_def Let_def)
next
  case (Cons g post)
  let ?A = "names_like Y db start"
  obtain r where r: "rounds = Suc r" "length post < r" using Cons.prems(2) by (cases rounds) auto
  have fin: "finite ?A" using A by (metis List.finite_set)
  have g: "g \<in> set xs" using Cons.prems(1) by auto
  have caret: "take 1 base = ''^'' \<longleftrightarrow> take 1 start = ''^''" "take 1 g = ''^'' \<longleftrightarrow> take 1 start = ''^''"
  proof -
    have "take 1 g' = ''^'' \<longleftrightarrow> take 1 start = ''^''" if "g' \<in> set xs" for g' using that A by (auto simp: names_like_def)
    then show "take 1 base = ''^'' \<longleftrightarrow> take 1 start = ''^''" "take 1 g = ''^'' \<longleftrightarrow> take 1 start = ''^''"
      using Cons.prems(1) g by auto
  qed
  have like: "names_like Y db base = ?A" "names_like Y db g = ?A" by (rule names_same [OF caret(1)], rule names_same [OF caret(2)])
  have "successor nb ?A base g"
  proof (cases "base \<in> set xs")
    case True
    then have "xs = pre @ base # g # post" using Cons.prems(1) by auto
    then show ?thesis using sorted by (intro successor_sorted [OF name_order, of pre _ _ post]) (simp_all add: A [symmetric])
  next
    case False
    then have "xs = g # post" "base = start" "start \<notin> set xs" using Cons.prems(1) by auto
    then show ?thesis using sorted between(1) [OF g] g by (intro successor_first [of _ _ post]) (auto simp: A [symmetric])
  qed
  then have nxt: "next_name Z db base = (YDB_OK, g)" using name_runs(1) [of db base] fin like(1) by simp
  have chk: "previous_name Z db g = (YDB_OK, base) \<and> length base \<le> BUFFALLOCLEN \<or>
      previous_name Z db g = (YDB_ERR_NODEEND Y, []) \<and> tmp = []"
  proof (cases "base \<in> set xs")
    case True
    then have xs: "xs = pre @ base # g # post" using Cons.prems(1) by auto
    have "successor nb\<inverse>\<inverse> ?A g base"
      unfolding A [symmetric]
    proof (rule successor_sorted [of "nb\<inverse>\<inverse>" "rev post" g base "rev pre"])
      show "irreflp nb\<inverse>\<inverse>" "transp nb\<inverse>\<inverse>" using name_order by (auto simp: irreflp_def transp_def)
      show "sorted_wrt nb\<inverse>\<inverse> (rev post @ g # base # rev pre)"
        using sorted sorted_wrt_rev [of "nb\<inverse>\<inverse>" xs] unfolding xs by (simp add: conversep_iff)
    qed (auto simp: xs)
    then show ?thesis using name_runs(3) [of db g] fin like(2) between(2) [OF True] by simp
  next
    case False
    then have "xs = g # post" "tmp = []" using Cons.prems(1) by auto
    moreover have "\<not> nb g' g" if "g' \<in> set (g # post)" for g'
      using that sorted \<open>xs = g # post\<close> name_order by (auto simp: irreflp_def dest: transpD)
    ultimately show ?thesis using name_runs(4) [of db g] fin like(2) by (auto simp: successor_def A [symmetric])
  qed
  have "xs = (pre @ (if base \<in> set xs then [base] else [])) @ g # post" using Cons.prems(1) by auto
  then have ih: "zwrite_names Y Z rand_value fuel db r it g t b = Inr (concat (List.map out post))" for it t b
    using Cons.IH r(2) by blast
  show ?case
    using chk nxt r(1) ih trees [OF g] between(2) [OF g] by (auto simp: name_there_def assertE_def Let_def)
qed

lemma data_there: "snd (ydb_data_s Y db g []) \<noteq> 0 \<longleftrightarrow> nodes Y db g \<noteq> {}"
proof -
  have "snd (ydb_data_s Y db g []) \<noteq> 0 \<longleftrightarrow> node Y db g [] \<noteq> None \<or> below Y db g []"
    using laws(4) by (simp add: ydb_data_law_def)
  also have "\<dots> \<longleftrightarrow> nodes Y db g \<noteq> {}"
    unfolding below_def nodes_def append_Nil by (auto simp: neq_Nil_conv) (metis neq_Nil_conv option.distinct(1))
  finally show ?thesis .
qed

lemma lists_all:
  assumes "sorted_wrt nb xs" "set xs = names_like Y db start" "length xs < fuel"
    and "\<And>g. g \<in> set xs \<Longrightarrow> printable Y Z db g \<and> sorted_wrt (node_before before) (ns g) \<and> set (ns g) = nodes Y db g"
    and "\<And>g. g \<in> set xs \<Longrightarrow> (g = start \<or> nb start g) \<and> nb g (last_name start) \<and> length g \<le> BUFFALLOCLEN"
    and "\<And>g. g \<in> set xs \<Longrightarrow> (YDB_MAX_SUBS + 1) * (card (nodes Y db g) + 2) \<le> fuel"
  shows "glvnZWRITE Y Z rand_value fuel tmpvaluebuff db start =
    Inr (concat (List.map (\<lambda>g. List.map (line Y Z db g) (ns g)) xs))"
proof -
  let ?out = "\<lambda>g. List.map (line Y Z db g) (ns g)"
  have trees: "glvnZWRITEsubtree Y Z rand_value fuel db g = Inr (?out g)" if "g \<in> set xs" for g
    using assms(4,6) [OF that] by (intro subtree_prints) auto
  have names: "zwrite_names Y Z rand_value fuel db fuel 0 start [] tmpvaluebuff = Inr (concat (List.map ?out post))"
    if "xs = pre @ start # post \<or> start = start \<and> start \<notin> set xs \<and> pre = [] \<and> xs = post \<and> ([] :: string) = []" "length post \<le> length xs" for pre post
    by (rule names_print [OF assms(1,2) _ _ trees that(1)]) (use assms(3,5) that(2) in auto)
  have there: "snd (ydb_data_s Y db start []) \<noteq> 0 \<longleftrightarrow> start \<in> set xs"
    unfolding data_there assms(2) by (auto simp: names_like_def)
  show ?thesis
  proof (cases "start \<in> set xs")
    case True
    then obtain pre post where xs: "xs = pre @ start # post" by (metis split_list)
    have "pre = []"
    proof (rule ccontr)
      assume "pre \<noteq> []"
      then have "nb (hd pre) start" "hd pre \<in> set xs" using assms(1) xs by (auto simp: sorted_wrt_append)
      then show False using assms(5) [of "hd pre"] name_order by (metis irreflpD transpD)
    qed
    then show ?thesis
      using names [of "[]" post] trees [OF True] there True xs by (simp add: glvnZWRITE_def)
  next
    case False
    then show ?thesis using names [of "[]" xs] there by (simp add: glvnZWRITE_def)
  qed
qed

end

text \<open>The calls on the database of theory YdbApi.\<close>

definition walk_over :: "('a \<Rightarrow> 'a \<Rightarrow> bool) \<Rightarrow> 'a set \<Rightarrow> 'a \<Rightarrow> 'a \<Rightarrow> int \<times> 'a" where
  "walk_over R A none u = (if \<exists>v. successor R A u v then (YDB_OK, THE v. successor R A u v) else (-151027722, none))"

definition map_zwrite :: "(string \<times> string list \<Rightarrow> string option) zwrite_api" where
  "map_zwrite =
     \<lparr>next_name = (\<lambda>db g. walk_over m_before (names_like map_ydb db g) [] g),
      previous_name = (\<lambda>db g. walk_over m_before\<inverse>\<inverse> (names_like map_ydb db g) [] g),
      node_next = (\<lambda>db g. walk_over (node_before m_before) (nodes map_ydb db g) []),
      str2zwr = (\<lambda>t. (YDB_OK, CHR 0x22 # t @ [CHR 0x22]))\<rparr>"

lemma walk_found:
  assumes "irreflp R" "transp R" "successor R A u v"
  shows "walk_over R A none u = (YDB_OK, v)"
proof -
  have "w = v" if "successor R A u w" for w
  proof (rule ccontr)
    assume "w \<noteq> v"
    then have "R v w" "R w v" using that assms(3) unfolding successor_def by blast+
    then show False using assms(1,2) by (meson irreflpD transpD)
  qed
  then have "(THE v. successor R A u v) = v" using assms(3) by blast
  then show ?thesis using assms(3) by (auto simp: walk_over_def)
qed

interpretation map_zwrite: zwrite_db map_ydb m_before map_zwrite m_before
proof
  have order: "irreflp m_before" "transp m_before" "irreflp m_before\<inverse>\<inverse>" "transp m_before\<inverse>\<inverse>"
    using omap.before_order by blast+
  then show "irreflp m_before" "transp m_before" by blast+
  have none: "YDB_ERR_NODEEND map_ydb = -151027722" by (simp add: map_ydb_def)
  show "node_next_law map_ydb map_zwrite m_before"
    unfolding node_next_law_def none using walk_found [OF node_before_order [OF order(1,2)]]
    by (auto simp: map_zwrite_def walk_over_def)
  show "name_law map_ydb map_zwrite m_before"
    unfolding name_law_def none using walk_found [OF order(1,2)] walk_found [OF order(3,4)]
    by (simp add: map_zwrite_def) (simp add: walk_over_def)
qed

section \<open>The listing\<close>


definition two_nodes :: "string \<times> string list \<Rightarrow> string option" where
  "two_nodes = (\<lambda>(g, s). if g = ''x'' \<and> s = [] then Some ''1'' else if g = ''x'' \<and> s = [''a''] then Some ''2'' else None)"

lemma x_between: "m_before ''%'' ''x''" "m_before ''x'' (last_name ''%'')"
proof -
  have "\<not> m_number ''%''" "\<not> m_number (CHR ''x'' # w)" "\<not> m_number (CHR ''z'' # w)" for w
    using m_number_alpha [of "CHR ''x''" w] m_number_alpha [of "CHR ''z''" w]
    by (simp_all add: uc_def) (simp add: m_number_def strtol10_def is_digit_def is_space_def uc_def dec_def dec_nat.simps digit_char_def char_of_def)
  then show "m_before ''%'' ''x''" "m_before ''x'' (last_name ''%'')"
    by (simp_all add: m_before_def last_name_def LASTLVNAME_def numeral_eq_Suc uc_def)
qed


end
