(* ===== verification/StressTest.thy ===== *)
theory StressTest
  imports Zwrite
begin

text \<open>
  simpleapi/inref/stresstest.c: a program that reads a stream of operations on nodes, written by
  an M program beside it, does them with the simple API and lists what is there at the end.
\<close>

section \<open>The stream\<close>

definition YDBEOF :: int where "YDBEOF = 0"
definition YDBSET :: int where "YDBSET = 1"
definition YDBGET :: int where "YDBGET = 2"
definition YDBKILL :: int where "YDBKILL = 3"
definition YDBZKILL :: int where "YDBZKILL = 4"

text \<open>
  \<open>fread\<close> gives what is asked for, or what is left; the loop around it asks again for what is
  missing, and does not end when the stream has. The result is what was read and what is left.
\<close>

partial_function (option) fullread :: "nat \<Rightarrow> string \<Rightarrow> (string \<times> string) option" where
  "fullread toread stream =
     (let cnt = min toread (length stream)
      in if toread - cnt = 0 then Some (take cnt stream, drop cnt stream)
         else Option.bind (fullread (toread - cnt) (drop cnt stream)) (\<lambda>(t, rest). Some (take cnt stream @ t, rest)))"

text \<open>An \<open>int\<close> in memory, the lowest byte first. What lies behind the record is not modelled.\<close>

definition int_at :: "string \<Rightarrow> int" where
  "int_at t = int32 (uc (t ! 0) + 256 * uc (t ! 1) + 65536 * uc (t ! 2) + 16777216 * uc (t ! 3))"

definition take_int :: "string \<Rightarrow> c_fault + int \<times> string" where
  "take_int ptr = (if 4 \<le> length ptr then Inr (int_at ptr, drop 4 ptr) else Inl OutOfBounds)"

definition take_text :: "int \<Rightarrow> string \<Rightarrow> c_fault + string \<times> string" where
  "take_text len ptr =
     (if 0 \<le> len \<and> len \<le> int (length ptr) then Inr (take (nat len) ptr, drop (nat len) ptr) else Inl OutOfBounds)"

definition take_counted :: "string \<Rightarrow> c_fault + string \<times> string" where
  "take_counted ptr = bindE (take_int ptr) (\<lambda>(len, ptr). take_text len ptr)"

fun take_subs :: "nat \<Rightarrow> string \<Rightarrow> c_fault + string list \<times> string" where
  "take_subs 0 ptr = Inr ([], ptr)"
| "take_subs (Suc n) ptr =
     bindE (take_counted ptr) (\<lambda>(sub, ptr). bindE (take_subs n ptr) (\<lambda>(subs, ptr). Inr (sub # subs, ptr)))"

section \<open>One operation\<close>

text \<open>
  The calls, the status of each asserted to be YDB_OK. \<open>zkill\<close> is \<open>ydb_delete_s\<close> with YDB_DEL_NODE; a
  negative number of subscripts is an error of any call.
\<close>

definition do_operation ::
    "'db ydb \<Rightarrow> ('db \<Rightarrow> string \<Rightarrow> string list \<Rightarrow> int \<times> 'db) \<Rightarrow> int \<Rightarrow> string \<Rightarrow> string list \<Rightarrow> string \<Rightarrow> 'db \<Rightarrow> c_fault + 'db" where
  "do_operation Y zkill action basevar subscr val db =
     (if action = YDBSET then
        (let (status, db') = ydb_set_s Y db basevar subscr val in bindE (assertE (status = YDB_OK)) (\<lambda>_. Inr db'))
      else if action = YDBKILL then
        (let (status, db') = ydb_delete_s Y db basevar subscr in bindE (assertE (status = YDB_OK)) (\<lambda>_. Inr db'))
      else if action = YDBZKILL then
        (let (status, db') = zkill db basevar subscr in bindE (assertE (status = YDB_OK)) (\<lambda>_. Inr db'))
      else
        (let (status, retvalue) = ydb_get_s Y db basevar subscr
         in bindE (assertE (status = YDB_OK \<and> length retvalue \<le> 64)) (\<lambda>_.
            bindE (assertE (retvalue = val)) (\<lambda>_. Inr db))))"

definition one_record ::
    "'db ydb \<Rightarrow> ('db \<Rightarrow> string \<Rightarrow> string list \<Rightarrow> int \<times> 'db) \<Rightarrow> int \<Rightarrow> string \<Rightarrow> 'db \<Rightarrow> c_fault + 'db" where
  "one_record Y zkill action buff db =
     bindE (take_counted buff) (\<lambda>(basevar, ptr).
     bindE (take_int ptr) (\<lambda>(nsubs, ptr).
     bindE (assertE (nsubs < 32)) (\<lambda>_.
     bindE (take_subs (nat nsubs) ptr) (\<lambda>(subscr, ptr).
     bindE (take_counted ptr) (\<lambda>(val, ptr).
     bindE (assertE (0 \<le> nsubs)) (\<lambda>_. do_operation Y zkill action basevar subscr val db))))))"

section \<open>The loop\<close>

text \<open>
  The records are also copied to a ring of \<open>int\<close>s for debugging. The index counts bytes and the
  array's elements are four bytes, so the second copy, which may be longer than the ring has
  elements, can still be inside.
\<close>

definition DBG_BUFF_SIZE :: nat where "DBG_BUFF_SIZE = 65536"

definition dbg_store :: "nat \<Rightarrow> nat \<Rightarrow> c_fault + nat" where
  "dbg_store dbg_buff_index reclen =
     (let copylen = (if dbg_buff_index + reclen \<le> DBG_BUFF_SIZE then reclen else DBG_BUFF_SIZE - dbg_buff_index);
          at = dbg_buff_index + copylen;
          at = (if DBG_BUFF_SIZE \<le> at then at - DBG_BUFF_SIZE else at)
      in if copylen < reclen then
           let copylen = reclen - copylen
           in if 4 * at + copylen \<le> 4 * DBG_BUFF_SIZE
              then bindE (assertE (at + copylen < DBG_BUFF_SIZE)) (\<lambda>_. Inr (at + copylen)) else Inl OutOfBounds
         else Inr at)"

text \<open>The buffer of the record, made anew when it is too small; a size that has overflown is not to be had.\<close>

definition grow :: "int \<Rightarrow> int \<Rightarrow> c_fault + int" where
  "grow reclen bufflen =
     (if bufflen < reclen then bindE (assertE (0 \<le> int32 (reclen * 2))) (\<lambda>_. Inr (int32 (reclen * 2))) else Inr bufflen)"

text \<open>None is a loop that does not end.\<close>

partial_function (option) records_loop ::
    "'db ydb \<Rightarrow> ('db \<Rightarrow> string \<Rightarrow> string list \<Rightarrow> int \<times> 'db) \<Rightarrow> string \<Rightarrow> int \<Rightarrow> nat \<Rightarrow> 'db \<Rightarrow> (c_fault + 'db) option" where
  "records_loop Y zkill stream bufflen dbg_buff_index db =
     Option.bind (fullread 8 stream) (\<lambda>(hdrbuff, stream).
     let reclen = int_at hdrbuff; action = int_at (drop 4 hdrbuff) in
     case grow reclen bufflen of
       Inl e \<Rightarrow> Some (Inl e)
     | Inr bufflen \<Rightarrow>
         if action = YDBEOF then Some (Inr db)
         else if action \<notin> {YDBSET, YDBGET, YDBKILL, YDBZKILL} then Some (Inl AssertFailed)
         else if reclen < 0 then Some (Inl OutOfBounds)
         else Option.bind (fullread (nat reclen) stream) (\<lambda>(buff, stream).
           case bindE (dbg_store dbg_buff_index (nat reclen)) (\<lambda>at.
               bindE (one_record Y zkill action buff db) (\<lambda>db. Inr (at, db))) of
             Inl e \<Rightarrow> Some (Inl e)
           | Inr (at, db) \<Rightarrow> records_loop Y zkill stream bufflen at db))"

text \<open>
  The whole program; with an argument it first calls the M program that repeats an earlier run. The
  lines printed are its result; \<open>rand_value\<close> is drawn anew for each listing.
\<close>

definition stresstest_main ::
    "'db ydb \<Rightarrow> 'db zwrite_api \<Rightarrow> ('db \<Rightarrow> string \<Rightarrow> string list \<Rightarrow> int \<times> 'db) \<Rightarrow> int \<times> int \<Rightarrow> nat \<Rightarrow> string \<Rightarrow> int \<Rightarrow>
       string \<Rightarrow> 'db \<Rightarrow> (c_fault + string list) option" where
  "stresstest_main Y Z zkill rand_values fuel tmpvaluebuff argc stream db =
     (let (status, db) = (if argc \<noteq> 1 then ydb_cip Y db ''genstresstest'' else (YDB_OK, db))
      in if status \<noteq> YDB_OK then Some (Inl AssertFailed)
         else Option.bind (records_loop Y zkill stream 0 0 db) (\<lambda>r. Some (
           bindE r (\<lambda>db.
           bindE (lvnZWRITE Y Z (fst rand_values) fuel tmpvaluebuff db) (\<lambda>locals.
           bindE (gvnZWRITE Y Z (snd rand_values) fuel tmpvaluebuff db) (\<lambda>globals. Inr (locals @ globals)))))))"

end
