(* ===== verification/StressTestProps.thy ===== *)
theory StressTestProps
  imports StressTest ZwriteProps
begin

text \<open>
  What simpleapi/inref/stresstest.c does with a stream: the operations the M program wrote, on the
  nodes of the database. The locale \<open>kill_db\<close> adds the deletion of a single node to the database.
\<close>

section \<open>Reading\<close>

lemma fullread_enough: "n \<le> length stream \<Longrightarrow> fullread n stream = Some (take n stream, drop n stream)"
  by (subst fullread.simps) (simp add: Let_def min_absorb1)

lemma fullread_ends:
  assumes "fullread n stream = Some r"
  shows "n \<le> length stream"
proof (rule fullread.raw_induct [OF _ assms, of "\<lambda>n stream r. n \<le> length stream"], goal_cases)
  case (1 go n stream r)
  show ?case
  proof (cases "n - min n (length stream) = 0")
    case False
    then obtain t rest where "go (n - min n (length stream)) (drop (min n (length stream)) stream) = Some (t, rest)"
      using 1(2) by (auto simp: Let_def bind_eq_Some_conv)
    from 1(1) [OF this] show ?thesis by simp
  qed simp
qed

lemma fullread_hangs: "length stream < n \<Longrightarrow> fullread n stream = None"
  using fullread_ends [of n stream] by (cases "fullread n stream") auto

section \<open>What the M program writes\<close>

definition num2bin :: "nat \<Rightarrow> string" where
  "num2bin n = List.map (\<lambda>k. char_of (n div 256 ^ k mod 256)) [0, 1, 2, 3]"

definition counted :: "string \<Rightarrow> string" where
  "counted t = num2bin (length t) @ t"

datatype operation = Operation int string "string list" string

fun op_body :: "operation \<Rightarrow> string" where
  "op_body (Operation action g s v) = counted g @ num2bin (length s) @ concat (List.map counted s) @ counted v"

fun op_action :: "operation \<Rightarrow> int" where
  "op_action (Operation action g s v) = action"

definition encode :: "operation \<Rightarrow> string" where
  "encode oper = num2bin (length (op_body oper)) @ num2bin (nat (op_action oper)) @ op_body oper"

fun sendable :: "operation \<Rightarrow> bool" where
  "sendable (Operation action g s v) \<longleftrightarrow> action \<in> {YDBSET, YDBGET, YDBKILL, YDBZKILL} \<and> length s < 32 \<and>
     length (op_body (Operation action g s v)) < DBG_BUFF_SIZE"

lemma length_num2bin [simp]: "length (num2bin n) = 4"
  by (simp add: num2bin_def)

lemma int_at_num2bin:
  assumes "n < 2 ^ 31"
  shows "int_at (num2bin n @ t) = int n"
proof -
  have byte: "uc (char_of (m mod 256)) = int (m mod 256)" for m :: nat by (simp add: uc_def)
  have n: "n = n mod 256 + 256 * (n div 256 mod 256) + 65536 * (n div 65536 mod 256) + 16777216 * (n div 16777216 mod 256)"
  proof -
    have "n div 65536 = n div 256 div 256" "n div 16777216 = n div 256 div 256 div 256"
      by (simp_all add: div_mult2_eq [symmetric])
    moreover have "n div 256 div 256 div 256 < 256" using assms by (simp add: div_mult2_eq [symmetric] less_mult_imp_div_less)
    ultimately show ?thesis
      using div_mult_mod_eq [of n 256] div_mult_mod_eq [of "n div 256" 256] div_mult_mod_eq [of "n div 256 div 256" 256]
      by (simp only: mod_less)
  qed
  have "int n = int (n mod 256) + 256 * int (n div 256 mod 256) + 65536 * int (n div 65536 mod 256) + 16777216 * int (n div 16777216 mod 256)"
    using arg_cong [OF n, of int] by (simp only: of_nat_add of_nat_mult of_nat_numeral)
  then have "int_at (num2bin n @ t) = int32 (int n)"
    by (simp only: int_at_def num2bin_def list.map append_Cons nth_Cons_0 nth_Cons_Suc numeral_2_eq_2 numeral_3_eq_3
        One_nat_def byte) (simp add: power_numeral)
  then show ?thesis using assms by (simp add: int32_id is_int32_def)
qed

lemma take_int_num2bin: "n < 2 ^ 31 \<Longrightarrow> take_int (num2bin n @ t) = Inr (int n, t)"
  by (simp add: take_int_def int_at_num2bin)

lemma take_counted_counted: "length x < 2 ^ 31 \<Longrightarrow> take_counted (counted x @ t) = Inr (x, t)"
  by (simp add: take_counted_def counted_def take_int_num2bin take_text_def)

lemma take_subs_counted:
  "(\<And>x. x \<in> set s \<Longrightarrow> length x < 2 ^ 31) \<Longrightarrow> take_subs (length s) (concat (List.map counted s) @ t) = Inr (s, t)"
proof (induction s)
  case (Cons x s)
  then show ?case by (simp add: take_counted_counted)
qed simp

lemma length_counted: "length (counted x) = 4 + length x"
  by (simp add: counted_def)

lemma one_record_body:
  assumes "sendable (Operation action g s v)"
  shows "one_record Y zkill action (op_body (Operation action g s v)) db = do_operation Y zkill action g s v db"
proof -
  have len: "length (counted g) + length (concat (List.map counted s)) + length (counted v) < 2 ^ 31"
    using assms by (simp add: DBG_BUFF_SIZE_def)
  have "length x < 2 ^ 31" if "x \<in> set s" for x
  proof -
    have "length (counted x) \<le> length (concat (List.map counted s))"
      using that by (induction s) auto
    then show ?thesis using len by (simp add: length_counted)
  qed
  then have "take_subs (length s) (concat (List.map counted s) @ counted v @ []) = Inr (s, counted v @ [])"
    by (rule take_subs_counted)
  moreover have "take_counted (counted g @ num2bin (length s) @ concat (List.map counted s) @ counted v) =
      Inr (g, num2bin (length s) @ concat (List.map counted s) @ counted v)"
    using len by (intro take_counted_counted) (simp add: length_counted)
  moreover have "take_counted (counted v @ []) = Inr (v, [])"
    using len by (intro take_counted_counted) (simp add: length_counted)
  ultimately show ?thesis using assms by (simp add: one_record_def take_int_num2bin assertE_def)
qed

section \<open>What the operations do\<close>

type_synonym node_store = "string \<times> string list \<Rightarrow> string option"

text \<open>A get is a check; None is an operation that fails.\<close>

fun effect :: "operation \<Rightarrow> node_store \<Rightarrow> node_store option" where
  "effect (Operation action g s v) m =
     (if action = YDBSET then Some (m((g, s) := Some v))
      else if action = YDBKILL then Some (\<lambda>(g', s'). if g' = g \<and> take (length s) s' = s then None else m (g', s'))
      else if action = YDBZKILL then Some (m((g, s) := None))
      else if m (g, s) = Some v \<and> length v \<le> 64 then Some m else None)"

fun effects :: "operation list \<Rightarrow> node_store \<Rightarrow> node_store option" where
  "effects [] m = Some m"
| "effects (oper # opers) m = Option.bind (effect oper m) (effects opers)"

definition view :: "'db ydb \<Rightarrow> 'db \<Rightarrow> node_store" where
  "view Y db = (\<lambda>(g, s). node Y db g s)"

definition zkill_law :: "'db ydb \<Rightarrow> ('db \<Rightarrow> string \<Rightarrow> string list \<Rightarrow> int \<times> 'db) \<Rightarrow> bool" where
  "zkill_law Y zkill \<longleftrightarrow> (\<forall>db g s. \<exists>db'. zkill db g s = (YDB_OK, db') \<and>
     (\<forall>g' s'. node Y db' g' s' = (if g' = g \<and> s' = s then None else node Y db g' s')))"

lemma dbg_store_small:
  assumes "at < DBG_BUFF_SIZE" "n < DBG_BUFF_SIZE"
  obtains at' where "dbg_store at n = Inr at'" "at' < DBG_BUFF_SIZE"
proof (cases "at + n < DBG_BUFF_SIZE")
  case True
  then have "dbg_store at n = Inr (at + n)" by (simp add: dbg_store_def Let_def)
  then show ?thesis using that True by blast
next
  case False
  then have "dbg_store at n = Inr (at + n - DBG_BUFF_SIZE)"
    using assms by (cases "at + n = DBG_BUFF_SIZE") (auto simp: dbg_store_def Let_def assertE_def)
  then show ?thesis using that assms by (metis add_less_mono less_diff_conv2 linorder_not_less False)
qed

locale kill_db = calm_db Y for Y :: "'db ydb" +
  fixes zkill :: "'db \<Rightarrow> string \<Rightarrow> string list \<Rightarrow> int \<times> 'db"
  assumes zkills: "zkill_law Y zkill"
begin

lemma operation_does:
  assumes "action \<in> {YDBSET, YDBGET, YDBKILL, YDBZKILL}"
  shows "case effect (Operation action g s v) (view Y db) of
      None \<Rightarrow> do_operation Y zkill action g s v db = Inl AssertFailed
    | Some m \<Rightarrow> \<exists>db'. do_operation Y zkill action g s v db = Inr db' \<and> view Y db' = m"
proof -
  note codes = YDBSET_def YDBGET_def YDBKILL_def YDBZKILL_def
  consider "action = YDBSET" | "action = YDBKILL" | "action = YDBZKILL" | "action = YDBGET" using assms by blast
  then show ?thesis
  proof cases
    case 1
    then show ?thesis by (auto simp: do_operation_def set_put assertE_def view_def fun_eq_iff)
  next
    case 2
    then show ?thesis by (auto simp: do_operation_def delete_deleted assertE_def view_def fun_eq_iff codes)
  next
    case 3
    obtain db' where "zkill db g s = (YDB_OK, db')"
      "\<And>g' s'. node Y db' g' s' = (if g' = g \<and> s' = s then None else node Y db g' s')"
      using zkills unfolding zkill_law_def by blast
    then show ?thesis using 3 by (auto simp: do_operation_def assertE_def view_def fun_eq_iff codes)
  next
    case 4
    have do_get: "do_operation Y zkill action g s v db =
        (if node Y db g s = Some v \<and> length v \<le> 64 then Inr db else Inl AssertFailed)"
    proof (cases "node Y db g s")
      case None
      then have "fst (ydb_get_s Y db g s) \<noteq> YDB_OK" using got_undef by (simp add: undef_status_def)
      then show ?thesis using 4 None by (cases "ydb_get_s Y db g s") (simp add: do_operation_def assertE_def codes)
    next
      case (Some w)
      then show ?thesis using 4 got [OF Some] by (simp add: do_operation_def assertE_def codes)
    qed
    have "effect (Operation action g s v) (view Y db) =
        (if node Y db g s = Some v \<and> length v \<le> 64 then Some (view Y db) else None)"
      using 4 by (simp add: codes view_def)
    with do_get show ?thesis by simp
  qed
qed

text \<open>One round of the loop.\<close>

lemma round_does:
  assumes "sendable (Operation action g s v)" "at < DBG_BUFF_SIZE"
  obtains bufflen' at' where "at' < DBG_BUFF_SIZE"
    "records_loop Y zkill (encode (Operation action g s v) @ rest) bufflen at db =
       (case do_operation Y zkill action g s v db of
          Inl e \<Rightarrow> Some (Inl e) | Inr db' \<Rightarrow> records_loop Y zkill rest bufflen' at' db')"
proof -
  let ?op = "Operation action g s v"
  define n where "n = length (op_body ?op)"
  have n: "n < DBG_BUFF_SIZE" "n < 2 ^ 30" using assms(1) by (simp_all add: n_def DBG_BUFF_SIZE_def)
  have action: "action \<in> {YDBSET, YDBGET, YDBKILL, YDBZKILL}" using assms(1) by simp
  then have act: "action \<noteq> YDBEOF" "nat action < 2 ^ 31" "int (nat action) = action"
    by (auto simp: YDBSET_def YDBGET_def YDBKILL_def YDBZKILL_def YDBEOF_def)
  let ?hdr = "num2bin n @ num2bin (nat action)"
  have stream: "encode ?op @ rest = ?hdr @ op_body ?op @ rest" by (simp add: encode_def n_def del: op_body.simps)
  have read: "fullread 8 (num2bin n @ num2bin (nat action) @ op_body ?op @ rest) = Some (?hdr, op_body ?op @ rest)"
    "fullread n (op_body ?op @ rest) = Some (op_body ?op, rest)"
    by (simp_all add: fullread_enough n_def del: op_body.simps)
  have ints: "int_at ?hdr = int n" "int_at (num2bin (nat action)) = action"
    using n act(2,3) int_at_num2bin [of n] int_at_num2bin [of "nat action" "[]"] by simp_all
  have "int32 (int n * 2) = int n * 2" using n(2) by (intro int32_id) (simp add: is_int32_def)
  then obtain bufflen' where grow: "grow (int n) bufflen = Inr bufflen'"
    by (cases "bufflen < int n") (simp_all add: grow_def assertE_def)
  obtain at' where at': "dbg_store at n = Inr at'" "at' < DBG_BUFF_SIZE" by (rule dbg_store_small [OF assms(2) n(1)])
  have "records_loop Y zkill (encode ?op @ rest) bufflen at db =
      (case bindE (one_record Y zkill action (op_body ?op) db) (\<lambda>db. Inr (at', db)) of
         Inl e \<Rightarrow> Some (Inl e) | Inr (at, db) \<Rightarrow> records_loop Y zkill rest bufflen' at db)"
    unfolding stream
    by (subst records_loop.simps) (use action act(1) in \<open>simp add: read ints grow at' Let_def del: op_body.simps\<close>)
  also have "\<dots> = (case do_operation Y zkill action g s v db of
      Inl e \<Rightarrow> Some (Inl e) | Inr db' \<Rightarrow> records_loop Y zkill rest bufflen' at' db')"
    unfolding one_record_body [OF assms(1)] by (cases "do_operation Y zkill action g s v db") simp_all
  finally show ?thesis using that at'(2) by blast
qed

lemma loop_does:
  assumes "\<And>oper. oper \<in> set opers \<Longrightarrow> sendable oper" "at < DBG_BUFF_SIZE"
  shows "case effects opers (view Y db) of
      None \<Rightarrow> records_loop Y zkill (concat (List.map encode opers) @ rest) bufflen at db = Some (Inl AssertFailed)
    | Some m \<Rightarrow> \<exists>bufflen' at' db'. at' < DBG_BUFF_SIZE \<and> view Y db' = m \<and>
        records_loop Y zkill (concat (List.map encode opers) @ rest) bufflen at db = records_loop Y zkill rest bufflen' at' db'"
  using assms
proof (induction opers arbitrary: bufflen at db)
  case (Cons oper opers)
  obtain action g s v where op: "oper = Operation action g s v" by (cases oper)
  have sendable: "sendable (Operation action g s v)" using Cons.prems(1) [of oper] unfolding op by simp
  then have action: "action \<in> {YDBSET, YDBGET, YDBKILL, YDBZKILL}" by simp
  obtain bufflen' at' where at': "at' < DBG_BUFF_SIZE" and
    run: "records_loop Y zkill (encode oper @ concat (List.map encode opers) @ rest) bufflen at db =
      (case do_operation Y zkill action g s v db of
         Inl e \<Rightarrow> Some (Inl e) | Inr db' \<Rightarrow> records_loop Y zkill (concat (List.map encode opers) @ rest) bufflen' at' db')"
    using round_does [OF sendable Cons.prems(2), of "concat (List.map encode opers) @ rest" bufflen db] unfolding op by blast
  show ?case
  proof (cases "effect oper (view Y db)")
    case None
    then show ?thesis using operation_does [OF action, of g s v db] run op by simp
  next
    case (Some m)
    then obtain db' where db': "do_operation Y zkill action g s v db = Inr db'" "view Y db' = m"
      using operation_does [OF action, of g s v db] op by auto
    then have run: "records_loop Y zkill (concat (List.map encode (oper # opers)) @ rest) bufflen at db =
        records_loop Y zkill (concat (List.map encode opers) @ rest) bufflen' at' db'"
      using run by simp
    have "effects (oper # opers) (view Y db) = effects opers (view Y db')" using Some db'(2) by simp
    then show ?thesis
      unfolding run using Cons.IH [OF Cons.prems(1) at', where db = db' and bufflen = bufflen'] by (simp del: effects.simps)
  qed
qed (auto simp: exI)

lemma loop_ends:
  "records_loop Y zkill (num2bin 0 @ num2bin 0 @ rest) bufflen at db =
     Some (Inr db)"
proof -
  obtain bufflen' where "grow 0 bufflen = Inr bufflen'"
    by (cases "bufflen < 0") (simp_all add: grow_def assertE_def int32_def)
  then show ?thesis
    using fullread_enough [of 8 "num2bin 0 @ num2bin 0 @ rest"] int_at_num2bin [of 0] int_at_num2bin [of 0 "[]"]
    by (subst records_loop.simps) (simp add: YDBEOF_def)
qed

text \<open>A stream cut off inside the operations, or inside the header of the record after them.\<close>

lemma body_hangs:
  assumes "sendable (Operation action g s v)" "at < DBG_BUFF_SIZE" "k < length (encode (Operation action g s v))"
  shows "records_loop Y zkill (take k (encode (Operation action g s v) @ rest)) bufflen at db = None"
proof (cases "k < 8")
  case True
  then have "fullread 8 (take k (encode (Operation action g s v) @ rest)) = None" by (intro fullread_hangs) simp
  then show ?thesis by (subst records_loop.simps) (simp del: encode_def)
next
  case False
  let ?op = "Operation action g s v"
  define n where "n = length (op_body ?op)"
  have n: "n < 2 ^ 30" using assms(1) by (simp add: n_def DBG_BUFF_SIZE_def)
  have action: "action \<in> {YDBSET, YDBGET, YDBKILL, YDBZKILL}" using assms(1) by simp
  then have act: "action \<noteq> YDBEOF" "nat action < 2 ^ 31" "int (nat action) = action"
    by (auto simp: YDBSET_def YDBGET_def YDBKILL_def YDBZKILL_def YDBEOF_def)
  let ?hdr = "num2bin n @ num2bin (nat action)"
  obtain cut where stream: "take k (encode ?op @ rest) = ?hdr @ cut" and "length cut < n"
  proof
    show "take k (encode ?op @ rest) = ?hdr @ take (k - 8) (op_body ?op @ rest)" "length (take (k - 8) (op_body ?op @ rest)) < n"
      using False assms(3) by (simp_all add: encode_def n_def del: op_body.simps)
  qed
  then have read: "fullread 8 (num2bin n @ num2bin (nat action) @ cut) = Some (?hdr, cut)" "fullread n cut = None"
    using fullread_hangs [of cut n] by (simp_all add: fullread_enough)
  have ints: "int_at ?hdr = int n" "int_at (num2bin (nat action)) = action"
    using n act(2,3) int_at_num2bin [of n] int_at_num2bin [of "nat action" "[]"] by simp_all
  have "int32 (int n * 2) = int n * 2" using n by (intro int32_id) (simp add: is_int32_def)
  then obtain bufflen' where "grow (int n) bufflen = Inr bufflen'"
    by (cases "bufflen < int n") (simp_all add: grow_def assertE_def)
  then show ?thesis
    unfolding stream by (subst records_loop.simps) (use action act(1) in \<open>simp add: read ints Let_def del: op_body.simps\<close>)
qed

lemma loop_hangs:
  assumes "\<And>oper. oper \<in> set opers \<Longrightarrow> sendable oper" "effects opers (view Y db) \<noteq> None" "at < DBG_BUFF_SIZE"
    and "k < length (concat (List.map encode opers)) + 8"
  shows "records_loop Y zkill (take k (concat (List.map encode opers) @ rest)) bufflen at db = None"
  using assms
proof (induction opers arbitrary: k bufflen at db)
  case Nil
  then show ?case by (subst records_loop.simps) (simp add: fullread_hangs)
next
  case (Cons oper opers)
  obtain action g s v where op: "oper = Operation action g s v" by (cases oper)
  have sendable: "sendable (Operation action g s v)" using Cons.prems(1) [of oper] unfolding op by simp
  then have action: "action \<in> {YDBSET, YDBGET, YDBKILL, YDBZKILL}" by simp
  show ?case
  proof (cases "k < length (encode oper)")
    case True
    then show ?thesis using body_hangs [OF sendable Cons.prems(3)] unfolding op by simp
  next
    case False
    let ?rest = "take (k - length (encode oper)) (concat (List.map encode opers) @ rest)"
    obtain bufflen' at' where at': "at' < DBG_BUFF_SIZE" and run: "records_loop Y zkill (encode oper @ ?rest) bufflen at db =
        (case do_operation Y zkill action g s v db of
           Inl e \<Rightarrow> Some (Inl e) | Inr db' \<Rightarrow> records_loop Y zkill ?rest bufflen' at' db')"
      using round_does [OF sendable Cons.prems(3), of ?rest bufflen db] unfolding op by blast
    obtain m where m: "effect oper (view Y db) = Some m" "effects opers m \<noteq> None"
      using Cons.prems(2) by (cases "effect oper (view Y db)") auto
    then obtain db' where db': "do_operation Y zkill action g s v db = Inr db'" "view Y db' = m"
      using operation_does [OF action, of g s v db] unfolding op by auto
    have "records_loop Y zkill ?rest bufflen' at' db' = None"
      using Cons.IH [of db' at' "k - length (encode oper)"] Cons.prems(1,4) m(2) db'(2) at' False by simp
    then show ?thesis using run db'(1) False by simp
  qed
qed

end

text \<open>The deletion of a node, on the database of theory YdbApi.\<close>

definition map_zkill :: "node_store \<Rightarrow> string \<Rightarrow> string list \<Rightarrow> int \<times> node_store" where
  "map_zkill db g s = (YDB_OK, db((g, s) := None))"

interpretation map_kill: kill_db map_ydb map_zkill
  by unfold_locales (simp add: zkill_law_def map_zkill_def)

section \<open>The listing of what the stream has made\<close>

definition store_names :: "string \<Rightarrow> node_store \<Rightarrow> string set" where
  "store_names start m = {g. (take 1 g = ''^'' \<longleftrightarrow> take 1 start = ''^'') \<and> (\<exists>s. m (g, s) \<noteq> None)}"

definition store_nodes :: "node_store \<Rightarrow> string \<Rightarrow> string list set" where
  "store_nodes m g = {s. m (g, s) \<noteq> None}"

text \<open>
  The names and the nodes of a map in their orders, from the first name there can be to the last, all of them
  short enough for the buffers of the listing; \<open>fuel\<close> is enough for its loops.
\<close>

definition in_order ::
    "'db zwrite_api \<Rightarrow> (string \<Rightarrow> string \<Rightarrow> bool) \<Rightarrow> (string \<Rightarrow> string \<Rightarrow> bool) \<Rightarrow> nat \<Rightarrow> node_store \<Rightarrow> string \<Rightarrow>
       string list \<Rightarrow> (string \<Rightarrow> string list list) \<Rightarrow> bool" where
  "in_order Z before nb fuel m start names ns \<longleftrightarrow>
     sorted_wrt nb names \<and> set names = store_names start m \<and> length names < fuel \<and>
     (\<forall>g \<in> set names. sorted_wrt (node_before before) (ns g) \<and> set (ns g) = store_nodes m g \<and>
        (g = start \<or> nb start g) \<and> nb g (last_name start) \<and> length g \<le> BUFFALLOCLEN \<and>
        (YDB_MAX_SUBS + 1) * (length (ns g) + 2) \<le> fuel \<and>
        (\<forall>s v. m (g, s) = Some v \<longrightarrow> length s \<le> YDB_MAX_SUBS \<and> (\<forall>u \<in> set s. u \<noteq> [] \<and> has_room Z u) \<and>
           has_room Z v \<and> length (node_text Z g s v) < STRBUFF))"

definition store_listing :: "'db zwrite_api \<Rightarrow> node_store \<Rightarrow> string list \<Rightarrow> (string \<Rightarrow> string list list) \<Rightarrow> string list" where
  "store_listing Z m names ns = concat (List.map (\<lambda>g. List.map (\<lambda>s. c_str (node_text Z g s (the (m (g, s))))) (ns g)) names)"

lemma store_listed:
  assumes "zwrite_db Y before Z nb" "in_order Z before nb fuel (view Y db) start names ns"
  shows "glvnZWRITE Y Z rand_value fuel tmpvaluebuff db start = Inr (store_listing Z (view Y db) names ns)"
proof -
  have same: "store_names start (view Y db) = names_like Y db start" "store_nodes (view Y db) g = nodes Y db g" for g
    by (auto simp: store_names_def store_nodes_def names_like_def nodes_def view_def)
  have card: "card (nodes Y db g) \<le> length (ns g)" if "g \<in> set names" for g
    using assms(2) that same(2) [of g] by (metis card_length in_order_def)
  have fin: "finite (nodes Y db g)" if "g \<in> set names" for g
    using assms(2) that same(2) [of g] by (metis List.finite_set in_order_def)
  have "glvnZWRITE Y Z rand_value fuel tmpvaluebuff db start = Inr (concat (List.map (\<lambda>g. List.map (line Y Z db g) (ns g)) names))"
  proof (rule zwrite_db.lists_all [OF assms(1)])
    fix g assume g: "g \<in> set names"
    show "printable Y Z db g \<and> sorted_wrt (node_before before) (ns g) \<and> set (ns g) = nodes Y db g"
      using assms(2) g fin [OF g] same(2) [of g] by (auto simp: in_order_def printable_def view_def)
    have "(YDB_MAX_SUBS + 1) * (card (nodes Y db g) + 2) \<le> (YDB_MAX_SUBS + 1) * (length (ns g) + 2)" by (intro mult_le_mono2 add_le_mono1 card [OF g])
    also have "\<dots> \<le> fuel" using assms(2) g by (simp add: in_order_def)
    finally show "(YDB_MAX_SUBS + 1) * (card (nodes Y db g) + 2) \<le> fuel" .
  qed (use assms(2) same(1) in \<open>auto simp: in_order_def\<close>)
  then show ?thesis by (simp add: store_listing_def line_def [abs_def] view_def)
qed

section \<open>The stream\<close>


definition four_operations :: "operation list" where
  "four_operations = [Operation 1 ''x'' [''a''] ''v'', Operation 2 ''x'' [''a''] ''v'', Operation 1 ''^y'' [] ''w'', Operation 3 ''^y'' [] []]"

lemma four_sendable: "oper \<in> set four_operations \<Longrightarrow> sendable oper"
  by (auto simp: four_operations_def YDBSET_def YDBGET_def YDBKILL_def DBG_BUFF_SIZE_def length_counted)

lemma four_effects: "effects four_operations (view map_ydb (\<lambda>_. None)) = Some [(''x'', [''a'']) \<mapsto> ''v'']"
  by (simp add: four_operations_def view_def YDBSET_def YDBGET_def YDBKILL_def YDBZKILL_def fun_eq_iff)


text \<open>
  C39: a stream of records whose gets all find their values, cut off anywhere before the header of the record that ends it
  is complete, inside a header or inside a record, leaves the program in the loop of
  \<open>fullread\<close> for ever: \<open>fread\<close> then says 0, and nothing looks whether the stream has ended.
\<close>

theorem cut_stream_hangs:
  assumes "ydb_good Y" "zkill_law Y zkill" "\<And>oper. oper \<in> set opers \<Longrightarrow> sendable oper"
    and "(if argc \<noteq> 1 then ydb_cip Y db0 ''genstresstest'' else (YDB_OK, db0)) = (YDB_OK, db)"
    and "effects opers (view Y db) \<noteq> None" "k < length (concat (List.map encode opers)) + 8"
  shows "stresstest_main Y Z zkill rands fuel tmpbuff argc (take k (concat (List.map encode opers) @ num2bin 0 @ num2bin 0)) db0 = None"
proof -
  have "kill_db Y zkill" by unfold_locales (rule assms(1,2))+
  then have "records_loop Y zkill (take k (concat (List.map encode opers) @ num2bin 0 @ num2bin 0)) 0 0 db = None"
    by (rule kill_db.loop_hangs [OF _ assms(3,5) _ assms(6)]) (simp_all add: DBG_BUFF_SIZE_def)
  then show ?thesis using assms(4) by (simp add: stresstest_main_def)
qed

text \<open>The last record is cut off after 9 of its bytes.\<close>

lemma cut_stream_hangs_witness:
  "9 < length (encode (Operation 3 ''^y'' [] [])) \<and>
   stresstest_main map_ydb map_zwrite map_zkill (0, 1) 96 [] 1
     (take (length (concat (List.map encode (butlast four_operations))) + 9)
        (concat (List.map encode four_operations) @ num2bin 0 @ num2bin 0)) (\<lambda>_. None) = None"
proof -
  have "length (concat (List.map encode (butlast four_operations))) + 9 < length (concat (List.map encode four_operations)) + 8"
    by (simp add: four_operations_def encode_def length_counted)
  note cut = this
  have call: "(if (1 :: int) \<noteq> 1 then ydb_cip map_ydb (\<lambda>_. None) ''genstresstest'' else (YDB_OK, \<lambda>_. None)) = (YDB_OK, \<lambda>_. None)" by simp
  have "effects four_operations (view map_ydb (\<lambda>_. None)) \<noteq> None" by (simp add: four_effects)
  note cut_stream_hangs [OF map_ydb_good map_kill.zkills four_sendable call this cut]
  moreover have "9 < length (encode (Operation 3 ''^y'' [] []))" by (simp add: encode_def length_counted)
  ultimately show ?thesis by blast
qed

end
