(* ===== verification/Tp2.thy ===== *)
theory Tp2
  imports YdbProg
begin

text \<open>
  simpleapi/inref/tp2_complex_and_nested.c: children that increment one global, each in its own
  way, in transactions and nested transactions, and a parent that checks the sum.
\<close>

definition BASEVAR :: string where "BASEVAR = ''^tp2''"
definition TRIGVAR :: string where "TRIGVAR = ''^tp2trig''"
definition tp2_NCHILDREN :: nat where "tp2_NCHILDREN = 8"
definition MAXNUMINCRS :: int where "MAXNUMINCRS = 1000"

text \<open>\<open>value\<close> is a buffer of 16 bytes that all functions of a process share.\<close>

definition VALUEBUFF :: nat where "VALUEBUFF = 16"

definition strtoul :: "string \<Rightarrow> int" where
  "strtoul s = strtol10 s mod 2 ^ 64"

section \<open>One increment\<close>

text \<open>
  The nested transaction; \<open>callin\<close> is drawn. The M routine, simpleapi/inref/gvnincr2callin.m, calls itself through
  YottaDB and C a random number of times and then increments the counter; as a call-in it is part of the record.
\<close>

definition gvnincr2 :: "'db ydb \<Rightarrow> bool \<Rightarrow> string \<Rightarrow> ('db, unit) act" where
  "gvnincr2 Y use_callin v =
     (if \<not> use_callin then set_tp Y BASEVAR [] v else cip_tp Y ''gvnincr2callin'')"

definition nested_tp :: "'db ydb \<Rightarrow> ('db, unit) act \<Rightarrow> ('db, unit) act" where
  "nested_tp Y f db = (case ydb_tp_s Y (as_function f) db of Inl e \<Rightarrow> Inl e | Inr (status, db') \<Rightarrow> asserted_tp Y status () db')"

text \<open>The value to be set, \<open>i\<close> being the number of the increments the process has done.\<close>

definition next_value :: "'db ydb \<Rightarrow> int \<Rightarrow> ('db, string) act" where
  "next_value Y i db =
     (let (status, v) = ydb_get_s Y db BASEVAR []
      in if status = YDB_TP_RESTART Y then stop status
         else if status \<noteq> YDB_ERR_GVUNDEF Y then
           andThen (asserted status ()) (\<lambda>_.
           andThen (nul_ended VALUEBUFF v) (\<lambda>v. ret (dec (int32 ((strtoul v + 1) mod 2 ^ 64)))))
         else ret (dec (int32 (i + 1)))) db"

definition gvnincr :: "'db ydb \<Rightarrow> bool \<Rightarrow> bool \<Rightarrow> bool \<Rightarrow> int \<Rightarrow> ('db, unit) act" where
  "gvnincr Y use_ydb_incr_s_inside_tp use_ydb_set_s_inside_nested_tp use_callin i =
     (if use_ydb_incr_s_inside_tp then andThen (incr_tp Y BASEVAR [] None) (\<lambda>_. ret ())
      else
        andThen (next_value Y i) (\<lambda>v.
          if \<not> use_ydb_set_s_inside_nested_tp then set_tp Y BASEVAR [] v
          else nested_tp Y (gvnincr2 Y use_callin v)))"

text \<open>A round of the loop of \<open>do_tp\<close>.\<close>

definition do_tp_round :: "'db ydb \<Rightarrow> bool \<Rightarrow> bool \<Rightarrow> bool \<Rightarrow> bool \<Rightarrow> int \<Rightarrow> ('db, unit) act" where
  "do_tp_round Y use_ydb_incr_s_outside_tp use_ydb_incr_s_inside_tp nested use_callin i =
     (if use_ydb_incr_s_outside_tp then andThen (incr_ok Y BASEVAR [] None) (\<lambda>_. ret ())
      else call_ok (ydb_tp_s Y (as_function (gvnincr Y use_ydb_incr_s_inside_tp nested use_callin i))))"

section \<open>The children\<close>

text \<open>
  The children's calls commit one after the other, in any order. No call is answered with YDB_TP_RESTART: YottaDB
  runs a transaction again from the start then, with the database as it was, so the last run is the one that counts. A turn says which child calls,
  and what it draws; \<open>done\<close> counts the rounds of each child, and \<open>outside\<close> and \<open>inside\<close> are what the
  children have drawn at their start.
\<close>

type_synonym turn = "nat \<times> bool \<times> bool"

fun children :: "'db ydb \<Rightarrow> (nat \<Rightarrow> bool) \<Rightarrow> (nat \<Rightarrow> bool) \<Rightarrow> (nat \<Rightarrow> nat) \<Rightarrow> turn list \<Rightarrow> ('db, unit) act" where
  "children Y outside inside ended [] = ret ()"
| "children Y outside inside ended ((c, nested, use_callin) # turns) =
     andThen (do_tp_round Y (outside c) (inside c) nested use_callin (int (ended c))) (\<lambda>_.
       children Y outside inside (ended(c := ended c + 1)) turns)"

text \<open>All children do all their increments.\<close>

definition complete :: "int \<Rightarrow> turn list \<Rightarrow> bool" where
  "complete numincrs turns \<longleftrightarrow> (\<forall>c. int (count_list (List.map fst turns) c) = (if c < tp2_NCHILDREN then numincrs else 0))"

section \<open>The parent\<close>

text \<open>
  A round of the parent is what its children draw and the order of their turns. The loop ends
  with the last round, when the time is over, or with a wrong sum. The number is read from the
  buffer, which is not ended by a NUL; what is behind the value is left of earlier ones.
\<close>

type_synonym tp2_round = "(nat \<Rightarrow> bool) \<times> (nat \<Rightarrow> bool) \<times> turn list"

fun parent_rounds ::
    "'db ydb \<Rightarrow> tp2_round list \<Rightarrow> int \<Rightarrow> int \<Rightarrow> string \<Rightarrow> ('db, (int \<times> int) option \<times> int) act" where
  "parent_rounds Y [] numincrs cumulincrs valuebuff = ret (None, cumulincrs)"
| "parent_rounds Y ((outside, inside, turns) # rounds) numincrs cumulincrs valuebuff =
     andThen (children Y outside inside (\<lambda>_. 0) turns) (\<lambda>_.
     let cumulincrs = int32 (cumulincrs + int tp2_NCHILDREN * numincrs) in
     andThen (get_ok Y VALUEBUFF BASEVAR []) (\<lambda>v.
     let valuebuff = v @ drop (length v) valuebuff in
     andThen (if NUL \<in> set valuebuff then ret () else fault OutOfBounds) (\<lambda>_.
     let result = int32 (strtoul (c_str valuebuff)) in
       if result \<noteq> cumulincrs then ret (Some (cumulincrs, result), cumulincrs)
       else parent_rounds Y rounds (if MAXNUMINCRS > numincrs then int32 (numincrs * 10) else numincrs) cumulincrs valuebuff)))"

definition tp2_report :: "(int \<times> int) option \<times> int \<Rightarrow> string list" where
  "tp2_report r =
     (case fst r of None \<Rightarrow> []
      | Some (expected, actual) \<Rightarrow>
          [''FAIL from tp2 : Expected '' @ BASEVAR @ ''='' @ dec expected @ '' : Actual '' @ BASEVAR @ ''='' @ dec actual]) @
     (if snd r \<noteq> 0 then [''PASS from tp2''] else [])"

text \<open>The nodes the trigger has to have set, if there is one.\<close>

definition check_trigger :: "'db ydb \<Rightarrow> int \<Rightarrow> ('db, unit) act" where
  "check_trigger Y cumulincrs =
     block (List.map (\<lambda>i. andThen (get_ok Y VALUEBUFF TRIGVAR [dec i]) (\<lambda>v. check (v = []))) [1..cumulincrs])"

definition tp2_main :: "'db ydb \<Rightarrow> string option \<Rightarrow> tp2_round list \<Rightarrow> ('db, string list) act" where
  "tp2_main Y trig_val rounds =
     andThen (parent_rounds Y rounds 10 0 (replicate VALUEBUFF NUL)) (\<lambda>r.
       if trig_val \<noteq> None \<and> atoi (the trig_val) \<noteq> 0 then
         andThen (check_trigger Y (snd r)) (\<lambda>_. ret (tp2_report r @ [''PASS from tp2trig'']))
       else ret (tp2_report r))"

end
