(* ===== verification/Tp2Props.thy ===== *)
theory Tp2Props
  imports Tp2
begin

text \<open>
  What simpleapi/inref/tp2_complex_and_nested.c counts. The locale \<open>tp2_db\<close> adds the call-in to the
  database.
\<close>

section \<open>The counter\<close>

definition counter_is :: "'db ydb \<Rightarrow> int \<Rightarrow> 'db \<Rightarrow> bool" where
  "counter_is Y n db \<longleftrightarrow> node Y db BASEVAR [] = (if n = 0 then None else Some (dec n))"

text \<open>
  The call-in increments the counter in the end, however deep it has called itself, as simpleapi/inref/gvnincr2callin.m
  does when the C routine it calls, which runs it again, does nothing else.
\<close>

definition callin_law :: "'db ydb \<Rightarrow> bool" where
  "callin_law Y \<longleftrightarrow> (\<forall>db n. 0 \<le> n \<longrightarrow> n < 2 ^ 31 \<longrightarrow> counter_is Y n db \<longrightarrow>
     (\<exists>db'. ydb_cip Y db ''gvnincr2callin'' = (YDB_OK, db') \<and> counter_is Y (n + 1) db'))"

locale tp2_db = calm_db Y for Y :: "'db ydb" +
  assumes calls_in: "callin_law Y"
begin

lemma counter_incr:
  assumes "counter_is Y n db" "0 \<le> n" "n < 2 ^ 31 - 1"
  shows "\<exists>db' v. incr_ok Y BASEVAR [] None db = Inr (Go v, db') \<and> incr_tp Y BASEVAR [] None db = Inr (Go v, db') \<and>
    counter_is Y (n + 1) db'"
proof -
  have pre: "case node Y db BASEVAR [] of None \<Rightarrow> n = 0 | Some v \<Rightarrow> v = dec n" "\<bar>n\<bar> < 10 ^ 18"
    "case None of None \<Rightarrow> (1 :: int) = 1 | Some t \<Rightarrow> counts_as t 1" "\<bar>1 :: int\<bar> < 10 ^ 18"
    using assms by (simp_all add: counter_is_def)
  show ?thesis
    using incr_runs [OF pre] incr_bumped(2) [OF pre] assms(2) by (auto simp: counter_is_def)
qed

lemma counter_put: "0 \<le> n \<Longrightarrow> counter_is Y (n + 1) (put Y BASEVAR [] (dec (n + 1)) db)"
  by (simp add: counter_is_def)

lemma next_value_runs:
  assumes "counter_is Y n db" "0 \<le> n" "n < 2 ^ 31 - 1" "n = 0 \<Longrightarrow> i = 0"
  shows "next_value Y i db = Inr (Go (dec (n + 1)), db)"
proof (cases "n = 0")
  case True
  then have "node Y db BASEVAR [] = None" using assms(1) by (simp add: counter_is_def)
  then have "fst (ydb_get_s Y db BASEVAR []) = YDB_ERR_GVUNDEF Y" by (simp add: got_undef undef_status_def BASEVAR_def)
  then show ?thesis using True assms(4)
    by (cases "ydb_get_s Y db BASEVAR []") (simp add: next_value_def int32_id is_int32_def)
next
  case False
  then have "node Y db BASEVAR [] = Some (dec n)" using assms(1) by (simp add: counter_is_def)
  then have get: "ydb_get_s Y db BASEVAR [] = (YDB_OK, dec n)" by (rule got)
  have small: "is_int32 n" "is_int32 (n + 1)" using assms(2,3) by (simp_all add: is_int32_def)
  have "length (dec n) < VALUEBUFF" using length_dec [OF small(1)] by (simp add: VALUEBUFF_def)
  moreover have "strtoul (dec n) = n" using assms(2,3) by (simp add: strtoul_def strtol10_dec)
  ultimately show ?thesis
    using get small assms(2,3) by (simp add: next_value_def asserted_def nul_ended_def int32_id)
qed

lemma nested_runs:
  assumes "counter_is Y n db" "0 \<le> n" "n < 2 ^ 31 - 1"
  shows "\<exists>db'. nested_tp Y (gvnincr2 Y use_callin (dec (n + 1))) db = Inr (Go (), db') \<and> counter_is Y (n + 1) db'"
proof -
  have "\<exists>db'. as_function (gvnincr2 Y use_callin (dec (n + 1))) db = Inr (YDB_OK, db') \<and> counter_is Y (n + 1) db'"
  proof (cases use_callin)
    case True
    obtain db' where "ydb_cip Y db ''gvnincr2callin'' = (YDB_OK, db')" "counter_is Y (n + 1) db'"
      using calls_in assms unfolding callin_law_def by force
    then show ?thesis using True by (simp add: gvnincr2_def as_function_def cip_tp_def asserted_tp_def)
  next
    case False
    then show ?thesis using counter_put [OF assms(2)] by (simp add: gvnincr2_def as_function_def)
  qed
  then obtain db' where "as_function (gvnincr2 Y use_callin (dec (n + 1))) db = Inr (YDB_OK, db')" "counter_is Y (n + 1) db'"
    by blast
  then show ?thesis using tp_runs by (simp add: nested_tp_def asserted_tp_def)
qed

lemma tp2_round_runs:
  assumes "counter_is Y n db" "0 \<le> n" "n < 2 ^ 31 - 1" "n = 0 \<Longrightarrow> i = 0"
  shows "\<exists>db'. do_tp_round Y outside inside nested use_callin i db = Inr (Go (), db') \<and> counter_is Y (n + 1) db'"
proof (cases outside)
  case True
  then show ?thesis using counter_incr [OF assms(1-3)] by (auto simp: do_tp_round_def)
next
  case False
  have "\<exists>db'. as_function (gvnincr Y inside nested use_callin i) db = Inr (YDB_OK, db') \<and> counter_is Y (n + 1) db'"
  proof (cases inside)
    case True
    then show ?thesis using counter_incr [OF assms(1-3)] by (auto simp: gvnincr_def as_function_def)
  next
    case False
    show ?thesis
    proof (cases nested)
      case True
      obtain db' where "nested_tp Y (gvnincr2 Y use_callin (dec (n + 1))) db = Inr (Go (), db')" "counter_is Y (n + 1) db'"
        using nested_runs [OF assms(1-3), of use_callin] by blast
      then show ?thesis using next_value_runs [OF assms] \<open>\<not> inside\<close> True by (simp add: gvnincr_def as_function_def)
    next
      case False
      then show ?thesis
        using next_value_runs [OF assms] counter_put [OF assms(2)] \<open>\<not> inside\<close> by (simp add: gvnincr_def as_function_def)
    qed
  qed
  then show ?thesis using False call_runs(2) by (auto simp: do_tp_round_def)
qed

lemma children_run:
  assumes "counter_is Y n db" "0 \<le> n" "n + int (length turns) < 2 ^ 31" "\<And>c. int (ended c) \<le> n"
  shows "\<exists>db'. children Y outside inside ended turns db = Inr (Go (), db') \<and> counter_is Y (n + int (length turns)) db'"
  using assms
proof (induction turns arbitrary: n db ended)
  case (Cons turn turns)
  obtain c nested use_callin where turn: "turn = (c, nested, use_callin)" by (cases turn)
  have "n < 2 ^ 31 - 1" "n = 0 \<Longrightarrow> int (ended c) = 0" using Cons.prems(2,3) Cons.prems(4) [of c] by auto
  then obtain db' where db': "do_tp_round Y (outside c) (inside c) nested use_callin (int (ended c)) db = Inr (Go (), db')"
    "counter_is Y (n + 1) db'"
    using tp2_round_runs [OF Cons.prems(1,2)] by blast
  have le: "int ((ended(c := ended c + 1)) c') \<le> n + 1" for c' 
    using Cons.prems(4) [of c] Cons.prems(4) [of c'] by (cases "c' = c") simp_all
  have "0 \<le> n + 1" "n + 1 + int (length turns) < 2 ^ 31" using Cons.prems(2,3) by simp_all
  from Cons.IH [of _ db' "ended(c := ended c + 1)", OF db'(2) this le] show ?case using db'(1) by (simp add: turn add.assoc fun_upd_def)
qed simp

end

section \<open>The sum\<close>

text \<open>Longer numbers have not fewer digits.\<close>

lemma dec_nat_length: "n < 10 ^ length (dec_nat n)"
proof (induction n rule: dec_nat.induct)
  case (1 n)
  show ?case
  proof (cases "n < 10")
    case False
    then have "n div 10 < 10 ^ length (dec_nat (n div 10))" using 1 by simp
    then have "n < 10 ^ Suc (length (dec_nat (n div 10)))" by simp
    then show ?thesis using False by (subst dec_nat.simps) simp
  qed (subst dec_nat.simps, simp)
qed

lemma length_dec_mono: "0 \<le> a \<Longrightarrow> a \<le> b \<Longrightarrow> length (dec a) \<le> length (dec b)"
proof -
  assume "0 \<le> a" "a \<le> b"
  then have "nat a < 10 ^ length (dec_nat (nat b))" using dec_nat_length [of "nat b"] by (meson le_less_trans nat_mono)
  moreover have "0 < length (dec_nat (nat b))" by (subst dec_nat.simps) simp
  ultimately show ?thesis using length_dec_nat \<open>0 \<le> a\<close> \<open>a \<le> b\<close> by (simp add: dec_def)
qed

text \<open>The increments of a process in the next round, and of all processes in all rounds.\<close>

definition next_incrs :: "int \<Rightarrow> int" where
  "next_incrs n = (if MAXNUMINCRS > n then n * 10 else n)"

fun all_complete :: "int \<Rightarrow> tp2_round list \<Rightarrow> bool" where
  "all_complete n [] \<longleftrightarrow> True"
| "all_complete n ((outside, inside, turns) # rounds) \<longleftrightarrow> complete n turns \<and> all_complete (next_incrs n) rounds"

fun total_incrs :: "int \<Rightarrow> tp2_round list \<Rightarrow> int" where
  "total_incrs n [] = 0"
| "total_incrs n (r # rounds) = 8 * n + total_incrs (next_incrs n) rounds"

lemma complete_length: "complete n turns \<Longrightarrow> int (length turns) = 8 * n"
proof -
  assume c: "complete n turns"
  let ?cs = "List.map fst turns"
  have "c < 8" if "c \<in> set ?cs" for c
    using c that count_list_0_iff [of ?cs c] by (auto simp: complete_def tp2_NCHILDREN_def split: if_splits)
  then have "(\<Sum>c<8. count_list ?cs c) = length ?cs" by (intro sum_count_set) auto
  then have "int (length turns) = (\<Sum>c<8. int (count_list ?cs c))" by (simp flip: of_nat_sum)
  also have "\<dots> = (\<Sum>c<(8 :: nat). n)" using c by (intro sum.cong) (simp_all add: complete_def tp2_NCHILDREN_def)
  finally show ?thesis by simp
qed

lemma nul_tail: "length w \<le> length v \<Longrightarrow> v @ drop (length v) (w @ replicate k NUL) = v @ replicate (length w + k - length v) NUL"
  by simp

lemma c_str_nul: "nul_free v \<Longrightarrow> 0 < k \<Longrightarrow> c_str (v @ replicate k NUL) = v"
  by (cases k) (auto simp: c_str_def nul_free_def takeWhile_append)

context tp2_db
begin

lemma rounds_run:
  assumes "counter_is Y s db" "0 \<le> s" "s + 8000 * int (length rounds) < 2 ^ 31 - 1" "n \<in> {10, 100, 1000}"
    and "all_complete n rounds" "valuebuff = w @ replicate (16 - length w) NUL" "length w \<le> length (dec s)"
  shows "\<exists>db'. parent_rounds Y rounds n s valuebuff db = Inr (Go (None, s + total_incrs n rounds), db') \<and>
    counter_is Y (s + total_incrs n rounds) db'"
  using assms
proof (induction rounds arbitrary: s db n valuebuff w)
  case (Cons r rounds)
  obtain outside inside turns where r: "r = (outside, inside, turns)" by (cases r)
  have complete: "complete n turns" "all_complete (next_incrs n) rounds" using Cons.prems(5) by (simp_all add: r)
  let ?s = "s + 8 * n"
  have n: "0 < n" "n \<le> 1000" "next_incrs n \<in> {10, 100, 1000}" using Cons.prems(4) by (auto simp: next_incrs_def MAXNUMINCRS_def)
  have s: "0 < ?s" "?s + 8000 * int (length rounds) < 2 ^ 31 - 1" using Cons.prems(2,3) n by simp_all
  have s32: "is_int32 ?s" "int32 ?s = ?s" using s by (simp_all add: is_int32_def int32_id)
  obtain db1 where db1: "children Y outside inside (\<lambda>_. 0) turns db = Inr (Go (), db1)" "counter_is Y ?s db1"
    using children_run [OF Cons.prems(1,2), of turns "\<lambda>_. 0"] complete_length [OF complete(1)] s Cons.prems(2) by auto
  have len: "length (dec ?s) < 16" "length w \<le> length (dec ?s)"
    using length_dec [OF s32(1)] length_dec_mono [of s ?s] Cons.prems(2,7) n by simp_all
  let ?v = "dec ?s @ replicate (16 - length (dec ?s)) NUL"
  have buff: "dec ?s @ drop (length (dec ?s)) valuebuff = ?v" "NUL \<in> set ?v" "c_str ?v = dec ?s"
    using len nul_tail [OF len(2)] by (simp_all add: Cons.prems(6) c_str_nul)
  have read: "int32 (strtoul (dec ?s)) = ?s" using s s32 by (simp add: strtoul_def strtol10_dec)
  have "node Y db1 BASEVAR [] = Some (dec ?s)" using db1(2) s by (simp add: counter_is_def)
  then have got1: "get_ok Y VALUEBUFF BASEVAR [] db1 = Inr (Go (dec ?s), db1)"
    using len by (intro get_runs) (simp_all add: VALUEBUFF_def)
  have next_n: "(if MAXNUMINCRS > n then int32 (n * 10) else n) = next_incrs n"
    using n Cons.prems(4) by (auto simp: next_incrs_def int32_id is_int32_def)
  have "\<exists>db'. parent_rounds Y rounds (next_incrs n) ?s ?v db1 = Inr (Go (None, ?s + total_incrs (next_incrs n) rounds), db') \<and>
    counter_is Y (?s + total_incrs (next_incrs n) rounds) db'"
    using Cons.IH [OF db1(2) _ s(2) n(3) complete(2) refl order_refl] s by simp
  then show ?case
    using db1(1) got1 buff read s32
    by (auto simp: r Let_def next_n tp2_NCHILDREN_def add.assoc simp del: drop_append append_assoc)
qed (simp add: counter_is_def)

lemma reports_pass:
  assumes "node Y db BASEVAR [] = None" "rounds \<noteq> []" "length rounds \<le> 200000" "all_complete 10 rounds"
  shows "\<exists>db'. tp2_main Y None rounds db = Inr (Go [''PASS from tp2''], db') \<and>
    node Y db' BASEVAR [] = Some (dec (total_incrs 10 rounds))"
proof -
  have "\<exists>db'. parent_rounds Y rounds 10 0 (replicate VALUEBUFF NUL) db = Inr (Go (None, 0 + total_incrs 10 rounds), db') \<and>
    counter_is Y (0 + total_incrs 10 rounds) db'"
    using assms by (intro rounds_run [where w = "[]"]) (simp_all add: counter_is_def VALUEBUFF_def)
  moreover have "0 \<le> n \<Longrightarrow> 0 \<le> total_incrs n rounds" for n rounds
    by (induction rounds arbitrary: n) (simp_all add: next_incrs_def)
  then have "total_incrs 10 rounds > 0" using assms(2) by (cases rounds) (simp_all add: next_incrs_def add_pos_nonneg)
  ultimately show ?thesis by (auto simp: tp2_main_def tp2_report_def counter_is_def)
qed

end

lemma count_list_upt: "count_list [0..<n] c = (if c < n then 1 else 0)"
  by (induction n) auto

lemma count_concat: "count_list (concat (replicate k xs)) c = k * count_list xs c"
  by (induction k) simp_all

text \<open>A database whose call-in increments the counter.\<close>

definition counting_ydb :: "(string \<times> string list \<Rightarrow> string option) ydb" where
  "counting_ydb = map_ydb\<lparr>ydb_cip := \<lambda>db name. (0, bumped map_ydb BASEVAR [] None db)\<rparr>"

lemma counting_callin: "callin_law counting_ydb"
  unfolding callin_law_def
proof (intro allI impI)
  fix db and n :: int
  assume n: "0 \<le> n" "n < 2 ^ 31" and counter: "counter_is counting_ydb n db"
  then have "case node map_ydb db BASEVAR [] of None \<Rightarrow> n = 0 | Some v \<Rightarrow> v = dec n"
    by (simp add: counter_is_def counting_ydb_def)
  from map.incr_bumped(2) [OF this, of 1 None]
  have "counter_is counting_ydb (n + 1) (bumped map_ydb BASEVAR [] None db)"
    using n by (simp add: counter_is_def counting_ydb_def)
  then show "\<exists>db'. ydb_cip counting_ydb db ''gvnincr2callin'' = (YDB_OK, db') \<and> counter_is counting_ydb (n + 1) db'"
    by (simp add: counting_ydb_def YDB_OK_def)
qed

interpretation counting: tp2_db counting_ydb
  by unfold_locales (simp_all add: counting_callin, simp add: counting_ydb_def ydb_good_cip)

lemma tp2_dbI: "ydb_good Y \<Longrightarrow> callin_law Y \<Longrightarrow> tp2_db Y"
  by (simp add: tp2_db_def tp2_db_axioms_def calm_db_def)

text \<open>
  C40: However the turns of the eight children are interleaved and whichever way each of them
  increments (ydb_incr_s outside or inside a transaction, get and set in a transaction, a set or a
  call-in in a nested one), the parent finds the sum of all increments after every round, says
  nothing but PASS, and leaves that sum in the counter. The parent's read of a buffer that nothing
  ends is sound because the sums never get shorter. The calls commit one after the other; restarts are not part of the model.
\<close>

theorem tp2_counts_all:
  assumes "ydb_good Y" "callin_law Y" "node Y db BASEVAR [] = None"
    and "rounds \<noteq> []" "length rounds \<le> 200000" "all_complete 10 rounds"
  shows "\<exists>db'. tp2_main Y None rounds db = Inr (Go [''PASS from tp2''], db') \<and>
    node Y db' BASEVAR [] = Some (dec (total_incrs 10 rounds))"
  using tp2_db.reports_pass [OF tp2_dbI [OF assms(1,2)] assms(3-6)] .

theorem tp2_counts_all_witness:
  "\<exists>db'. tp2_main counting_ydb None [(\<lambda>c. c = 0, \<lambda>c. c = 1, concat (replicate 10 (List.map (\<lambda>c. (c, even c, c < 3)) [0..<8])))] Map.empty =
      Inr (Go [''PASS from tp2''], db') \<and>
    node counting_ydb db' BASEVAR [] = Some ''80''"
proof -
  let ?turns = "concat (replicate 10 (List.map (\<lambda>c. (c, even c, c < 3)) [0..<8])) :: turn list"
  have fsts: "List.map fst ?turns = concat (replicate 10 [0..<8])" by (simp add: map_concat o_def del: upt_Suc)
  have "complete 10 ?turns"
    unfolding complete_def fsts by (simp add: tp2_NCHILDREN_def count_concat count_list_upt del: upt_Suc)
  then have "all_complete 10 [(\<lambda>c. c = 0, \<lambda>c. c = 1, ?turns)]" by simp
  moreover have "node counting_ydb Map.empty BASEVAR [] = None" by (simp add: counting_ydb_def)
  moreover have "dec 80 = ''80''" by code_simp
  ultimately show ?thesis
    using tp2_counts_all [of counting_ydb Map.empty "[(\<lambda>c. c = 0, \<lambda>c. c = 1, ?turns)]"] counting.good counting.calls_in
    by simp
qed

end
