(* ===== verification/YdbThreads.thy ===== *)
theory YdbThreads
  imports YdbProg
begin

text \<open>
  YottaDB's threaded API. Its calls are those of the simple API with a token: YDB_NOTTP outside of
  transactions, and in the function of a transaction the token the function was called with. The
  documentation promises nothing about a call with another token. Programs come in two forms, one
  for either API; the relation \<open>lifts\<close> says that the two do the same.
\<close>

section \<open>The API\<close>

text \<open>
  \<open>at_token T tptoken\<close> are the calls \<open>ydb_..._st\<close> with that token (the buffer for the error's text is
  left out); \<open>ydb_tp_s\<close> of it is not used, \<open>ydb_tp_st\<close> gives the function of the transaction a token.
\<close>

record 'db ydb_t =
  at_token :: "int \<Rightarrow> 'db ydb"
  ydb_tp_st :: "int \<Rightarrow> (int \<Rightarrow> 'db \<Rightarrow> c_fault + int \<times> 'db) \<Rightarrow> 'db \<Rightarrow> c_fault + int \<times> 'db"

definition YDB_NOTTP :: int where "YDB_NOTTP = 0"

text \<open>A result with a token beside the database, and one without.\<close>

definition with_tok :: "int \<Rightarrow> c_fault + 'a \<times> 'db \<Rightarrow> c_fault + 'a \<times> ('db \<times> int)" where
  "with_tok tok = map_sum id (\<lambda>(x, db). (x, (db, tok)))"

definition no_tok :: "c_fault + 'a \<times> ('db \<times> int) \<Rightarrow> c_fault + 'a \<times> 'db" where
  "no_tok = map_sum id (\<lambda>(x, (db, tok)). (x, db))"

lemma with_tok_simps [simp]:
  "with_tok tok (Inl e) = Inl e" "with_tok tok (Inr (x, db)) = Inr (x, (db, tok))"
  "no_tok (Inl e) = Inl e" "no_tok (Inr (x, (db, tok))) = Inr (x, db)" "no_tok (with_tok tok r) = r"
  by (simp_all add: with_tok_def no_tok_def) (cases r; auto)

text \<open>
  What the threaded API promises: a database in it is one of the simple API with the token that is
  current, and a call with that token is the call of the simple API; in the function of a
  transaction another one is current.
\<close>

definition same_calls :: "('db \<times> int) ydb \<Rightarrow> 'db ydb \<Rightarrow> int \<Rightarrow> bool" where
  "same_calls S Y tok \<longleftrightarrow> (\<forall>db g s.
     ydb_get_s S (db, tok) g s = ydb_get_s Y db g s \<and>
     (\<forall>v. ydb_set_s S (db, tok) g s v = apsnd (\<lambda>db. (db, tok)) (ydb_set_s Y db g s v)) \<and>
     ydb_data_s S (db, tok) g s = ydb_data_s Y db g s \<and>
     (\<forall>by. ydb_incr_s S (db, tok) g s by = apsnd (apsnd (\<lambda>db. (db, tok))) (ydb_incr_s Y db g s by)) \<and>
     ydb_delete_s S (db, tok) g s = apsnd (\<lambda>db. (db, tok)) (ydb_delete_s Y db g s) \<and>
     ydb_subscript_next_s S (db, tok) g s = ydb_subscript_next_s Y db g s \<and>
     ydb_subscript_previous_s S (db, tok) g s = ydb_subscript_previous_s Y db g s \<and>
     ydb_cip S (db, tok) g = apsnd (\<lambda>db. (db, tok)) (ydb_cip Y db g) \<and>
     ydb_lock_incr_s S (db, tok) g s = apsnd (\<lambda>db. (db, tok)) (ydb_lock_incr_s Y db g s) \<and>
     ydb_lock_decr_s S (db, tok) g s = apsnd (\<lambda>db. (db, tok)) (ydb_lock_decr_s Y db g s)) \<and>
   YDB_TP_RESTART S = YDB_TP_RESTART Y \<and> YDB_TP_ROLLBACK S = YDB_TP_ROLLBACK Y \<and>
   YDB_ERR_GVUNDEF S = YDB_ERR_GVUNDEF Y \<and> YDB_ERR_LVUNDEF S = YDB_ERR_LVUNDEF Y \<and>
   YDB_ERR_NODEEND S = YDB_ERR_NODEEND Y"

definition ydb_threaded :: "('db \<times> int) ydb_t \<Rightarrow> 'db ydb \<Rightarrow> bool" where
  "ydb_threaded T Y \<longleftrightarrow> (\<forall>tok. same_calls (at_token T tok) Y tok \<and>
     (\<exists>tok'. \<forall>f db. ydb_tp_st T tok f (db, tok) = with_tok tok (ydb_tp_s Y (\<lambda>db. no_tok (f tok' (db, tok'))) db)))"

section \<open>Programs in two forms\<close>

definition lifts :: "int \<Rightarrow> ('db \<times> int \<Rightarrow> c_fault + 'a \<times> ('db \<times> int)) \<Rightarrow> ('db \<Rightarrow> c_fault + 'a \<times> 'db) \<Rightarrow> bool" where
  "lifts tok m' m \<longleftrightarrow> (\<forall>db. m' (db, tok) = with_tok tok (m db))"

named_theorems lifting \<open>rules that build programs in two forms\<close>

lemma liftsD: "lifts tok m' m \<Longrightarrow> m' (db, tok) = with_tok tok (m db)"
  by (simp add: lifts_def)

lemma lifts_pure [lifting]:
  "lifts tok (ret x) (ret x)" "lifts tok (stop status) (stop status)" "lifts tok (fault e) (fault e)"
  "lifts tok (check b) (check b)" "lifts tok (asserted status x) (asserted status x)"
  "lifts tok (into_buffer n v) (into_buffer n v)" "lifts tok (nul_ended n v) (nul_ended n v)"
  by (cases b; unfold lifts_def; simp add: asserted_def into_buffer_def nul_ended_def)+

lemma lifts_andThen [lifting]:
  assumes "lifts tok m' m" "\<And>x. lifts tok (k' x) (k x)"
  shows "lifts tok (andThen m' k') (andThen m k)"
  unfolding lifts_def
proof
  fix db
  show "andThen m' k' (db, tok) = with_tok tok (andThen m k db)"
    using assms by (cases "(m db, k)" rule: continue.cases) (simp_all add: lifts_def)
qed

lemma lifts_block [lifting]: "list_all2 (lifts tok) as' as \<Longrightarrow> lifts tok (block as') (block as)"
proof (induction rule: list_all2_induct)
  case Nil
  show ?case unfolding block.simps by (rule lifts_pure)
next
  case (Cons a' as' a as)
  then show ?case unfolding block.simps by (intro lifts_andThen)
qed

lemma lifts_list [lifting]:
  "list_all2 (lifts tok) [] []"
  "lifts tok a' a \<Longrightarrow> list_all2 (lifts tok) as' as \<Longrightarrow> list_all2 (lifts tok) (a' # as') (a # as)"
  "list_all2 (lifts tok) as' as \<Longrightarrow> list_all2 (lifts tok) bs' bs \<Longrightarrow> list_all2 (lifts tok) (as' @ bs') (as @ bs)"
  "(\<And>x. lifts tok (f' x) (f x)) \<Longrightarrow> list_all2 (lifts tok) (List.map f' xs) (List.map f xs)"
  by (simp_all add: list_all2_appendI list.rel_map list_all2_same)

lemma lifts_cases [lifting]:
  "(b \<Longrightarrow> lifts tok m' m) \<Longrightarrow> (\<not> b \<Longrightarrow> lifts tok n' n) \<Longrightarrow> lifts tok (if b then m' else n') (if b then m else n)"
  "(\<And>x y. lifts tok (k' x y) (k x y)) \<Longrightarrow> lifts tok (case p of (x, y) \<Rightarrow> k' x y) (case p of (x, y) \<Rightarrow> k x y)"
  "list_all2 (lifts tok) as' as \<Longrightarrow> lifts tok (onlyIf b as') (onlyIf b as)"
  by (simp, cases p, simp, cases b, simp_all add: lifts_block lifts_pure)

lemma lifts_function [lifting]:
  assumes "lifts tok m' m"
  shows "lifts tok (as_function m') (as_function m)"
  unfolding lifts_def as_function_def liftsD [OF assms]
proof
  show "returned (with_tok tok (m db)) = with_tok tok (returned (m db))" for db
    by (cases "m db" rule: returned.cases) simp_all
qed

lemma lifts_call [lifting]:
  assumes "lifts tok f' f"
  shows "lifts tok (call_ok f') (call_ok f)"
  unfolding lifts_def call_ok_def liftsD [OF assms]
proof
  show "(case with_tok tok (f db) of Inl e \<Rightarrow> Inl e | Inr (status, db') \<Rightarrow> asserted status () db') =
      with_tok tok (case f db of Inl e \<Rightarrow> Inl e | Inr (status, db') \<Rightarrow> asserted status () db')" for db
    by (cases "f db") (auto simp: asserted_def)
qed

text \<open>The calls.\<close>

locale threaded_db =
  fixes T :: "('db \<times> int) ydb_t" and Y :: "'db ydb"
  assumes threaded: "ydb_threaded T Y"
begin

lemma same_token_calls [simp]:
  "ydb_get_s (at_token T tok) (db, tok) g s = ydb_get_s Y db g s"
  "ydb_set_s (at_token T tok) (db, tok) g s v = apsnd (\<lambda>db. (db, tok)) (ydb_set_s Y db g s v)"
  "ydb_data_s (at_token T tok) (db, tok) g s = ydb_data_s Y db g s"
  "ydb_incr_s (at_token T tok) (db, tok) g s inc = apsnd (apsnd (\<lambda>db. (db, tok))) (ydb_incr_s Y db g s inc)"
  "ydb_delete_s (at_token T tok) (db, tok) g s = apsnd (\<lambda>db. (db, tok)) (ydb_delete_s Y db g s)"
  "ydb_subscript_next_s (at_token T tok) (db, tok) g s = ydb_subscript_next_s Y db g s"
  "ydb_subscript_previous_s (at_token T tok) (db, tok) g s = ydb_subscript_previous_s Y db g s"
  "ydb_cip (at_token T tok) (db, tok) g = apsnd (\<lambda>db. (db, tok)) (ydb_cip Y db g)"
  "ydb_lock_incr_s (at_token T tok) (db, tok) g s = apsnd (\<lambda>db. (db, tok)) (ydb_lock_incr_s Y db g s)"
  "ydb_lock_decr_s (at_token T tok) (db, tok) g s = apsnd (\<lambda>db. (db, tok)) (ydb_lock_decr_s Y db g s)"
  using threaded unfolding ydb_threaded_def same_calls_def by blast+

lemma same_codes [simp]:
  "YDB_TP_RESTART (at_token T tok) = YDB_TP_RESTART Y" "YDB_TP_ROLLBACK (at_token T tok) = YDB_TP_ROLLBACK Y"
  "YDB_ERR_GVUNDEF (at_token T tok) = YDB_ERR_GVUNDEF Y" "YDB_ERR_LVUNDEF (at_token T tok) = YDB_ERR_LVUNDEF Y"
  "YDB_ERR_NODEEND (at_token T tok) = YDB_ERR_NODEEND Y"
  using threaded by (simp_all add: ydb_threaded_def same_calls_def)

lemma lifts_asserted_tp [lifting]: "lifts tok (asserted_tp (at_token T tok) status x) (asserted_tp Y status x)"
  by (simp add: lifts_def asserted_tp_def)

lemma lifts_calls [lifting]:
  "lifts tok (set_ok (at_token T tok) g s v) (set_ok Y g s v)" "lifts tok (set_tp (at_token T tok) g s v) (set_tp Y g s v)"
  "lifts tok (delete_ok (at_token T tok) g s) (delete_ok Y g s)" "lifts tok (delete_tp (at_token T tok) g s) (delete_tp Y g s)"
  "lifts tok (data_ok (at_token T tok) g s) (data_ok Y g s)"
  "lifts tok (incr_ok (at_token T tok) g s inc) (incr_ok Y g s inc)" "lifts tok (incr_tp (at_token T tok) g s inc) (incr_tp Y g s inc)"
  "lifts tok (cip_ok (at_token T tok) g) (cip_ok Y g)" "lifts tok (cip_tp (at_token T tok) g) (cip_tp Y g)"
  "lifts tok (lock_ok (at_token T tok) g s) (lock_ok Y g s)" "lifts tok (unlock_ok (at_token T tok) g s) (unlock_ok Y g s)"
  by (simp_all add: lifts_def set_ok_def set_tp_def delete_ok_def delete_tp_def data_ok_def incr_ok_def incr_tp_def cip_ok_def
      cip_tp_def lock_ok_def unlock_ok_def asserted_def asserted_tp_def split: prod.splits)

lemma lifts_get [lifting]:
  "lifts tok (get_ok (at_token T tok) n g s) (get_ok Y n g s)" "lifts tok (get_tp (at_token T tok) n g s) (get_tp Y n g s)"
  "lifts tok (get_text (at_token T tok) n g s) (get_text Y n g s)"
  by (simp_all add: lifts_def get_ok_def get_tp_def get_text_def asserted_def asserted_tp_def into_buffer_def nul_ended_def
      split: prod.splits)

lemma lifts_get_int [lifting]:
  "lifts tok (get_int (at_token T tok) n g s) (get_int Y n g s)"
  "lifts tok (get_int_or_0 (at_token T tok) n g s) (get_int_or_0 Y n g s)"
  "lifts tok (get_int_tp (at_token T tok) n g s) (get_int_tp Y n g s)"
  "lifts tok (get_int_or_0_tp (at_token T tok) n g s) (get_int_or_0_tp Y n g s)"
proof -
  show i: "lifts tok (get_int (at_token T tok) n g s) (get_int Y n g s)"
    unfolding get_int_def by (intro lifting)
  show t: "lifts tok (get_int_tp (at_token T tok) n g s) (get_int_tp Y n g s)"
    by (simp add: lifts_def get_int_tp_def asserted_tp_def nul_ended_def split: prod.splits)
  show "lifts tok (get_int_or_0 (at_token T tok) n g s) (get_int_or_0 Y n g s)"
    "lifts tok (get_int_or_0_tp (at_token T tok) n g s) (get_int_or_0_tp Y n g s)"
    using liftsD [OF i] liftsD [OF t] by (simp_all add: lifts_def get_int_or_0_def get_int_or_0_tp_def)
qed

text \<open>A transaction: its function has to do the same whatever token it gets.\<close>

lemma lifts_tp [lifting]:
  assumes "\<And>tok'. lifts tok' (f' tok') f"
  shows "lifts tok (ydb_tp_st T tok f') (ydb_tp_s Y f)"
proof -
  obtain tok' where "ydb_tp_st T tok f' (db, tok) = with_tok tok (ydb_tp_s Y (\<lambda>db. no_tok (f' tok' (db, tok'))) db)" for db
    using threaded unfolding ydb_threaded_def by metis
  then show ?thesis using assms by (simp add: lifts_def)
qed

end

section \<open>A threaded database to run programs on\<close>

text \<open>A call with another token is an error, the number being arbitrary.\<close>

definition YDB_ERR_INVTPTRANS :: int where "YDB_ERR_INVTPTRANS = -150377322"

definition thread_ydb :: "'db ydb \<Rightarrow> ('db \<times> int) ydb_t" where
  "thread_ydb Y =
     \<lparr>at_token = (\<lambda>tok.
        \<lparr>ydb_get_s = (\<lambda>(db, cur) g s. if tok = cur then ydb_get_s Y db g s else (YDB_ERR_INVTPTRANS, [])),
         ydb_set_s = (\<lambda>(db, cur) g s v. apsnd (\<lambda>db. (db, cur)) (if tok = cur then ydb_set_s Y db g s v else (YDB_ERR_INVTPTRANS, db))),
         ydb_data_s = (\<lambda>(db, cur) g s. if tok = cur then ydb_data_s Y db g s else (YDB_ERR_INVTPTRANS, 0)),
         ydb_incr_s = (\<lambda>(db, cur) g s inc. apsnd (apsnd (\<lambda>db. (db, cur)))
           (if tok = cur then ydb_incr_s Y db g s inc else (YDB_ERR_INVTPTRANS, [], db))),
         ydb_delete_s = (\<lambda>(db, cur) g s. apsnd (\<lambda>db. (db, cur)) (if tok = cur then ydb_delete_s Y db g s else (YDB_ERR_INVTPTRANS, db))),
         ydb_subscript_next_s = (\<lambda>(db, cur) g s. if tok = cur then ydb_subscript_next_s Y db g s else (YDB_ERR_INVTPTRANS, [])),
         ydb_subscript_previous_s = (\<lambda>(db, cur) g s. if tok = cur then ydb_subscript_previous_s Y db g s else (YDB_ERR_INVTPTRANS, [])),
         ydb_tp_s = (\<lambda>f dbc. Inl AssertFailed),
         ydb_cip = (\<lambda>(db, cur) name. apsnd (\<lambda>db. (db, cur)) (if tok = cur then ydb_cip Y db name else (YDB_ERR_INVTPTRANS, db))),
         ydb_lock_incr_s = (\<lambda>(db, cur) g s. apsnd (\<lambda>db. (db, cur)) (if tok = cur then ydb_lock_incr_s Y db g s else (YDB_ERR_INVTPTRANS, db))),
         ydb_lock_decr_s = (\<lambda>(db, cur) g s. apsnd (\<lambda>db. (db, cur)) (if tok = cur then ydb_lock_decr_s Y db g s else (YDB_ERR_INVTPTRANS, db))),
         YDB_TP_RESTART = YDB_TP_RESTART Y, YDB_TP_ROLLBACK = YDB_TP_ROLLBACK Y, YDB_ERR_GVUNDEF = YDB_ERR_GVUNDEF Y,
         YDB_ERR_LVUNDEF = YDB_ERR_LVUNDEF Y, YDB_ERR_NODEEND = YDB_ERR_NODEEND Y,
         YDB_ERR_JNLEXTEND = YDB_ERR_JNLEXTEND Y, YDB_ERR_JNLSWITCHFAIL = YDB_ERR_JNLSWITCHFAIL Y\<rparr>),
      ydb_tp_st = (\<lambda>tok f (db, cur).
        if tok = cur then with_tok cur (ydb_tp_s Y (\<lambda>db. no_tok (f (cur + 1) (db, cur + 1))) db)
        else Inr (YDB_ERR_INVTPTRANS, (db, cur)))\<rparr>"

lemma thread_ydb_threaded [simp]: "ydb_threaded (thread_ydb Y) Y"
  by (auto simp: ydb_threaded_def same_calls_def thread_ydb_def)

interpretation map_threads: threaded_db "thread_ydb map_ydb" map_ydb
  by unfold_locales simp

end
