(* ===== verification/RunConcurrThreads.thy ===== *)
theory RunConcurrThreads
  imports YdbThreads RunConcurr
begin

text \<open>
  stress/inref/simplethreadapi_run_concurr.c, the stress program's twin for the threaded API. Its
  parent is that of stress/inref/simpleapi_run_concurr.c; its jobs pass the token on. What they do
  with the database is that of theory RunConcurr at their token.
\<close>

section \<open>Filling and verifying with a token\<close>

definition set_one_st :: "'db ydb_t \<Rightarrow> int \<Rightarrow> string \<Rightarrow> int \<Rightarrow> int \<Rightarrow> ('db, unit) act" where
  "set_one_st T tptoken = set_one (at_token T tptoken)"

definition ver_one_st :: "'db ydb_t \<Rightarrow> int \<Rightarrow> string \<Rightarrow> int \<Rightarrow> int \<Rightarrow> ('db, unit) act" where
  "ver_one_st T tptoken = ver_one (at_token T tptoken)"

definition kill_one_st :: "'db ydb_t \<Rightarrow> int \<Rightarrow> string \<Rightarrow> int \<Rightarrow> int \<Rightarrow> ('db, unit) act" where
  "kill_one_st T tptoken = kill_one (at_token T tptoken)"

fun act_one_st :: "'db ydb_t \<Rightarrow> int \<Rightarrow> act_t \<Rightarrow> string \<Rightarrow> int \<Rightarrow> int \<Rightarrow> ('db, unit) act" where
  "act_one_st T tptoken SET = set_one_st T tptoken"
| "act_one_st T tptoken VER = ver_one_st T tptoken"
| "act_one_st T tptoken KILL = kill_one_st T tptoken"

fun filling_loop_st ::
    "'db ydb_t \<Rightarrow> int \<Rightarrow> act_t \<Rightarrow> string \<Rightarrow> int \<Rightarrow> int \<Rightarrow> int \<Rightarrow> nat \<Rightarrow> int \<Rightarrow> ('db, unit) act" where
  "filling_loop_st T tptoken act pid prime root iter 0 ndx = ret ()"
| "filling_loop_st T tptoken act pid prime root iter (Suc n) ndx =
     andThen (act_one_st T tptoken act pid prime iter) (\<lambda>_.
     let ndx' = c_mod (int32 (ndx * root)) prime in
     andThen (set_ok (at_token T tptoken) ''ndx'' [] (dec ndx')) (\<lambda>_.
     andThen (get_int (at_token T tptoken) VALUELEN ''ERR'' []) (\<lambda>ERR.
     andThen (get_int (at_token T tptoken) VALUELEN ''MAXERR'' []) (\<lambda>MAXERR.
       if MAXERR < ERR then ret () else filling_loop_st T tptoken act pid prime root iter n ndx'))))"

definition m_filling_randfill_st :: "'db ydb_t \<Rightarrow> int \<Rightarrow> act_t \<Rightarrow> string \<Rightarrow> int \<Rightarrow> int \<Rightarrow> int \<Rightarrow> ('db, unit) act" where
  "m_filling_randfill_st T tptoken act pid prime root iter = block
     [set_ok (at_token T tptoken) ''ERR'' [] (dec 0),
      set_ok (at_token T tptoken) ''MAXERR'' [] (dec 10),
      set_ok (at_token T tptoken) ''ndx'' [] (dec 1),
      filling_loop_st T tptoken act pid prime root iter (nat (prime - 1)) 1,
      andThen (get_int (at_token T tptoken) VALUELEN ''ERR'' []) (\<lambda>_. ret ())]"

definition m_randfill_st :: "'db ydb_t \<Rightarrow> int \<Rightarrow> act_t \<Rightarrow> string \<Rightarrow> int \<Rightarrow> int \<Rightarrow> ('db, unit) act" where
  "m_randfill_st T tptoken act pid pno iter =
     andThen (get_int_tp (at_token T tptoken) VALUELEN ''^root'' [dec pno]) (\<lambda>root.
     andThen (get_int_tp (at_token T tptoken) VALUELEN ''^prime'' []) (\<lambda>prime.
       m_filling_randfill_st T tptoken act pid prime root iter))"

section \<open>The jobs\<close>

text \<open>The function of the transaction gets its token from YottaDB, or YDB_NOTTP when it is called without one.\<close>

definition job_stress_tpfn_st :: "'db ydb_t \<Rightarrow> tpflag_t \<Rightarrow> string \<Rightarrow> int \<Rightarrow> int \<Rightarrow> ('db, unit) act" where
  "job_stress_tpfn_st T tpflag pid loop tptoken =
     (let Y = at_token T tptoken in
      andThen (call_tp Y (m_randfill_st T tptoken KILL pid (pno_of loop) loop)) (\<lambda>_.
      andThen (call_tp Y (m_randfill_st T tptoken SET pid (pno_of loop) loop)) (\<lambda>_.
      andThen (call_tp Y (m_randfill_st T tptoken VER pid (pno_of loop) loop)) (\<lambda>_.
      andThen (get_int Y VALUELEN ''$trestart'' []) (\<lambda>trestart.
      andThen (if trestart \<noteq> 0 then
                 andThen (check (tpflag \<noteq> NTP)) (\<lambda>_. andThen (get_int Y VALUELEN ''$tlevel'' []) (\<lambda>_. ret ()))
               else ret ()) (\<lambda>_.
      if tpflag = TPR then stop (YDB_TP_ROLLBACK Y) else ret ()))))))"

definition run_tpfn_st :: "'db ydb_t \<Rightarrow> tpflag_t \<Rightarrow> (int \<Rightarrow> ('db, unit) act) \<Rightarrow> ('db, unit) act" where
  "run_tpfn_st T tpflag f db =
     (if tpflag \<noteq> NTP then
        (case ydb_tp_st T YDB_NOTTP (\<lambda>tptoken. as_function (f tptoken)) db of Inl e \<Rightarrow> Inl e
         | Inr (status, db') \<Rightarrow> check (status = YDB_OK \<or> status = YDB_TP_ROLLBACK (at_token T YDB_NOTTP)) db')
      else call_ok (as_function (f YDB_NOTTP)) db)"

definition job_iteration_st :: "'db ydb_t \<Rightarrow> tpflag_t \<Rightarrow> string \<Rightarrow> int \<Rightarrow> ('db, unit) act" where
  "job_iteration_st T tpflag pid loop =
     (let Y = at_token T YDB_NOTTP in
      andThen (block
        [delete_ok Y ''efill'' [], delete_ok Y ''ffill'' [], delete_ok Y ''gfill'' [], delete_ok Y ''hfill'' [],
         set_ok Y ''loop'' [] (dec loop)]) (\<lambda>_.
      andThen (get_ok Y VALUELEN ''loop'' []) (\<lambda>v.
      andThen (block
        [set_ok Y ''efill'' [v] v, set_ok Y ''ffill'' [v] v, set_ok Y ''gfill'' [v] v, set_ok Y ''hfill'' [v] v,
         run_tpfn_st T tpflag (job_stress_tpfn_st T tpflag pid loop)]) (\<lambda>_.
      andThen (get_ok Y VALUELEN ''jobno'' []) (\<lambda>jobno.
      andThen (get_ok Y VALUELEN ''localinstance'' []) (\<lambda>inst.
      andThen (get_ok Y VALUELEN ''loop'' []) (\<lambda>v.
        set_ok Y ''^lasti'' [jobno, inst] v)))))))"

definition m_job_stress_st :: "'db ydb_t \<Rightarrow> int \<Rightarrow> string \<Rightarrow> ('db, unit) act" where
  "m_job_stress_st T child pid =
     (let Y = at_token T YDB_NOTTP in
      andThen (set_ok Y ''jobno'' [] (dec child)) (\<lambda>_.
      andThen (get_ok Y VALUELEN ''jobno'' []) (\<lambda>jobno.
      andThen (get_ok Y VALUELEN ''localinstance'' []) (\<lambda>inst.
      andThen (block
        [set_ok Y ''^PID'' [jobno, inst] pid,
         incr_any Y ''^permit'' [inst],
         lock_ok Y ''^permit'' [pid]]) (\<lambda>_.
      andThen (get_int Y VALUELEN ''iterate'' []) (\<lambda>iterate.
      andThen (delete_ok Y ''loop'' []) (\<lambda>_.
        block (List.map (job_iteration_st T (tpflag_of child) pid) [1..iterate]))))))))"

section \<open>The twin does what the program does\<close>

context threaded_db
begin

lemma lifts_exam: "lifts tok (m_EXAM_randfill (at_token T tok) pos vcorr vcomp) (m_EXAM_randfill Y pos vcorr vcomp)"
  unfolding m_EXAM_randfill_def report_line_def by (intro lifting)

lemma lifts_fetch: "lifts tok (fetch_obj (at_token T tok)) (fetch_obj Y)"
  unfolding fetch_obj_def by (intro lifting)

lemma lifts_act: "lifts tok (act_one_st T tok act pid prime iter) (act_one Y act pid prime iter)"
proof (cases act)
  case SET
  show ?thesis unfolding SET act_one_st.simps act_one.simps set_one_st_def set_one_def add_prime_def
    by (intro lifting lifts_fetch)
next
  case VER
  show ?thesis unfolding VER act_one_st.simps act_one.simps ver_one_st_def ver_one_def verify_def report_line_def
    by (intro lifting lifts_fetch lifts_exam)
next
  case KILL
  show ?thesis unfolding KILL act_one_st.simps act_one.simps kill_one_st_def kill_one_def
    by (intro lifting lifts_fetch)
qed

lemma lifts_filling_loop:
  "lifts tok (filling_loop_st T tok act pid prime root iter n ndx) (filling_loop Y act pid prime root iter n ndx)"
proof (induction n arbitrary: ndx)
  case 0
  show ?case unfolding filling_loop_st.simps filling_loop.simps by (rule lifting)
next
  case (Suc n)
  show ?case unfolding filling_loop_st.simps filling_loop.simps Let_def by (intro lifting lifts_act Suc.IH)
qed

lemma lifts_randfill: "lifts tok (m_randfill_st T tok act pid pno iter) (m_randfill Y act pid pno iter)"
  unfolding m_randfill_st_def m_randfill_def m_filling_randfill_st_def m_filling_randfill_def
  by (intro lifting lifts_filling_loop)

lemma lifts_call_tp:
  assumes "lifts tok f' f"
  shows "lifts tok (call_tp (at_token T tok) f') (call_tp Y f)"
  using liftsD [OF lifts_function [OF assms]]
  by (auto simp: lifts_def call_tp_def with_tok_def split: sum.splits)

lemma lifts_tpfn: "lifts tok (job_stress_tpfn_st T tpflag pid loop tok) (job_stress_tpfn Y tpflag pid loop)"
  unfolding job_stress_tpfn_st_def job_stress_tpfn_def Let_def same_codes by (intro lifting lifts_call_tp lifts_randfill)

lemma lifts_run_tpfn:
  assumes "\<And>tok. lifts tok (f' tok) f"
  shows "lifts YDB_NOTTP (run_tpfn_st T tpflag f') (run_tpfn Y tpflag f)"
proof -
  have "lifts YDB_NOTTP (ydb_tp_st T YDB_NOTTP (\<lambda>tptoken. as_function (f' tptoken))) (ydb_tp_s Y (as_function f))"
    "lifts YDB_NOTTP (call_ok (as_function (f' YDB_NOTTP))) (call_ok (as_function f))"
    by (intro lifting assms)+
  note runs = this [THEN liftsD]
  show ?thesis
    unfolding lifts_def run_tpfn_st_def run_tpfn_def runs same_codes
    by (auto simp: with_tok_def check_def split: sum.splits)
qed

lemma lifts_iteration: "lifts YDB_NOTTP (job_iteration_st T tpflag pid loop) (job_iteration Y tpflag pid loop)"
  unfolding job_iteration_st_def job_iteration_def Let_def by (intro lifting lifts_run_tpfn lifts_tpfn)

lemma lifts_job: "lifts YDB_NOTTP (m_job_stress_st T child pid) (m_job_stress Y child pid)"
proof -
  have incr: "lifts YDB_NOTTP (incr_any (at_token T YDB_NOTTP) g s) (incr_any Y g s)" for g s
    by (simp add: lifts_def incr_any_def split: prod.splits)
  show ?thesis unfolding m_job_stress_st_def m_job_stress_def Let_def by (intro lifting incr lifts_iteration)
qed

end

text \<open>
  A job of the threaded stress program does what the same job of the simple one does, result,
  faults and database, although the documentation promises something about a call only if its
  token is the one of the transaction it is made in: every call inside a transaction, on every
  path through filling, verification and deletion, passes on the token its function was given, and
  every call outside passes YDB_NOTTP.
\<close>

theorem threaded_job_same:
  assumes "ydb_threaded T Y"
  shows "m_job_stress_st T child pid (db, YDB_NOTTP) = with_tok YDB_NOTTP (m_job_stress Y child pid db)"
  using threaded_db.lifts_job [OF threaded_db.intro, OF assms] by (rule liftsD)

theorem threaded_job_same_witness:
  "m_job_stress_st (thread_ydb map_ydb) 7 ''4711'' (Map.empty, YDB_NOTTP) = with_tok YDB_NOTTP (m_job_stress map_ydb 7 ''4711'' Map.empty)"
  using threaded_job_same [of "thread_ydb map_ydb" map_ydb] by simp

end
