(* ===== verification/Tp2Threads.thy ===== *)
theory Tp2Threads
  imports YdbThreads Tp2Props
begin

text \<open>
  simplethreadapi/inref/tp2_complex_and_nested.c, the twin of the program of theory Tp2 for the
  threaded API. Its parent uses the simple API still, as a process may not fork after a threaded
  call; the children pass the token of the transaction they are in on to the nested one.
\<close>

definition gvnincr2_st :: "'db ydb_t \<Rightarrow> bool \<Rightarrow> string \<Rightarrow> int \<Rightarrow> ('db, unit) act" where
  "gvnincr2_st T use_callin v tptoken =
     (if \<not> use_callin then set_tp (at_token T tptoken) BASEVAR [] v
      else cip_tp (at_token T tptoken) ''gvnincr2callin'')"

definition nested_tp_st :: "'db ydb_t \<Rightarrow> int \<Rightarrow> (int \<Rightarrow> ('db, unit) act) \<Rightarrow> ('db, unit) act" where
  "nested_tp_st T tptoken f db =
     (case ydb_tp_st T tptoken (\<lambda>tptoken. as_function (f tptoken)) db of Inl e \<Rightarrow> Inl e
      | Inr (status, db') \<Rightarrow> asserted_tp (at_token T tptoken) status () db')"

definition next_value_st :: "'db ydb_t \<Rightarrow> int \<Rightarrow> int \<Rightarrow> ('db, string) act" where
  "next_value_st T tptoken i db =
     (let Y = at_token T tptoken; (status, v) = ydb_get_s Y db BASEVAR []
      in if status = YDB_TP_RESTART Y then stop status
         else if status \<noteq> YDB_ERR_GVUNDEF Y then
           andThen (asserted status ()) (\<lambda>_.
           andThen (nul_ended VALUEBUFF v) (\<lambda>v. ret (dec (int32 ((strtoul v + 1) mod 2 ^ 64)))))
         else ret (dec (int32 (i + 1)))) db"

definition gvnincr_st :: "'db ydb_t \<Rightarrow> bool \<Rightarrow> bool \<Rightarrow> bool \<Rightarrow> int \<Rightarrow> int \<Rightarrow> ('db, unit) act" where
  "gvnincr_st T use_ydb_incr_s_inside_tp use_ydb_set_s_inside_nested_tp use_callin i tptoken =
     (if use_ydb_incr_s_inside_tp then andThen (incr_tp (at_token T tptoken) BASEVAR [] None) (\<lambda>_. ret ())
      else
        andThen (next_value_st T tptoken i) (\<lambda>v.
          if \<not> use_ydb_set_s_inside_nested_tp then set_tp (at_token T tptoken) BASEVAR [] v
          else nested_tp_st T tptoken (gvnincr2_st T use_callin v)))"

definition do_tp_round_st :: "'db ydb_t \<Rightarrow> bool \<Rightarrow> bool \<Rightarrow> bool \<Rightarrow> bool \<Rightarrow> int \<Rightarrow> ('db, unit) act" where
  "do_tp_round_st T use_ydb_incr_s_outside_tp use_ydb_incr_s_inside_tp nested use_callin i =
     (if use_ydb_incr_s_outside_tp then andThen (incr_ok (at_token T YDB_NOTTP) BASEVAR [] None) (\<lambda>_. ret ())
      else call_ok (ydb_tp_st T YDB_NOTTP (\<lambda>tptoken.
        as_function (gvnincr_st T use_ydb_incr_s_inside_tp nested use_callin i tptoken))))"

fun children_st :: "'db ydb_t \<Rightarrow> (nat \<Rightarrow> bool) \<Rightarrow> (nat \<Rightarrow> bool) \<Rightarrow> (nat \<Rightarrow> nat) \<Rightarrow> turn list \<Rightarrow> ('db, unit) act" where
  "children_st T outside inside ended [] = ret ()"
| "children_st T outside inside ended ((c, nested, use_callin) # turns) =
     andThen (do_tp_round_st T (outside c) (inside c) nested use_callin (int (ended c))) (\<lambda>_.
       children_st T outside inside (ended(c := ended c + 1)) turns)"

context threaded_db
begin

lemma lifts_gvnincr2: "lifts tok (gvnincr2_st T use_callin v tok) (gvnincr2 Y use_callin v)"
  unfolding gvnincr2_st_def gvnincr2_def by (intro lifting)

lemma lifts_nested:
  assumes "\<And>tok. lifts tok (f' tok) f"
  shows "lifts tok (nested_tp_st T tok f') (nested_tp Y f)"
proof -
  have "lifts tok (ydb_tp_st T tok (\<lambda>tptoken. as_function (f' tptoken))) (ydb_tp_s Y (as_function f))"
    by (intro lifting assms)
  note run = liftsD [OF this]
  show ?thesis
    unfolding lifts_def nested_tp_st_def nested_tp_def run
    by (auto simp: with_tok_def asserted_tp_def split: sum.splits)
qed

lemma lifts_next_value: "lifts tok (next_value_st T tok i) (next_value Y i)"
proof -
  have "next_value_st T tok i (db, tok) = with_tok tok (next_value Y i db)" for db
  proof -
    obtain status v where got: "ydb_get_s Y db BASEVAR [] = (status, v)" by (cases "ydb_get_s Y db BASEVAR []")
    show ?thesis by (simp add: next_value_st_def next_value_def got asserted_def nul_ended_def)
  qed
  then show ?thesis by (simp add: lifts_def)
qed

lemma lifts_gvnincr:
  "lifts tok (gvnincr_st T inside nested use_callin i tok) (gvnincr Y inside nested use_callin i)"
  unfolding gvnincr_st_def gvnincr_def by (intro lifting lifts_next_value lifts_nested lifts_gvnincr2)

lemma lifts_children:
  "lifts YDB_NOTTP (children_st T outside inside ended turns) (children Y outside inside ended turns)"
proof (induction turns arbitrary: ended)
  case Nil
  show ?case unfolding children_st.simps children.simps by (rule lifting)
next
  case (Cons turn turns)
  obtain c nested use_callin where turn: "turn = (c, nested, use_callin)" by (cases turn)
  show ?case
    unfolding turn children_st.simps children.simps do_tp_round_st_def do_tp_round_def
    by (intro lifting lifts_gvnincr Cons.IH)
qed

end

text \<open>
  The children of the threaded program count what those of the simple one count: for all orders
  of their turns and all numbers they draw, every turn adds one to the counter and no assertion
  fails, although a call is promised to work only with the token of the transaction it is in. The
  nested transaction is started with the token of the outer one, and the calls in it use its own.
\<close>

theorem threaded_children_count:
  assumes "ydb_threaded T Y" "ydb_good Y" "callin_law Y"
    and "counter_is Y n db" "0 \<le> n" "n + int (length turns) < 2 ^ 31"
  shows "\<exists>db'. children_st T outside inside (\<lambda>_. 0) turns (db, YDB_NOTTP) = Inr (Go (), (db', YDB_NOTTP)) \<and>
    counter_is Y (n + int (length turns)) db'"
proof -
  obtain db' where "children Y outside inside (\<lambda>_. 0) turns db = Inr (Go (), db')" "counter_is Y (n + int (length turns)) db'"
    using tp2_db.children_run [OF tp2_dbI [OF assms(2,3)] assms(4-6), of "\<lambda>_. 0" outside inside] assms(5) by auto
  then show ?thesis
    using liftsD [OF threaded_db.lifts_children [OF threaded_db.intro, OF assms(1)]] by auto
qed

theorem threaded_children_count_witness:
  "\<exists>db'. children_st (thread_ydb counting_ydb) (\<lambda>c. c = 0) (\<lambda>c. c = 1) (\<lambda>_. 0)
      [(2, True, False), (0, False, False), (1, True, True), (2, True, True)] (Map.empty, YDB_NOTTP) = Inr (Go (), (db', YDB_NOTTP)) \<and>
    counter_is counting_ydb 4 db'"
proof -
  let ?turns = "[(2, True, False), (0, False, False), (1, True, True), (2, True, True)] :: turn list"
  have "counter_is counting_ydb 0 Map.empty" by (simp add: counter_is_def counting_ydb_def)
  from threaded_children_count [OF thread_ydb_threaded counting.good counting.calls_in this,
      where turns = ?turns and outside = "\<lambda>c. c = 0" and inside = "\<lambda>c. c = 1"]
  show ?thesis by (simp del: children_st.simps)
qed

end
