(* ===== verification/PseudoBankThreads.thy ===== *)
theory PseudoBankThreads
  imports YdbThreads PseudoBankProps
begin

text \<open>
  simplethreadapi/inref/pseudoBank.c: the bank of theory PseudoBank with threads in place of
  processes. The classes are the same at a token; the function of the transaction does not look at
  the status of the first four calls.
\<close>

section \<open>The classes with a token\<close>

definition Account_Load_st :: "'db ydb_t \<Rightarrow> int \<Rightarrow> int \<Rightarrow> 'db \<Rightarrow> c_fault + int \<times> Account option" where
  "Account_Load_st T tptoken cid db =
     (let Y = at_token T tptoken; (status, v) = ydb_get_s Y db ACC_GLOBAL [dec cid] in
      if status = YDB_TP_RESTART Y then Inr (status, None)
      else if status \<noteq> YDB_OK then Inl AssertFailed
      else bindE (parse_account cid v) (\<lambda>a. Inr (YDB_OK, Some a)))"

definition Account_Save_st :: "'db ydb_t \<Rightarrow> int \<Rightarrow> Account \<Rightarrow> 'db \<Rightarrow> c_fault + int \<times> 'db" where
  "Account_Save_st T tptoken a =
     set_checked (at_token T tptoken) ACC_GLOBAL [dec (a_cid a)] (dec (a_histSeq a) @ bar @ dec (a_bal a))"

definition Hist_Save_st :: "'db ydb_t \<Rightarrow> int \<Rightarrow> HistRecord \<Rightarrow> 'db \<Rightarrow> c_fault + int \<times> 'db" where
  "Hist_Save_st T tptoken h =
     set_checked (at_token T tptoken) HIST_GLOBAL [dec (hr_cid h), dec (hr_histSeq h)]
       (hr_comment h @ bar @ dec (hr_amt h) @ bar @ dec (hr_endBal h) @ bar @ dec (hr_user h))"

definition Trn_Save_st :: "'db ydb_t \<Rightarrow> int \<Rightarrow> int \<Rightarrow> TrnLog \<Rightarrow> 'db \<Rightarrow> c_fault + int \<times> 'db" where
  "Trn_Save_st T tptoken now t =
     set_checked (at_token T tptoken) TRN_GLOBAL [dec (tl_guid t), dec (tl_tSeq t)]
       (dec (tl_guid t) @ bar @ dec now @ bar @ dec (tl_cid t) @ bar @ dec (tl_amt t) @ bar @
        dec (tl_endBal t) @ bar @ dec (tl_user t))"

section \<open>The transaction\<close>

text \<open>
  An account that was not loaded is what the stack had there: \<open>junk\<close>, the first one for the
  account debited.
\<close>

definition postTransfer_st ::
    "'db ydb_t \<Rightarrow> Account \<times> Account \<Rightarrow> (nat \<Rightarrow> int) \<Rightarrow> tpArgs \<Rightarrow> int \<Rightarrow> 'db \<Rightarrow> c_fault + int \<times> 'db" where
  "postTransfer_st T junk now args tptoken db0 =
     bindE (Account_Load_st T tptoken (tp_from args) db0) (\<lambda>(_, from0).
     bindE (Account_Load_st T tptoken (tp_to args) db0) (\<lambda>(_, to0).
       let accountFrom = debit args (case from0 of None \<Rightarrow> fst junk | Some a \<Rightarrow> a);
           accountTo = credit args (case to0 of None \<Rightarrow> snd junk | Some a \<Rightarrow> a) in
       bindE (Account_Save_st T tptoken accountFrom db0) (\<lambda>(_, db1).
       bindE (Account_Save_st T tptoken accountTo db1) (\<lambda>(_, db2).
       next_step (at_token T tptoken) (Hist_Save_st T tptoken (hist_from args accountFrom) db2) (\<lambda>db3.
       next_step (at_token T tptoken) (Hist_Save_st T tptoken (hist_to args accountTo) db3) (\<lambda>db4.
       next_step (at_token T tptoken) (Trn_Save_st T tptoken (now 1) (trn_from (now 0) args accountFrom) db4) (\<lambda>db5.
       next_step (at_token T tptoken) (Trn_Save_st T tptoken (now 2) (trn_to (now 0) args accountFrom) db5) (\<lambda>db6.
         Inr (YDB_OK, db6)))))))))"

section \<open>The threads\<close>

fun init_loop_st :: "'db ydb_t \<Rightarrow> nat \<Rightarrow> int \<Rightarrow> 'db \<Rightarrow> c_fault + 'db" where
  "init_loop_st T 0 i db = Inr db"
| "init_loop_st T (Suc n) i db =
     (let Y = at_token T YDB_NOTTP; (s1, db1) = ydb_set_s Y db ACC_GLOBAL [dec (START_CID + i)] ''1|10000000'' in
      if s1 \<noteq> YDB_OK then Inl AssertFailed
      else
        let (s2, db2) = ydb_set_s Y db1 HIST_GLOBAL [dec (START_CID + i), ''1''] ''Account Create||10000000'' in
        if s2 \<noteq> YDB_OK then Inl AssertFailed
        else init_loop_st T n (i + 1) db2)"

definition initData_st :: "'db ydb_t \<Rightarrow> 'db \<Rightarrow> c_fault + 'db" where
  "initData_st T db = init_loop_st T (nat ACC_NEEDED) 0 db"

text \<open>A round of the loop of \<open>childThread\<close>, its \<open>i\<close>-th; \<open>user\<close> is set here.\<close>

definition childThread_st ::
    "'db ydb_t \<Rightarrow> Account \<times> Account \<Rightarrow> (nat \<Rightarrow> int) \<Rightarrow> int \<Rightarrow> int \<Rightarrow> int \<Rightarrow> int \<Rightarrow> int \<Rightarrow> 'db \<Rightarrow> c_fault + 'db" where
  "childThread_st T junk now guid i user rand1 rand2 db =
     bindE (ydb_tp_st T YDB_NOTTP (postTransfer_st T junk now (child_args guid i user rand1 rand2)) db) (\<lambda>(status, db').
     if status \<noteq> YDB_OK then Inl AssertFailed else Inr db')"

text \<open>
  The threads' transactions, in the order they commit: which thread, and what it has drawn; \<open>runs\<close>
  counts the rounds of each. They end when the timeout has set \<open>isTimeout\<close>.
\<close>

fun threads_run ::
    "'db ydb_t \<Rightarrow> Account \<times> Account \<Rightarrow> (nat \<Rightarrow> int) \<Rightarrow> int \<Rightarrow> (int \<Rightarrow> int) \<Rightarrow> (int \<times> int \<times> int) list \<Rightarrow> 'db \<Rightarrow> c_fault + 'db" where
  "threads_run T junk now user runs [] db = Inr db"
| "threads_run T junk now user runs ((guid, rand1, rand2) # turns) db =
     bindE (childThread_st T junk now guid (runs guid) user rand1 rand2 db)
       (threads_run T junk now user (runs(guid := runs guid + 1)) turns)"

section \<open>Alone with the database\<close>

context threaded_db
begin

lemma threaded_load: "Account_Load_st T tok cid (db, tok) = Account_Load Y cid db"
  by (simp add: Account_Load_st_def Account_Load_def)

lemma threaded_set:
  assumes "ydb_store Y" "ydb_calm Y"
  shows "set_checked (at_token T tok) g s v (db, tok) = Inr (YDB_OK, (put Y g s v db, tok))"
  using assms by (auto simp: set_checked_def bank_set ydb_store_def)

lemma threaded_step:
  assumes "ydb_store Y" "ydb_calm Y"
  shows "next_step (at_token T tok) (Inr (YDB_OK, d)) k = k d"
  using assms by (auto simp: next_step_def ydb_store_def)

lemma threaded_transfer:
  assumes Y: "ydb_store Y" "ydb_calm Y"
    and acc: "account_at Y db (tp_from args) = Some a" "account_at Y db (tp_to args) = Some b"
  shows "postTransfer_st T junk now args tok (db, tok) = with_tok tok (postTransfer Y now args db)"
proof -
  have load: "with_account Y (tp_from args) db k = k a" "with_account Y (tp_to args) db k = k b" for k
    using account_load [OF acc(1) Y(1)] account_load [OF acc(2) Y(1)] Y(1)
    by (auto simp: with_account_def ydb_store_def)
  show ?thesis
    by (simp add: postTransfer_st_def postTransfer_def threaded_load account_load [OF acc(1) Y(1)] account_load [OF acc(2) Y(1)]
        load Let_def Account_Save_st_def Hist_Save_st_def Trn_Save_st_def Account_Save_def Hist_Save_def Trn_Save_def
        threaded_step [OF Y] threaded_set [OF Y] bank_next [OF Y])
qed

lemma threaded_init:
  assumes "ydb_store Y" "ydb_calm Y"
  shows "init_loop_st T n i (db, YDB_NOTTP) = bindE (init_loop Y n i db) (\<lambda>db. Inr (db, YDB_NOTTP))"
  by (induction n arbitrary: i db) (simp_all add: bank_set [OF assms(2)] Let_def)

lemma threaded_turn:
  assumes Y: "ydb_store Y" "ydb_calm Y" and ok: "bank_ok Y k db" and k: "0 \<le> k" "k < 2000000000"
  shows "\<exists>db'. childThread_st T junk now g n u r1 r2 (db, YDB_NOTTP) = Inr (db', YDB_NOTTP) \<and> bank_ok Y (k + 1) db'"
proof -
  let ?args = "child_args g n u r1 r2"
  obtain a b where acc: "account_at Y db (tp_from ?args) = Some a" "account_at Y db (tp_to ?args) = Some b"
    using ok child_ids(1,2) [of g n u r1 r2] unfolding bank_ok_def by blast
  obtain db' where db': "postTransfer Y now ?args db = Inr (YDB_OK, db')"
    using transfer_accounts [OF Y acc child_ids(3), of now] by blast
  then have "childThread Y now g n u r1 r2 db = Inr (n + 1, db')"
    using ydb_tp_commit [of Y "postTransfer Y now ?args", OF Y(1) db'] by (simp add: childThread_def)
  then have bank: "bank_ok Y (k + 1) db'" using child_keeps_bank [OF Y ok k, of now g n u r1 r2] by auto
  obtain tok where run: "ydb_tp_st T YDB_NOTTP (postTransfer_st T junk now ?args) (db, YDB_NOTTP) =
      with_tok YDB_NOTTP (ydb_tp_s Y (\<lambda>db. no_tok (postTransfer_st T junk now ?args tok (db, tok))) db)"
    using threaded unfolding ydb_threaded_def by metis
  have "ydb_tp_s Y (\<lambda>db. no_tok (postTransfer_st T junk now ?args tok (db, tok))) db = Inr (YDB_OK, db')"
    using threaded_transfer [OF Y acc] db' by (intro ydb_tp_commit [OF Y(1)]) simp
  then show ?thesis using bank by (simp add: childThread_st_def run)
qed

lemma threads_keep_bank:
  assumes "ydb_store Y" "ydb_calm Y" "bank_ok Y k db" "0 \<le> k" "k + int (length turns) \<le> 2000000000"
  shows "\<exists>db'. threads_run T junk now user runs turns (db, YDB_NOTTP) = Inr (db', YDB_NOTTP) \<and> bank_ok Y (k + int (length turns)) db'"
  using assms(3-)
proof (induction turns arbitrary: k db runs)
  case (Cons turn turns)
  obtain g r1 r2 where turn: "turn = (g, r1, r2)" by (cases turn) auto
  have "k < 2000000000" using Cons.prems(3) by simp
  then obtain db1 where d: "childThread_st T junk now g (runs g) user r1 r2 (db, YDB_NOTTP) = Inr (db1, YDB_NOTTP)" "bank_ok Y (k + 1) db1"
    using threaded_turn [OF assms(1,2) Cons.prems(1,2)] by blast
  obtain db' where "threads_run T junk now user (runs(g := runs g + 1)) turns (db1, YDB_NOTTP) = Inr (db', YDB_NOTTP)"
    "bank_ok Y (k + 1 + int (length turns)) db'"
    using Cons.IH [OF d(2), of "runs(g := runs g + 1)"] Cons.prems(2,3) by (auto simp: fun_upd_def)
  with d(1) show ?case by (auto simp: turn add_ac)
qed simp

lemma restart_lost:
  assumes Y: "ydb_store Y" "ydb_calm Y"
    and stop: "fst (ydb_get_s Y db ACC_GLOBAL [dec (tp_from args)]) = YDB_TP_RESTART Y"
    and acc: "account_at Y db (tp_to args) = Some b" and ne: "a_cid (fst junk) \<noteq> tp_to args"
  shows "\<exists>db'. postTransfer_st T junk now args tok (db, tok) = Inr (YDB_OK, (db', tok)) \<and>
    account_at Y db' (a_cid (fst junk)) = Some (debit args (fst junk))"
proof -
  have load: "Account_Load Y (tp_from args) db = Inr (YDB_TP_RESTART Y, None)"
    using stop by (cases "ydb_get_s Y db ACC_GLOBAL [dec (tp_from args)]") (simp add: Account_Load_def)
  have g: "ACC_GLOBAL \<noteq> HIST_GLOBAL" "ACC_GLOBAL \<noteq> TRN_GLOBAL" by (simp_all add: ACC_GLOBAL_def HIST_GLOBAL_def TRN_GLOBAL_def)
  have "\<exists>db'. postTransfer_st T junk now args tok (db, tok) = Inr (YDB_OK, (db', tok)) \<and>
      ydb_get_s Y db' ACC_GLOBAL [dec (a_cid (fst junk))] = (YDB_OK, acc_value (debit args (fst junk)))"
    using ne account_cid [OF acc]
    by (simp add: postTransfer_st_def threaded_load load account_load [OF acc Y(1)] Let_def Account_Save_st_def Hist_Save_st_def
        Trn_Save_st_def threaded_step [OF Y] threaded_set [OF Y] bank_get [OF Y] g g [symmetric] acc_value_def)
  then show ?thesis by (auto intro!: account_of_value)
qed

end

text \<open>
  The threads' bank keeps its total as well: after the threads' initialisation, any sequence of
  up to two thousand million transfers of any threads in any order succeeds and leaves all accounts
  with the total that was deposited, although no status of a load or a save of an account is looked
  at; what was on the stack does not matter.
\<close>

theorem threads_keep_total:
  assumes "ydb_threaded T Y" "ydb_store Y" "ydb_calm Y" "int (length turns) \<le> 2000000000"
  shows "\<exists>db1 db2. initData_st T (db, YDB_NOTTP) = Inr (db1, YDB_NOTTP) \<and>
    threads_run T junk now user (\<lambda>_. 0) turns (db1, YDB_NOTTP) = Inr (db2, YDB_NOTTP) \<and>
    (\<forall>c \<in> cids. account_at Y db2 c \<noteq> None) \<and> (\<Sum>c \<in> cids. balance Y db2 c) = 1000 * 10000000"
proof -
  note T = threaded_db.intro [OF assms(1)]
  obtain db1 where db1: "initData Y db = Inr db1" "bank_ok Y 0 db1"
    using init_bank_ok [OF assms(2,3)] by blast
  then have "initData_st T (db, YDB_NOTTP) = Inr (db1, YDB_NOTTP)"
    using threaded_db.threaded_init [OF T assms(2,3)] by (simp add: initData_st_def initData_def)
  moreover obtain db2 where "threads_run T junk now user (\<lambda>_. 0) turns (db1, YDB_NOTTP) = Inr (db2, YDB_NOTTP)"
    "bank_ok Y (int (length turns)) db2"
    using threaded_db.threads_keep_bank [OF T assms(2,3) db1(2), of turns junk now user "\<lambda>_. 0"] assms(4) by auto
  ultimately show ?thesis by (auto simp: bank_ok_def ACC_NEEDED_def)
qed

theorem threads_keep_total_witness:
  "\<exists>db1 db2. initData_st (thread_ydb map_ydb) (Map.empty, YDB_NOTTP) = Inr (db1, YDB_NOTTP) \<and>
    threads_run (thread_ydb map_ydb) junk (\<lambda>_. 0) 7 (\<lambda>_. 0) [(0, 5, 5), (1, 999, 3), (0, 8, 9)] (db1, YDB_NOTTP) = Inr (db2, YDB_NOTTP) \<and>
    (\<Sum>c \<in> cids. balance map_ydb db2 c) = 1000 * 10000000"
  using threads_keep_total [of "thread_ydb map_ydb" map_ydb "[(0, 5, 5), (1, 999, 3), (0, 8, 9)]"] by (simp del: threads_run.simps) blast

text \<open>
  But a load that asks for a restart is not passed on. Where the function of the simple program
  returns YDB_TP_RESTART and leaves the database as it is, that of the threaded one goes on with the
  account it finds on the stack, saves it, and returns YDB_OK.
\<close>

theorem restart_not_passed_on:
  assumes "ydb_threaded T Y" "ydb_store Y" "ydb_calm Y"
    and "fst (ydb_get_s Y db ACC_GLOBAL [dec (tp_from args)]) = YDB_TP_RESTART Y"
    and "account_at Y db (tp_to args) = Some b" "a_cid (fst junk) \<noteq> tp_to args"
  shows "postTransfer Y now args db = Inr (YDB_TP_RESTART Y, db) \<and>
    (\<exists>db'. postTransfer_st T junk now args tok (db, tok) = Inr (YDB_OK, (db', tok)) \<and>
      account_at Y db' (a_cid (fst junk)) = Some (debit args (fst junk)))"
proof -
  have "Account_Load Y (tp_from args) db = Inr (YDB_TP_RESTART Y, None)"
    using assms(4) by (cases "ydb_get_s Y db ACC_GLOBAL [dec (tp_from args)]") (simp add: Account_Load_def)
  then have "postTransfer Y now args db = Inr (YDB_TP_RESTART Y, db)" by (simp add: postTransfer_def with_account_def)
  then show ?thesis using threaded_db.restart_lost [OF threaded_db.intro, OF assms] by simp
qed

text \<open>A database some of whose nodes ask for a restart when they are read before they are set.\<close>

type_synonym busy = "(string \<times> string list \<Rightarrow> string option) \<times> (string \<times> string list) set"

definition busy_ydb :: "busy ydb" where
  "busy_ydb =
     \<lparr>ydb_get_s = (\<lambda>(db, nodes) g s. if (g, s) \<in> nodes then (YDB_TP_RESTART map_ydb, []) else ydb_get_s map_ydb db g s),
      ydb_set_s = (\<lambda>(db, nodes) g s v. (0, (db((g, s) := Some v), nodes - {(g, s)}))),
      ydb_data_s = (\<lambda>(db, nodes). ydb_data_s map_ydb db),
      ydb_incr_s = (\<lambda>(db, nodes) g s inc. apsnd (apsnd (\<lambda>db. (db, nodes))) (ydb_incr_s map_ydb db g s inc)),
      ydb_delete_s = (\<lambda>(db, nodes) g s. apsnd (\<lambda>db. (db, nodes)) (ydb_delete_s map_ydb db g s)),
      ydb_subscript_next_s = (\<lambda>(db, nodes). ydb_subscript_next_s map_ydb db),
      ydb_subscript_previous_s = (\<lambda>(db, nodes). ydb_subscript_previous_s map_ydb db),
      ydb_tp_s = (\<lambda>f. f), ydb_cip = (\<lambda>db name. (0, db)),
      ydb_lock_incr_s = (\<lambda>db g s. (0, db)), ydb_lock_decr_s = (\<lambda>db g s. (0, db)),
      YDB_TP_RESTART = YDB_TP_RESTART map_ydb, YDB_TP_ROLLBACK = YDB_TP_ROLLBACK map_ydb,
      YDB_ERR_GVUNDEF = YDB_ERR_GVUNDEF map_ydb, YDB_ERR_LVUNDEF = YDB_ERR_LVUNDEF map_ydb,
      YDB_ERR_NODEEND = YDB_ERR_NODEEND map_ydb, YDB_ERR_JNLEXTEND = YDB_ERR_JNLEXTEND map_ydb,
      YDB_ERR_JNLSWITCHFAIL = YDB_ERR_JNLSWITCHFAIL map_ydb\<rparr>"

lemma busy_ydb_store: "ydb_store busy_ydb" "ydb_calm busy_ydb"
  by (auto simp: ydb_store_def ydb_calm_def busy_ydb_def map_ydb_def YDB_OK_def)

theorem restart_not_passed_on_witness:
  "let args = \<lparr>tp_ref = 1, tp_from = 100001, tp_to = 100002, tp_amt = 1, tp_user = 0\<rparr>;
       db = (\<lambda>_. Some (dec 1 @ bar @ dec 10), {(ACC_GLOBAL, [dec 100001])});
       junk = \<lparr>a_cid = 0, a_bal = 41, a_histSeq = 6\<rparr>
   in postTransfer busy_ydb (\<lambda>_. 0) args db = Inr (YDB_TP_RESTART busy_ydb, db) \<and>
     (\<exists>db'. postTransfer_st (thread_ydb busy_ydb) (junk, junk) (\<lambda>_. 0) args 1 (db, 1) = Inr (YDB_OK, (db', 1)) \<and>
       account_at busy_ydb db' 0 = Some \<lparr>a_cid = 0, a_bal = 40, a_histSeq = 7\<rparr>)"
proof -
  let ?args = "\<lparr>tp_ref = 1, tp_from = 100001, tp_to = 100002, tp_amt = 1, tp_user = 0\<rparr>"
  let ?db = "(\<lambda>_. Some (dec 1 @ bar @ dec 10), {(ACC_GLOBAL, [dec 100001])})"
  let ?junk = "\<lparr>a_cid = 0, a_bal = 41, a_histSeq = 6\<rparr>"
  have "dec 100002 \<noteq> dec 100001" by simp
  then have "account_at busy_ydb ?db 100002 = account_at map_ydb (\<lambda>_. Some (dec 1 @ bar @ dec 10)) 100002"
    by (simp add: account_at_def busy_ydb_def)
  then have acc: "account_at busy_ydb ?db (tp_to ?args) = Some \<lparr>a_cid = 100002, a_bal = 10, a_histSeq = 1\<rparr>"
    using full_account [of 100002] by simp
  have stop: "fst (ydb_get_s busy_ydb ?db ACC_GLOBAL [dec (tp_from ?args)]) = YDB_TP_RESTART busy_ydb" by (simp add: busy_ydb_def)
  have "debit ?args ?junk = \<lparr>a_cid = 0, a_bal = 40, a_histSeq = 7\<rparr>" by (simp add: debit_def int32_id is_int32_def)
  then show ?thesis
    using restart_not_passed_on [OF thread_ydb_threaded busy_ydb_store stop acc, of "(?junk, ?junk)" "\<lambda>_. 0" 1] by simp
qed

end
