(* ===== verification/Spec2Isabelle.thy ===== *)
theory Spec2Isabelle
  imports CollationTables CollationComplex CollationUnicode EnvXlateProps EnvStubs AuditListenerProps PseudoBankProps
    ThreeN1Props ThreeN1RoundProps ImptpProps RunConcurrProps WordFreqProps CorruptJnl RandomWalkProps
    MurmurProps CrcTable ZwriteProps StressTestProps Tp2Props
    RunConcurrThreads Tp2Threads PseudoBankThreads
begin

text \<open>
  A model of the C programs of the YottaDB test system, with the theorems that make them
  correct. The repository is a collection of tests; most of its files are scripts and M
  routines. What it has of its own logic in C falls into five groups, and so does the model.

  \<^bold>\<open>Modules YottaDB loads.\<close> The alternative collation modules turn subscripts into keys and
  back: Collation and CollationTables (com/col_polish.c, com/col_polish_rev.c,
  com/col_straight.c, com/col_reverse.c, com/polish.c, merge/u_inref/polish.c,
  merge/u_inref/polish_rev.c), CollationComplex (com/col_complex.c) and CollationUnicode
  (com/col_unicode_numeric.c, com/col_chinese.c). The environment translation routines name a
  global directory for a directory and a host: EnvXlate has the service
  (env_xlate/inref/gtm_env_xlate_sq.c), SearchTree its trees and EnvStubs the stubs beside it
  (gtm_env_xlate.c, ydb_env_xlate.c, ydb_gbldir_xlate.c, gtm_env_oops.c).

  \<^bold>\<open>A service beside YottaDB.\<close> AuditListener is com/audit_listener.c, which writes the audit
  messages it receives on a socket to a log file.

  \<^bold>\<open>Programs on the simple API.\<close> YdbApi is the API as a record of functions on a database
  and YdbProg the sequencing and the checked calls the programs are written with. PseudoBank
  is simpleapi/inref/pseudoBank.c (\<open>postTransfer\<close>, \<open>initData\<close>, \<open>childThread\<close>); ThreeN1 is
  v62002/inref/simpleapi_threeen1f.c (\<open>inttostr\<close>, \<open>strtoint\<close>, \<open>dostep\<close>, the blocks of
  \<open>main\<close> and \<open>doblk\<close>) and ThreeN1Round its round, in which parent and children start and stop one
  another by locks; Imptp is com/simpleapi_imptp.c (\<open>imptp_main\<close>, \<open>impjob\<close>,
  \<open>tpfn_stage1\<close>, \<open>tpfn_stage3\<close>); RunConcurr is stress/inref/simpleapi_run_concurr.c
  (\<open>run_concurr_main\<close>, \<open>m_job_stress\<close>, \<open>job_stress_tpfn\<close>, \<open>m_filling_randfill\<close>); WordFreq is
  simpleapi/inref/wordfreq.c (\<open>wordfreq_main\<close>, with YdbOrder for the order of the subscripts);
  RandomWalk is simpleapi/inref/randomWalk.c (\<open>runProc\<close>, \<open>tpHelper\<close>, \<open>runProc_driver\<close>, \<open>walk_main\<close>),
  whose world has the log, the clock and the random numbers beside the database; Zwrite is
  simpleapi/inref/glvnZWRITE.c, which lists variables (\<open>glvnZWRITE\<close>), StressTest is
  simpleapi/inref/stresstest.c, which does a stream of operations it reads (\<open>stresstest_main\<close>), and
  Tp2 is simpleapi/inref/tp2_complex_and_nested.c, whose children increment a counter in nested
  transactions (\<open>tp2_main\<close>).

  \<^bold>\<open>Programs on the threaded API.\<close> YdbThreads is that API, with the relation \<open>lifts\<close> between a
  program with tokens and one without. RunConcurrThreads, Tp2Threads and PseudoBankThreads have
  the jobs of stress/inref/simplethreadapi_run_concurr.c, the children of
  simplethreadapi/inref/tp2_complex_and_nested.c and simplethreadapi/inref/pseudoBank.c.

  \<^bold>\<open>Tools.\<close> CorruptJnl is com/corrupt_jnlrec.c, which overwrites a random piece of a journal
  file (\<open>corrupt_file\<close>). CFloat has the floating point that it and the random walk compute with.
  Murmur is v62002/inref/gtm8087xcalls2.c, a hash that can be computed piece by piece, and CrcTable
  is v55000/inref/comp_tab.c, which generates the tables of a checksum.

  \<^bold>\<open>How the code is translated.\<close> Prelude and CLib have what all parts share. A C function is a
  HOL function of its arguments and of the state it changes (a record per component, or the
  database). A computation that can go wrong returns a sum: \<open>Inl\<close> a \<open>c_fault\<close> (an access out
  of bounds, a failed assertion, a division by zero), \<open>Inr\<close> the result. \<open>int\<close> and \<open>unsigned\<close> are
  HOL integers with the wrap-around written out (\<open>int32\<close>), division and remainder are C's
  (\<open>c_mod\<close>), strings are lists of bytes without their NUL, and buffers are lists whose length is
  their size. Loops are recursive functions. The search for a free log name need not end and
  is a partial function (\<open>suffix_loop\<close>), for which the return is a theorem of its own, as are the
  loops that read the stress test's input (\<open>fullread\<close>, \<open>records_loop\<close>), which do not end when it is
  cut off; other loops that wait or walk have fuel (\<open>path_loop\<close>, \<open>wait_children\<close>,
  \<open>wait_first_update\<close>, \<open>zwrite_subtree\<close>, and \<open>node_walk\<close>, \<open>subs_walk\<close>, \<open>until_timeout\<close>, where using it up is the fault
  \<open>Unfinished\<close>), and the theorems about their results state which amount is enough or hold for every
  amount: a walk of the random walk program needs more than there are paths through the database,
  a listing 32 times the number of nodes and two more. Where processes interleave, a step relation
  (\<open>doblk_step\<close>, and \<open>parent_step\<close> and \<open>child_step\<close> for a round with its locks) or the list of the
  transactions in the order they commit is the model.

  \<^bold>\<open>Parameters.\<close> What is not in the repository is an argument of the definitions and its
  documented behaviour a named hypothesis: the operating system and the network database of
  the translation service, sockets, OpenSSL and the clock of the listener, iconv, and YottaDB
  itself. \<open>ydb_good\<close> says what a process that has its database to itself may rely on: a value
  set is the value got, increments add, a deleted subtree is gone, locks are granted and a
  transaction is committed or rolled back as its function asks. \<open>map_ydb\<close> is a database for which
  all of it holds, and the witnesses run on it; the M routines \<open>com/simpleapi_imptp.c\<close> and the
  nested transactions call are laws on top (\<open>imptp_laws\<close>, \<open>callin_law\<close>), and \<open>ydb_threaded\<close> says
  that a call of the threaded API with the token of its transaction is that of the simple API.

  \<^bold>\<open>Interfaces.\<close> The locales state them: what a collation module promises (theory
  Collation, interpreted for the modules whose two transformations undo one another), a comparison a search tree can be built on
  (SearchTree, for the host and the directory order), a database a program has to itself
  (\<open>calm_db\<close>), one whose subscripts are also ordered (\<open>ordered_db\<close>, in YdbOrder), one with the
  M routines (ImptpRun), one with locks (\<open>locked_db\<close>), one whose nodes can be walked
  (\<open>zwrite_db\<close>), one that deletes a node without what is below it (\<open>kill_db\<close>), one with nested transactions (\<open>tp2_db\<close>) and
  one with tokens (\<open>threaded_db\<close>).

  \<^bold>\<open>What the theorems show.\<close>
  \<^item> Collation: a subscript survives the way to a key and back, distinct subscripts have
    distinct keys, which order the keys have, and where a key is written out of bounds.
  \<^item> Translation: the tables are well formed after any calls, a record read at the first call is
    answered at every later one unless it is a dummy's, two records that contradict one another
    are refused, and a failed start is final.
  \<^item> Listener: where no switch of the log is due, a message of up to 2047 bytes is logged as one
    line it can be recovered from; a log switch overwrites nothing and ends, but loses the message
    that is waiting; the TCP variants let a message forge an entry.
  \<^item> Bank: any sequence of transfers keeps the total; a transfer moves its amount and nothing
    else; log numbers are unique.
  \<^item> 3n+1: the blocks partition the range and no two processes work on one, the table of
    steps and the maximum are right, numbers survive being spelled as words; the parent reports a
    round when all children have worked, and none works before all have been counted. A
    child's failed assertions are no steps of the round: none fails on the databases of the theorem.
  \<^item> Fill program: a job reads the settings its parent wrote, no index is used twice because
    5 is a primitive root modulo 50000017, a round leaves the fifteen nodes it is to leave, and a
    transaction commits without some of its sets when they fail.
  \<^item> Stress program: jobs that commit leave every value of every iteration right, jobs that
    roll back leave nothing, and a verification without errors has seen right values only.
  \<^item> Word frequencies: one row is printed for each word of a text that has a word beginning with
    a letter, by falling counts and then in the database's order; a text whose words are all small
    numbers prints nothing.
  \<^item> Random walk: which walks end the transaction they run in, and that the rate of nesting is
    that of transactions from the first transaction whose function ran a round.
  \<^item> Listing: both ways of traversal list the same nodes in the same order. Stream of
    operations: the program does what the stream says and lists what that leaves; a stream that
    is cut off leaves it waiting for ever.
  \<^item> Nested transactions: every increment is counted, in whatever order the children take turns.
  \<^item> Threads: a job passes the right token to every call and so does what the simple program's
    does; the threads' bank keeps its total, though it passes on no restart of a load.
  \<^item> Hash: the pieces of a key hash to what the whole does, and the hashes of one and four words
    are parts of it. Checksum: the four tables do four bytes at once; the comparison with the
    built-in table looks at its first row only.
  \<^item> Journal corruption: the piece overwritten lies between the last epoch and the end of the
    file, if their distance is a multiple of four; if not it can lie behind the end.

  \<^bold>\<open>Not modelled.\<close> Printing, redirection of output, debug code under ifdef and the VMS
  variants; fork and waitpid beyond the order they impose; restarts of transactions, except where
  a function's answer to one is stated. The other threaded twins (simplethreadapi_imptp.c and its
  like) repeat the modelled code with a token passed on. The tests of single API functions under
  simpleapi/inref and simplethreadapi/inref, the call-in and external call samples and the other
  external calls are straight-line calls into YottaDB that print what it answers; their logic is
  in YottaDB, not here.
\<close>

end
